(* ===== verification/Prelude.thy ===== *)
theory Prelude
  imports Complex_Main "HOL-Library.Word" "HOL-Library.AList"
begin

text \<open>
  Shared vocabulary of the development: the machine integers of the Go sources as words, the
  error values of the packages, big-endian access to byte slices, the slice operations of the
  language (\<open>xs[a:b]\<close>, \<open>copy\<close>), instants and durations, and the generic lemmas on them that
  the component theories use. \<open>[]byte\<close> is a list of bytes; where the code tells a nil slice
  from an empty one the component uses \<open>byte list option\<close>.
\<close>

unbundle bit_operations_syntax

named_theorems byte_simps \<open>rewrite rules that join and split big-endian fields\<close>
named_theorems inv_intros \<open>one lemma per operation: it keeps the invariant of its component\<close>

section \<open>Machine integers and errors\<close>

type_synonym u8 = "8 word"
type_synonym u16 = "16 word"
type_synonym u32 = "32 word"
type_synonym u64 = "64 word"
type_synonym bytes = "8 word list"

text \<open>A Go \<open>string\<close> is a sequence of bytes; \<open>ascii\<close> turns a literal into one.\<close>

type_synonym gostring = bytes

definition ascii :: "string \<Rightarrow> gostring" where
  "ascii s = map (\<lambda>c. of_nat (of_char c)) s"

datatype go_error =
    ErrVpnPacketTooShort
  | ErrInvalidPacketType
  | ErrInvalidHeaderCheck
  | ErrInvalidEncodedData
  | ErrCodecUnavailable
  | ErrInvalidCompressedPayload
  | ErrSessionAcceptTooShort
  | ErrSessionPolicyTooShort
  | ErrInvalidLowerBase36
  | ErrInvalidCodecMethod
  | ErrInvalidCiphertext
  | ErrUnexpectedEOF
  | ErrShortBuffer
  | ErrDecompressedTooLarge
  | ErrDnsPacketTooShort
  | ErrInvalidName
  | ErrInvalidQuestion
  | ErrInvalidAnswer
  | ErrNotDNSRequest
  | ErrTXTAnswerMissing
  | ErrTXTAnswerMalformed
  | ErrTXTAnswerTooLarge
  | ErrTargetTooShort
  | ErrUnsupportedAddressType
  | ErrInvalidDomainLength
  | ErrUDPDatagramTooShort
  | ErrUDPFragmented
  | ErrLibrary string

type_synonym 'a result = "go_error + 'a"

section \<open>Big-endian fields\<close>

text \<open>\<open>binary.BigEndian.Uint16\<close> / \<open>PutUint16\<close> and \<open>Uint32\<close> / \<open>PutUint32\<close>.\<close>

definition be16 :: "u8 \<Rightarrow> u8 \<Rightarrow> u16" where
  "be16 h l = push_bit 8 (ucast h) OR ucast l"

definition hi8 :: "u16 \<Rightarrow> u8" where
  "hi8 w = ucast (drop_bit 8 w)"

definition lo8 :: "u16 \<Rightarrow> u8" where
  "lo8 w = ucast w"

definition put16 :: "u16 \<Rightarrow> bytes" where
  "put16 w = [hi8 w, lo8 w]"

definition get16 :: "bytes \<Rightarrow> nat \<Rightarrow> u16" where
  "get16 xs i = be16 (xs ! i) (xs ! (i + 1))"

definition be32 :: "u8 \<Rightarrow> u8 \<Rightarrow> u8 \<Rightarrow> u8 \<Rightarrow> u32" where
  "be32 a b c d = push_bit 24 (ucast a) OR push_bit 16 (ucast b) OR push_bit 8 (ucast c) OR ucast d"

definition put32 :: "u32 \<Rightarrow> bytes" where
  "put32 w = [ucast (drop_bit 24 w), ucast (drop_bit 16 w), ucast (drop_bit 8 w), ucast w]"

definition get32 :: "bytes \<Rightarrow> nat \<Rightarrow> u32" where
  "get32 xs i = be32 (xs ! i) (xs ! (i + 1)) (xs ! (i + 2)) (xs ! (i + 3))"

lemma be16_hi_lo [simp, byte_simps]: "be16 (hi8 w) (lo8 w) = w"
  unfolding be16_def hi8_def lo8_def
  by (rule bit_word_eqI) (auto simp: bit_simps)

lemma hi8_be16 [simp, byte_simps]: "hi8 (be16 h l) = h"
  unfolding be16_def hi8_def
  by (rule bit_word_eqI) (auto simp: bit_simps dest: bit_imp_le_length)

lemma lo8_be16 [simp, byte_simps]: "lo8 (be16 h l) = l"
  unfolding be16_def lo8_def
  by (rule bit_word_eqI) (auto simp: bit_simps)

lemma length_put16 [simp]: "length (put16 w) = 2"
  by (simp add: put16_def)

lemma length_put32 [simp]: "length (put32 w) = 4"
  by (simp add: put32_def)

lemma get16_put16 [simp, byte_simps]: "get16 (xs @ put16 w @ ys) (length xs) = w"
  by (simp add: get16_def put16_def nth_append)

lemma put16_inject [simp]: "put16 v = put16 w \<longleftrightarrow> v = w"
proof
  assume "put16 v = put16 w"
  then have "hi8 v = hi8 w" "lo8 v = lo8 w"
    by (simp_all add: put16_def)
  then show "v = w"
    by (metis be16_hi_lo)
qed simp

lemma be32_put32 [byte_simps]:
  "be32 (ucast (drop_bit 24 w)) (ucast (drop_bit 16 w)) (ucast (drop_bit 8 w)) (ucast w) = w"
proof (rule bit_word_eqI)
  fix n assume "n < LENGTH(32)"
  then consider "n < 8" | "8 \<le> n" "n < 16" | "16 \<le> n" "n < 24" | "24 \<le> n" "n < 32"
    by fastforce
  then show "bit (be32 (ucast (drop_bit 24 w)) (ucast (drop_bit 16 w)) (ucast (drop_bit 8 w))
      (ucast w)) n = bit w n"
    unfolding be32_def by cases (auto simp: bit_simps)
qed

lemma get32_put32 [simp, byte_simps]: "get32 (xs @ put32 w @ ys) (length xs) = w"
  by (simp add: get32_def put32_def nth_append be32_put32)

section \<open>Words as natural numbers\<close>

lemma unat_push_bit: "unat (push_bit n w) = (unat w * 2 ^ n) mod 2 ^ LENGTH('a)"
  for w :: "'a::len word"
  unfolding unsigned_push_bit_eq by (simp only: push_bit_eq_mult take_bit_eq_mod)

lemma unat_drop_bit: "unat (drop_bit n w) = unat w div 2 ^ n"
  for w :: "'a::len word"
  unfolding unat_drop_bit_eq by (simp only: drop_bit_eq_div)

lemma unat_ucast: "unat (ucast w :: 'b::len word) = unat w mod 2 ^ LENGTH('b)"
  for w :: "'a::len word"
  unfolding unsigned_ucast_eq by (simp only: take_bit_eq_mod)

lemma unat_word_of_nat: "unat (of_nat n :: 'a::len word) = n mod 2 ^ LENGTH('a)"
  by (simp only: unsigned_of_nat take_bit_eq_mod of_nat_id)

section \<open>Codes\<close>

definition bind_result :: "'a result \<Rightarrow> ('a \<Rightarrow> 'b result) \<Rightarrow> 'b result" where
  "bind_result r f = (case r of Inl err \<Rightarrow> Inl err | Inr x \<Rightarrow> f x)"

lemma bind_result_simps [simp]:
  "bind_result (Inl err) f = Inl err"
  "bind_result (Inr x) f = f x"
  by (simp_all add: bind_result_def)

lemma bind_result_eq_Inr: "bind_result r f = Inr y \<longleftrightarrow> (\<exists>x. r = Inr x \<and> f x = Inr y)"
  by (cases r) auto

text \<open>
  The contract of every encoder of the program: the decoder accepts what the encoder produced
  and gives back the part of the input that is on the wire (\<open>view\<close>). Two codes compose when the
  outer one decodes to exactly what the inner one produced.
\<close>

locale code =
  fixes enc :: "'a \<Rightarrow> 'b result" and dec :: "'b \<Rightarrow> 'c result" and view :: "'a \<Rightarrow> 'c"
  assumes dec_enc: "enc x = Inr y \<Longrightarrow> dec y = Inr (view x)"
begin

lemma enc_separates: "enc x = Inr y \<Longrightarrow> enc x' = Inr y \<Longrightarrow> view x = view x'"
  by (metis dec_enc sum.inject(2))

end

locale code_pair =
  inner: code enc1 dec1 view1 + outer: code enc2 dec2 "\<lambda>y. y"
  for enc1 :: "'a \<Rightarrow> 'b result" and dec1 :: "'b \<Rightarrow> 'c result" and view1 :: "'a \<Rightarrow> 'c"
    and enc2 :: "'b \<Rightarrow> 'd result" and dec2 :: "'d \<Rightarrow> 'b result"
begin

lemma compose: "code (\<lambda>x. bind_result (enc1 x) enc2) (\<lambda>z. bind_result (dec2 z) dec1) view1"
  by unfold_locales (auto simp: bind_result_eq_Inr outer.dec_enc inner.dec_enc)

end

section \<open>Slices\<close>

definition slice :: "'a list \<Rightarrow> nat \<Rightarrow> nat \<Rightarrow> 'a list" where
  "slice xs a b = take (b - a) (drop a xs)"

text \<open>\<open>copy(buf[off:], xs)\<close>: as many elements as fit are overwritten.\<close>

definition copy_at :: "'a list \<Rightarrow> nat \<Rightarrow> 'a list \<Rightarrow> 'a list" where
  "copy_at buf off xs =
     take off buf @ take (length buf - off) xs @ drop (off + length xs) buf"

lemma length_slice [simp]: "b \<le> length xs \<Longrightarrow> length (slice xs a b) = b - a"
  by (simp add: slice_def)

lemma slice_append_mid: "slice (xs @ ys @ zs) (length xs) (length xs + length ys) = ys"
  by (simp add: slice_def)

lemma length_copy_at [simp]: "off \<le> length buf \<Longrightarrow> length (copy_at buf off xs) = length buf"
  by (simp add: copy_at_def)

lemma copy_at_append:
  "length ys = length xs \<Longrightarrow> copy_at (pre @ ys @ post) (length pre) xs = pre @ xs @ post"
  by (simp add: copy_at_def)

section \<open>Instants and durations\<close>

text \<open>
  A \<open>time.Time\<close> is the number of nanoseconds since Go's zero time, so \<open>IsZero\<close> is
  \<open>= 0\<close>; a \<open>time.Duration\<close> is a number of nanoseconds. \<open>Time.Sub\<close> saturates at the
  range of the 64-bit duration, which matters for a difference to the zero time.
\<close>

type_synonym time = int
type_synonym duration = int

abbreviation maxDuration :: duration where "maxDuration \<equiv> 9223372036854775807"
abbreviation minDuration :: duration where "minDuration \<equiv> - 9223372036854775808"
abbreviation second :: duration where "second \<equiv> 1000000000"

definition time_sub :: "time \<Rightarrow> time \<Rightarrow> duration" where
  "time_sub a b = max minDuration (min maxDuration (a - b))"

lemma time_sub_ge_iff:
  "minDuration < d \<Longrightarrow> d \<le> maxDuration \<Longrightarrow> d \<le> time_sub a b \<longleftrightarrow> d \<le> a - b"
  by (auto simp: time_sub_def)

lemma time_sub_self [simp]: "time_sub a a = 0"
  by (simp add: time_sub_def)

section \<open>Association lists as Go maps\<close>

text \<open>
  Where the code takes \<open>len\<close> of a map, the map is an association list with distinct keys;
  the lemmas below give the length after the two updates.
\<close>

definition keys_distinct :: "('k \<times> 'v) list \<Rightarrow> bool" where
  "keys_distinct al \<longleftrightarrow> distinct (map fst al)"

lemma keys_distinct_Nil [simp]: "keys_distinct []"
  by (simp add: keys_distinct_def)

lemma keys_distinct_update [simp]: "keys_distinct al \<Longrightarrow> keys_distinct (AList.update k v al)"
  by (simp add: keys_distinct_def distinct_update)

lemma keys_distinct_delete [simp]: "keys_distinct al \<Longrightarrow> keys_distinct (AList.delete k al)"
  by (simp add: keys_distinct_def distinct_delete)

lemma length_update_new:
  "map_of al k = None \<Longrightarrow> length (AList.update k v al) = Suc (length al)"
  by (induction al) auto

lemma length_update_old:
  "map_of al k = Some w \<Longrightarrow> length (AList.update k v al) = length al"
  by (induction al) (auto split: if_splits)

lemma length_delete_present:
  "keys_distinct al \<Longrightarrow> map_of al k = Some v \<Longrightarrow> Suc (length (AList.delete k al)) = length al"
proof (induction al)
  case (Cons p al)
  show ?case
  proof (cases "fst p = k")
    case True
    with Cons.prems have "k \<notin> fst ` set al"
      by (auto simp: keys_distinct_def)
    then have "AList.delete k al = al"
      by (simp add: AList.delete_idem)
    with True show ?thesis by (cases p) simp
  next
    case False
    with Cons show ?thesis by (cases p) (auto simp: keys_distinct_def)
  qed
qed simp

lemma keys_distinct_dom: "keys_distinct al \<Longrightarrow> card (dom (map_of al)) = length al"
  by (metis dom_map_of_conv_image_fst distinct_card keys_distinct_def length_map set_map)

end
