(* ===== verification/Enums.thy ===== *)
theory Enums
  imports Prelude
begin

text \<open>
  Package \<open>internal/enums\<close>: the packet types of the tunnel protocol, their queue priorities,
  the keys that identify a queued packet, the pairing of control packets with their
  acknowledgements, and the names used in logs. The constants are abbreviations, so a
  \<open>switch\<close> over them is a chain of membership tests on numerals.
\<close>

section \<open>Packet types (\<open>dns.go\<close>)\<close>

abbreviation PACKET_MTU_UP_REQ :: u8 where "PACKET_MTU_UP_REQ \<equiv> 0x01"
abbreviation PACKET_MTU_UP_RES :: u8 where "PACKET_MTU_UP_RES \<equiv> 0x02"
abbreviation PACKET_MTU_DOWN_REQ :: u8 where "PACKET_MTU_DOWN_REQ \<equiv> 0x03"
abbreviation PACKET_MTU_DOWN_RES :: u8 where "PACKET_MTU_DOWN_RES \<equiv> 0x04"
abbreviation PACKET_SESSION_INIT :: u8 where "PACKET_SESSION_INIT \<equiv> 0x05"
abbreviation PACKET_SESSION_ACCEPT :: u8 where "PACKET_SESSION_ACCEPT \<equiv> 0x06"
abbreviation PACKET_PING :: u8 where "PACKET_PING \<equiv> 0x07"
abbreviation PACKET_PONG :: u8 where "PACKET_PONG \<equiv> 0x08"
abbreviation PACKET_STREAM_SYN :: u8 where "PACKET_STREAM_SYN \<equiv> 0x09"
abbreviation PACKET_STREAM_SYN_ACK :: u8 where "PACKET_STREAM_SYN_ACK \<equiv> 0x0A"
abbreviation PACKET_STREAM_CONNECTED :: u8 where "PACKET_STREAM_CONNECTED \<equiv> 0x0B"
abbreviation PACKET_STREAM_CONNECTED_ACK :: u8 where "PACKET_STREAM_CONNECTED_ACK \<equiv> 0x0C"
abbreviation PACKET_STREAM_CONNECT_FAIL :: u8 where "PACKET_STREAM_CONNECT_FAIL \<equiv> 0x0D"
abbreviation PACKET_STREAM_CONNECT_FAIL_ACK :: u8 where "PACKET_STREAM_CONNECT_FAIL_ACK \<equiv> 0x0E"
abbreviation PACKET_STREAM_DATA :: u8 where "PACKET_STREAM_DATA \<equiv> 0x0F"
abbreviation PACKET_STREAM_DATA_ACK :: u8 where "PACKET_STREAM_DATA_ACK \<equiv> 0x10"
abbreviation PACKET_STREAM_DATA_NACK :: u8 where "PACKET_STREAM_DATA_NACK \<equiv> 0x11"
abbreviation PACKET_STREAM_RESEND :: u8 where "PACKET_STREAM_RESEND \<equiv> 0x12"
abbreviation PACKET_PACKED_CONTROL_BLOCKS :: u8 where "PACKET_PACKED_CONTROL_BLOCKS \<equiv> 0x13"
abbreviation PACKET_STREAM_CLOSE_WRITE :: u8 where "PACKET_STREAM_CLOSE_WRITE \<equiv> 0x14"
abbreviation PACKET_STREAM_CLOSE_WRITE_ACK :: u8 where "PACKET_STREAM_CLOSE_WRITE_ACK \<equiv> 0x15"
abbreviation PACKET_STREAM_CLOSE_READ :: u8 where "PACKET_STREAM_CLOSE_READ \<equiv> 0x16"
abbreviation PACKET_STREAM_CLOSE_READ_ACK :: u8 where "PACKET_STREAM_CLOSE_READ_ACK \<equiv> 0x17"
abbreviation PACKET_STREAM_RST :: u8 where "PACKET_STREAM_RST \<equiv> 0x18"
abbreviation PACKET_STREAM_RST_ACK :: u8 where "PACKET_STREAM_RST_ACK \<equiv> 0x19"
abbreviation PACKET_SOCKS5_SYN :: u8 where "PACKET_SOCKS5_SYN \<equiv> 0x1A"
abbreviation PACKET_SOCKS5_SYN_ACK :: u8 where "PACKET_SOCKS5_SYN_ACK \<equiv> 0x1B"
abbreviation PACKET_SOCKS5_CONNECT_FAIL :: u8 where "PACKET_SOCKS5_CONNECT_FAIL \<equiv> 0x1C"
abbreviation PACKET_SOCKS5_CONNECT_FAIL_ACK :: u8 where "PACKET_SOCKS5_CONNECT_FAIL_ACK \<equiv> 0x1D"
abbreviation PACKET_SOCKS5_RULESET_DENIED :: u8 where "PACKET_SOCKS5_RULESET_DENIED \<equiv> 0x1E"
abbreviation PACKET_SOCKS5_RULESET_DENIED_ACK :: u8 where "PACKET_SOCKS5_RULESET_DENIED_ACK \<equiv> 0x1F"
abbreviation PACKET_SOCKS5_NETWORK_UNREACHABLE :: u8 where "PACKET_SOCKS5_NETWORK_UNREACHABLE \<equiv> 0x20"
abbreviation PACKET_SOCKS5_NETWORK_UNREACHABLE_ACK :: u8 where "PACKET_SOCKS5_NETWORK_UNREACHABLE_ACK \<equiv> 0x21"
abbreviation PACKET_SOCKS5_HOST_UNREACHABLE :: u8 where "PACKET_SOCKS5_HOST_UNREACHABLE \<equiv> 0x22"
abbreviation PACKET_SOCKS5_HOST_UNREACHABLE_ACK :: u8 where "PACKET_SOCKS5_HOST_UNREACHABLE_ACK \<equiv> 0x23"
abbreviation PACKET_SOCKS5_CONNECTION_REFUSED :: u8 where "PACKET_SOCKS5_CONNECTION_REFUSED \<equiv> 0x24"
abbreviation PACKET_SOCKS5_CONNECTION_REFUSED_ACK :: u8 where "PACKET_SOCKS5_CONNECTION_REFUSED_ACK \<equiv> 0x25"
abbreviation PACKET_SOCKS5_TTL_EXPIRED :: u8 where "PACKET_SOCKS5_TTL_EXPIRED \<equiv> 0x26"
abbreviation PACKET_SOCKS5_TTL_EXPIRED_ACK :: u8 where "PACKET_SOCKS5_TTL_EXPIRED_ACK \<equiv> 0x27"
abbreviation PACKET_SOCKS5_COMMAND_UNSUPPORTED :: u8 where "PACKET_SOCKS5_COMMAND_UNSUPPORTED \<equiv> 0x28"
abbreviation PACKET_SOCKS5_COMMAND_UNSUPPORTED_ACK :: u8 where "PACKET_SOCKS5_COMMAND_UNSUPPORTED_ACK \<equiv> 0x29"
abbreviation PACKET_SOCKS5_ADDRESS_TYPE_UNSUPPORTED :: u8 where "PACKET_SOCKS5_ADDRESS_TYPE_UNSUPPORTED \<equiv> 0x2A"
abbreviation PACKET_SOCKS5_ADDRESS_TYPE_UNSUPPORTED_ACK :: u8 where "PACKET_SOCKS5_ADDRESS_TYPE_UNSUPPORTED_ACK \<equiv> 0x2B"
abbreviation PACKET_SOCKS5_AUTH_FAILED :: u8 where "PACKET_SOCKS5_AUTH_FAILED \<equiv> 0x2C"
abbreviation PACKET_SOCKS5_AUTH_FAILED_ACK :: u8 where "PACKET_SOCKS5_AUTH_FAILED_ACK \<equiv> 0x2D"
abbreviation PACKET_SOCKS5_UPSTREAM_UNAVAILABLE :: u8 where "PACKET_SOCKS5_UPSTREAM_UNAVAILABLE \<equiv> 0x2E"
abbreviation PACKET_SOCKS5_UPSTREAM_UNAVAILABLE_ACK :: u8 where "PACKET_SOCKS5_UPSTREAM_UNAVAILABLE_ACK \<equiv> 0x2F"
abbreviation PACKET_SOCKS5_CONNECTED :: u8 where "PACKET_SOCKS5_CONNECTED \<equiv> 0x30"
abbreviation PACKET_SOCKS5_CONNECTED_ACK :: u8 where "PACKET_SOCKS5_CONNECTED_ACK \<equiv> 0x31"
abbreviation PACKET_DNS_QUERY_REQ :: u8 where "PACKET_DNS_QUERY_REQ \<equiv> 0x32"
abbreviation PACKET_DNS_QUERY_RES :: u8 where "PACKET_DNS_QUERY_RES \<equiv> 0x33"
abbreviation PACKET_DNS_QUERY_REQ_ACK :: u8 where "PACKET_DNS_QUERY_REQ_ACK \<equiv> 0x34"
abbreviation PACKET_DNS_QUERY_RES_ACK :: u8 where "PACKET_DNS_QUERY_RES_ACK \<equiv> 0x35"
abbreviation PACKET_SESSION_CLOSE :: u8 where "PACKET_SESSION_CLOSE \<equiv> 0x36"
abbreviation PACKET_SESSION_BUSY :: u8 where "PACKET_SESSION_BUSY \<equiv> 0x37"
abbreviation PACKET_ERROR_DROP :: u8 where "PACKET_ERROR_DROP \<equiv> 0xFF"

section \<open>DNS record types, response codes and classes (\<open>dns.go\<close>)\<close>

abbreviation DNS_RECORD_TYPE_A :: u16 where "DNS_RECORD_TYPE_A \<equiv> 1"
abbreviation DNS_RECORD_TYPE_NS :: u16 where "DNS_RECORD_TYPE_NS \<equiv> 2"
abbreviation DNS_RECORD_TYPE_MD :: u16 where "DNS_RECORD_TYPE_MD \<equiv> 3"
abbreviation DNS_RECORD_TYPE_MF :: u16 where "DNS_RECORD_TYPE_MF \<equiv> 4"
abbreviation DNS_RECORD_TYPE_CNAME :: u16 where "DNS_RECORD_TYPE_CNAME \<equiv> 5"
abbreviation DNS_RECORD_TYPE_SOA :: u16 where "DNS_RECORD_TYPE_SOA \<equiv> 6"
abbreviation DNS_RECORD_TYPE_MB :: u16 where "DNS_RECORD_TYPE_MB \<equiv> 7"
abbreviation DNS_RECORD_TYPE_MG :: u16 where "DNS_RECORD_TYPE_MG \<equiv> 8"
abbreviation DNS_RECORD_TYPE_MR :: u16 where "DNS_RECORD_TYPE_MR \<equiv> 9"
abbreviation DNS_RECORD_TYPE_NULL :: u16 where "DNS_RECORD_TYPE_NULL \<equiv> 10"
abbreviation DNS_RECORD_TYPE_WKS :: u16 where "DNS_RECORD_TYPE_WKS \<equiv> 11"
abbreviation DNS_RECORD_TYPE_PTR :: u16 where "DNS_RECORD_TYPE_PTR \<equiv> 12"
abbreviation DNS_RECORD_TYPE_HINFO :: u16 where "DNS_RECORD_TYPE_HINFO \<equiv> 13"
abbreviation DNS_RECORD_TYPE_MINFO :: u16 where "DNS_RECORD_TYPE_MINFO \<equiv> 14"
abbreviation DNS_RECORD_TYPE_MX :: u16 where "DNS_RECORD_TYPE_MX \<equiv> 15"
abbreviation DNS_RECORD_TYPE_TXT :: u16 where "DNS_RECORD_TYPE_TXT \<equiv> 16"
abbreviation DNS_RECORD_TYPE_RP :: u16 where "DNS_RECORD_TYPE_RP \<equiv> 17"
abbreviation DNS_RECORD_TYPE_AFSDB :: u16 where "DNS_RECORD_TYPE_AFSDB \<equiv> 18"
abbreviation DNS_RECORD_TYPE_X25 :: u16 where "DNS_RECORD_TYPE_X25 \<equiv> 19"
abbreviation DNS_RECORD_TYPE_ISDN :: u16 where "DNS_RECORD_TYPE_ISDN \<equiv> 20"
abbreviation DNS_RECORD_TYPE_RT :: u16 where "DNS_RECORD_TYPE_RT \<equiv> 21"
abbreviation DNS_RECORD_TYPE_NSAP :: u16 where "DNS_RECORD_TYPE_NSAP \<equiv> 22"
abbreviation DNS_RECORD_TYPE_NSAP_PTR :: u16 where "DNS_RECORD_TYPE_NSAP_PTR \<equiv> 23"
abbreviation DNS_RECORD_TYPE_SIG :: u16 where "DNS_RECORD_TYPE_SIG \<equiv> 24"
abbreviation DNS_RECORD_TYPE_KEY :: u16 where "DNS_RECORD_TYPE_KEY \<equiv> 25"
abbreviation DNS_RECORD_TYPE_PX :: u16 where "DNS_RECORD_TYPE_PX \<equiv> 26"
abbreviation DNS_RECORD_TYPE_GPOS :: u16 where "DNS_RECORD_TYPE_GPOS \<equiv> 27"
abbreviation DNS_RECORD_TYPE_AAAA :: u16 where "DNS_RECORD_TYPE_AAAA \<equiv> 28"
abbreviation DNS_RECORD_TYPE_LOC :: u16 where "DNS_RECORD_TYPE_LOC \<equiv> 29"
abbreviation DNS_RECORD_TYPE_NXT :: u16 where "DNS_RECORD_TYPE_NXT \<equiv> 30"
abbreviation DNS_RECORD_TYPE_EID :: u16 where "DNS_RECORD_TYPE_EID \<equiv> 31"
abbreviation DNS_RECORD_TYPE_NIMLOC :: u16 where "DNS_RECORD_TYPE_NIMLOC \<equiv> 32"
abbreviation DNS_RECORD_TYPE_SRV :: u16 where "DNS_RECORD_TYPE_SRV \<equiv> 33"
abbreviation DNS_RECORD_TYPE_ATMA :: u16 where "DNS_RECORD_TYPE_ATMA \<equiv> 34"
abbreviation DNS_RECORD_TYPE_NAPTR :: u16 where "DNS_RECORD_TYPE_NAPTR \<equiv> 35"
abbreviation DNS_RECORD_TYPE_KX :: u16 where "DNS_RECORD_TYPE_KX \<equiv> 36"
abbreviation DNS_RECORD_TYPE_CERT :: u16 where "DNS_RECORD_TYPE_CERT \<equiv> 37"
abbreviation DNS_RECORD_TYPE_A6 :: u16 where "DNS_RECORD_TYPE_A6 \<equiv> 38"
abbreviation DNS_RECORD_TYPE_DNAME :: u16 where "DNS_RECORD_TYPE_DNAME \<equiv> 39"
abbreviation DNS_RECORD_TYPE_SINK :: u16 where "DNS_RECORD_TYPE_SINK \<equiv> 40"
abbreviation DNS_RECORD_TYPE_OPT :: u16 where "DNS_RECORD_TYPE_OPT \<equiv> 41"
abbreviation DNS_RECORD_TYPE_APL :: u16 where "DNS_RECORD_TYPE_APL \<equiv> 42"
abbreviation DNS_RECORD_TYPE_DS :: u16 where "DNS_RECORD_TYPE_DS \<equiv> 43"
abbreviation DNS_RECORD_TYPE_SSHFP :: u16 where "DNS_RECORD_TYPE_SSHFP \<equiv> 44"
abbreviation DNS_RECORD_TYPE_IPSECKEY :: u16 where "DNS_RECORD_TYPE_IPSECKEY \<equiv> 45"
abbreviation DNS_RECORD_TYPE_RRSIG :: u16 where "DNS_RECORD_TYPE_RRSIG \<equiv> 46"
abbreviation DNS_RECORD_TYPE_NSEC :: u16 where "DNS_RECORD_TYPE_NSEC \<equiv> 47"
abbreviation DNS_RECORD_TYPE_DNSKEY :: u16 where "DNS_RECORD_TYPE_DNSKEY \<equiv> 48"
abbreviation DNS_RECORD_TYPE_DHCID :: u16 where "DNS_RECORD_TYPE_DHCID \<equiv> 49"
abbreviation DNS_RECORD_TYPE_NSEC3 :: u16 where "DNS_RECORD_TYPE_NSEC3 \<equiv> 50"
abbreviation DNS_RECORD_TYPE_NSEC3_PARAM :: u16 where "DNS_RECORD_TYPE_NSEC3_PARAM \<equiv> 51"
abbreviation DNS_RECORD_TYPE_TLSA :: u16 where "DNS_RECORD_TYPE_TLSA \<equiv> 52"
abbreviation DNS_RECORD_TYPE_SMIMEA :: u16 where "DNS_RECORD_TYPE_SMIMEA \<equiv> 53"
abbreviation DNS_RECORD_TYPE_HIP :: u16 where "DNS_RECORD_TYPE_HIP \<equiv> 55"
abbreviation DNS_RECORD_TYPE_NINFO :: u16 where "DNS_RECORD_TYPE_NINFO \<equiv> 56"
abbreviation DNS_RECORD_TYPE_RKEY :: u16 where "DNS_RECORD_TYPE_RKEY \<equiv> 57"
abbreviation DNS_RECORD_TYPE_TALINK :: u16 where "DNS_RECORD_TYPE_TALINK \<equiv> 58"
abbreviation DNS_RECORD_TYPE_CDS :: u16 where "DNS_RECORD_TYPE_CDS \<equiv> 59"
abbreviation DNS_RECORD_TYPE_CDNSKEY :: u16 where "DNS_RECORD_TYPE_CDNSKEY \<equiv> 60"
abbreviation DNS_RECORD_TYPE_OPENPGPKEY :: u16 where "DNS_RECORD_TYPE_OPENPGPKEY \<equiv> 61"
abbreviation DNS_RECORD_TYPE_CSYNC :: u16 where "DNS_RECORD_TYPE_CSYNC \<equiv> 62"
abbreviation DNS_RECORD_TYPE_ZONEMD :: u16 where "DNS_RECORD_TYPE_ZONEMD \<equiv> 63"
abbreviation DNS_RECORD_TYPE_SVCB :: u16 where "DNS_RECORD_TYPE_SVCB \<equiv> 64"
abbreviation DNS_RECORD_TYPE_HTTPS :: u16 where "DNS_RECORD_TYPE_HTTPS \<equiv> 65"
abbreviation DNS_RECORD_TYPE_DSYNC :: u16 where "DNS_RECORD_TYPE_DSYNC \<equiv> 66"
abbreviation DNS_RECORD_TYPE_HHIT :: u16 where "DNS_RECORD_TYPE_HHIT \<equiv> 67"
abbreviation DNS_RECORD_TYPE_BRID :: u16 where "DNS_RECORD_TYPE_BRID \<equiv> 68"
abbreviation DNS_RECORD_TYPE_SPF :: u16 where "DNS_RECORD_TYPE_SPF \<equiv> 99"
abbreviation DNS_RECORD_TYPE_UINFO :: u16 where "DNS_RECORD_TYPE_UINFO \<equiv> 100"
abbreviation DNS_RECORD_TYPE_UID :: u16 where "DNS_RECORD_TYPE_UID \<equiv> 101"
abbreviation DNS_RECORD_TYPE_GID :: u16 where "DNS_RECORD_TYPE_GID \<equiv> 102"
abbreviation DNS_RECORD_TYPE_UNSPEC :: u16 where "DNS_RECORD_TYPE_UNSPEC \<equiv> 103"
abbreviation DNS_RECORD_TYPE_NID :: u16 where "DNS_RECORD_TYPE_NID \<equiv> 104"
abbreviation DNS_RECORD_TYPE_L32 :: u16 where "DNS_RECORD_TYPE_L32 \<equiv> 105"
abbreviation DNS_RECORD_TYPE_L64 :: u16 where "DNS_RECORD_TYPE_L64 \<equiv> 106"
abbreviation DNS_RECORD_TYPE_LP :: u16 where "DNS_RECORD_TYPE_LP \<equiv> 107"
abbreviation DNS_RECORD_TYPE_EUI48 :: u16 where "DNS_RECORD_TYPE_EUI48 \<equiv> 108"
abbreviation DNS_RECORD_TYPE_EUI64 :: u16 where "DNS_RECORD_TYPE_EUI64 \<equiv> 109"
abbreviation DNS_RECORD_TYPE_NXNAME :: u16 where "DNS_RECORD_TYPE_NXNAME \<equiv> 128"
abbreviation DNS_RECORD_TYPE_TKEY :: u16 where "DNS_RECORD_TYPE_TKEY \<equiv> 249"
abbreviation DNS_RECORD_TYPE_TSIG :: u16 where "DNS_RECORD_TYPE_TSIG \<equiv> 250"
abbreviation DNS_RECORD_TYPE_IXFR :: u16 where "DNS_RECORD_TYPE_IXFR \<equiv> 251"
abbreviation DNS_RECORD_TYPE_AXFR :: u16 where "DNS_RECORD_TYPE_AXFR \<equiv> 252"
abbreviation DNS_RECORD_TYPE_MAILB :: u16 where "DNS_RECORD_TYPE_MAILB \<equiv> 253"
abbreviation DNS_RECORD_TYPE_MAILA :: u16 where "DNS_RECORD_TYPE_MAILA \<equiv> 254"
abbreviation DNS_RECORD_TYPE_ANY :: u16 where "DNS_RECORD_TYPE_ANY \<equiv> 255"
abbreviation DNS_RECORD_TYPE_URI :: u16 where "DNS_RECORD_TYPE_URI \<equiv> 256"
abbreviation DNS_RECORD_TYPE_CAA :: u16 where "DNS_RECORD_TYPE_CAA \<equiv> 257"
abbreviation DNS_RECORD_TYPE_AVC :: u16 where "DNS_RECORD_TYPE_AVC \<equiv> 258"
abbreviation DNS_RECORD_TYPE_DOA :: u16 where "DNS_RECORD_TYPE_DOA \<equiv> 259"
abbreviation DNS_RECORD_TYPE_AMTRELAY :: u16 where "DNS_RECORD_TYPE_AMTRELAY \<equiv> 260"
abbreviation DNS_RECORD_TYPE_RESINFO :: u16 where "DNS_RECORD_TYPE_RESINFO \<equiv> 261"
abbreviation DNS_RECORD_TYPE_WALLET :: u16 where "DNS_RECORD_TYPE_WALLET \<equiv> 262"
abbreviation DNS_RECORD_TYPE_CLA :: u16 where "DNS_RECORD_TYPE_CLA \<equiv> 263"
abbreviation DNS_RECORD_TYPE_IPN :: u16 where "DNS_RECORD_TYPE_IPN \<equiv> 264"
abbreviation DNS_RECORD_TYPE_TA :: u16 where "DNS_RECORD_TYPE_TA \<equiv> 32768"
abbreviation DNS_RECORD_TYPE_DLV :: u16 where "DNS_RECORD_TYPE_DLV \<equiv> 32769"
abbreviation DNSR_CODE_NO_ERROR :: u8 where "DNSR_CODE_NO_ERROR \<equiv> 0"
abbreviation DNSR_CODE_FORMAT_ERROR :: u8 where "DNSR_CODE_FORMAT_ERROR \<equiv> 1"
abbreviation DNSR_CODE_SERVER_FAILURE :: u8 where "DNSR_CODE_SERVER_FAILURE \<equiv> 2"
abbreviation DNSR_CODE_NAME_ERROR :: u8 where "DNSR_CODE_NAME_ERROR \<equiv> 3"
abbreviation DNSR_CODE_NOT_IMPLEMENTED :: u8 where "DNSR_CODE_NOT_IMPLEMENTED \<equiv> 4"
abbreviation DNSR_CODE_REFUSED :: u8 where "DNSR_CODE_REFUSED \<equiv> 5"
abbreviation DNSR_CODE_YXDOMAIN :: u8 where "DNSR_CODE_YXDOMAIN \<equiv> 6"
abbreviation DNSR_CODE_YXRRSET :: u8 where "DNSR_CODE_YXRRSET \<equiv> 7"
abbreviation DNSR_CODE_NXRRSET :: u8 where "DNSR_CODE_NXRRSET \<equiv> 8"
abbreviation DNSR_CODE_NOT_AUTHORIZED :: u8 where "DNSR_CODE_NOT_AUTHORIZED \<equiv> 9"
abbreviation DNSR_CODE_NOT_ZONE :: u8 where "DNSR_CODE_NOT_ZONE \<equiv> 10"
abbreviation DNSQ_CLASS_IN :: u16 where "DNSQ_CLASS_IN \<equiv> 1"
abbreviation DNSQ_CLASS_CS :: u16 where "DNSQ_CLASS_CS \<equiv> 2"
abbreviation DNSQ_CLASS_CH :: u16 where "DNSQ_CLASS_CH \<equiv> 3"
abbreviation DNSQ_CLASS_HS :: u16 where "DNSQ_CLASS_HS \<equiv> 4"
abbreviation DNSQ_CLASS_ANY :: u16 where "DNSQ_CLASS_ANY \<equiv> 255"

section \<open>Identity of queued packets (\<open>packet_identity.go\<close>)\<close>

definition PacketTypeStreamKey :: "u16 \<Rightarrow> u8 \<Rightarrow> u64" where
  "PacketTypeStreamKey streamID packetType =
     push_bit 40 (ucast streamID) OR push_bit 32 (ucast packetType)"

definition packetIdentitySeq :: "u16 \<Rightarrow> u8 \<Rightarrow> u16 \<Rightarrow> u64" where
  "packetIdentitySeq streamID packetType sequenceNum =
     push_bit 40 (ucast streamID) OR push_bit 32 (ucast packetType) OR push_bit 8 (ucast sequenceNum)"

definition packetIdentitySeqFrag :: "u16 \<Rightarrow> u8 \<Rightarrow> u16 \<Rightarrow> u8 \<Rightarrow> u64" where
  "packetIdentitySeqFrag streamID packetType sequenceNum fragmentID =
     push_bit 40 (ucast streamID) OR push_bit 32 (ucast packetType) OR push_bit 8 (ucast sequenceNum)
       OR ucast fragmentID"

definition PacketIdentityKey :: "u16 \<Rightarrow> u8 \<Rightarrow> u16 \<Rightarrow> u8 \<Rightarrow> u64" where
  "PacketIdentityKey streamID packetType sequenceNum fragmentID =
     (if packetType \<in> {
          PACKET_STREAM_DATA, PACKET_STREAM_RESEND, PACKET_STREAM_DATA_ACK,
          PACKET_STREAM_DATA_NACK, PACKET_STREAM_SYN, PACKET_STREAM_SYN_ACK, PACKET_SOCKS5_SYN,
          PACKET_SOCKS5_SYN_ACK, PACKET_DNS_QUERY_REQ, PACKET_DNS_QUERY_REQ_ACK,
          PACKET_DNS_QUERY_RES, PACKET_DNS_QUERY_RES_ACK}
      then packetIdentitySeqFrag streamID packetType sequenceNum fragmentID
      else if packetType \<in> {
          PACKET_STREAM_CLOSE_WRITE, PACKET_STREAM_CLOSE_WRITE_ACK, PACKET_STREAM_CLOSE_READ,
          PACKET_STREAM_CLOSE_READ_ACK, PACKET_STREAM_RST, PACKET_STREAM_RST_ACK,
          PACKET_STREAM_CONNECTED, PACKET_STREAM_CONNECTED_ACK, PACKET_STREAM_CONNECT_FAIL,
          PACKET_STREAM_CONNECT_FAIL_ACK, PACKET_SOCKS5_CONNECT_FAIL,
          PACKET_SOCKS5_CONNECT_FAIL_ACK, PACKET_SOCKS5_RULESET_DENIED,
          PACKET_SOCKS5_RULESET_DENIED_ACK, PACKET_SOCKS5_NETWORK_UNREACHABLE,
          PACKET_SOCKS5_NETWORK_UNREACHABLE_ACK, PACKET_SOCKS5_HOST_UNREACHABLE,
          PACKET_SOCKS5_HOST_UNREACHABLE_ACK, PACKET_SOCKS5_CONNECTION_REFUSED,
          PACKET_SOCKS5_CONNECTION_REFUSED_ACK, PACKET_SOCKS5_TTL_EXPIRED,
          PACKET_SOCKS5_TTL_EXPIRED_ACK, PACKET_SOCKS5_COMMAND_UNSUPPORTED,
          PACKET_SOCKS5_COMMAND_UNSUPPORTED_ACK, PACKET_SOCKS5_ADDRESS_TYPE_UNSUPPORTED,
          PACKET_SOCKS5_ADDRESS_TYPE_UNSUPPORTED_ACK, PACKET_SOCKS5_AUTH_FAILED,
          PACKET_SOCKS5_AUTH_FAILED_ACK, PACKET_SOCKS5_UPSTREAM_UNAVAILABLE,
          PACKET_SOCKS5_UPSTREAM_UNAVAILABLE_ACK, PACKET_SOCKS5_CONNECTED,
          PACKET_SOCKS5_CONNECTED_ACK, PACKET_PACKED_CONTROL_BLOCKS, PACKET_ERROR_DROP,
          PACKET_PING, PACKET_PONG}
      then packetIdentitySeq streamID packetType sequenceNum
      else if packetType \<in> {PACKET_SESSION_CLOSE, PACKET_SESSION_BUSY}
      then PacketTypeStreamKey streamID packetType
      else packetIdentitySeqFrag streamID packetType sequenceNum fragmentID)"

section \<open>Queue priorities (\<open>packet_priority.go\<close>)\<close>

abbreviation PacketPriorityCritical :: int where "PacketPriorityCritical \<equiv> 0"
abbreviation PacketPriorityRetry :: int where "PacketPriorityRetry \<equiv> 1"
abbreviation PacketPriorityHigh :: int where "PacketPriorityHigh \<equiv> 2"
abbreviation PacketPriorityNormal :: int where "PacketPriorityNormal \<equiv> 3"
abbreviation PacketPriorityLow :: int where "PacketPriorityLow \<equiv> 4"
abbreviation PacketPriorityIdle :: int where "PacketPriorityIdle \<equiv> 5"

definition DefaultPacketPriority :: "u8 \<Rightarrow> int" where
  "DefaultPacketPriority packetType =
     (if packetType \<in> {
          PACKET_STREAM_DATA_ACK, PACKET_STREAM_DATA_NACK, PACKET_STREAM_SYN,
          PACKET_STREAM_SYN_ACK, PACKET_STREAM_CONNECTED, PACKET_STREAM_CONNECTED_ACK,
          PACKET_STREAM_CONNECT_FAIL, PACKET_STREAM_CONNECT_FAIL_ACK,
          PACKET_STREAM_CLOSE_WRITE_ACK, PACKET_STREAM_CLOSE_READ, PACKET_STREAM_CLOSE_READ_ACK,
          PACKET_STREAM_RST, PACKET_STREAM_RST_ACK, PACKET_SOCKS5_SYN, PACKET_SOCKS5_SYN_ACK,
          PACKET_SOCKS5_CONNECT_FAIL, PACKET_SOCKS5_CONNECT_FAIL_ACK,
          PACKET_SOCKS5_RULESET_DENIED, PACKET_SOCKS5_RULESET_DENIED_ACK,
          PACKET_SOCKS5_NETWORK_UNREACHABLE, PACKET_SOCKS5_NETWORK_UNREACHABLE_ACK,
          PACKET_SOCKS5_HOST_UNREACHABLE, PACKET_SOCKS5_HOST_UNREACHABLE_ACK,
          PACKET_SOCKS5_CONNECTION_REFUSED, PACKET_SOCKS5_CONNECTION_REFUSED_ACK,
          PACKET_SOCKS5_TTL_EXPIRED, PACKET_SOCKS5_TTL_EXPIRED_ACK,
          PACKET_SOCKS5_COMMAND_UNSUPPORTED, PACKET_SOCKS5_COMMAND_UNSUPPORTED_ACK,
          PACKET_SOCKS5_ADDRESS_TYPE_UNSUPPORTED, PACKET_SOCKS5_ADDRESS_TYPE_UNSUPPORTED_ACK,
          PACKET_SOCKS5_AUTH_FAILED, PACKET_SOCKS5_AUTH_FAILED_ACK,
          PACKET_SOCKS5_UPSTREAM_UNAVAILABLE, PACKET_SOCKS5_UPSTREAM_UNAVAILABLE_ACK,
          PACKET_SOCKS5_CONNECTED, PACKET_SOCKS5_CONNECTED_ACK, PACKET_DNS_QUERY_REQ_ACK,
          PACKET_DNS_QUERY_RES_ACK}
      then PacketPriorityCritical
      else if packetType \<in> {PACKET_STREAM_RESEND, PACKET_DNS_QUERY_RES, PACKET_DNS_QUERY_REQ}
      then PacketPriorityRetry
      else if packetType = PACKET_STREAM_DATA then PacketPriorityNormal
      else if packetType \<in> {PACKET_STREAM_CLOSE_WRITE, PACKET_SESSION_CLOSE} then PacketPriorityLow
      else if packetType \<in> {PACKET_PING, PACKET_PONG} then PacketPriorityIdle
      else PacketPriorityNormal)"

definition NormalizePacketPriority :: "u8 \<Rightarrow> int \<Rightarrow> int" where
  "NormalizePacketPriority packetType priority =
     (if PacketPriorityCritical \<le> priority \<and> priority \<le> PacketPriorityIdle then priority
      else DefaultPacketPriority packetType)"

section \<open>Acknowledgement pairs (\<open>packet_ack.go\<close>)\<close>

text \<open>
  The Go maps are written as the list of their entries; the keys are distinct, so the lookup
  is \<open>map_of\<close>. \<open>reverseControlAckPairs\<close> is what \<open>init\<close> stores: one assignment per entry.
\<close>

definition ControlAckPairs :: "(u8 \<times> u8) list" where
  "ControlAckPairs = [
      (PACKET_DNS_QUERY_REQ, PACKET_DNS_QUERY_REQ_ACK),
      (PACKET_DNS_QUERY_RES, PACKET_DNS_QUERY_RES_ACK),
      (PACKET_STREAM_SYN, PACKET_STREAM_SYN_ACK),
      (PACKET_STREAM_CONNECTED, PACKET_STREAM_CONNECTED_ACK),
      (PACKET_STREAM_CONNECT_FAIL, PACKET_STREAM_CONNECT_FAIL_ACK),
      (PACKET_STREAM_CLOSE_WRITE, PACKET_STREAM_CLOSE_WRITE_ACK),
      (PACKET_STREAM_CLOSE_READ, PACKET_STREAM_CLOSE_READ_ACK),
      (PACKET_STREAM_RST, PACKET_STREAM_RST_ACK),
      (PACKET_SOCKS5_SYN, PACKET_SOCKS5_SYN_ACK),
      (PACKET_SOCKS5_CONNECT_FAIL, PACKET_SOCKS5_CONNECT_FAIL_ACK),
      (PACKET_SOCKS5_RULESET_DENIED, PACKET_SOCKS5_RULESET_DENIED_ACK),
      (PACKET_SOCKS5_NETWORK_UNREACHABLE, PACKET_SOCKS5_NETWORK_UNREACHABLE_ACK),
      (PACKET_SOCKS5_HOST_UNREACHABLE, PACKET_SOCKS5_HOST_UNREACHABLE_ACK),
      (PACKET_SOCKS5_CONNECTION_REFUSED, PACKET_SOCKS5_CONNECTION_REFUSED_ACK),
      (PACKET_SOCKS5_TTL_EXPIRED, PACKET_SOCKS5_TTL_EXPIRED_ACK),
      (PACKET_SOCKS5_COMMAND_UNSUPPORTED, PACKET_SOCKS5_COMMAND_UNSUPPORTED_ACK),
      (PACKET_SOCKS5_ADDRESS_TYPE_UNSUPPORTED, PACKET_SOCKS5_ADDRESS_TYPE_UNSUPPORTED_ACK),
      (PACKET_SOCKS5_AUTH_FAILED, PACKET_SOCKS5_AUTH_FAILED_ACK),
      (PACKET_SOCKS5_UPSTREAM_UNAVAILABLE, PACKET_SOCKS5_UPSTREAM_UNAVAILABLE_ACK),
      (PACKET_SOCKS5_CONNECTED, PACKET_SOCKS5_CONNECTED_ACK)]"

definition PacketsCloseStream :: "(u8 \<times> u8) list" where
  "PacketsCloseStream = [
      (PACKET_STREAM_RST, PACKET_STREAM_RST_ACK),
      (PACKET_STREAM_CLOSE_WRITE, PACKET_STREAM_CLOSE_WRITE_ACK),
      (PACKET_STREAM_CLOSE_READ, PACKET_STREAM_CLOSE_READ_ACK),
      (PACKET_SOCKS5_RULESET_DENIED, PACKET_SOCKS5_RULESET_DENIED_ACK),
      (PACKET_SOCKS5_NETWORK_UNREACHABLE, PACKET_SOCKS5_NETWORK_UNREACHABLE_ACK),
      (PACKET_SOCKS5_HOST_UNREACHABLE, PACKET_SOCKS5_HOST_UNREACHABLE_ACK),
      (PACKET_SOCKS5_CONNECTION_REFUSED, PACKET_SOCKS5_CONNECTION_REFUSED_ACK),
      (PACKET_SOCKS5_TTL_EXPIRED, PACKET_SOCKS5_TTL_EXPIRED_ACK),
      (PACKET_SOCKS5_COMMAND_UNSUPPORTED, PACKET_SOCKS5_COMMAND_UNSUPPORTED_ACK),
      (PACKET_SOCKS5_ADDRESS_TYPE_UNSUPPORTED, PACKET_SOCKS5_ADDRESS_TYPE_UNSUPPORTED_ACK),
      (PACKET_SOCKS5_AUTH_FAILED, PACKET_SOCKS5_AUTH_FAILED_ACK),
      (PACKET_SOCKS5_UPSTREAM_UNAVAILABLE, PACKET_SOCKS5_UPSTREAM_UNAVAILABLE_ACK),
      (PACKET_STREAM_CONNECT_FAIL, PACKET_STREAM_CONNECT_FAIL_ACK),
      (PACKET_SOCKS5_CONNECT_FAIL, PACKET_SOCKS5_CONNECT_FAIL_ACK)]"

definition reverseControlAckPairs :: "u8 \<rightharpoonup> u8" where
  "reverseControlAckPairs =
     foldl (\<lambda>m (packetType, ackType). m(ackType \<mapsto> packetType)) Map.empty ControlAckPairs"

definition GetPacketCloseStream :: "u8 \<Rightarrow> u8 option" where
  "GetPacketCloseStream packetType = map_of PacketsCloseStream packetType"

definition ControlAckFor :: "u8 \<Rightarrow> u8 option" where
  "ControlAckFor packetType = map_of ControlAckPairs packetType"

definition ReverseControlAckFor :: "u8 \<Rightarrow> u8 option" where
  "ReverseControlAckFor ackType = reverseControlAckPairs ackType"

section \<open>Names (\<open>dns_names.go\<close>)\<close>

text \<open>\<open>strconv.Itoa\<close> / \<open>FormatUint\<close> in base ten, for non-negative numbers.\<close>

fun decimal :: "nat \<Rightarrow> string" where
  "decimal n =
     (if n < 10 then [char_of (48 + n)] else decimal (n div 10) @ [char_of (48 + n mod 10)])"

declare decimal.simps [simp del]

definition DNSRecordTypeName :: "u16 \<Rightarrow> string" where
  "DNSRecordTypeName qType =
     (if qType = DNS_RECORD_TYPE_A then ''A''
      else if qType = DNS_RECORD_TYPE_AAAA then ''AAAA''
      else if qType = DNS_RECORD_TYPE_CNAME then ''CNAME''
      else if qType = DNS_RECORD_TYPE_MX then ''MX''
      else if qType = DNS_RECORD_TYPE_NS then ''NS''
      else if qType = DNS_RECORD_TYPE_PTR then ''PTR''
      else if qType = DNS_RECORD_TYPE_SRV then ''SRV''
      else if qType = DNS_RECORD_TYPE_SVCB then ''SVCB''
      else if qType = DNS_RECORD_TYPE_CAA then ''CAA''
      else if qType = DNS_RECORD_TYPE_NAPTR then ''NAPTR''
      else if qType = DNS_RECORD_TYPE_SOA then ''SOA''
      else if qType = DNS_RECORD_TYPE_TXT then ''TXT''
      else if qType = DNS_RECORD_TYPE_HTTPS then ''HTTPS''
      else ''TYPE'' @ decimal (unat qType))"

definition PacketTypeName :: "u8 \<Rightarrow> string" where
  "PacketTypeName packetType =
     (if packetType = PACKET_MTU_UP_REQ then ''PACKET_MTU_UP_REQ''
      else if packetType = PACKET_MTU_UP_RES then ''PACKET_MTU_UP_RES''
      else if packetType = PACKET_MTU_DOWN_REQ then ''PACKET_MTU_DOWN_REQ''
      else if packetType = PACKET_MTU_DOWN_RES then ''PACKET_MTU_DOWN_RES''
      else if packetType = PACKET_SESSION_INIT then ''PACKET_SESSION_INIT''
      else if packetType = PACKET_SESSION_ACCEPT then ''PACKET_SESSION_ACCEPT''
      else if packetType = PACKET_PING then ''PACKET_PING''
      else if packetType = PACKET_PONG then ''PACKET_PONG''
      else if packetType = PACKET_STREAM_SYN then ''PACKET_STREAM_SYN''
      else if packetType = PACKET_STREAM_SYN_ACK then ''PACKET_STREAM_SYN_ACK''
      else if packetType = PACKET_STREAM_CONNECTED then ''PACKET_STREAM_CONNECTED''
      else if packetType = PACKET_STREAM_CONNECTED_ACK then ''PACKET_STREAM_CONNECTED_ACK''
      else if packetType = PACKET_STREAM_CONNECT_FAIL then ''PACKET_STREAM_CONNECT_FAIL''
      else if packetType = PACKET_STREAM_CONNECT_FAIL_ACK then ''PACKET_STREAM_CONNECT_FAIL_ACK''
      else if packetType = PACKET_STREAM_DATA then ''PACKET_STREAM_DATA''
      else if packetType = PACKET_STREAM_DATA_ACK then ''PACKET_STREAM_DATA_ACK''
      else if packetType = PACKET_STREAM_RESEND then ''PACKET_STREAM_RESEND''
      else if packetType = PACKET_PACKED_CONTROL_BLOCKS then ''PACKET_PACKED_CONTROL_BLOCKS''
      else if packetType = PACKET_STREAM_CLOSE_WRITE then ''PACKET_STREAM_CLOSE_WRITE''
      else if packetType = PACKET_STREAM_CLOSE_WRITE_ACK then ''PACKET_STREAM_CLOSE_WRITE_ACK''
      else if packetType = PACKET_STREAM_CLOSE_READ then ''PACKET_STREAM_CLOSE_READ''
      else if packetType = PACKET_STREAM_CLOSE_READ_ACK then ''PACKET_STREAM_CLOSE_READ_ACK''
      else if packetType = PACKET_STREAM_RST then ''PACKET_STREAM_RST''
      else if packetType = PACKET_STREAM_RST_ACK then ''PACKET_STREAM_RST_ACK''
      else if packetType = PACKET_SOCKS5_SYN then ''PACKET_SOCKS5_SYN''
      else if packetType = PACKET_SOCKS5_SYN_ACK then ''PACKET_SOCKS5_SYN_ACK''
      else if packetType = PACKET_SOCKS5_CONNECT_FAIL then ''PACKET_SOCKS5_CONNECT_FAIL''
      else if packetType = PACKET_SOCKS5_CONNECT_FAIL_ACK then ''PACKET_SOCKS5_CONNECT_FAIL_ACK''
      else if packetType = PACKET_SOCKS5_RULESET_DENIED then ''PACKET_SOCKS5_RULESET_DENIED''
      else if packetType = PACKET_SOCKS5_RULESET_DENIED_ACK then ''PACKET_SOCKS5_RULESET_DENIED_ACK''
      else if packetType = PACKET_SOCKS5_NETWORK_UNREACHABLE then ''PACKET_SOCKS5_NETWORK_UNREACHABLE''
      else if packetType = PACKET_SOCKS5_HOST_UNREACHABLE then ''PACKET_SOCKS5_HOST_UNREACHABLE''
      else if packetType = PACKET_SOCKS5_HOST_UNREACHABLE_ACK then ''PACKET_SOCKS5_HOST_UNREACHABLE_ACK''
      else if packetType = PACKET_SOCKS5_CONNECTION_REFUSED then ''PACKET_SOCKS5_CONNECTION_REFUSED''
      else if packetType = PACKET_SOCKS5_CONNECTION_REFUSED_ACK then ''PACKET_SOCKS5_CONNECTION_REFUSED_ACK''
      else if packetType = PACKET_SOCKS5_TTL_EXPIRED then ''PACKET_SOCKS5_TTL_EXPIRED''
      else if packetType = PACKET_SOCKS5_TTL_EXPIRED_ACK then ''PACKET_SOCKS5_TTL_EXPIRED_ACK''
      else if packetType = PACKET_SOCKS5_COMMAND_UNSUPPORTED then ''PACKET_SOCKS5_COMMAND_UNSUPPORTED''
      else if packetType = PACKET_SOCKS5_COMMAND_UNSUPPORTED_ACK then ''PACKET_SOCKS5_COMMAND_UNSUPPORTED_ACK''
      else if packetType = PACKET_SOCKS5_ADDRESS_TYPE_UNSUPPORTED then ''PACKET_SOCKS5_ADDRESS_TYPE_UNSUPPORTED''
      else if packetType = PACKET_SOCKS5_ADDRESS_TYPE_UNSUPPORTED_ACK then ''PACKET_SOCKS5_ADDRESS_TYPE_UNSUPPORTED_ACK''
      else if packetType = PACKET_SOCKS5_AUTH_FAILED then ''PACKET_SOCKS5_AUTH_FAILED''
      else if packetType = PACKET_SOCKS5_AUTH_FAILED_ACK then ''PACKET_SOCKS5_AUTH_FAILED_ACK''
      else if packetType = PACKET_SOCKS5_UPSTREAM_UNAVAILABLE then ''PACKET_SOCKS5_UPSTREAM_UNAVAILABLE''
      else if packetType = PACKET_SOCKS5_UPSTREAM_UNAVAILABLE_ACK then ''PACKET_SOCKS5_UPSTREAM_UNAVAILABLE_ACK''
      else if packetType = PACKET_SOCKS5_CONNECTED then ''PACKET_SOCKS5_CONNECTED''
      else if packetType = PACKET_SOCKS5_CONNECTED_ACK then ''PACKET_SOCKS5_CONNECTED_ACK''
      else if packetType = PACKET_DNS_QUERY_REQ then ''PACKET_DNS_QUERY_REQ''
      else if packetType = PACKET_DNS_QUERY_RES then ''PACKET_DNS_QUERY_RES''
      else if packetType = PACKET_DNS_QUERY_REQ_ACK then ''PACKET_DNS_QUERY_REQ_ACK''
      else if packetType = PACKET_DNS_QUERY_RES_ACK then ''PACKET_DNS_QUERY_RES_ACK''
      else if packetType = PACKET_SESSION_CLOSE then ''PACKET_SESSION_CLOSE''
      else if packetType = PACKET_SESSION_BUSY then ''PACKET_SESSION_BUSY''
      else if packetType = PACKET_STREAM_DATA_NACK then ''PACKET_STREAM_DATA_NACK''
      else if packetType = PACKET_ERROR_DROP then ''PACKET_ERROR_DROP''
      else ''PACKET_'' @ decimal (unat packetType))"

section \<open>Keys are injective on what they cover\<close>

lemma seqfrag_stream: "ucast (drop_bit 40 (packetIdentitySeqFrag s t q f)) = s"
  unfolding packetIdentitySeqFrag_def
  by (rule bit_word_eqI) (auto simp: bit_simps dest: bit_imp_le_length)

lemma seqfrag_type: "ucast (drop_bit 32 (packetIdentitySeqFrag s t q f)) = t"
  unfolding packetIdentitySeqFrag_def
  by (rule bit_word_eqI) (auto simp: bit_simps dest: bit_imp_le_length)

lemma seqfrag_seq: "ucast (drop_bit 8 (packetIdentitySeqFrag s t q f)) = q"
  unfolding packetIdentitySeqFrag_def
  by (rule bit_word_eqI) (auto simp: bit_simps dest: bit_imp_le_length)

lemma seqfrag_frag: "ucast (packetIdentitySeqFrag s t q f) = f"
  unfolding packetIdentitySeqFrag_def
  by (rule bit_word_eqI) (auto simp: bit_simps dest: bit_imp_le_length)

lemma packetIdentitySeqFrag_inject [simp]:
  "packetIdentitySeqFrag s t q f = packetIdentitySeqFrag s' t' q' f' \<longleftrightarrow>
     s = s' \<and> t = t' \<and> q = q' \<and> f = f'"
  by (metis seqfrag_stream seqfrag_type seqfrag_seq seqfrag_frag)

lemma packetIdentitySeq_conv: "packetIdentitySeq s t q = packetIdentitySeqFrag s t q 0"
  by (simp add: packetIdentitySeq_def packetIdentitySeqFrag_def)

lemma PacketTypeStreamKey_conv: "PacketTypeStreamKey s t = packetIdentitySeqFrag s t 0 0"
  by (simp add: PacketTypeStreamKey_def packetIdentitySeqFrag_def)

text \<open>The two classes of packet types whose identity ignores the fragment or the sequence.\<close>

definition session_scoped :: "u8 \<Rightarrow> bool" where
  "session_scoped t \<longleftrightarrow> t \<in> {PACKET_SESSION_CLOSE, PACKET_SESSION_BUSY}"

definition fragment_scoped :: "u8 \<Rightarrow> bool" where
  "fragment_scoped t \<longleftrightarrow> \<not> session_scoped t \<and> t \<notin> {
          PACKET_STREAM_CLOSE_WRITE, PACKET_STREAM_CLOSE_WRITE_ACK, PACKET_STREAM_CLOSE_READ,
          PACKET_STREAM_CLOSE_READ_ACK, PACKET_STREAM_RST, PACKET_STREAM_RST_ACK,
          PACKET_STREAM_CONNECTED, PACKET_STREAM_CONNECTED_ACK, PACKET_STREAM_CONNECT_FAIL,
          PACKET_STREAM_CONNECT_FAIL_ACK, PACKET_SOCKS5_CONNECT_FAIL,
          PACKET_SOCKS5_CONNECT_FAIL_ACK, PACKET_SOCKS5_RULESET_DENIED,
          PACKET_SOCKS5_RULESET_DENIED_ACK, PACKET_SOCKS5_NETWORK_UNREACHABLE,
          PACKET_SOCKS5_NETWORK_UNREACHABLE_ACK, PACKET_SOCKS5_HOST_UNREACHABLE,
          PACKET_SOCKS5_HOST_UNREACHABLE_ACK, PACKET_SOCKS5_CONNECTION_REFUSED,
          PACKET_SOCKS5_CONNECTION_REFUSED_ACK, PACKET_SOCKS5_TTL_EXPIRED,
          PACKET_SOCKS5_TTL_EXPIRED_ACK, PACKET_SOCKS5_COMMAND_UNSUPPORTED,
          PACKET_SOCKS5_COMMAND_UNSUPPORTED_ACK, PACKET_SOCKS5_ADDRESS_TYPE_UNSUPPORTED,
          PACKET_SOCKS5_ADDRESS_TYPE_UNSUPPORTED_ACK, PACKET_SOCKS5_AUTH_FAILED,
          PACKET_SOCKS5_AUTH_FAILED_ACK, PACKET_SOCKS5_UPSTREAM_UNAVAILABLE,
          PACKET_SOCKS5_UPSTREAM_UNAVAILABLE_ACK, PACKET_SOCKS5_CONNECTED,
          PACKET_SOCKS5_CONNECTED_ACK, PACKET_PACKED_CONTROL_BLOCKS, PACKET_ERROR_DROP,
          PACKET_PING, PACKET_PONG}"

lemma PacketIdentityKey_conv:
  "PacketIdentityKey s t q f =
     packetIdentitySeqFrag s t (if session_scoped t then 0 else q) (if fragment_scoped t then f else 0)"
  by (auto simp: PacketIdentityKey_def fragment_scoped_def session_scoped_def
      packetIdentitySeq_conv PacketTypeStreamKey_conv)

lemma PacketIdentityKey_eq_iff:
  "PacketIdentityKey s t q f = PacketIdentityKey s' t' q' f' \<longleftrightarrow>
     s = s' \<and> t = t' \<and> (session_scoped t \<or> q = q') \<and> (\<not> fragment_scoped t \<or> f = f')"
  by (auto simp: PacketIdentityKey_conv)

section \<open>Acknowledgements and priorities\<close>

lemma ControlAckFor_Some: "ControlAckFor p = Some a \<longleftrightarrow> (p, a) \<in> set ControlAckPairs"
  unfolding ControlAckFor_def
  by (rule map_of_eq_Some_iff) (simp add: ControlAckPairs_def)

text \<open>The reverse table is the inverse of the forward one, so no acknowledgement is shared.\<close>

lemma ReverseControlAckFor_iff: "ReverseControlAckFor a = Some p \<longleftrightarrow> ControlAckFor p = Some a"
  unfolding ControlAckFor_Some
  by (auto simp add: ReverseControlAckFor_def reverseControlAckPairs_def ControlAckPairs_def)

lemma close_stream_pairs: "GetPacketCloseStream p = Some a \<Longrightarrow> ControlAckFor p = Some a"
  by (auto simp: GetPacketCloseStream_def PacketsCloseStream_def ControlAckFor_def
      ControlAckPairs_def split: if_splits)

lemma ack_critical: "ControlAckFor p = Some a \<Longrightarrow> DefaultPacketPriority a = PacketPriorityCritical"
  unfolding ControlAckFor_Some
  by (auto simp: ControlAckPairs_def DefaultPacketPriority_def)

lemma DefaultPacketPriority_range: "DefaultPacketPriority t \<in> {0..5}"
  by (simp add: DefaultPacketPriority_def)

lemma NormalizePacketPriority_range: "NormalizePacketPriority t p \<in> {0..5}"
  using DefaultPacketPriority_range [of t] by (simp add: NormalizePacketPriority_def)

section \<open>Properties\<close>

text \<open>
  One packet type has no name: the acknowledgement of an unreachable SOCKS network is printed by its
  number, while the packet it acknowledges has a name.
\<close>

theorem unnamed_packet_type:
  "PacketTypeName PACKET_SOCKS5_NETWORK_UNREACHABLE_ACK = ''PACKET_33'' \<and>
   PacketTypeName PACKET_SOCKS5_NETWORK_UNREACHABLE = ''PACKET_SOCKS5_NETWORK_UNREACHABLE''"
  by code_simp

text \<open>
  Two packets get the same identity key exactly when they agree on the stream and the type,
  on the sequence number unless the type is session scoped, and on the fragment number if the type is
  fragmented: the key never merges packets the queue has to keep apart.
\<close>

theorem packet_identity_collision:
  "PacketIdentityKey s t q f = PacketIdentityKey s' t' q' f' \<longleftrightarrow>
     s = s' \<and> t = t' \<and> (session_scoped t \<or> q = q') \<and> (\<not> fragment_scoped t \<or> f = f')"
  by (rule PacketIdentityKey_eq_iff)

theorem packet_identity_collision_witness:
  "PacketIdentityKey 1 PACKET_STREAM_DATA 2 3 \<noteq> PacketIdentityKey 1 PACKET_STREAM_DATA 7 3"
  using packet_identity_collision [of 1 PACKET_STREAM_DATA 2 3 1 PACKET_STREAM_DATA 7 3]
  by (simp add: session_scoped_def)

text \<open>
  The acknowledgement table and its reverse are inverse to each other, the stream-closing packets
  have the same acknowledgement in both tables, and every acknowledgement has the critical priority.
\<close>

theorem control_ack_tables:
  "(ReverseControlAckFor a = Some p \<longleftrightarrow> ControlAckFor p = Some a) \<and>
   (GetPacketCloseStream p = Some a \<longrightarrow> ControlAckFor p = Some a) \<and>
   (ControlAckFor p = Some a \<longrightarrow> DefaultPacketPriority a = PacketPriorityCritical)"
  using ReverseControlAckFor_iff close_stream_pairs ack_critical by blast

theorem control_ack_tables_witness:
  "ControlAckFor PACKET_STREAM_RST = Some PACKET_STREAM_RST_ACK \<and>
   ReverseControlAckFor PACKET_STREAM_RST_ACK = Some PACKET_STREAM_RST \<and>
   DefaultPacketPriority PACKET_STREAM_RST_ACK = PacketPriorityCritical"
proof -
  have "ControlAckFor PACKET_STREAM_RST = Some PACKET_STREAM_RST_ACK"
    by (simp add: ControlAckFor_def ControlAckPairs_def)
  with control_ack_tables [of PACKET_STREAM_RST_ACK PACKET_STREAM_RST] show ?thesis by blast
qed

end
