(* ===== verification/BaseCodec.thy ===== *)
theory BaseCodec
  imports Prelude
begin

text \<open>
  Package \<open>internal/basecodec\<close>, file \<open>lowerbase36.go\<close> and its facade \<open>codec.go\<close>: the
  case-insensitive base-36 text code that carries a frame in the labels of a DNS name. Blocks of
  seven bytes become eleven characters; a shorter last block has its own width. The functions
  that fill a caller's buffer from the left are modelled by the bytes they write.
\<close>

section \<open>Tables\<close>

definition lowerBase36Alphabet :: bytes where
  "lowerBase36Alphabet = ascii ''0123456789abcdefghijklmnopqrstuvwxyz''"

definition lowerBase36EncodedCharsByBytes :: "nat list" where
  "lowerBase36EncodedCharsByBytes = [0, 2, 4, 5, 7, 8, 10, 11]"

definition lowerBase36DecodedBytesByChars :: "nat list" where
  "lowerBase36DecodedBytesByChars = [0, 0, 1, 0, 2, 3, 0, 4, 5, 0, 6, 7]"

definition newLowerBase36DecodeMap :: "u8 list" where
  "newLowerBase36DecodeMap =
     fold (\<lambda>(i, ch) table.
         let table = table[unat ch := of_nat i] in
         if 97 \<le> ch \<and> ch \<le> 122 then table[unat (ch - 97 + 65) := of_nat i] else table)
       (enumerate 0 lowerBase36Alphabet) (replicate 256 0xFF)"

definition lowerBase36DecodeMap :: "u8 list" where
  "lowerBase36DecodeMap = newLowerBase36DecodeMap"

section \<open>Encoding\<close>

definition EncodedLenLowerBase36 :: "int \<Rightarrow> int" where
  "EncodedLenLowerBase36 n =
     (if n \<le> 0 then 0
      else (n div 7) * 11 + int (lowerBase36EncodedCharsByBytes ! nat (n mod 7)))"

fun writeBase36Block :: "u64 \<Rightarrow> nat \<Rightarrow> bytes" where
  "writeBase36Block val 0 = []"
| "writeBase36Block val (Suc i) =
     writeBase36Block (val div 36) i @ [lowerBase36Alphabet ! unat (val mod 36)]"

definition blockValue7 :: "bytes \<Rightarrow> u64" where
  "blockValue7 src =
     push_bit 48 (ucast (src ! 0)) OR push_bit 40 (ucast (src ! 1)) OR
     push_bit 32 (ucast (src ! 2)) OR push_bit 24 (ucast (src ! 3)) OR
     push_bit 16 (ucast (src ! 4)) OR push_bit 8 (ucast (src ! 5)) OR ucast (src ! 6)"

definition tailValue :: "bytes \<Rightarrow> u64" where
  "tailValue src = foldl (\<lambda>val b. push_bit 8 val OR ucast b) 0 src"

function EncodeLowerBase36To :: "bytes \<Rightarrow> bytes" where
  "EncodeLowerBase36To src =
     (if length src \<ge> 7 then
        writeBase36Block (blockValue7 src) 11 @ EncodeLowerBase36To (drop 7 src)
      else if src \<noteq> [] then
        writeBase36Block (tailValue src) (lowerBase36EncodedCharsByBytes ! length src)
      else [])"
  by pat_completeness auto
termination
  by (relation "measure length") auto

declare EncodeLowerBase36To.simps [simp del]

definition EncodeLowerBase36Bytes :: "bytes \<Rightarrow> bytes" where
  "EncodeLowerBase36Bytes data = EncodeLowerBase36To data"

definition EncodeLowerBase36 :: "bytes \<Rightarrow> gostring" where
  "EncodeLowerBase36 data = (if data = [] then [] else EncodeLowerBase36Bytes data)"

section \<open>Decoding\<close>

definition decodedLenLowerBase36 :: "int \<Rightarrow> nat result" where
  "decodedLenLowerBase36 encodedLen =
     (if encodedLen \<le> 0 then Inr 0
      else let blocks = nat (encodedLen div 11); rem = nat (encodedLen mod 11) in
        if rem \<ge> length lowerBase36DecodedBytesByChars then Inl ErrInvalidLowerBase36
        else let decodedRem = lowerBase36DecodedBytesByChars ! rem in
          if rem \<noteq> 0 \<and> decodedRem = 0 then Inl ErrInvalidLowerBase36
          else Inr (blocks * 7 + decodedRem))"

definition lowerBase36NextDecodeBlock :: "nat \<Rightarrow> nat \<times> nat" where
  "lowerBase36NextDecodeBlock remaining =
     (if remaining \<ge> 11 then (7, 11)
      else (lowerBase36DecodedBytesByChars ! remaining, remaining))"

fun readBase36Block_from :: "u64 \<Rightarrow> bytes \<Rightarrow> u64 result" where
  "readBase36Block_from val [] = Inr val"
| "readBase36Block_from val (ch # data) =
     (let digit = lowerBase36DecodeMap ! unat ch in
      if digit = 0xFF then Inl ErrInvalidLowerBase36
      else readBase36Block_from (val * 36 + ucast digit) data)"

definition readBase36Block :: "bytes \<Rightarrow> u64 result" where
  "readBase36Block data = readBase36Block_from 0 data"

fun writeBlockBytes :: "u64 \<Rightarrow> nat \<Rightarrow> bytes" where
  "writeBlockBytes val 0 = []"
| "writeBlockBytes val (Suc i) = writeBlockBytes (drop_bit 8 val) i @ [ucast val]"

function decodeBlocks :: "bytes \<Rightarrow> bytes result" where
  "decodeBlocks src =
     (if src = [] then Inr []
      else let (blockSize, charCount) = lowerBase36NextDecodeBlock (length src) in
        case readBase36Block (take charCount src) of
          Inl err \<Rightarrow> Inl err
        | Inr val \<Rightarrow>
            (case decodeBlocks (drop charCount src) of
               Inl err \<Rightarrow> Inl err
             | Inr rest \<Rightarrow> Inr (writeBlockBytes val blockSize @ rest)))"
  by pat_completeness auto
termination
  by (relation "measure length") (auto simp: lowerBase36NextDecodeBlock_def split: if_splits)

declare decodeBlocks.simps [simp del]

definition DecodeLowerBase36 :: "bytes \<Rightarrow> bytes result" where
  "DecodeLowerBase36 data =
     (if data = [] then Inr []
      else case decodedLenLowerBase36 (int (length data)) of
        Inl err \<Rightarrow> Inl err
      | Inr totalBytes \<Rightarrow> decodeBlocks data)"

definition DecodeLowerBase36String :: "gostring \<Rightarrow> bytes result" where
  "DecodeLowerBase36String data =
     (if data = [] then Inr []
      else case decodedLenLowerBase36 (int (length data)) of
        Inl err \<Rightarrow> Inl err
      | Inr totalBytes \<Rightarrow> decodeBlocks data)"

section \<open>The active code (\<open>codec.go\<close>)\<close>

definition EncodedLen :: "int \<Rightarrow> int" where "EncodedLen n = EncodedLenLowerBase36 n"
definition EncodeToBytes :: "bytes \<Rightarrow> bytes" where "EncodeToBytes data = EncodeLowerBase36Bytes data"
definition Encode :: "bytes \<Rightarrow> gostring" where "Encode data = EncodeLowerBase36 data"
definition Decode :: "bytes \<Rightarrow> bytes result" where "Decode data = DecodeLowerBase36 data"
definition DecodeString :: "gostring \<Rightarrow> bytes result" where
  "DecodeString data = DecodeLowerBase36String data"

section \<open>One block\<close>

lemma decode_map_alphabet: "i < 36 \<Longrightarrow> lowerBase36DecodeMap ! unat (lowerBase36Alphabet ! i) = of_nat i"
proof -
  have "list_all (\<lambda>i. lowerBase36DecodeMap ! unat (lowerBase36Alphabet ! i) = of_nat i) [0..<36]"
    by code_simp
  then show "i < 36 \<Longrightarrow> ?thesis" by (simp add: list_all_iff)
qed

lemma length_writeBase36Block [simp]: "length (writeBase36Block v c) = c"
  by (induction c arbitrary: v) simp_all

lemma length_writeBlockBytes [simp]: "length (writeBlockBytes v c) = c"
  by (induction c arbitrary: v) simp_all

lemma readBase36Block_from_append:
  "readBase36Block_from a (xs @ ys) =
     (case readBase36Block_from a xs of Inl e \<Rightarrow> Inl e | Inr v \<Rightarrow> readBase36Block_from v ys)"
  by (induction xs arbitrary: a) (simp_all add: Let_def)

lemma mod36_digit:
  "ucast (lowerBase36DecodeMap ! unat (lowerBase36Alphabet ! unat (v mod 36))) = (v mod 36 :: u64)"
  "lowerBase36DecodeMap ! unat (lowerBase36Alphabet ! unat (v mod 36)) \<noteq> 0xFF"
proof -
  have lt: "unat (v mod 36) < 36"
    by (simp add: unat_mod_distrib)
  from decode_map_alphabet [OF lt]
  have d: "lowerBase36DecodeMap ! unat (lowerBase36Alphabet ! unat (v mod 36)) = of_nat (unat (v mod 36))" .
  show "ucast (lowerBase36DecodeMap ! unat (lowerBase36Alphabet ! unat (v mod 36))) = v mod 36"
    unfolding d using lt
    by (intro word_unat_eq_iff [THEN iffD2]) (simp add: unat_ucast unat_word_of_nat)
  have "unat (of_nat (unat (v mod 36)) :: u8) < 36"
    unfolding unat_word_of_nat using lt by simp
  then show "lowerBase36DecodeMap ! unat (lowerBase36Alphabet ! unat (v mod 36)) \<noteq> 0xFF"
    unfolding d by auto
qed

lemma read_write_base36: "unat v < 36 ^ c \<Longrightarrow> readBase36Block (writeBase36Block v c) = Inr v"
proof (induction c arbitrary: v)
  case 0
  then show ?case by (simp add: readBase36Block_def unat_0_iff)
next
  case (Suc c)
  have "unat (v div 36) < 36 ^ c"
    using Suc.prems by (simp add: unat_div_distrib less_mult_imp_div_less mult.commute)
  then have "readBase36Block (writeBase36Block (v div 36) c) = Inr (v div 36)"
    by (rule Suc.IH)
  then show ?case
    using mod36_digit [of v]
    by (simp add: readBase36Block_def readBase36Block_from_append Let_def div_mult_mod_eq)
qed

lemma tailValue_snoc: "tailValue (bs @ [b]) = push_bit 8 (tailValue bs) OR ucast b"
  by (simp add: tailValue_def)

lemma unat_tailValue_snoc:
  assumes "unat (tailValue bs) < 2 ^ 56"
  shows "unat (tailValue (bs @ [b])) = unat (tailValue bs) * 256 + unat b"
proof -
  have "push_bit 8 (tailValue bs) OR ucast b = push_bit 8 (tailValue bs) + ucast b"
    by (rule disjunctive_add [symmetric]) (auto simp: bit_simps dest: bit_imp_le_length)
  moreover have "unat (push_bit 8 (tailValue bs)) = unat (tailValue bs) * 256"
    using assms by (simp add: unat_push_bit)
  moreover have "unat (ucast b :: u64) = unat b"
    using unsigned_less [of b, where 'a = nat] by (simp add: unat_ucast)
  ultimately show ?thesis
    using assms unsigned_less [of b, where 'a = nat]
    by (simp add: tailValue_snoc unat_word_ariths)
qed

lemma tailValue_bound: "length bs \<le> 7 \<Longrightarrow> unat (tailValue bs) < 256 ^ length bs"
proof (induction bs rule: rev_induct)
  case Nil
  show ?case by (simp add: tailValue_def)
next
  case (snoc b bs)
  then have ih: "unat (tailValue bs) < 256 ^ length bs" by simp
  have "(256::nat) ^ length bs \<le> 256 ^ 6"
    using snoc.prems by (intro power_increasing) auto
  with ih have "unat (tailValue bs) < 2 ^ 56" by simp
  from unat_tailValue_snoc [OF this] ih unsigned_less [of b, where 'a = nat] show ?case
    by (simp) 
qed

lemma writeBlockBytes_tailValue: "length bs \<le> 7 \<Longrightarrow> writeBlockBytes (tailValue bs) (length bs) = bs"
proof (induction bs rule: rev_induct)
  case (snoc b bs)
  have "unat (tailValue bs) < 256 ^ length bs"
    using snoc.prems by (simp add: tailValue_bound)
  moreover have "(256::nat) ^ length bs \<le> 256 ^ 6"
    using snoc.prems by (intro power_increasing) auto
  ultimately have "unat (tailValue bs) < 2 ^ 56" by simp
  note v = unat_tailValue_snoc [OF this, of b]
  have "drop_bit 8 (tailValue (bs @ [b])) = tailValue bs"
    using unsigned_less [of b, where 'a = nat]
    by (intro word_unat_eq_iff [THEN iffD2]) (simp only: unat_drop_bit v, simp)
  moreover have "ucast (tailValue (bs @ [b])) = b"
    using unsigned_less [of b, where 'a = nat]
    by (intro word_unat_eq_iff [THEN iffD2])
      (simp add: unat_ucast v)
  ultimately show ?case using snoc by simp
qed simp

lemma blockValue7_tailValue: "length src \<ge> 7 \<Longrightarrow> blockValue7 src = tailValue (take 7 src)"
proof -
  assume "length src \<ge> 7"
  then obtain a b c d e f g rest where s: "src = a # b # c # d # e # f # g # rest"
    by (auto simp: Suc_le_length_iff numeral_eq_Suc)
  show ?thesis
    unfolding s blockValue7_def tailValue_def
    by (simp add: push_bit_or or.assoc)
qed

section \<open>Whole messages\<close>

text \<open>The widths of the two tables fit: \<open>k\<close> bytes always fit in their number of characters.\<close>

lemma chars_by_bytes_fit:
  assumes "0 < k" "k \<le> 7"
  shows "(256::nat) ^ k \<le> 36 ^ (lowerBase36EncodedCharsByBytes ! k)"
proof -
  have "k = 1 \<or> k = 2 \<or> k = 3 \<or> k = 4 \<or> k = 5 \<or> k = 6 \<or> k = 7"
    using assms by arith
  then show ?thesis
    by (elim disjE) (simp_all add: lowerBase36EncodedCharsByBytes_def)
qed

lemma bytes_by_chars_inverse:
  "k < 7 \<Longrightarrow> lowerBase36DecodedBytesByChars ! (lowerBase36EncodedCharsByBytes ! k) = k"
  "k < 7 \<Longrightarrow> lowerBase36EncodedCharsByBytes ! k < 11"
  "k < 7 \<Longrightarrow> 0 < k \<Longrightarrow> 0 < lowerBase36EncodedCharsByBytes ! k"
proof -
  have "\<forall>k \<in> set [0..<7]. lowerBase36DecodedBytesByChars ! (lowerBase36EncodedCharsByBytes ! k) = k \<and>
      lowerBase36EncodedCharsByBytes ! k < 11 \<and> (0 < k \<longrightarrow> 0 < lowerBase36EncodedCharsByBytes ! k)"
    by code_simp
  then show "k < 7 \<Longrightarrow> lowerBase36DecodedBytesByChars ! (lowerBase36EncodedCharsByBytes ! k) = k"
    "k < 7 \<Longrightarrow> lowerBase36EncodedCharsByBytes ! k < 11"
    "k < 7 \<Longrightarrow> 0 < k \<Longrightarrow> 0 < lowerBase36EncodedCharsByBytes ! k"
    by simp_all
qed

lemma read_write_block:
  assumes "0 < length bs" "length bs \<le> 7"
  shows "readBase36Block (writeBase36Block (tailValue bs) (lowerBase36EncodedCharsByBytes ! length bs)) = Inr (tailValue bs)"
  using tailValue_bound [of bs] chars_by_bytes_fit [of "length bs"] assms
  by (intro read_write_base36) linarith

lemma length_EncodeLowerBase36To:
  "length (EncodeLowerBase36To src) =
     (length src div 7) * 11 + lowerBase36EncodedCharsByBytes ! (length src mod 7)"
proof (induction src rule: EncodeLowerBase36To.induct)
  case (1 src)
  show ?case
  proof (cases "length src \<ge> 7")
    case True
    then have "length src div 7 = Suc (length (drop 7 src) div 7)" "length src mod 7 = length (drop 7 src) mod 7"
      by (simp_all add: le_div_geq le_mod_geq)
    with True 1 show ?thesis
      by (simp add: EncodeLowerBase36To.simps [of src])
  next
    case False
    then show ?thesis
      by (simp add: EncodeLowerBase36To.simps [of src] lowerBase36EncodedCharsByBytes_def)
  qed
qed

lemma decodeBlocks_EncodeLowerBase36To: "decodeBlocks (EncodeLowerBase36To src) = Inr src"
proof (induction src rule: EncodeLowerBase36To.induct)
  case (1 src)
  consider (full) "length src \<ge> 7" | (part) "length src < 7" "src \<noteq> []" | (empty) "src = []"
    by fastforce
  then show ?case
  proof cases
    case full
    let ?b = "writeBase36Block (blockValue7 src) 11"
    have v: "blockValue7 src = tailValue (take 7 src)" using full by (rule blockValue7_tailValue)
    have r: "readBase36Block ?b = Inr (tailValue (take 7 src))"
      using read_write_block [of "take 7 src"] full by (simp add: v lowerBase36EncodedCharsByBytes_def)
    have w: "writeBlockBytes (tailValue (take 7 src)) 7 = take 7 src"
      using writeBlockBytes_tailValue [of "take 7 src"] full by simp
    have e: "EncodeLowerBase36To src = ?b @ EncodeLowerBase36To (drop 7 src)"
      using full by (simp add: EncodeLowerBase36To.simps [of src])
    have "?b \<noteq> []"
      by (metis length_writeBase36Block list.size(3) zero_neq_numeral)
    then show ?thesis
      using 1 full r w
      by (simp add: e decodeBlocks.simps [of "_ @ _"] lowerBase36NextDecodeBlock_def)
  next
    case part
    let ?k = "length src"
    let ?b = "writeBase36Block (tailValue src) (lowerBase36EncodedCharsByBytes ! ?k)"
    have k: "?k < 7" "0 < ?k" using part by auto
    have e: "EncodeLowerBase36To src = ?b"
      using part by (simp add: EncodeLowerBase36To.simps [of src])
    have r: "readBase36Block ?b = Inr (tailValue src)"
      using k by (intro read_write_block) auto
    have "?b \<noteq> []"
      using bytes_by_chars_inverse(3) [of ?k] k by (metis length_writeBase36Block list.size(3) less_irrefl)
    then show ?thesis
      using k r bytes_by_chars_inverse [of ?k] writeBlockBytes_tailValue [of src]
      by (simp add: e decodeBlocks.simps [of ?b] decodeBlocks.simps [of "[]"] lowerBase36NextDecodeBlock_def)
  next
    case empty
    then show ?thesis by (simp add: EncodeLowerBase36To.simps [of "[]"] decodeBlocks.simps [of "[]"])
  qed
qed

lemma EncodeLowerBase36To_eq_Nil [simp]: "EncodeLowerBase36To src = [] \<longleftrightarrow> src = []"
proof
  assume "EncodeLowerBase36To src = []"
  with decodeBlocks_EncodeLowerBase36To [of src] show "src = []"
    by (simp add: decodeBlocks.simps [of "[]"])
qed (simp add: EncodeLowerBase36To.simps)

lemma decodedLen_encoded:
  assumes "src \<noteq> []"
  shows "decodedLenLowerBase36 (int (length (EncodeLowerBase36To src))) = Inr (length src)"
proof -
  let ?n = "length (EncodeLowerBase36To src)" and ?k = "length src mod 7"
  let ?c = "lowerBase36EncodedCharsByBytes ! ?k"
  have k: "?k < 7" by simp
  have c: "?c < 11" "lowerBase36DecodedBytesByChars ! ?c = ?k" "?k = 0 \<Longrightarrow> ?c = 0"
    using bytes_by_chars_inverse [OF k] by (simp_all add: lowerBase36EncodedCharsByBytes_def)
  have n: "?n div 11 = length src div 7" "?n mod 11 = ?c"
    using c(1) by (simp_all add: length_EncodeLowerBase36To)
  have "nat (int ?n div 11) = ?n div 11" "nat (int ?n mod 11) = ?n mod 11"
    by (simp_all add: nat_div_distrib nat_mod_distrib)
  moreover have "length lowerBase36DecodedBytesByChars = 12"
    by (simp add: lowerBase36DecodedBytesByChars_def)
  moreover have "int ?n > 0" using assms by simp
  moreover have "length src div 7 * 7 + ?k = length src" by simp
  ultimately show ?thesis
    using c n by (cases "?k = 0") (simp_all add: decodedLenLowerBase36_def Let_def)
qed

lemma DecodeLowerBase36_EncodeLowerBase36Bytes:
  "DecodeLowerBase36 (EncodeLowerBase36Bytes data) = Inr data"
  by (simp add: DecodeLowerBase36_def EncodeLowerBase36Bytes_def decodedLen_encoded
      decodeBlocks_EncodeLowerBase36To)

lemma EncodedLenLowerBase36_exact:
  "EncodedLenLowerBase36 (int (length data)) = int (length (EncodeLowerBase36Bytes data))"
  by (simp add: EncodedLenLowerBase36_def EncodeLowerBase36Bytes_def length_EncodeLowerBase36To
     nat_mod_distrib zdiv_int lowerBase36EncodedCharsByBytes_def)

lemma DecodeLowerBase36String_eq: "DecodeLowerBase36String = DecodeLowerBase36"
  by (rule ext) (simp add: DecodeLowerBase36String_def DecodeLowerBase36_def)

interpretation base36: code "\<lambda>data. Inr (EncodeLowerBase36Bytes data)" DecodeLowerBase36 "\<lambda>data. data"
  by unfold_locales (auto simp: DecodeLowerBase36_EncodeLowerBase36Bytes)

lemma DecodeString_Encode: "DecodeString (Encode x) = Inr x"
  by (cases "x = []")
    (simp_all add: DecodeString_def Encode_def EncodeLowerBase36_def DecodeLowerBase36String_eq
      DecodeLowerBase36_EncodeLowerBase36Bytes DecodeLowerBase36_def [of "[]"])

lemma Encode_eq_Nil [simp]: "Encode x = [] \<longleftrightarrow> x = []"
  by (simp add: Encode_def EncodeLowerBase36_def EncodeLowerBase36Bytes_def)

interpretation base_text: code "\<lambda>data. Inr (Encode data)" DecodeString "\<lambda>data. data"
  by unfold_locales (auto simp: DecodeString_Encode)

section \<open>Properties\<close>

text \<open>
  Decoding base-36 text gives back the bytes that were encoded, for the byte and for the text
  interface, and the length computed in advance is the exact length of the text.
\<close>

theorem base36_roundtrip:
  "DecodeLowerBase36 (EncodeLowerBase36Bytes data) = Inr data \<and> DecodeString (Encode data) = Inr data \<and>
   EncodedLenLowerBase36 (int (length data)) = int (length (EncodeLowerBase36Bytes data))"
  by (simp add: DecodeLowerBase36_EncodeLowerBase36Bytes DecodeString_Encode EncodedLenLowerBase36_exact)

end
