(* ===== verification/Compression.thy ===== *)
theory Compression
  imports Prelude
begin

text \<open>
  Package \<open>internal/compression\<close>: the choice of a compression type, the decision whether to
  compress a payload, and the framing and size limits around the three compressors. The
  compressors themselves (\<open>compress/flate\<close>, zstd, lz4) are code outside the repository: they are
  the fields of \<open>comp_lib\<close>, an argument of every definition that calls them.
\<close>

section \<open>Types\<close>

abbreviation TypeOff :: u8 where "TypeOff \<equiv> 0"
abbreviation TypeZSTD :: u8 where "TypeZSTD \<equiv> 1"
abbreviation TypeLZ4 :: u8 where "TypeLZ4 \<equiv> 2"
abbreviation TypeZLIB :: u8 where "TypeZLIB \<equiv> 3"
abbreviation DefaultMinSize :: int where "DefaultMinSize \<equiv> 100"
abbreviation maxDecompressedSize :: nat where "maxDecompressedSize \<equiv> 10 * 1024 * 1024"

definition availableTypeMask :: u8 where
  "availableTypeMask =
     push_bit (unat TypeOff) 1 OR push_bit (unat TypeZSTD) 1 OR push_bit (unat TypeLZ4) 1
       OR push_bit (unat TypeZLIB) 1"

definition normalizedPackedPairNibble :: "u8 list" where
  "normalizedPackedPairNibble =
     [TypeOff, TypeZSTD, TypeLZ4, TypeZLIB, TypeOff, TypeOff, TypeOff, TypeOff,
      TypeOff, TypeOff, TypeOff, TypeOff, TypeOff, TypeOff, TypeOff, TypeOff]"

definition NormalizeType :: "u8 \<Rightarrow> u8" where
  "NormalizeType value = (if value \<le> TypeZLIB then value else TypeOff)"

definition IsTypeAvailable :: "u8 \<Rightarrow> bool" where
  "IsTypeAvailable value =
     (let value = NormalizeType value in availableTypeMask AND push_bit (unat value) 1 \<noteq> 0)"

definition NormalizeAvailableType :: "u8 \<Rightarrow> u8" where
  "NormalizeAvailableType value =
     (if value > TypeZLIB \<or> availableTypeMask AND push_bit (unat value) 1 = 0 then TypeOff else value)"

definition PackPair :: "u8 \<Rightarrow> u8 \<Rightarrow> u8" where
  "PackPair uploadType downloadType =
     (let uploadType = (if uploadType > TypeZLIB then TypeOff else uploadType);
          downloadType = (if downloadType > TypeZLIB then TypeOff else downloadType)
      in push_bit 4 uploadType OR downloadType)"

definition SplitPair :: "u8 \<Rightarrow> u8 \<times> u8" where
  "SplitPair value =
     (normalizedPackedPairNibble ! unat (drop_bit 4 value AND 0x0F),
      normalizedPackedPairNibble ! unat (value AND 0x0F))"

definition TypeName :: "u8 \<Rightarrow> string" where
  "TypeName value =
     (let t = NormalizeType value in
      if t = TypeZSTD then ''ZSTD'' else if t = TypeLZ4 then ''LZ4''
      else if t = TypeZLIB then ''ZLIB'' else ''OFF'')"

section \<open>The compressors\<close>

text \<open>
  \<open>flate_deflate\<close> is \<open>flate.Writer\<close>'s \<open>Write\<close> then \<open>Close\<close>; \<open>flate_inflate n c\<close> copies from
  a limited reader over the decompressing stream: at most \<open>n\<close> bytes of output, the error that
  ended the copy if there was one, and how many bytes of \<open>c\<close> were left unread. \<open>zstd_encode\<close> is
  \<open>EncodeAll\<close>, \<open>zstd_reset\<close> the error of \<open>Decoder.Reset\<close>, \<open>zstd_read n c\<close> the limited copy.
  \<open>lz4_compress d n\<close> is \<open>CompressBlock\<close> into a buffer of \<open>n\<close> bytes (the bytes written),
  \<open>lz4_uncompress c n\<close> is \<open>UncompressBlock\<close> into a buffer of \<open>n\<close> bytes.
\<close>

record comp_lib =
  flate_deflate :: "bytes \<Rightarrow> bytes result"
  flate_inflate :: "nat \<Rightarrow> bytes \<Rightarrow> bytes \<times> go_error option \<times> nat"
  zstd_encode :: "bytes \<Rightarrow> bytes"
  zstd_reset :: "bytes \<Rightarrow> go_error option"
  zstd_read :: "nat \<Rightarrow> bytes \<Rightarrow> bytes \<times> go_error option"
  lz4_bound :: "nat \<Rightarrow> nat"
  lz4_compress :: "bytes \<Rightarrow> nat \<Rightarrow> bytes result"
  lz4_uncompress :: "bytes \<Rightarrow> nat \<Rightarrow> bytes result"

definition compressZLIB :: "comp_lib \<Rightarrow> bytes \<Rightarrow> bytes result" where
  "compressZLIB lib data = flate_deflate lib data"

definition decompressZLIB :: "comp_lib \<Rightarrow> bytes \<Rightarrow> bytes result" where
  "decompressZLIB lib data =
     (case flate_inflate lib (maxDecompressedSize + 1) data of
        (buffer, err, unread) \<Rightarrow>
          if err \<noteq> None \<or> unread \<noteq> 0 then Inl ErrUnexpectedEOF
          else if length buffer > maxDecompressedSize then Inl ErrDecompressedTooLarge
          else Inr buffer)"

definition compressZSTD :: "comp_lib \<Rightarrow> bytes \<Rightarrow> bytes result" where
  "compressZSTD lib data = Inr (zstd_encode lib data)"

definition decompressZSTD :: "comp_lib \<Rightarrow> bytes \<Rightarrow> bytes result" where
  "decompressZSTD lib data =
     (case zstd_reset lib data of
        Some err \<Rightarrow> Inl err
      | None \<Rightarrow>
          (case zstd_read lib (maxDecompressedSize + 1) data of
             (buffer, Some err) \<Rightarrow> Inl err
           | (buffer, None) \<Rightarrow>
               if length buffer > maxDecompressedSize then Inl ErrDecompressedTooLarge
               else Inr buffer))"

text \<open>\<open>binary.LittleEndian\<close> on 32-bit values is the big-endian field reversed.\<close>

definition put32le :: "u32 \<Rightarrow> bytes" where
  "put32le w = rev (put32 w)"

definition get32le :: "bytes \<Rightarrow> u32" where
  "get32le xs = be32 (xs ! 3) (xs ! 2) (xs ! 1) (xs ! 0)"

definition compressLZ4 :: "comp_lib \<Rightarrow> bytes \<Rightarrow> bytes result" where
  "compressLZ4 lib data =
     (let maxSize = lz4_bound lib (length data) in
      case lz4_compress lib data maxSize of
        Inl err \<Rightarrow> Inl err
      | Inr block \<Rightarrow>
          if block = [] then Inl ErrShortBuffer
          else Inr (put32le (of_nat (length data)) @ block))"

definition decompressLZ4 :: "comp_lib \<Rightarrow> bytes \<Rightarrow> bytes result" where
  "decompressLZ4 lib data =
     (if length data < 4 then Inl ErrUnexpectedEOF
      else let origSize = get32le data in
        if unat origSize > maxDecompressedSize then Inl ErrDecompressedTooLarge
        else case lz4_uncompress lib (drop 4 data) (unat origSize) of
          Inl err \<Rightarrow> Inl err
        | Inr written \<Rightarrow>
            let out = copy_at (replicate (unat origSize) 0) 0 written in
            if of_nat (length written) \<noteq> origSize then Inl ErrUnexpectedEOF else Inr out)"

definition CompressPayload :: "comp_lib \<Rightarrow> bytes \<Rightarrow> u8 \<Rightarrow> int \<Rightarrow> bytes \<times> u8" where
  "CompressPayload lib data compType minSize =
     (if data = [] then (data, TypeOff)
      else let compType = NormalizeAvailableType compType in
        if compType = TypeOff then (data, TypeOff)
        else let minSize = (if minSize \<le> 0 then DefaultMinSize else minSize) in
          if int (length data) \<le> minSize then (data, TypeOff)
          else case (if compType = TypeZLIB then compressZLIB lib data
                     else if compType = TypeZSTD then compressZSTD lib data
                     else compressLZ4 lib data) of
              Inl err \<Rightarrow> (data, TypeOff)
            | Inr compData \<Rightarrow>
                if length compData \<ge> length data then (data, TypeOff) else (compData, compType))"

definition TryDecompressPayload :: "comp_lib \<Rightarrow> bytes \<Rightarrow> u8 \<Rightarrow> bytes option" where
  "TryDecompressPayload lib data compType =
     (if data = [] then Some data
      else let compType = NormalizeAvailableType compType in
        if compType = TypeOff then Some data
        else case (if compType = TypeZLIB then decompressZLIB lib data
                   else if compType = TypeZSTD then decompressZSTD lib data
                   else decompressLZ4 lib data) of
            Inl err \<Rightarrow> None
          | Inr out \<Rightarrow> Some out)"

section \<open>Type pairs\<close>

lemma le_TypeZLIB_iff:
  "(v::u8) \<le> TypeZLIB \<longleftrightarrow> v = TypeOff \<or> v = TypeZSTD \<or> v = TypeLZ4 \<or> v = TypeZLIB"
proof
  assume "v \<le> TypeZLIB"
  then have "unat v = 0 \<or> unat v = 1 \<or> unat v = 2 \<or> unat v = 3"
    by (simp add: word_le_nat_alt) arith
  then show "v = TypeOff \<or> v = TypeZSTD \<or> v = TypeLZ4 \<or> v = TypeZLIB"
    by (simp add: word_unat_eq_iff)
qed auto

lemma NormalizeAvailableType_eq: "NormalizeAvailableType v = NormalizeType v"
proof (cases "v \<le> TypeZLIB")
  case True
  then consider "v = TypeOff" | "v = TypeZSTD" | "v = TypeLZ4" | "v = TypeZLIB"
    unfolding le_TypeZLIB_iff by blast
  then show ?thesis
    by cases (simp_all add: NormalizeAvailableType_def NormalizeType_def availableTypeMask_def)
next
  case False
  then show ?thesis
    by (auto simp: NormalizeAvailableType_def NormalizeType_def not_le)
qed

lemma NormalizeType_cases:
  obtains "NormalizeType v = TypeOff" | "NormalizeType v = TypeZSTD"
  | "NormalizeType v = TypeLZ4" | "NormalizeType v = TypeZLIB"
proof (cases "v \<le> TypeZLIB")
  case True
  with le_TypeZLIB_iff [of v] that show thesis by (auto simp: NormalizeType_def)
next
  case False
  then have "NormalizeType v = TypeOff" by (simp add: NormalizeType_def)
  then show thesis by (rule that(1))
qed

lemma SplitPair_PackPair: "SplitPair (PackPair u d) = (NormalizeType u, NormalizeType d)"
proof -
  have *: "PackPair u d = push_bit 4 (NormalizeType u) OR NormalizeType d"
    by (cases "u \<le> TypeZLIB"; cases "d \<le> TypeZLIB")
      (auto simp: PackPair_def NormalizeType_def not_le)
  show ?thesis
    unfolding *
    by (rule NormalizeType_cases [of u]; rule NormalizeType_cases [of d])
      (simp_all add: SplitPair_def normalizedPackedPairNibble_def)
qed

section \<open>Compression and decompression\<close>

lemma CompressPayload_result:
  "CompressPayload lib data t m = (c, t') \<Longrightarrow>
     c = data \<and> t' = TypeOff \<or>
     length c < length data \<and> t' = NormalizeType t \<and> t' \<noteq> TypeOff \<and>
       (if 0 < m then m else DefaultMinSize) < int (length data)"
  by (auto simp: CompressPayload_def NormalizeAvailableType_eq Let_def split: if_splits sum.splits)

lemma decompressed_bounded:
  "decompressZLIB lib c = Inr out \<Longrightarrow> length out \<le> maxDecompressedSize"
  "decompressZSTD lib c = Inr out \<Longrightarrow> length out \<le> maxDecompressedSize"
  "decompressLZ4 lib c = Inr out \<Longrightarrow> length out \<le> maxDecompressedSize"
  by (auto simp: decompressZLIB_def decompressZSTD_def decompressLZ4_def Let_def
      split: if_splits prod.splits option.splits sum.splits)

lemma TryDecompressPayload_off: "TryDecompressPayload lib c TypeOff = Some d \<longleftrightarrow> c = d"
  by (simp add: TryDecompressPayload_def NormalizeAvailableType_eq NormalizeType_def)

lemma TryDecompressPayload_bounded:
  "TryDecompressPayload lib c t = Some out \<Longrightarrow>
     out = c \<or> length out \<le> maxDecompressedSize"
  by (auto simp: TryDecompressPayload_def Let_def simp del: mult_numeral_left
      split: if_splits sum.splits dest: decompressed_bounded)

text \<open>
  What the code relies on of the three libraries: reading back a compressed block gives the
  block, and a compressor does not produce the empty sequence.
\<close>

definition comp_lib_roundtrip :: "comp_lib \<Rightarrow> bool" where
  "comp_lib_roundtrip lib \<longleftrightarrow>
     (\<forall>d c n. flate_deflate lib d = Inr c \<and> length d < n \<longrightarrow>
        c \<noteq> [] \<and> flate_inflate lib n c = (d, None, 0)) \<and>
     (\<forall>d n. d \<noteq> [] \<and> length d < n \<longrightarrow>
        zstd_encode lib d \<noteq> [] \<and> zstd_reset lib (zstd_encode lib d) = None \<and>
        zstd_read lib n (zstd_encode lib d) = (d, None)) \<and>
     (\<forall>d n c. lz4_compress lib d n = Inr c \<and> c \<noteq> [] \<longrightarrow> lz4_uncompress lib c (length d) = Inr d)"

lemma comp_lib_roundtripD:
  assumes "comp_lib_roundtrip lib" "length d < n"
  shows "flate_deflate lib d = Inr c \<Longrightarrow> c \<noteq> [] \<and> flate_inflate lib n c = (d, None, 0)"
    and "d \<noteq> [] \<Longrightarrow> zstd_encode lib d \<noteq> [] \<and> zstd_reset lib (zstd_encode lib d) = None \<and>
        zstd_read lib n (zstd_encode lib d) = (d, None)"
    and "lz4_compress lib d k = Inr c \<Longrightarrow> c \<noteq> [] \<Longrightarrow> lz4_uncompress lib c (length d) = Inr d"
  using assms unfolding comp_lib_roundtrip_def by blast+

lemma get32le_put32le [simp]: "get32le (put32le w @ xs) = w"
  by (simp add: get32le_def put32le_def put32_def be32_put32)

lemma unat_of_nat_size: "n \<le> maxDecompressedSize \<Longrightarrow> unat (of_nat n :: u32) = n"
  by (simp add: unat_word_of_nat)

lemma compress_decompress:
  assumes lib: "comp_lib_roundtrip lib" and len: "length d \<le> maxDecompressedSize" and "d \<noteq> []"
  shows "compressZLIB lib d = Inr c \<Longrightarrow> c \<noteq> [] \<and> decompressZLIB lib c = Inr d"
    and "compressZSTD lib d = Inr c \<Longrightarrow> c \<noteq> [] \<and> decompressZSTD lib c = Inr d"
    and "compressLZ4 lib d = Inr c \<Longrightarrow> c \<noteq> [] \<and> decompressLZ4 lib c = Inr d"
proof -
  have lt: "length d < maxDecompressedSize + 1" using len by simp
  note laws = comp_lib_roundtripD [OF lib lt]
  show "compressZLIB lib d = Inr c \<Longrightarrow> c \<noteq> [] \<and> decompressZLIB lib c = Inr d"
    using laws(1) [of c] len by (auto simp: compressZLIB_def decompressZLIB_def)
  show "compressZSTD lib d = Inr c \<Longrightarrow> c \<noteq> [] \<and> decompressZSTD lib c = Inr d"
    using laws(2) len \<open>d \<noteq> []\<close> by (auto simp: compressZSTD_def decompressZSTD_def)
  assume "compressLZ4 lib d = Inr c"
  then obtain block where block: "lz4_compress lib d (lz4_bound lib (length d)) = Inr block"
    and "block \<noteq> []" and c: "c = put32le (of_nat (length d)) @ block"
    by (auto simp: compressLZ4_def Let_def split: sum.splits if_splits)
  with laws(3) have "lz4_uncompress lib block (length d) = Inr d" by blast
  moreover have "drop 4 c = block" "\<not> length c < 4"
    by (simp_all add: c put32le_def)
  moreover have "unat (of_nat (length d) :: u32) = length d" using len by (rule unat_of_nat_size)
  ultimately show "c \<noteq> [] \<and> decompressLZ4 lib c = Inr d"
    using len \<open>block \<noteq> []\<close> by (simp add: decompressLZ4_def c Let_def copy_at_def)
qed

lemma TryDecompressPayload_CompressPayload:
  assumes lib: "comp_lib_roundtrip lib" and len: "length d \<le> maxDecompressedSize"
    and c: "CompressPayload lib d t m = (c, t')"
  shows "TryDecompressPayload lib c t' = Some d"
proof (cases "t' = TypeOff")
  case True
  with CompressPayload_result [OF c] show ?thesis
    by (auto simp: TryDecompressPayload_def NormalizeAvailableType_eq NormalizeType_def)
next
  case False
  with CompressPayload_result [OF c] have t': "t' = NormalizeType t" "NormalizeType t' = t'"
    and "d \<noteq> []" by (auto simp: NormalizeType_def)
  note rt = compress_decompress [OF lib len \<open>d \<noteq> []\<close>]
  from c False \<open>d \<noteq> []\<close> consider "t' = TypeZLIB" "compressZLIB lib d = Inr c"
    | "t' = TypeZSTD" "compressZSTD lib d = Inr c" | "t' = TypeLZ4" "compressLZ4 lib d = Inr c"
    by (rule_tac NormalizeType_cases [of t])
      (auto simp: CompressPayload_def NormalizeAvailableType_eq Let_def split: if_splits sum.splits)
  then show ?thesis
    by cases (simp_all add: rt TryDecompressPayload_def NormalizeAvailableType_eq NormalizeType_def)
qed

section \<open>A stored-block instance\<close>

text \<open>
  A library whose three compressors shorten a constant block to three bytes and store any other one;
  it satisfies the assumed behaviour.
\<close>

definition run_encode :: "bytes \<Rightarrow> bytes" where
  "run_encode d =
     (if d \<noteq> [] \<and> length d < 256 \<and> d = replicate (length d) (hd d) then [1, hd d, of_nat (length d)] else 0 # d)"

definition run_decode :: "bytes \<Rightarrow> bytes" where
  "run_decode c = (if hd c = 1 then replicate (unat (c ! 2)) (c ! 1) else tl c)"

definition run_lib :: comp_lib where
  "run_lib =
     \<lparr>flate_deflate = (\<lambda>d. Inr (run_encode d)), flate_inflate = (\<lambda>n c. (take n (run_decode c), None, 0)),
      zstd_encode = run_encode, zstd_reset = (\<lambda>c. None), zstd_read = (\<lambda>n c. (take n (run_decode c), None)),
      lz4_bound = (\<lambda>n. n + 16), lz4_compress = (\<lambda>d n. Inr (run_encode d)),
      lz4_uncompress = (\<lambda>c n. Inr (run_decode c))\<rparr>"

lemma run_decode_encode: "run_decode (run_encode d) = d" "run_encode d \<noteq> []"
  by (auto simp: run_decode_def run_encode_def unat_word_of_nat)

lemma run_lib_roundtrip: "comp_lib_roundtrip run_lib"
  by (simp add: comp_lib_roundtrip_def run_lib_def run_decode_encode)

section \<open>Properties\<close>

text \<open>
  (C37) What \<open>CompressPayload\<close> returns is decompressed to the original payload under the type it
  reports, for payloads up to the decompression limit; it never makes a payload longer, and it reports
  compression only when the payload became shorter.
\<close>

theorem compression_roundtrip:
  assumes "comp_lib_roundtrip lib" "length d \<le> maxDecompressedSize" "CompressPayload lib d t m = (c, t')"
  shows "TryDecompressPayload lib c t' = Some d \<and> length c \<le> length d \<and>
    (t' \<noteq> TypeOff \<longrightarrow> length c < length d \<and> t' = NormalizeType t)"
  using TryDecompressPayload_CompressPayload [OF assms] CompressPayload_result [OF assms(3)] by auto

theorem compression_roundtrip_witness:
  "TryDecompressPayload run_lib [1, 7, 5] TypeZSTD = Some [7, 7, 7, 7, 7]"
proof -
  have "CompressPayload run_lib [7, 7, 7, 7, 7] TypeZSTD 3 = ([1, 7, 5], TypeZSTD)"
    by code_simp
  with compression_roundtrip [OF run_lib_roundtrip, of "[7, 7, 7, 7, 7]" TypeZSTD 3] show ?thesis by simp
qed

text \<open>
  A peer cannot make the receiver allocate more than the limit: a successful decompression
  yields at most ten MiB, whatever the bytes and whatever the libraries do.
\<close>

theorem decompression_bounded:
  assumes "TryDecompressPayload lib c t = Some out" "NormalizeType t \<noteq> TypeOff"
  shows "length out \<le> maxDecompressedSize"
  using assms
  by (auto simp: TryDecompressPayload_def Let_def NormalizeAvailableType_eq simp del: mult_numeral_left
      split: if_splits sum.splits dest: decompressed_bounded)

theorem decompression_bounded_witness:
  "length (the (TryDecompressPayload run_lib [1, 7, 5] TypeZSTD)) \<le> maxDecompressedSize"
proof -
  have "CompressPayload run_lib [7, 7, 7, 7, 7] TypeZSTD 3 = ([1, 7, 5], TypeZSTD)"
    by code_simp
  then have "TryDecompressPayload run_lib [1, 7, 5] TypeZSTD = Some [7, 7, 7, 7, 7]"
    by (rule TryDecompressPayload_CompressPayload [OF run_lib_roundtrip, rotated]) simp
  with decompression_bounded [of run_lib "[1, 7, 5]" TypeZSTD] show ?thesis by (simp add: NormalizeType_def)
qed

text \<open>
  The upload and download types packed in one byte are read back, unknown types as off.
\<close>

theorem compression_pair_roundtrip: "SplitPair (PackPair u d) = (NormalizeType u, NormalizeType d)"
  by (rule SplitPair_PackPair)

end
