(* ===== verification/Security.thy ===== *)
theory Security
  imports BaseCodec
begin

text \<open>
  Package \<open>internal/security\<close>, file \<open>codec.go\<close>: key derivation, the six encryption methods and
  their composition with the text code. The ciphers and hashes (\<open>crypto/*\<close>, \<open>x/crypto/chacha20\<close>)
  are the fields of \<open>crypto_lib\<close>; \<open>crypto/rand.Read\<close> is an argument that gives the bytes read or
  its error. Reuse of pooled buffers does not change what a call returns and is not modelled.
\<close>

record crypto_lib =
  chacha_xor :: "bytes \<Rightarrow> bytes \<Rightarrow> u32 \<Rightarrow> bytes \<Rightarrow> bytes result"
  aes_gcm_new :: "bytes \<Rightarrow> go_error option"
  aes_gcm_seal :: "bytes \<Rightarrow> bytes \<Rightarrow> bytes \<Rightarrow> bytes"
  aes_gcm_open :: "bytes \<Rightarrow> bytes \<Rightarrow> bytes \<Rightarrow> bytes result"
  sha256_sum :: "bytes \<Rightarrow> bytes"
  md5_sum :: "bytes \<Rightarrow> bytes"

type_synonym rand_read = "nat \<Rightarrow> bytes result"

abbreviation chachaNonceSize :: nat where "chachaNonceSize \<equiv> 16"
abbreviation aesNonceSize :: nat where "aesNonceSize \<equiv> 12"

record codec =
  codec_method :: int
  codec_key :: bytes
  codec_encrypt :: "rand_read \<Rightarrow> bytes \<Rightarrow> bytes result"
  codec_decrypt :: "bytes \<Rightarrow> bytes result"

section \<open>Keys\<close>

definition requiredDerivedKeyLength :: "int \<Rightarrow> nat" where
  "requiredDerivedKeyLength m =
     (if m = 2 \<or> m = 5 then 32 else if m = 3 then 16 else if m = 4 then 24 else 32)"

definition deriveKey :: "crypto_lib \<Rightarrow> int \<Rightarrow> gostring \<Rightarrow> bytes" where
  "deriveKey lib m rawKey =
     (let bKey = rawKey; targetLen = requiredDerivedKeyLength m in
      if m = 2 \<or> m = 5 then sha256_sum lib bKey
      else if m = 3 then md5_sum lib bKey
      else copy_at (replicate targetLen 0) 0 bKey)"

section \<open>Ciphers\<close>

definition noCrypto :: "rand_read \<Rightarrow> bytes \<Rightarrow> bytes result" where
  "noCrypto rnd data = Inr data"

text \<open>The two loops of \<open>xorCrypto\<close>: whole blocks of the key's length, then the rest.\<close>

function xorBlocks :: "bytes \<Rightarrow> bytes \<Rightarrow> bytes" where
  "xorBlocks k data =
     (if k \<noteq> [] \<and> length data \<ge> length k
      then map2 (XOR) (take (length k) data) k @ xorBlocks k (drop (length k) data)
      else map2 (XOR) data (take (length data) k))"
  by pat_completeness auto
termination
  by (relation "measure (\<lambda>(k, data). length data)") (auto intro!: diff_less)

declare xorBlocks.simps [simp del]

definition xorCrypto :: "bytes \<Rightarrow> bytes \<Rightarrow> bytes result" where
  "xorCrypto k data =
     (if data = [] \<or> k = [] then Inr data
      else if length k = 1 then Inr (map (\<lambda>b. b XOR k ! 0) data)
      else Inr (xorBlocks k data))"

text \<open>\<open>binary.LittleEndian.Uint32\<close> of the first four nonce bytes.\<close>

definition le32 :: "bytes \<Rightarrow> u32" where
  "le32 xs = be32 (xs ! 3) (xs ! 2) (xs ! 1) (xs ! 0)"

definition chachaEncrypt :: "crypto_lib \<Rightarrow> bytes \<Rightarrow> rand_read \<Rightarrow> bytes \<Rightarrow> bytes result" where
  "chachaEncrypt lib k rnd data =
     (if data = [] then Inr []
      else case rnd chachaNonceSize of
        Inl err \<Rightarrow> Inl err
      | Inr nonce \<Rightarrow>
          (case chacha_xor lib k (drop 4 nonce) (le32 nonce) data of
             Inl err \<Rightarrow> Inl err
           | Inr ct \<Rightarrow> Inr (nonce @ ct)))"

definition chachaDecrypt :: "crypto_lib \<Rightarrow> bytes \<Rightarrow> bytes \<Rightarrow> bytes result" where
  "chachaDecrypt lib k data =
     (if data = [] then Inr []
      else if length data \<le> chachaNonceSize then Inl ErrInvalidCiphertext
      else let nonce = take chachaNonceSize data; ciphertext = drop chachaNonceSize data in
        chacha_xor lib k (drop 4 nonce) (le32 nonce) ciphertext)"

definition makeAESEncryptor :: "crypto_lib \<Rightarrow> bytes \<Rightarrow> rand_read \<Rightarrow> bytes \<Rightarrow> bytes result" where
  "makeAESEncryptor lib k rnd src =
     (if src = [] then Inr []
      else case rnd aesNonceSize of
        Inl err \<Rightarrow> Inl err
      | Inr nonce \<Rightarrow> Inr (nonce @ aes_gcm_seal lib k nonce src))"

definition makeAESDecryptor :: "crypto_lib \<Rightarrow> bytes \<Rightarrow> bytes \<Rightarrow> bytes result" where
  "makeAESDecryptor lib k src =
     (if src = [] then Inr []
      else if length src \<le> aesNonceSize then Inl ErrInvalidCiphertext
      else let nonce = take aesNonceSize src; ciphertext = drop aesNonceSize src in
        case aes_gcm_open lib k nonce ciphertext of
          Inl err \<Rightarrow> Inl ErrInvalidCiphertext
        | Inr plaintext \<Rightarrow> Inr plaintext)"

definition NewCodec :: "crypto_lib \<Rightarrow> int \<Rightarrow> gostring \<Rightarrow> codec result" where
  "NewCodec lib m rawKey =
     (if m < 0 \<or> m > 5 then Inl ErrInvalidCodecMethod
      else let derivedKey = deriveKey lib m rawKey in
        if m = 0 then
          Inr \<lparr>codec_method = m, codec_key = derivedKey,
               codec_encrypt = noCrypto, codec_decrypt = (\<lambda>data. Inr data)\<rparr>
        else if m = 1 then
          Inr \<lparr>codec_method = m, codec_key = derivedKey,
               codec_encrypt = (\<lambda>rnd. xorCrypto derivedKey), codec_decrypt = xorCrypto derivedKey\<rparr>
        else if m = 2 then
          Inr \<lparr>codec_method = m, codec_key = derivedKey,
               codec_encrypt = chachaEncrypt lib derivedKey,
               codec_decrypt = chachaDecrypt lib derivedKey\<rparr>
        else case aes_gcm_new lib derivedKey of
          Some err \<Rightarrow> Inl err
        | None \<Rightarrow>
            Inr \<lparr>codec_method = m, codec_key = derivedKey,
                 codec_encrypt = makeAESEncryptor lib derivedKey,
                 codec_decrypt = makeAESDecryptor lib derivedKey\<rparr>)"

section \<open>Codec operations; the receiver may be nil\<close>

definition codec_Encrypt :: "codec option \<Rightarrow> rand_read \<Rightarrow> bytes \<Rightarrow> bytes result" where
  "codec_Encrypt c rnd data =
     (case c of None \<Rightarrow> Inl ErrInvalidCodecMethod | Some c \<Rightarrow> codec_encrypt c rnd data)"

definition codec_Decrypt :: "codec option \<Rightarrow> bytes \<Rightarrow> bytes result" where
  "codec_Decrypt c data =
     (case c of None \<Rightarrow> Inl ErrInvalidCodecMethod | Some c \<Rightarrow> codec_decrypt c data)"

definition codec_Method :: "codec option \<Rightarrow> int" where
  "codec_Method c = (case c of None \<Rightarrow> 0 | Some c \<Rightarrow> codec_method c)"

definition EncryptAndEncode :: "codec option \<Rightarrow> rand_read \<Rightarrow> bytes \<Rightarrow> gostring result" where
  "EncryptAndEncode c rnd data =
     (case c of None \<Rightarrow> Inl ErrInvalidCodecMethod
      | Some c \<Rightarrow>
          if codec_method c = 0 then Inr (Encode data)
          else case codec_encrypt c rnd data of
            Inl err \<Rightarrow> Inl err
          | Inr encrypted \<Rightarrow> Inr (Encode encrypted))"

definition EncryptAndEncodeBytes :: "codec option \<Rightarrow> rand_read \<Rightarrow> bytes \<Rightarrow> bytes result" where
  "EncryptAndEncodeBytes c rnd data =
     (case c of None \<Rightarrow> Inl ErrInvalidCodecMethod
      | Some c \<Rightarrow>
          if codec_method c = 0 then Inr (EncodeToBytes data)
          else case codec_encrypt c rnd data of
            Inl err \<Rightarrow> Inl err
          | Inr encrypted \<Rightarrow> Inr (EncodeToBytes encrypted))"

definition DecodeAndDecrypt :: "codec option \<Rightarrow> bytes \<Rightarrow> bytes result" where
  "DecodeAndDecrypt c data =
     (case c of None \<Rightarrow> Inl ErrInvalidCodecMethod
      | Some c \<Rightarrow>
          (case Decode data of
             Inl err \<Rightarrow> Inl err
           | Inr decoded \<Rightarrow> if codec_method c = 0 then Inr decoded else codec_decrypt c decoded))"

definition DecodeStringAndDecrypt :: "codec option \<Rightarrow> gostring \<Rightarrow> bytes result" where
  "DecodeStringAndDecrypt c data =
     (case c of None \<Rightarrow> Inl ErrInvalidCodecMethod
      | Some c \<Rightarrow>
          (case DecodeString data of
             Inl err \<Rightarrow> Inl err
           | Inr decoded \<Rightarrow> if codec_method c = 0 then Inr decoded else codec_decrypt c decoded))"

section \<open>The XOR method\<close>

lemma length_xorBlocks: "k \<noteq> [] \<Longrightarrow> length (xorBlocks k data) = length data"
proof (induction k data rule: xorBlocks.induct)
  case (1 k data)
  then show ?case by (simp add: xorBlocks.simps [of k data])
qed

lemma nth_xorBlocks:
  "k \<noteq> [] \<Longrightarrow> i < length data \<Longrightarrow> xorBlocks k data ! i = data ! i XOR k ! (i mod length k)"
proof (induction k data arbitrary: i rule: xorBlocks.induct)
  case (1 k data)
  let ?n = "length k"
  show ?case
  proof (cases "length data \<ge> ?n \<and> ?n \<le> i")
    case True
    then have "xorBlocks k data ! i = xorBlocks k (drop ?n data) ! (i - ?n)"
      using 1 by (simp add: xorBlocks.simps [of k data] nth_append)
    also have "\<dots> = drop ?n data ! (i - ?n) XOR k ! ((i - ?n) mod ?n)"
      using 1 True by auto
    finally show ?thesis
      using 1 True by (simp add: le_mod_geq)
  next
    case False
    then have "i < ?n" using 1 by auto
    with 1 False show ?thesis
      by (auto simp: xorBlocks.simps [of k data] nth_append)
  qed
qed

text \<open>All three branches of \<open>xorCrypto\<close> compute the same repeating-key exclusive or.\<close>

lemma xorCrypto_eq:
  assumes "k \<noteq> []"
  shows "xorCrypto k data = Inr (map (\<lambda>i. data ! i XOR k ! (i mod length k)) [0..<length data])"
proof -
  consider "data = []" | "data \<noteq> []" "length k = 1" | "data \<noteq> []" "length k \<noteq> 1" by blast
  then show ?thesis
  proof cases
    case 2
    then obtain b where k: "k = [b]" by (auto simp: length_Suc_conv)
    have "map (\<lambda>x. x XOR b) data = map (\<lambda>i. data ! i XOR b) [0..<length data]"
      by (rule nth_equalityI) simp_all
    with 2 show ?thesis by (simp add: xorCrypto_def k)
  next
    case 3
    then show ?thesis
      using assms by (simp add: xorCrypto_def) (rule nth_equalityI; simp add: length_xorBlocks nth_xorBlocks)
  qed (simp add: xorCrypto_def)
qed

lemma xorCrypto_twice: "bind_result (xorCrypto k data) (xorCrypto k) = Inr data"
proof (cases "k = []")
  case True
  then show ?thesis by (simp add: xorCrypto_def)
next
  case False
  then show ?thesis
    by (auto simp: xorCrypto_eq xor.assoc intro!: nth_equalityI)
qed

section \<open>Round trip of the codec\<close>

text \<open>
  What the code relies on of the ciphers: the chacha20 key stream is an involution for one key,
  nonce and counter and keeps the length, \<open>Open\<close> accepts what \<open>Seal\<close> made and a sealed message
  is not empty; \<open>rand.Read\<close> fills the whole buffer.
\<close>

definition crypto_lib_ok :: "crypto_lib \<Rightarrow> bool" where
  "crypto_lib_ok lib \<longleftrightarrow>
     (\<forall>k n c d e. chacha_xor lib k n c d = Inr e \<longrightarrow>
        length e = length d \<and> chacha_xor lib k n c e = Inr d) \<and>
     (\<forall>k n d. aes_gcm_seal lib k n d \<noteq> [] \<and>
        aes_gcm_open lib k n (aes_gcm_seal lib k n d) = Inr d)"

definition rand_full :: "rand_read \<Rightarrow> bool" where
  "rand_full rnd \<longleftrightarrow> (\<forall>n bs. rnd n = Inr bs \<longrightarrow> length bs = n)"

lemma crypto_lib_okD:
  assumes "crypto_lib_ok lib"
  shows "chacha_xor lib k n c d = Inr e \<Longrightarrow> length e = length d"
    and "chacha_xor lib k n c d = Inr e \<Longrightarrow> chacha_xor lib k n c e = Inr d"
    and "aes_gcm_seal lib k n d \<noteq> []"
    and "aes_gcm_open lib k n (aes_gcm_seal lib k n d) = Inr d"
  using assms unfolding crypto_lib_ok_def by blast+

lemma chacha_roundtrip:
  assumes "crypto_lib_ok lib" "rand_full rnd" "chachaEncrypt lib k rnd d = Inr e"
  shows "chachaDecrypt lib k e = Inr d"
proof (cases "d = []")
  case True
  with assms show ?thesis by (simp add: chachaEncrypt_def chachaDecrypt_def)
next
  case False
  then obtain nonce ct where "rnd chachaNonceSize = Inr nonce"
    and ct: "chacha_xor lib k (drop 4 nonce) (le32 nonce) d = Inr ct" and e: "e = nonce @ ct"
    using assms(3) by (auto simp: chachaEncrypt_def split: sum.splits)
  then have "length nonce = 16" using assms(2) by (simp add: rand_full_def)
  moreover have "length ct = length d" "chacha_xor lib k (drop 4 nonce) (le32 nonce) ct = Inr d"
    using crypto_lib_okD(1,2) [OF assms(1) ct] by simp_all
  ultimately show ?thesis using False by (auto simp: chachaDecrypt_def e)
qed

lemma aes_roundtrip:
  assumes "crypto_lib_ok lib" "rand_full rnd" "makeAESEncryptor lib k rnd d = Inr e"
  shows "makeAESDecryptor lib k e = Inr d"
proof (cases "d = []")
  case True
  with assms show ?thesis by (simp add: makeAESEncryptor_def makeAESDecryptor_def)
next
  case False
  then obtain nonce where "rnd aesNonceSize = Inr nonce" and e: "e = nonce @ aes_gcm_seal lib k nonce d"
    using assms(3) by (auto simp: makeAESEncryptor_def split: sum.splits)
  then have "length nonce = 12" using assms(2) by (simp add: rand_full_def)
  then show ?thesis
    using crypto_lib_okD(3,4) [OF assms(1), of k nonce d] by (simp add: makeAESDecryptor_def e)
qed

lemma NewCodec_roundtrip:
  assumes "crypto_lib_ok lib" "rand_full rnd" and c: "NewCodec lib m rawKey = Inr c"
    and "codec_encrypt c rnd d = Inr e"
  shows "codec_decrypt c e = Inr d"
  using assms xorCrypto_twice [of "deriveKey lib m rawKey" d]
  by (auto simp: NewCodec_def Let_def noCrypto_def chacha_roundtrip aes_roundtrip
      split: if_splits option.splits)

text \<open>The labels of a query are a code for the frame, for every method.\<close>

lemma label_code:
  assumes "crypto_lib_ok lib" "rand_full rnd" "NewCodec lib m rawKey = Inr c"
  shows "code (EncryptAndEncode (Some c) rnd) (DecodeStringAndDecrypt (Some c)) (\<lambda>data. data)"
  using NewCodec_roundtrip [OF assms]
  by unfold_locales
    (auto simp: EncryptAndEncode_def DecodeStringAndDecrypt_def base_text.dec_enc
      split: if_splits sum.splits)

lemma codec_decrypt_Nil: "NewCodec lib m rawKey = Inr c \<Longrightarrow> codec_decrypt c [] = Inr []"
  by (auto simp: NewCodec_def Let_def xorCrypto_def chachaDecrypt_def makeAESDecryptor_def
      split: if_splits option.splits)

lemma DecodeStringAndDecrypt_Nil:
  "NewCodec lib m rawKey = Inr c \<Longrightarrow> DecodeStringAndDecrypt (Some c) [] = Inr []"
  by (simp add: DecodeStringAndDecrypt_def DecodeString_def DecodeLowerBase36String_def codec_decrypt_Nil)

lemma NewCodec_methods:
  "(\<exists>c. NewCodec lib m rawKey = Inr c) \<longleftrightarrow>
     m \<in> {0, 1, 2} \<or> m \<in> {3, 4, 5} \<and> aes_gcm_new lib (deriveKey lib m rawKey) = None"
  by (auto simp: NewCodec_def Let_def split: option.splits)

section \<open>An instance of the ciphers\<close>

definition example_crypto :: crypto_lib where
  "example_crypto =
     \<lparr>chacha_xor = (\<lambda>k n c d. Inr (map (\<lambda>b. b XOR 90) d)), aes_gcm_new = (\<lambda>k. None),
      aes_gcm_seal = (\<lambda>k n d. 1 # d), aes_gcm_open = (\<lambda>k n e. Inr (tl e)),
      sha256_sum = (\<lambda>k. replicate 32 7), md5_sum = (\<lambda>k. replicate 16 9)\<rparr>"

lemma example_crypto_ok: "crypto_lib_ok example_crypto"
  by (auto simp: crypto_lib_ok_def example_crypto_def comp_def xor.assoc intro: map_idI)

definition example_rand :: rand_read where
  "example_rand n = Inr (replicate n 3)"

lemma example_rand_full: "rand_full example_rand"
  by (simp add: rand_full_def example_rand_def)

section \<open>Properties\<close>

text \<open>
  (C38) For each of the six methods a constructed codec decrypts what it encrypted, and decoding and
  decrypting a label text gives back the bytes that were encrypted and encoded.
\<close>

theorem codec_roundtrip:
  assumes "crypto_lib_ok lib" "rand_full rnd" "NewCodec lib m rawKey = Inr c"
  shows "(codec_encrypt c rnd d = Inr e \<longrightarrow> codec_decrypt c e = Inr d) \<and>
    (EncryptAndEncode (Some c) rnd d = Inr labels \<longrightarrow> DecodeStringAndDecrypt (Some c) labels = Inr d)"
  using NewCodec_roundtrip [OF assms] code.dec_enc [OF label_code [OF assms]] by blast

theorem codec_roundtrip_witness:
  "\<exists>c labels. NewCodec example_crypto 1 [1, 2, 3] = Inr c \<and>
     EncryptAndEncode (Some c) example_rand [10, 20] = Inr labels \<and>
     DecodeStringAndDecrypt (Some c) labels = Inr [10, 20]"
proof -
  obtain c where c: "NewCodec example_crypto 1 [1, 2, 3] = Inr c" "codec_method c = 1"
      "codec_encrypt c = (\<lambda>rnd. xorCrypto (deriveKey example_crypto 1 [1, 2, 3]))"
    by (simp add: NewCodec_def Let_def)
  moreover obtain labels where "EncryptAndEncode (Some c) example_rand [10, 20] = Inr labels"
    using c xorCrypto_eq [of "deriveKey example_crypto 1 [1, 2, 3]" "[10, 20]"]
    by (auto simp: EncryptAndEncode_def deriveKey_def copy_at_def requiredDerivedKeyLength_def)
  ultimately show ?thesis
    using codec_roundtrip [OF example_crypto_ok example_rand_full c(1), of "[10, 20]" "[]" labels] by blast
qed

text \<open>
  (C39) The block-wise loops of \<open>xorCrypto\<close> compute the byte-wise exclusive or with the repeated key.
\<close>

theorem xor_optimised:
  assumes "k \<noteq> []"
  shows "xorCrypto k data = Inr (map (\<lambda>i. data ! i XOR k ! (i mod length k)) [0..<length data])"
  by (rule xorCrypto_eq [OF assms])

theorem xor_optimised_witness: "xorCrypto [1, 2] [7, 7, 7] = Inr [6, 5, 6]"
  using xor_optimised [of "[1, 2]" "[7, 7, 7]"] by (simp add: upt_rec)

end
