(* ===== verification/VpnProto.thy ===== *)
theory VpnProto
  imports Enums Compression Security
begin

text \<open>
  Package \<open>internal/vpnproto\<close>: the frame format of the tunnel (\<open>parser.go\<close>, \<open>builder.go\<close>), packed
  control blocks (\<open>packing.go\<close>, \<open>utils.go\<close>) and the combination with compression and encryption
  (\<open>payload.go\<close>). Buffers that the code allocates and fills by index are modelled as such; the
  lemmas show that every index is in range and what the buffer holds at the end.
\<close>

section \<open>Header extensions by packet type\<close>

abbreviation integrityLength :: nat where "integrityLength \<equiv> 2"
abbreviation minHeaderLength :: nat where "minHeaderLength \<equiv> 4"

text \<open>\<open>1 << iota\<close> starts at the third constant of its block, so the flags are 4, 8, 16, 32, 64.\<close>

abbreviation packetFlagValid :: u8 where "packetFlagValid \<equiv> 4"
abbreviation packetFlagStream :: u8 where "packetFlagStream \<equiv> 8"
abbreviation packetFlagSequence :: u8 where "packetFlagSequence \<equiv> 16"
abbreviation packetFlagFragment :: u8 where "packetFlagFragment \<equiv> 32"
abbreviation packetFlagCompression :: u8 where "packetFlagCompression \<equiv> 64"

definition validOnly :: "u8 list" where
  "validOnly = [
      PACKET_MTU_UP_RES, PACKET_MTU_DOWN_REQ, PACKET_SESSION_INIT, PACKET_SESSION_ACCEPT,
      PACKET_SESSION_BUSY, PACKET_SESSION_CLOSE, PACKET_PING, PACKET_PONG, PACKET_ERROR_DROP,
      PACKET_MTU_UP_REQ, PACKET_MTU_DOWN_RES]"

definition streamAndSeq :: "u8 list" where
  "streamAndSeq = [
      PACKET_STREAM_SYN, PACKET_STREAM_SYN_ACK, PACKET_STREAM_DATA, PACKET_STREAM_DATA_ACK,
      PACKET_STREAM_DATA_NACK, PACKET_STREAM_RESEND, PACKET_STREAM_CLOSE_WRITE,
      PACKET_STREAM_CLOSE_WRITE_ACK, PACKET_STREAM_CLOSE_READ, PACKET_STREAM_CLOSE_READ_ACK,
      PACKET_STREAM_RST, PACKET_STREAM_RST_ACK, PACKET_MTU_UP_REQ, PACKET_MTU_DOWN_RES,
      PACKET_SOCKS5_SYN, PACKET_SOCKS5_SYN_ACK, PACKET_STREAM_CONNECTED,
      PACKET_STREAM_CONNECTED_ACK, PACKET_STREAM_CONNECT_FAIL, PACKET_STREAM_CONNECT_FAIL_ACK,
      PACKET_SOCKS5_CONNECT_FAIL, PACKET_SOCKS5_CONNECT_FAIL_ACK, PACKET_SOCKS5_RULESET_DENIED,
      PACKET_SOCKS5_RULESET_DENIED_ACK, PACKET_SOCKS5_NETWORK_UNREACHABLE,
      PACKET_SOCKS5_NETWORK_UNREACHABLE_ACK, PACKET_SOCKS5_HOST_UNREACHABLE,
      PACKET_SOCKS5_HOST_UNREACHABLE_ACK, PACKET_SOCKS5_CONNECTION_REFUSED,
      PACKET_SOCKS5_CONNECTION_REFUSED_ACK, PACKET_SOCKS5_TTL_EXPIRED,
      PACKET_SOCKS5_TTL_EXPIRED_ACK, PACKET_SOCKS5_COMMAND_UNSUPPORTED,
      PACKET_SOCKS5_COMMAND_UNSUPPORTED_ACK, PACKET_SOCKS5_ADDRESS_TYPE_UNSUPPORTED,
      PACKET_SOCKS5_ADDRESS_TYPE_UNSUPPORTED_ACK, PACKET_SOCKS5_AUTH_FAILED,
      PACKET_SOCKS5_AUTH_FAILED_ACK, PACKET_SOCKS5_UPSTREAM_UNAVAILABLE,
      PACKET_SOCKS5_UPSTREAM_UNAVAILABLE_ACK, PACKET_SOCKS5_CONNECTED,
      PACKET_SOCKS5_CONNECTED_ACK, PACKET_DNS_QUERY_REQ, PACKET_DNS_QUERY_RES,
      PACKET_DNS_QUERY_REQ_ACK, PACKET_DNS_QUERY_RES_ACK]"

definition fragTypes :: "u8 list" where
  "fragTypes = [
      PACKET_STREAM_DATA, PACKET_STREAM_RESEND, PACKET_SOCKS5_SYN, PACKET_DNS_QUERY_REQ,
      PACKET_DNS_QUERY_RES, PACKET_DNS_QUERY_REQ_ACK, PACKET_DNS_QUERY_RES_ACK,
      PACKET_MTU_UP_REQ, PACKET_MTU_DOWN_RES]"

definition compTypes :: "u8 list" where
  "compTypes = [
      PACKET_STREAM_DATA, PACKET_STREAM_RESEND, PACKET_PACKED_CONTROL_BLOCKS,
      PACKET_DNS_QUERY_REQ, PACKET_DNS_QUERY_RES, PACKET_MTU_UP_REQ, PACKET_MTU_DOWN_RES]"

text \<open>One of the four loops: \<open>flags[packetType] |= extra\<close> for every type of a list.\<close>

definition set_flags :: "u8 \<Rightarrow> u8 list \<Rightarrow> u8 list \<Rightarrow> u8 list" where
  "set_flags extra types flags =
     foldl (\<lambda>flags t. flags[unat t := flags ! unat t OR extra]) flags types"

definition buildPacketFlags :: "u8 list" where
  "buildPacketFlags =
     (let flags = replicate 256 0;
          flags = set_flags packetFlagValid validOnly flags;
          flags = set_flags (packetFlagValid OR (packetFlagStream OR packetFlagSequence)) streamAndSeq flags;
          flags = set_flags packetFlagFragment fragTypes flags
      in set_flags (packetFlagValid OR packetFlagCompression) compTypes flags)"

definition packetFlags :: "u8 \<Rightarrow> u8" where
  "packetFlags packetType = buildPacketFlags ! unat packetType"

definition hasStreamExtension :: "u8 \<Rightarrow> bool" where
  "hasStreamExtension packetType \<longleftrightarrow> packetFlags packetType AND packetFlagStream \<noteq> 0"

definition hasSequenceExtension :: "u8 \<Rightarrow> bool" where
  "hasSequenceExtension packetType \<longleftrightarrow> packetFlags packetType AND packetFlagSequence \<noteq> 0"

definition hasFragmentExtension :: "u8 \<Rightarrow> bool" where
  "hasFragmentExtension packetType \<longleftrightarrow> packetFlags packetType AND packetFlagFragment \<noteq> 0"

definition hasCompressionExtension :: "u8 \<Rightarrow> bool" where
  "hasCompressionExtension packetType \<longleftrightarrow> packetFlags packetType AND packetFlagCompression \<noteq> 0"

section \<open>Parsing (\<open>parser.go\<close>)\<close>

record packet =
  SessionID :: u8
  PacketType :: u8
  SessionCookie :: u8
  HasStreamID :: bool
  StreamID :: u16
  HasSequenceNum :: bool
  SequenceNum :: u16
  HasFragmentInfo :: bool
  FragmentID :: u8
  TotalFragments :: u8
  HasCompressionType :: bool
  CompressionType :: u8
  HeaderLength :: nat
  Payload :: bytes

text \<open>The zero value \<open>Packet{}\<close>.\<close>

definition zero_packet :: packet where
  "zero_packet = \<lparr>SessionID = 0, PacketType = 0, SessionCookie = 0, HasStreamID = False, StreamID = 0,
     HasSequenceNum = False, SequenceNum = 0, HasFragmentInfo = False, FragmentID = 0,
     TotalFragments = 0, HasCompressionType = False, CompressionType = 0, HeaderLength = 0,
     Payload = []\<rparr>"

fun headerCheckLoop :: "nat \<Rightarrow> u8 \<Rightarrow> bytes \<Rightarrow> u8" where
  "headerCheckLoop idx acc [] = acc"
| "headerCheckLoop idx acc (value # rest) =
     headerCheckLoop (Suc idx) ((acc + (value + of_nat idx)) XOR push_bit (idx mod 4) value) rest"

definition computeHeaderCheckByte :: "bytes \<Rightarrow> u8" where
  "computeHeaderCheckByte header = headerCheckLoop 0 (of_nat (length header * 17 + 0x5D)) header"

text \<open>The length computation that \<open>parseFrom\<close>, \<open>BuildRaw\<close> and \<open>HeaderRawSize\<close> share.\<close>

definition flagsHeaderLen :: "u8 \<Rightarrow> nat" where
  "flagsHeaderLen flags =
     (let n = 2 + integrityLength;
          n = (if flags AND packetFlagStream \<noteq> 0 then n + 2 else n);
          n = (if flags AND packetFlagSequence \<noteq> 0 then n + 2 else n);
          n = (if flags AND packetFlagFragment \<noteq> 0 then n + 2 else n)
      in if flags AND packetFlagCompression \<noteq> 0 then n + 1 else n)"

definition parseFrom :: "bytes \<Rightarrow> nat \<Rightarrow> packet result" where
  "parseFrom data start =
     (let data = drop start data in
      if length data < minHeaderLength then Inl ErrVpnPacketTooShort
      else
        let packetType = data ! 1; flags = packetFlags packetType in
        if flags AND packetFlagValid = 0 then Inl ErrInvalidPacketType
        else if length data < flagsHeaderLen flags then Inl ErrVpnPacketTooShort
        else
          let p = zero_packet\<lparr>SessionID := data ! 0, PacketType := packetType\<rparr>;
              offset = 2;
              (p, offset) =
                (if flags AND packetFlagStream \<noteq> 0
                 then (p\<lparr>HasStreamID := True, StreamID := get16 data offset\<rparr>, offset + 2)
                 else (p, offset));
              (p, offset) =
                (if flags AND packetFlagSequence \<noteq> 0
                 then (p\<lparr>HasSequenceNum := True, SequenceNum := get16 data offset\<rparr>, offset + 2)
                 else (p, offset));
              (p, offset) =
                (if flags AND packetFlagFragment \<noteq> 0
                 then (p\<lparr>HasFragmentInfo := True, FragmentID := data ! offset,
                          TotalFragments := data ! (offset + 1)\<rparr>, offset + 2)
                 else (p, offset));
              (p, offset) =
                (if flags AND packetFlagCompression \<noteq> 0
                 then (p\<lparr>HasCompressionType := True, CompressionType := data ! offset\<rparr>, offset + 1)
                 else (p, offset));
              p = p\<lparr>SessionCookie := data ! offset\<rparr>;
              checkByte = data ! (offset + 1);
              expected = computeHeaderCheckByte (take (offset + 1) data)
          in
            if checkByte \<noteq> expected then Inl ErrInvalidHeaderCheck
            else Inr (p\<lparr>HeaderLength := offset + integrityLength,
                        Payload := drop (offset + integrityLength) data\<rparr>))"

definition ParseAtOffset :: "bytes \<Rightarrow> int \<Rightarrow> packet result" where
  "ParseAtOffset data offset =
     (if offset < 0 \<or> offset \<ge> int (length data) then Inl ErrVpnPacketTooShort
      else parseFrom data (nat offset))"

definition Parse :: "bytes \<Rightarrow> packet result" where
  "Parse data = ParseAtOffset data 0"

definition ParseFromLabels :: "gostring \<Rightarrow> codec option \<Rightarrow> packet result" where
  "ParseFromLabels labels c =
     (if c = None then Inl ErrCodecUnavailable
      else if labels = [] then Inl ErrInvalidEncodedData
      else case DecodeStringAndDecrypt c labels of Inl err \<Rightarrow> Inl err | Inr raw \<Rightarrow> Parse raw)"

section \<open>Building (\<open>builder.go\<close>)\<close>

record buildOptions =
  opt_SessionID :: u8
  opt_PacketType :: u8
  opt_SessionCookie :: u8
  opt_StreamID :: u16
  opt_SequenceNum :: u16
  opt_FragmentID :: u8
  opt_TotalFragments :: u8
  opt_CompressionType :: u8
  opt_Payload :: bytes

definition BuildRaw :: "buildOptions \<Rightarrow> bytes result" where
  "BuildRaw opts =
     (let flags = packetFlags (opt_PacketType opts) in
      if flags AND packetFlagValid = 0 then Inl ErrInvalidPacketType
      else
        let headerLen = flagsHeaderLen flags;
            raw = replicate (headerLen + length (opt_Payload opts)) 0;
            raw = raw[0 := opt_SessionID opts];
            raw = raw[1 := opt_PacketType opts];
            offset = 2;
            (raw, offset) =
              (if flags AND packetFlagStream \<noteq> 0
               then (raw[offset := hi8 (opt_StreamID opts), offset + 1 := lo8 (opt_StreamID opts)], offset + 2)
               else (raw, offset));
            (raw, offset) =
              (if flags AND packetFlagSequence \<noteq> 0
               then (raw[offset := hi8 (opt_SequenceNum opts), offset + 1 := lo8 (opt_SequenceNum opts)], offset + 2)
               else (raw, offset));
            (raw, offset) =
              (if flags AND packetFlagFragment \<noteq> 0
               then (raw[offset := opt_FragmentID opts, offset + 1 := opt_TotalFragments opts], offset + 2)
               else (raw, offset));
            (raw, offset) =
              (if flags AND packetFlagCompression \<noteq> 0
               then (raw[offset := opt_CompressionType opts], offset + 1)
               else (raw, offset));
            raw = raw[offset := opt_SessionCookie opts];
            offset = offset + 1;
            raw = raw[offset := computeHeaderCheckByte (take offset raw)];
            offset = offset + 1
        in Inr (copy_at raw offset (opt_Payload opts)))"

definition BuildEncoded :: "buildOptions \<Rightarrow> codec option \<Rightarrow> rand_read \<Rightarrow> gostring result" where
  "BuildEncoded opts c rnd =
     (case BuildRaw opts of
        Inl err \<Rightarrow> Inl err
      | Inr raw \<Rightarrow> if c = None then Inl ErrCodecUnavailable else EncryptAndEncode c rnd raw)"

definition HeaderRawSize :: "u8 \<Rightarrow> nat" where
  "HeaderRawSize packetType =
     (let flags = packetFlags packetType in
      if flags AND packetFlagValid = 0 then 0 else flagsHeaderLen flags)"

definition MaxHeaderRawSize :: nat where
  "MaxHeaderRawSize =
     foldl (\<lambda>maxSize i. let size = HeaderRawSize (of_nat i) in if size > maxSize then size else maxSize)
       0 [0..<256]"

definition MaxHeaderPacketType :: u8 where
  "MaxHeaderPacketType =
     fst (foldl (\<lambda>(bestType, maxSize) i.
            let size = HeaderRawSize (of_nat i) in
            if size > maxSize then (of_nat i, size) else (bestType, maxSize)) (0, 0) [0..<256])"

section \<open>Packed control blocks (\<open>packing.go\<close>, \<open>utils.go\<close>)\<close>

abbreviation PackedControlBlockSize :: nat where "PackedControlBlockSize \<equiv> 7"

definition IsPackableControlPacket :: "u8 \<Rightarrow> int \<Rightarrow> bool" where
  "IsPackableControlPacket packetType payloadLen =
     (if payloadLen \<noteq> 0 then False
      else packetType \<in> {
          PACKET_STREAM_DATA_ACK, PACKET_STREAM_DATA_NACK, PACKET_STREAM_SYN_ACK,
          PACKET_STREAM_CLOSE_WRITE_ACK, PACKET_STREAM_CLOSE_READ_ACK, PACKET_STREAM_RST_ACK,
          PACKET_SOCKS5_SYN_ACK, PACKET_STREAM_CONNECTED, PACKET_STREAM_CONNECTED_ACK,
          PACKET_STREAM_CONNECT_FAIL, PACKET_STREAM_CONNECT_FAIL_ACK, PACKET_SOCKS5_CONNECT_FAIL,
          PACKET_SOCKS5_RULESET_DENIED, PACKET_SOCKS5_NETWORK_UNREACHABLE,
          PACKET_SOCKS5_HOST_UNREACHABLE, PACKET_SOCKS5_CONNECTION_REFUSED,
          PACKET_SOCKS5_TTL_EXPIRED, PACKET_SOCKS5_COMMAND_UNSUPPORTED,
          PACKET_SOCKS5_ADDRESS_TYPE_UNSUPPORTED, PACKET_SOCKS5_AUTH_FAILED,
          PACKET_SOCKS5_UPSTREAM_UNAVAILABLE, PACKET_SOCKS5_CONNECTED,
          PACKET_SOCKS5_CONNECTED_ACK, PACKET_SOCKS5_CONNECT_FAIL_ACK,
          PACKET_SOCKS5_RULESET_DENIED_ACK, PACKET_SOCKS5_NETWORK_UNREACHABLE_ACK,
          PACKET_SOCKS5_HOST_UNREACHABLE_ACK, PACKET_SOCKS5_CONNECTION_REFUSED_ACK,
          PACKET_SOCKS5_TTL_EXPIRED_ACK, PACKET_SOCKS5_COMMAND_UNSUPPORTED_ACK,
          PACKET_SOCKS5_ADDRESS_TYPE_UNSUPPORTED_ACK, PACKET_SOCKS5_AUTH_FAILED_ACK,
          PACKET_SOCKS5_UPSTREAM_UNAVAILABLE_ACK, PACKET_DNS_QUERY_REQ_ACK,
          PACKET_DNS_QUERY_RES_ACK})"

text \<open>The arguments of a block: packet type, stream, sequence number, fragment, total.\<close>

type_synonym control_block = "u8 \<times> u16 \<times> u16 \<times> u8 \<times> u8"

definition AppendPackedControlBlock :: "bytes \<Rightarrow> control_block \<Rightarrow> bytes" where
  "AppendPackedControlBlock dst b =
     (case b of (ptype, streamID, sn, fragID, totalFrags) \<Rightarrow>
        dst @ [ptype, hi8 streamID, lo8 streamID, hi8 sn, lo8 sn, fragID, totalFrags])"

text \<open>
  \<open>ForEachPackedControlBlock\<close> calls \<open>yield\<close> once per block until it returns false; the callback's
  effects are threaded through a state. A nil payload is the empty list.
\<close>

function ForEachPackedControlBlock ::
  "bytes \<Rightarrow> (control_block \<Rightarrow> 's \<Rightarrow> bool \<times> 's) \<Rightarrow> 's \<Rightarrow> 's" where
  "ForEachPackedControlBlock payload yield s =
     (if PackedControlBlockSize \<le> length payload
      then case yield (payload ! 0, get16 payload 1, get16 payload 3, payload ! 5, payload ! 6) s of
             (True, s') \<Rightarrow> ForEachPackedControlBlock (drop PackedControlBlockSize payload) yield s'
           | (False, s') \<Rightarrow> s'
      else s)"
  by pat_completeness auto
termination
  by (relation "measure (\<lambda>(payload, _, _). length payload)") auto

declare ForEachPackedControlBlock.simps [simp del]

text \<open>The callback of \<open>DescribePackedControlBlocks\<close>: total, first-seen order, counts.\<close>

definition describeYield ::
  "control_block \<Rightarrow> nat \<times> u8 list \<times> (u8 \<rightharpoonup> nat) \<Rightarrow> bool \<times> nat \<times> u8 list \<times> (u8 \<rightharpoonup> nat)" where
  "describeYield b st =
     (case b of (ptype, _) \<Rightarrow> case st of (totalBlocks, order, counts) \<Rightarrow>
        (True, totalBlocks + 1,
         (if counts ptype = None then order @ [ptype] else order),
         counts(ptype \<mapsto> (case counts ptype of None \<Rightarrow> 1 | Some n \<Rightarrow> n + 1))))"

definition DescribePackedControlBlocks :: "bytes \<Rightarrow> int \<Rightarrow> string" where
  "DescribePackedControlBlocks payload maxKinds =
     (if payload = [] then ''Blocks(0)''
      else
        let maxKinds = (if maxKinds \<le> 0 then 4 else nat maxKinds);
            (totalBlocks, order, counts) =
              ForEachPackedControlBlock payload describeYield (0, [], Map.empty)
        in
          if totalBlocks = 0 then ''Blocks(0)''
          else
            let limit = (if length order > maxKinds then maxKinds else length order);
                part = (\<lambda>i. (if i > 0 then '', '' else '''') @ PacketTypeName (order ! i) @ '' x'' @
                          decimal (case counts (order ! i) of None \<Rightarrow> 0 | Some n \<Rightarrow> n))
            in ''Blocks('' @ decimal totalBlocks @ ''): '' @ concat (map part [0..<limit]) @
               (if length order > limit
                then '', +'' @ decimal (length order - limit) @ '' more types'' else ''''))"

definition CalculateMaxPackedBlocks :: "int \<Rightarrow> int \<Rightarrow> int \<Rightarrow> int" where
  "CalculateMaxPackedBlocks mtu percent absoluteMax =
     (let mtu = max mtu 1; percent = max percent 30;
          effectiveSize = (mtu * percent) div 100
      in max (min (max (effectiveSize div int PackedControlBlockSize) 1) absoluteMax) 1)"

section \<open>Compression and encryption of frames (\<open>payload.go\<close>)\<close>

definition PreparePayload :: "comp_lib \<Rightarrow> u8 \<Rightarrow> bytes \<Rightarrow> u8 \<Rightarrow> int \<Rightarrow> bytes \<times> u8" where
  "PreparePayload lib packetType payload requestedCompression minSize =
     (let requestedCompression = NormalizeAvailableType requestedCompression in
      if requestedCompression = TypeOff then (payload, TypeOff)
      else if \<not> hasCompressionExtension packetType then (payload, TypeOff)
      else if payload = [] then (payload, TypeOff)
      else CompressPayload lib payload requestedCompression minSize)"

definition InflatePayload :: "comp_lib \<Rightarrow> packet \<Rightarrow> packet result" where
  "InflatePayload lib p =
     (if \<not> HasCompressionType p \<or> CompressionType p = TypeOff then Inr p
      else case TryDecompressPayload lib (Payload p) (CompressionType p) of
        None \<Rightarrow> Inl ErrInvalidCompressedPayload
      | Some payload \<Rightarrow> Inr (p\<lparr>Payload := payload\<rparr>))"

definition ParseInflatedFromLabels :: "comp_lib \<Rightarrow> gostring \<Rightarrow> codec option \<Rightarrow> packet result" where
  "ParseInflatedFromLabels lib labels c =
     (case ParseFromLabels labels c of Inl err \<Rightarrow> Inl err | Inr p \<Rightarrow> InflatePayload lib p)"

definition ParseInflated :: "comp_lib \<Rightarrow> bytes \<Rightarrow> packet result" where
  "ParseInflated lib data =
     (case Parse data of Inl err \<Rightarrow> Inl err | Inr p \<Rightarrow> InflatePayload lib p)"

definition BuildRawAuto :: "comp_lib \<Rightarrow> buildOptions \<Rightarrow> int \<Rightarrow> bytes result" where
  "BuildRawAuto lib opts minSize =
     (case PreparePayload lib (opt_PacketType opts) (opt_Payload opts) (opt_CompressionType opts) minSize of
        (payload, compressionType) \<Rightarrow>
          BuildRaw (opts\<lparr>opt_Payload := payload, opt_CompressionType := compressionType\<rparr>))"

definition BuildEncodedAuto ::
  "comp_lib \<Rightarrow> buildOptions \<Rightarrow> codec option \<Rightarrow> rand_read \<Rightarrow> int \<Rightarrow> gostring result" where
  "BuildEncodedAuto lib opts c rnd minSize =
     (case BuildRawAuto lib opts minSize of
        Inl err \<Rightarrow> Inl err
      | Inr raw \<Rightarrow> if c = None then Inl ErrCodecUnavailable else EncryptAndEncode c rnd raw)"

section \<open>Header flags\<close>

lemma length_set_flags [simp]: "length (set_flags x ts flags) = length flags"
  unfolding set_flags_def by (induction ts arbitrary: flags) simp_all

lemma u8_less_256: "unat (t :: u8) < 256"
  using unsigned_less [of t, where 'a = nat] by simp

lemma nth_set_flags:
  "length flags = 256 \<Longrightarrow>
     set_flags x ts flags ! unat t = (if t \<in> set ts then flags ! unat t OR x else flags ! unat t)"
proof (induction ts arbitrary: flags)
  case Nil
  then show ?case by (simp add: set_flags_def)
next
  case (Cons u ts)
  have step: "set_flags x (u # ts) flags = set_flags x ts (flags[unat u := flags ! unat u OR x])"
    by (simp add: set_flags_def)
  show ?case
    using Cons.prems Cons.IH [of "flags[unat u := flags ! unat u OR x]"] u8_less_256 [of u]
    by (cases "t = u") (auto simp: step nth_list_update word_unat_eq_iff or.assoc)
qed

lemma packetFlags_eq:
  "packetFlags t =
     (if t \<in> set validOnly then packetFlagValid else 0)
     OR (if t \<in> set streamAndSeq then packetFlagValid OR (packetFlagStream OR packetFlagSequence) else 0)
     OR (if t \<in> set fragTypes then packetFlagFragment else 0)
     OR (if t \<in> set compTypes then packetFlagValid OR packetFlagCompression else 0)"
  unfolding packetFlags_def buildPacketFlags_def Let_def
  by (simp add: nth_set_flags u8_less_256 or.assoc)

definition validType :: "u8 \<Rightarrow> bool" where
  "validType t \<longleftrightarrow> packetFlags t AND packetFlagValid \<noteq> 0"

lemma extension_iff:
  "validType t \<longleftrightarrow> t \<in> set validOnly \<or> t \<in> set streamAndSeq \<or> t \<in> set compTypes"
  "hasStreamExtension t \<longleftrightarrow> t \<in> set streamAndSeq"
  "hasSequenceExtension t \<longleftrightarrow> t \<in> set streamAndSeq"
  "hasFragmentExtension t \<longleftrightarrow> t \<in> set fragTypes"
  "hasCompressionExtension t \<longleftrightarrow> t \<in> set compTypes"
  by (simp_all add: validType_def hasStreamExtension_def hasSequenceExtension_def
      hasFragmentExtension_def hasCompressionExtension_def packetFlags_eq)

text \<open>The tests of the code, folded into the extension predicates.\<close>

lemma fold_invalid: "packetFlags t AND packetFlagValid = 0 \<longleftrightarrow> \<not> validType t"
  by (simp add: validType_def)

lemmas fold_flags = fold_invalid validType_def [symmetric] hasStreamExtension_def [symmetric]
  hasSequenceExtension_def [symmetric] hasFragmentExtension_def [symmetric]
  hasCompressionExtension_def [symmetric]

lemma frag_has_sequence: "hasFragmentExtension t \<Longrightarrow> hasStreamExtension t \<and> validType t"
  unfolding extension_iff by (auto simp: fragTypes_def streamAndSeq_def)

lemma flagsHeaderLen_eq:
  "flagsHeaderLen (packetFlags t) = 4 + (if hasStreamExtension t then 2 else 0)
     + (if hasSequenceExtension t then 2 else 0) + (if hasFragmentExtension t then 2 else 0)
     + (if hasCompressionExtension t then 1 else 0)"
  by (simp add: flagsHeaderLen_def Let_def hasStreamExtension_def hasSequenceExtension_def
      hasFragmentExtension_def hasCompressionExtension_def)

lemma HeaderRawSize_eq: "HeaderRawSize t = (if validType t then flagsHeaderLen (packetFlags t) else 0)"
  by (simp add: HeaderRawSize_def Let_def validType_def)

text \<open>The header up to the check byte, as a concatenation of its fields.\<close>

definition header_bytes :: "buildOptions \<Rightarrow> bytes" where
  "header_bytes opts =
     [opt_SessionID opts, opt_PacketType opts] @
     (if hasStreamExtension (opt_PacketType opts) then put16 (opt_StreamID opts) else []) @
     (if hasSequenceExtension (opt_PacketType opts) then put16 (opt_SequenceNum opts) else []) @
     (if hasFragmentExtension (opt_PacketType opts)
      then [opt_FragmentID opts, opt_TotalFragments opts] else []) @
     (if hasCompressionExtension (opt_PacketType opts) then [opt_CompressionType opts] else []) @
     [opt_SessionCookie opts]"

definition frame :: "buildOptions \<Rightarrow> bytes" where
  "frame opts = header_bytes opts @ [computeHeaderCheckByte (header_bytes opts)] @ opt_Payload opts"

lemma length_header_bytes:
  "length (header_bytes opts) + 1 = flagsHeaderLen (packetFlags (opt_PacketType opts))"
  by (simp add: header_bytes_def flagsHeaderLen_eq)

lemma BuildRaw_eq:
  "BuildRaw opts =
     (if validType (opt_PacketType opts) then Inr (frame opts) else Inl ErrInvalidPacketType)"
  unfolding BuildRaw_def flagsHeaderLen_eq Let_def fold_flags
  by (cases "hasStreamExtension (opt_PacketType opts)";
      cases "hasSequenceExtension (opt_PacketType opts)";
      cases "hasFragmentExtension (opt_PacketType opts)";
      cases "hasCompressionExtension (opt_PacketType opts)")
    (simp_all add: frame_def header_bytes_def copy_at_def put16_def numeral_eq_Suc)


definition packet_of :: "buildOptions \<Rightarrow> packet" where
  "packet_of opts =
     (let t = opt_PacketType opts in
      \<lparr>SessionID = opt_SessionID opts, PacketType = t, SessionCookie = opt_SessionCookie opts,
       HasStreamID = hasStreamExtension t,
       StreamID = (if hasStreamExtension t then opt_StreamID opts else 0),
       HasSequenceNum = hasSequenceExtension t,
       SequenceNum = (if hasSequenceExtension t then opt_SequenceNum opts else 0),
       HasFragmentInfo = hasFragmentExtension t,
       FragmentID = (if hasFragmentExtension t then opt_FragmentID opts else 0),
       TotalFragments = (if hasFragmentExtension t then opt_TotalFragments opts else 0),
       HasCompressionType = hasCompressionExtension t,
       CompressionType = (if hasCompressionExtension t then opt_CompressionType opts else 0),
       HeaderLength = HeaderRawSize t, Payload = opt_Payload opts\<rparr>)"

definition options_of :: "packet \<Rightarrow> buildOptions" where
  "options_of p =
     \<lparr>opt_SessionID = SessionID p, opt_PacketType = PacketType p, opt_SessionCookie = SessionCookie p,
      opt_StreamID = StreamID p, opt_SequenceNum = SequenceNum p, opt_FragmentID = FragmentID p,
      opt_TotalFragments = TotalFragments p, opt_CompressionType = CompressionType p,
      opt_Payload = Payload p\<rparr>"

lemma parseFrom_frame:
  assumes "validType (opt_PacketType opts)"
  shows "parseFrom (pre @ frame opts) (length pre) = Inr (packet_of opts)"
proof -
  have *: "drop (length pre) (pre @ frame opts) = frame opts" by simp
  have l: "\<not> length (frame opts) < flagsHeaderLen (packetFlags (opt_PacketType opts))"
    using length_header_bytes [of opts] by (simp add: frame_def)
  have t: "frame opts ! 1 = opt_PacketType opts" by (simp add: frame_def header_bytes_def)
  have l4: "\<not> length (frame opts) < minHeaderLength" using l by (simp add: flagsHeaderLen_eq)
  show ?thesis
    using assms unfolding parseFrom_def * Let_def t if_not_P [OF l] if_not_P [OF l4]
    unfolding fold_flags
    by (cases "hasStreamExtension (opt_PacketType opts)";
        cases "hasSequenceExtension (opt_PacketType opts)";
        cases "hasFragmentExtension (opt_PacketType opts)";
        cases "hasCompressionExtension (opt_PacketType opts)")
      (simp_all add: frame_def header_bytes_def put16_def get16_def packet_of_def zero_packet_def
        HeaderRawSize_eq flagsHeaderLen_eq numeral_eq_Suc Let_def)
qed


text \<open>Conversely the options a frame was built from can be read off its bytes.\<close>

definition options_at :: "bytes \<Rightarrow> buildOptions" where
  "options_at d =
     (let t = d ! 1; s = (if hasStreamExtension t then 6 else 2 :: nat);
          f = (if hasFragmentExtension t then s + 2 else s);
          c = (if hasCompressionExtension t then f + 1 else f) in
      \<lparr>opt_SessionID = d ! 0, opt_PacketType = t, opt_SessionCookie = d ! c,
       opt_StreamID = get16 d 2, opt_SequenceNum = get16 d 4, opt_FragmentID = d ! s,
       opt_TotalFragments = d ! (s + 1), opt_CompressionType = d ! f, opt_Payload = drop (c + 2) d\<rparr>)"

lemma hasSequence_eq: "hasSequenceExtension t = hasStreamExtension t"
  by (simp add: extension_iff)

lemma header_bytes_options_at:
  assumes "flagsHeaderLen (packetFlags (d ! 1)) \<le> length d"
  shows "header_bytes (options_at d) = take (flagsHeaderLen (packetFlags (d ! 1)) - 1) d"
  using assms unfolding flagsHeaderLen_eq hasSequence_eq
  by (cases "hasStreamExtension (d ! 1)"; cases "hasFragmentExtension (d ! 1)";
      cases "hasCompressionExtension (d ! 1)")
    (auto simp: header_bytes_def options_at_def hasSequence_eq put16_def get16_def Let_def
      numeral_eq_Suc Suc_le_length_iff)

lemma parseFrom_checked:
  assumes "parseFrom d 0 = Inr p"
  shows "validType (d ! 1)" "flagsHeaderLen (packetFlags (d ! 1)) \<le> length d"
    "d ! (flagsHeaderLen (packetFlags (d ! 1)) - 1) =
       computeHeaderCheckByte (take (flagsHeaderLen (packetFlags (d ! 1)) - 1) d)"
  using assms unfolding parseFrom_def flagsHeaderLen_eq hasSequence_eq fold_flags drop_0 Let_def
  by (auto split: if_splits prod.splits)

lemma frame_options_at:
  assumes "parseFrom d 0 = Inr p"
  shows "d = frame (options_at d)"
proof -
  define h where "h = flagsHeaderLen (packetFlags (d ! 1)) - 1"
  note c = parseFrom_checked [OF assms]
  have h: "h < length d" "4 \<le> flagsHeaderLen (packetFlags (d ! 1))"
    using c(2) by (auto simp: h_def flagsHeaderLen_eq)
  have "opt_Payload (options_at d) = drop (Suc h) d"
    unfolding h_def flagsHeaderLen_eq options_at_def Let_def by (simp add: hasSequence_eq)
  then show ?thesis
    using id_take_nth_drop [OF h(1)] c header_bytes_options_at [OF c(2)]
    by (simp add: frame_def h_def)
qed

lemma frame_options_of: "frame (options_of (packet_of opts)) = frame opts"
  by (simp add: frame_def header_bytes_def options_of_def packet_of_def Let_def)

lemma parseFrom_exact:
  assumes "parseFrom data start = Inr p"
  shows "drop start data = frame (options_of p) \<and> validType (PacketType p) \<and> p = packet_of (options_of p)"
proof -
  define d where "d = drop start data"
  have q: "parseFrom d 0 = Inr p" using assms by (simp add: parseFrom_def d_def)
  have v: "validType (opt_PacketType (options_at d))"
    using parseFrom_checked(1) [OF q] by (simp add: options_at_def Let_def)
  have "parseFrom (frame (options_at d)) 0 = Inr (packet_of (options_at d))"
    using parseFrom_frame [OF v, of "[]"] by simp
  with q frame_options_at [OF q] have p: "p = packet_of (options_at d)" by simp
  have "packet_of (options_of p) = p"
    by (simp add: p packet_of_def options_of_def Let_def)
  with v show ?thesis
    using frame_options_at [OF q] by (simp add: p frame_options_of d_def) (simp add: packet_of_def Let_def)
qed

section \<open>Frames decode to what was built\<close>

lemma Parse_frame: "validType (opt_PacketType opts) \<Longrightarrow> Parse (frame opts) = Inr (packet_of opts)"
  using parseFrom_frame [of opts "[]"]
  by (simp add: Parse_def ParseAtOffset_def frame_def header_bytes_def)

lemma BuildRaw_Inr: "BuildRaw opts = Inr raw \<longleftrightarrow> validType (opt_PacketType opts) \<and> raw = frame opts"
  by (auto simp: BuildRaw_eq)

lemma Parse_BuildRaw: "BuildRaw opts = Inr raw \<Longrightarrow> Parse raw = Inr (packet_of opts)"
  by (simp add: BuildRaw_Inr Parse_frame)

interpretation frames: code BuildRaw Parse packet_of
  by unfold_locales (rule Parse_BuildRaw)

text \<open>The parser accepts nothing else: a parsed packet rebuilds to the bytes it came from.\<close>

lemma BuildRaw_Parse:
  assumes "Parse data = Inr p"
  shows "BuildRaw (options_of p) = Inr data" and "packet_of (options_of p) = p"
proof -
  from assms have "parseFrom data 0 = Inr p"
    by (simp add: Parse_def ParseAtOffset_def split: if_splits)
  from parseFrom_exact [OF this] show "BuildRaw (options_of p) = Inr data" "packet_of (options_of p) = p"
    by (auto simp: BuildRaw_Inr options_of_def)
qed

lemma length_BuildRaw:
  "BuildRaw opts = Inr raw \<Longrightarrow> length raw = HeaderRawSize (opt_PacketType opts) + length (opt_Payload opts)"
  using length_header_bytes [of opts] by (auto simp: BuildRaw_Inr frame_def HeaderRawSize_eq)

interpretation plain_labels: code_pair BuildRaw Parse packet_of "\<lambda>data. Inr (Encode data)" DecodeString
  by unfold_locales

lemma MaxHeaderRawSize_eq: "MaxHeaderRawSize = 11"
  by code_simp

lemma MaxHeaderPacketType_eq: "MaxHeaderPacketType = PACKET_MTU_UP_REQ"
  by code_simp

section \<open>Packed control blocks\<close>

text \<open>Calling the callback on the blocks of a list, stopping when it returns false.\<close>

fun visit_blocks :: "(control_block \<Rightarrow> 's \<Rightarrow> bool \<times> 's) \<Rightarrow> control_block list \<Rightarrow> 's \<Rightarrow> 's" where
  "visit_blocks yield [] s = s"
| "visit_blocks yield (b # bs) s =
     (case yield b s of (True, s') \<Rightarrow> visit_blocks yield bs s' | (False, s') \<Rightarrow> s')"

lemma foldl_Append: "foldl AppendPackedControlBlock acc bs = acc @ foldl AppendPackedControlBlock [] bs"
proof (induction bs arbitrary: acc)
  case (Cons b bs)
  have "AppendPackedControlBlock acc b = acc @ AppendPackedControlBlock [] b"
    by (simp add: AppendPackedControlBlock_def split: prod.splits)
  then show ?case
    using Cons.IH [of "AppendPackedControlBlock acc b"] Cons.IH [of "AppendPackedControlBlock [] b"] by simp
qed simp

lemma ForEach_first:
  "ForEachPackedControlBlock (AppendPackedControlBlock [] b @ rest) yield s =
     (case yield b s of (True, s') \<Rightarrow> ForEachPackedControlBlock rest yield s' | (False, s') \<Rightarrow> s')"
  by (cases b, subst ForEachPackedControlBlock.simps)
    (simp add: AppendPackedControlBlock_def get16_def numeral_eq_Suc split: prod.splits bool.splits)

lemma ForEach_packed:
  assumes "length tail < PackedControlBlockSize"
  shows "ForEachPackedControlBlock (foldl AppendPackedControlBlock [] bs @ tail) yield s =
    visit_blocks yield bs s"
proof (induction bs arbitrary: s)
  case Nil
  with assms show ?case by (subst ForEachPackedControlBlock.simps) simp
next
  case (Cons b bs)
  have "foldl AppendPackedControlBlock [] (b # bs) =
      AppendPackedControlBlock [] b @ foldl AppendPackedControlBlock [] bs"
    using foldl_Append [of "AppendPackedControlBlock [] b" bs] by simp
  with Cons show ?case by (simp add: ForEach_first split: prod.splits bool.splits)
qed

lemma CalculateMaxPackedBlocks_bounds:
  "1 \<le> CalculateMaxPackedBlocks mtu percent cap"
  "CalculateMaxPackedBlocks mtu percent cap \<le> max cap 1"
  by (simp_all add: CalculateMaxPackedBlocks_def Let_def)

lemma CalculateMaxPackedBlocks_fits:
  assumes "7 \<le> mtu * percent div 100" "30 \<le> percent" "1 \<le> mtu" "1 \<le> cap"
  shows "7 * CalculateMaxPackedBlocks mtu percent cap \<le> mtu * percent div 100"
  using assms unfolding CalculateMaxPackedBlocks_def Let_def by (auto simp: max_def min_def)

section \<open>Compressed and encrypted frames\<close>

lemma InflatePayload_packet_of:
  assumes "comp_lib_roundtrip lib" "length (opt_Payload opts) \<le> maxDecompressedSize"
    and "PreparePayload lib (opt_PacketType opts) (opt_Payload opts) (opt_CompressionType opts) m = (c, t)"
  shows "InflatePayload lib (packet_of (opts\<lparr>opt_Payload := c, opt_CompressionType := t\<rparr>)) =
    Inr ((packet_of opts)\<lparr>CompressionType := (if hasCompressionExtension (opt_PacketType opts) then t else 0)\<rparr>)"
proof -
  note rt = TryDecompressPayload_CompressPayload [OF assms(1,2)]
  have off: "CompressPayload lib (opt_Payload opts) n m = (c', TypeOff) \<Longrightarrow> c' = opt_Payload opts" for n c'
    using rt [of n m c' TypeOff] by (simp add: TryDecompressPayload_off)
  show ?thesis
    using assms(3) rt
    by (auto simp: PreparePayload_def InflatePayload_def packet_of_def Let_def dest: off split: if_splits)
qed

lemma ParseInflated_BuildRawAuto:
  assumes "comp_lib_roundtrip lib" "length (opt_Payload opts) \<le> maxDecompressedSize"
    and "BuildRawAuto lib opts m = Inr raw"
  shows "\<exists>t. ParseInflated lib raw = Inr ((packet_of opts)\<lparr>CompressionType := t\<rparr>)"
proof -
  obtain c t where pp: "PreparePayload lib (opt_PacketType opts) (opt_Payload opts)
      (opt_CompressionType opts) m = (c, t)" by fastforce
  with assms(3) have "BuildRaw (opts\<lparr>opt_Payload := c, opt_CompressionType := t\<rparr>) = Inr raw"
    by (simp add: BuildRawAuto_def)
  from Parse_BuildRaw [OF this] InflatePayload_packet_of [OF assms(1,2) pp] show ?thesis
    by (auto simp: ParseInflated_def)
qed

lemma ParseFromLabels_EncryptAndEncode:
  assumes "crypto_lib_ok clib" "rand_full rnd" "NewCodec clib meth rawKey = Inr c"
    and "raw \<noteq> []" "EncryptAndEncode (Some c) rnd raw = Inr labels"
  shows "ParseFromLabels labels (Some c) = Parse raw"
proof -
  have "DecodeStringAndDecrypt (Some c) labels = Inr raw"
    using label_code [OF assms(1-3)] assms(5) by (rule code.dec_enc)
  moreover from this have "labels \<noteq> []"
    using DecodeStringAndDecrypt_Nil [OF assms(3)] assms(4) by auto
  ultimately show ?thesis by (simp add: ParseFromLabels_def)
qed

lemma BuildEncodedAuto_labels:
  assumes "comp_lib_roundtrip lib" "crypto_lib_ok clib" "rand_full rnd" "NewCodec clib meth rawKey = Inr c"
    and "length (opt_Payload opts) \<le> maxDecompressedSize"
    and "BuildEncodedAuto lib opts (Some c) rnd m = Inr labels"
  shows "\<exists>t. ParseInflatedFromLabels lib labels (Some c) = Inr ((packet_of opts)\<lparr>CompressionType := t\<rparr>)"
proof -
  obtain raw where raw: "BuildRawAuto lib opts m = Inr raw" "EncryptAndEncode (Some c) rnd raw = Inr labels"
    using assms(6) by (auto simp: BuildEncodedAuto_def split: sum.splits)
  from ParseInflated_BuildRawAuto [OF assms(1,5) raw(1)]
  obtain t where t: "ParseInflated lib raw = Inr ((packet_of opts)\<lparr>CompressionType := t\<rparr>)" ..
  then have "raw \<noteq> []" by (auto simp: ParseInflated_def Parse_def ParseAtOffset_def)
  from ParseFromLabels_EncryptAndEncode [OF assms(2-4) this raw(2)] t show ?thesis
    by (auto simp: ParseInflatedFromLabels_def ParseInflated_def)
qed

section \<open>Properties\<close>

text \<open>
  (C7) A frame that was built parses to the packet its options describe; building fails exactly for an
  unknown packet type, and the frame's length is the announced header size plus the payload.
\<close>

theorem frame_roundtrip:
  "(BuildRaw opts = Inl ErrInvalidPacketType \<longleftrightarrow> \<not> validType (opt_PacketType opts)) \<and>
   (\<forall>raw. BuildRaw opts = Inr raw \<longrightarrow> Parse raw = Inr (packet_of opts) \<and>
      length raw = HeaderRawSize (opt_PacketType opts) + length (opt_Payload opts))"
  using frames.dec_enc [of opts] length_BuildRaw [of opts] by (auto simp: BuildRaw_eq)

definition example_options :: buildOptions where
  "example_options =
     \<lparr>opt_SessionID = 5, opt_PacketType = PACKET_STREAM_DATA, opt_SessionCookie = 9, opt_StreamID = 258,
      opt_SequenceNum = 772, opt_FragmentID = 1, opt_TotalFragments = 2, opt_CompressionType = 0,
      opt_Payload = [104, 105]\<rparr>"

lemma example_valid: "validType (opt_PacketType example_options)"
  by (simp add: example_options_def extension_iff streamAndSeq_def)

theorem frame_roundtrip_witness: "\<exists>raw. BuildRaw example_options = Inr raw \<and> Parse raw = Inr (packet_of example_options)"
proof -
  obtain raw where "BuildRaw example_options = Inr raw" using example_valid by (simp add: BuildRaw_eq)
  then show ?thesis using frame_roundtrip [of example_options] by blast
qed

text \<open>
  (C8) The parser accepts only canonical frames: a packet it returns rebuilds to exactly the bytes it was
  parsed from. So no two byte strings parse to the same packet.
\<close>

theorem frame_canonical:
  assumes "Parse data = Inr p"
  shows "BuildRaw (options_of p) = Inr data \<and> packet_of (options_of p) = p"
  using BuildRaw_Parse [OF assms] by blast

theorem frame_canonical_witness:
  "BuildRaw (options_of (packet_of example_options)) = Inr (frame example_options)"
  using frame_canonical [OF Parse_frame [OF example_valid]] by blast

text \<open>
  The query labels a client builds, compressed and encrypted, decode on the server to the packet the
  client described, up to the compression type that was chosen.
\<close>

theorem labels_roundtrip:
  assumes "comp_lib_roundtrip lib" "crypto_lib_ok clib" "rand_full rnd" "NewCodec clib meth rawKey = Inr c"
    and "length (opt_Payload opts) \<le> maxDecompressedSize"
    and "BuildEncodedAuto lib opts (Some c) rnd m = Inr labels"
  shows "\<exists>t. ParseInflatedFromLabels lib labels (Some c) = Inr ((packet_of opts)\<lparr>CompressionType := t\<rparr>)"
  by (rule BuildEncodedAuto_labels [OF assms])

theorem labels_roundtrip_witness:
  "\<exists>c labels t. NewCodec example_crypto 0 [] = Inr c \<and>
     BuildEncodedAuto run_lib example_options (Some c) example_rand 100 = Inr labels \<and>
     ParseInflatedFromLabels run_lib labels (Some c) = Inr ((packet_of example_options)\<lparr>CompressionType := t\<rparr>)"
proof -
  obtain c where c: "NewCodec example_crypto 0 [] = Inr c" "codec_method c = 0"
    by (simp add: NewCodec_def Let_def)
  obtain b t where "PreparePayload run_lib (opt_PacketType example_options) (opt_Payload example_options)
      (opt_CompressionType example_options) 100 = (b, t)" by fastforce
  then obtain raw where "BuildRawAuto run_lib example_options 100 = Inr raw"
    using example_valid by (simp add: BuildRawAuto_def BuildRaw_eq)
  then obtain labels where "BuildEncodedAuto run_lib example_options (Some c) example_rand 100 = Inr labels"
    by (simp add: BuildEncodedAuto_def EncryptAndEncode_def c(2))
  with labels_roundtrip [OF run_lib_roundtrip example_crypto_ok example_rand_full c(1), of example_options 100 labels] c
  show ?thesis by (auto simp: example_options_def)
qed

text \<open>
  The control blocks appended to a payload are visited once each and in order, until the callback
  stops; trailing bytes that do not fill a block are ignored.
\<close>

theorem packed_blocks_visited:
  assumes "length rest < PackedControlBlockSize"
  shows "ForEachPackedControlBlock (foldl AppendPackedControlBlock [] bs @ rest) yield s = visit_blocks yield bs s"
  by (rule ForEach_packed [OF assms])

theorem packed_blocks_visited_witness:
  "ForEachPackedControlBlock (foldl AppendPackedControlBlock [] [(1, 2, 3, 4, 5), (6, 7, 8, 9, 10)] @ [0, 0])
     (\<lambda>b s. (True, s @ [b])) [] = [(1, 2, 3, 4, 5), (6, 7, 8, 9, 10)]"
  using packed_blocks_visited [of "[0, 0]" "[(1, 2, 3, 4, 5), (6, 7, 8, 9, 10)]" "\<lambda>b s. (True, s @ [b])" "[]"]
  by (simp del: ForEachPackedControlBlock.simps)

text \<open>
  The number of packed blocks computed from the MTU is between one and the configured cap, and if
  the share of the MTU holds a block at all the blocks fit in it.
\<close>

theorem max_packed_blocks_fit:
  assumes "1 \<le> mtu" "30 \<le> percent" "1 \<le> cap"
  shows "1 \<le> CalculateMaxPackedBlocks mtu percent cap \<and> CalculateMaxPackedBlocks mtu percent cap \<le> cap \<and>
    (7 \<le> mtu * percent div 100 \<longrightarrow> 7 * CalculateMaxPackedBlocks mtu percent cap \<le> mtu * percent div 100)"
  using CalculateMaxPackedBlocks_bounds [of mtu percent cap] CalculateMaxPackedBlocks_fits [of mtu percent cap] assms
  by auto

theorem max_packed_blocks_fit_witness: "7 * CalculateMaxPackedBlocks 100 50 20 \<le> 50"
  using max_packed_blocks_fit [of 100 50 20] by simp

end
