(* ===== verification/SessionAccept.thy ===== *)
theory SessionAccept
  imports Prelude
begin

text \<open>
  The SESSION_ACCEPT payload (\<open>vpnproto/session_accept.go\<close>): the codec of the 7-byte base and of the
  13-byte policy block, the two scaled-byte conversions, and the clamping of a client's settings to
  the server's policy.

  A Go \<open>float64\<close> is a \<open>real\<close>, and every float operation rounds its exact result with the parameter
  \<open>rnd\<close>; \<open>float_rounding\<close> states the relative error IEEE 754 double rounding has on normal numbers.
  The untyped constants 0.05, 1.0 and their difference are exact in Go and rounded once, on
  conversion. On architectures with a fused multiply-add the compiler may leave out the rounding of
  the product in \<open>DecodeSessionScaledByte\<close>: the flag \<open>fma\<close> says whether it does. NaN and infinities
  are not represented. A Go \<open>int\<close> is an \<open>int\<close> here: none of the operations of this file leaves the
  range of its arguments and constants.
\<close>

section \<open>Data\<close>

abbreviation SessionAcceptBasePayloadSize :: nat where
  "SessionAcceptBasePayloadSize \<equiv> 7"

abbreviation SessionAcceptPolicyPayloadSize :: nat where
  "SessionAcceptPolicyPayloadSize \<equiv> 13"

abbreviation SessionAcceptPayloadSize :: nat where
  "SessionAcceptPayloadSize \<equiv> 20"

definition SessionPolicyScaledMin :: real where
  "SessionPolicyScaledMin = 5 / 100"

definition SessionPolicyScaledMax :: real where
  "SessionPolicyScaledMax = 1"

record client_policy =
  MaxPacketDuplicationCount :: int
  MaxSetupDuplicationCount :: int
  pol_MaxUploadMTU :: int
  pol_MaxDownloadMTU :: int
  MaxRxTxWorkers :: int
  MinPingAggressiveInterval :: real
  pol_MaxPacketsPerBatch :: int
  MaxARQWindowSize :: int
  MaxARQDataNackMaxGap :: int
  MinCompressionMinSize :: int
  MinARQInitialRTOSeconds :: real

record client_settings =
  PacketDuplicationCount :: int
  SetupPacketDuplicationCount :: int
  MaxUploadMTU :: int
  MaxDownloadMTU :: int
  RXTXWorkers :: int
  PingAggressiveInterval :: real
  MaxPacketsPerBatch :: int
  ARQWindowSize :: int
  ARQDataNackMaxGap :: int
  CompressionMinSize :: int
  ARQInitialRTOSeconds :: real
  ARQControlInitialRTOSeconds :: real
  ARQMaxRTOSeconds :: real
  ARQControlMaxRTOSeconds :: real

record accept_payload =
  acc_SessionID :: u8
  acc_SessionCookie :: u8
  acc_CompressionPair :: u8
  acc_VerifyCode :: bytes
  acc_ClientPolicy :: client_policy
  acc_HasClientPolicySync :: bool

definition zero_policy :: client_policy where
  "zero_policy =
     \<lparr>MaxPacketDuplicationCount = 0, MaxSetupDuplicationCount = 0, pol_MaxUploadMTU = 0,
      pol_MaxDownloadMTU = 0, MaxRxTxWorkers = 0, MinPingAggressiveInterval = 0,
      pol_MaxPacketsPerBatch = 0, MaxARQWindowSize = 0, MaxARQDataNackMaxGap = 0,
      MinCompressionMinSize = 0, MinARQInitialRTOSeconds = 0\<rparr>"

section \<open>Clamping and scaled bytes\<close>

definition clampFloat64 :: "real \<Rightarrow> real \<Rightarrow> real \<Rightarrow> real" where
  "clampFloat64 v lo hi = (if v < lo then lo else if v > hi then hi else v)"

definition clampInt :: "int \<Rightarrow> int \<Rightarrow> int \<Rightarrow> int" where
  "clampInt v lo hi = (if v < lo then lo else if v > hi then hi else v)"

definition maxInt :: "int \<Rightarrow> int \<Rightarrow> int" where
  "maxInt a b = (if a > b then a else b)"

text \<open>\<open>math.Round\<close>: to the nearest integer, halves away from zero.\<close>

definition math_Round :: "real \<Rightarrow> int" where
  "math_Round x = (if x < 0 then - \<lfloor>1 / 2 - x\<rfloor> else \<lfloor>x + 1 / 2\<rfloor>)"

definition EncodeSessionScaledByte :: "(real \<Rightarrow> real) \<Rightarrow> real \<Rightarrow> u8" where
  "EncodeSessionScaledByte rnd v =
     (let clamped = clampFloat64 v (rnd SessionPolicyScaledMin) (rnd SessionPolicyScaledMax) in
      if SessionPolicyScaledMax \<le> SessionPolicyScaledMin then 0
      else
        let normalized = rnd (rnd (clamped - rnd SessionPolicyScaledMin) /
                              rnd (SessionPolicyScaledMax - SessionPolicyScaledMin))
        in word_of_int (math_Round (rnd (normalized * 255))))"

definition DecodeSessionScaledByte :: "(real \<Rightarrow> real) \<Rightarrow> bool \<Rightarrow> u8 \<Rightarrow> real" where
  "DecodeSessionScaledByte rnd fma v =
     (let normalized = rnd (real (unat v) / 255);
          product = normalized * rnd (SessionPolicyScaledMax - SessionPolicyScaledMin)
      in rnd (rnd SessionPolicyScaledMin + (if fma then product else rnd product)))"

section \<open>Policy block and payload\<close>

definition EncodeSessionAcceptClientPolicy :: "(real \<Rightarrow> real) \<Rightarrow> client_policy \<Rightarrow> bytes" where
  "EncodeSessionAcceptClientPolicy rnd policy =
     [word_of_int (push_bit 4 (clampInt (MaxSetupDuplicationCount policy) 0 15) OR
                   clampInt (MaxPacketDuplicationCount policy) 0 15),
      word_of_int (clampInt (pol_MaxUploadMTU policy) 0 0xFF)] @
     put16 (word_of_int (clampInt (pol_MaxDownloadMTU policy) 0 0xFFFF)) @
     [word_of_int (clampInt (MaxRxTxWorkers policy) 0 0xFF),
      EncodeSessionScaledByte rnd (MinPingAggressiveInterval policy),
      word_of_int (clampInt (pol_MaxPacketsPerBatch policy) 0 0xFF)] @
     put16 (word_of_int (clampInt (MaxARQWindowSize policy) 0 0xFFFF)) @
     [word_of_int (clampInt (MaxARQDataNackMaxGap policy) 0 0xFF)] @
     put16 (word_of_int (clampInt (MinCompressionMinSize policy) 0 0xFFFF)) @
     [EncodeSessionScaledByte rnd (MinARQInitialRTOSeconds policy)]"

definition DecodeSessionAcceptClientPolicy ::
  "(real \<Rightarrow> real) \<Rightarrow> bool \<Rightarrow> bytes \<Rightarrow> client_policy result" where
  "DecodeSessionAcceptClientPolicy rnd fma payload =
     (if length payload < SessionAcceptPolicyPayloadSize then Inl ErrSessionPolicyTooShort
      else Inr
        \<lparr>MaxPacketDuplicationCount = uint (payload ! 0 AND 0x0F),
         MaxSetupDuplicationCount = uint (drop_bit 4 (payload ! 0) AND 0x0F),
         pol_MaxUploadMTU = uint (payload ! 1),
         pol_MaxDownloadMTU = uint (get16 payload 2),
         MaxRxTxWorkers = uint (payload ! 4),
         MinPingAggressiveInterval = DecodeSessionScaledByte rnd fma (payload ! 5),
         pol_MaxPacketsPerBatch = uint (payload ! 6),
         MaxARQWindowSize = uint (get16 payload 7),
         MaxARQDataNackMaxGap = uint (payload ! 9),
         MinCompressionMinSize = uint (get16 payload 10),
         MinARQInitialRTOSeconds = DecodeSessionScaledByte rnd fma (payload ! 12)\<rparr>)"

text \<open>\<open>VerifyCode\<close> is a Go array of four bytes: \<open>copy\<close> takes the first four of the source.\<close>

definition EncodeSessionAcceptPayload :: "(real \<Rightarrow> real) \<Rightarrow> accept_payload \<Rightarrow> bytes" where
  "EncodeSessionAcceptPayload rnd p =
     [acc_SessionID p, acc_SessionCookie p, acc_CompressionPair p] @ take 4 (acc_VerifyCode p) @
     (if acc_HasClientPolicySync p then EncodeSessionAcceptClientPolicy rnd (acc_ClientPolicy p) else [])"

definition DecodeSessionAcceptPayload ::
  "(real \<Rightarrow> real) \<Rightarrow> bool \<Rightarrow> bytes \<Rightarrow> accept_payload result" where
  "DecodeSessionAcceptPayload rnd fma payload =
     (if length payload < SessionAcceptBasePayloadSize then Inl ErrSessionAcceptTooShort
      else
        let result = \<lparr>acc_SessionID = payload ! 0, acc_SessionCookie = payload ! 1,
              acc_CompressionPair = payload ! 2, acc_VerifyCode = slice payload 3 7,
              acc_ClientPolicy = zero_policy, acc_HasClientPolicySync = False\<rparr>
        in
          if length payload \<ge> SessionAcceptPayloadSize then
            case DecodeSessionAcceptClientPolicy rnd fma
                   (slice payload SessionAcceptBasePayloadSize SessionAcceptPayloadSize) of
              Inl e \<Rightarrow> Inl e
            | Inr policy \<Rightarrow> Inr (result\<lparr>acc_ClientPolicy := policy, acc_HasClientPolicySync := True\<rparr>)
          else Inr result)"

definition ApplySessionAcceptClientPolicy ::
  "(real \<Rightarrow> real) \<Rightarrow> client_settings \<Rightarrow> client_policy \<Rightarrow> client_settings" where
  "ApplySessionAcceptClientPolicy rnd current policy =
     (let dup = clampInt (PacketDuplicationCount current) 1
                  (maxInt (MaxPacketDuplicationCount policy) 1)
      in current\<lparr>
        PacketDuplicationCount := dup,
        SetupPacketDuplicationCount := clampInt (SetupPacketDuplicationCount current) dup
          (maxInt (MaxSetupDuplicationCount policy) dup),
        MaxUploadMTU := clampInt (MaxUploadMTU current) 1 (maxInt (pol_MaxUploadMTU policy) 1),
        MaxDownloadMTU := clampInt (MaxDownloadMTU current) 1 (maxInt (pol_MaxDownloadMTU policy) 1),
        RXTXWorkers := clampInt (RXTXWorkers current) 1 (maxInt (MaxRxTxWorkers policy) 1),
        PingAggressiveInterval := clampFloat64 (PingAggressiveInterval current)
          (MinPingAggressiveInterval policy) (rnd 30),
        MaxPacketsPerBatch := clampInt (MaxPacketsPerBatch current) 1
          (maxInt (pol_MaxPacketsPerBatch policy) 1),
        ARQWindowSize := clampInt (ARQWindowSize current) 1 (maxInt (MaxARQWindowSize policy) 1),
        ARQDataNackMaxGap := clampInt (ARQDataNackMaxGap current) 0
          (maxInt (MaxARQDataNackMaxGap policy) 0),
        CompressionMinSize := maxInt (CompressionMinSize current)
          (maxInt (MinCompressionMinSize policy) 1),
        ARQInitialRTOSeconds := clampFloat64 (ARQInitialRTOSeconds current)
          (MinARQInitialRTOSeconds policy) (ARQMaxRTOSeconds current),
        ARQControlInitialRTOSeconds := clampFloat64 (ARQControlInitialRTOSeconds current)
          (MinARQInitialRTOSeconds policy) (ARQControlMaxRTOSeconds current)\<rparr>)"

section \<open>Scaled bytes survive a round trip\<close>

text \<open>
  The accuracy IEEE 754 prescribes for binary64 rounding (round to nearest): half a unit in the last
  place, gradual underflow included.
\<close>

definition float_rounding :: "(real \<Rightarrow> real) \<Rightarrow> bool" where
  "float_rounding rnd \<longleftrightarrow>
     (\<forall>x. \<bar>x\<bar> \<le> 2 ^ 1000 \<longrightarrow> \<bar>rnd x - x\<bar> \<le> \<bar>x\<bar> / 2 ^ 53 + 1 / 2 ^ 1074)"

lemma float_rounding_id: "float_rounding id"
  by (simp add: float_rounding_def)

lemma unat_u8_le: "unat (v :: u8) \<le> 255"
  using unsigned_less [of v, where 'a = nat] by simp

lemma scaled_range: "0 \<le> real (unat (v :: u8)) / 255" "real (unat (v :: u8)) / 255 \<le> 1"
proof -
  define k where "k = unat v"
  have "k \<le> 255" using unat_u8_le [of v] by (simp only: k_def)
  then show "0 \<le> real (unat v) / 255" "real (unat v) / 255 \<le> 1"
    unfolding k_def [symmetric] by simp_all
qed

lemma float_rounding_abs:
  assumes "float_rounding rnd" "\<bar>x\<bar> \<le> 300"
  shows "\<bar>rnd x - x\<bar> \<le> 1 / 1000000000"
proof -
  have "(300::real) \<le> 2 ^ 1000" using power_increasing [of 9 1000 "2::real"] by simp
  then have "\<bar>rnd x - x\<bar> \<le> \<bar>x\<bar> / 2 ^ 53 + 1 / 2 ^ 1074"
    using assms by (simp only: float_rounding_def)
  moreover have "(1::real) / 2 ^ 1074 \<le> 1 / 2000000000"
    using power_increasing [of 31 1074 "2::real"] by (intro divide_left_mono) simp_all
  moreover have "\<bar>x\<bar> / 2 ^ 53 \<le> 1 / 2000000000" using assms(2) by simp
  ultimately show ?thesis by simp
qed

lemma scaled_value:
  assumes "float_rounding rnd"
  shows "\<bar>DecodeSessionScaledByte rnd fma v - (5 / 100 + 95 / 100 * (real (unat v) / 255))\<bar> \<le> 5 / 1000000000"
proof -
  define a where "a = real (unat v) / 255"
  have a: "0 \<le> a" "a \<le> 1" unfolding a_def by (rule scaled_range)+
  note R = float_rounding_abs [OF assms]
  define n w c where "n = rnd a" and "w = rnd (95 / 100)" and "c = rnd (5 / 100)"
  have n: "\<bar>n - a\<bar> \<le> 1 / 1000000000" and w: "\<bar>w - 95 / 100\<bar> \<le> 1 / 1000000000"
    and c: "\<bar>c - 5 / 100\<bar> \<le> 1 / 1000000000"
    using a R [of a] R [of "95 / 100"] R [of "5 / 100"] by (simp_all add: n_def w_def c_def)
  have "n * w - 95 / 100 * a = (n - a) * w + a * (w - 95 / 100)" by algebra
  moreover have "\<bar>(n - a) * w\<bar> \<le> 1 / 1000000000 * 1"
    unfolding abs_mult using n w by (intro mult_mono; linarith)
  moreover have "\<bar>a * (w - 95 / 100)\<bar> \<le> 1 * (1 / 1000000000)"
    unfolding abs_mult using a w by (intro mult_mono; linarith)
  ultimately have p: "\<bar>n * w - 95 / 100 * a\<bar> \<le> 2 / 1000000000" by linarith
  define q where "q = (if fma then n * w else rnd (n * w))"
  have q: "\<bar>q - 95 / 100 * a\<bar> \<le> 3 / 1000000000"
  proof -
    have "\<bar>rnd (n * w) - n * w\<bar> \<le> 1 / 1000000000" using p a by (intro R) linarith
    with p show ?thesis unfolding q_def by (cases fma; simp only: if_True if_False; linarith)
  qed
  have "\<bar>rnd (c + q) - (c + q)\<bar> \<le> 1 / 1000000000"
    using c q a by (intro R) linarith
  then have "\<bar>rnd (c + q) - (5 / 100 + 95 / 100 * a)\<bar> \<le> 5 / 1000000000"
    using c q by linarith
  then show ?thesis
    by (cases fma) (simp_all add: DecodeSessionScaledByte_def SessionPolicyScaledMin_def
        SessionPolicyScaledMax_def n_def w_def c_def q_def a_def Let_def)
qed

lemma clamp_near:
  assumes "\<bar>x - t\<bar> \<le> 5 / 1000000000" "5 / 100 \<le> t" "t \<le> 1"
    and "\<bar>lo - 5 / 100\<bar> \<le> 1 / 1000000000" "\<bar>hi - 1\<bar> \<le> 1 / 1000000000"
  shows "\<bar>clampFloat64 x lo hi - t\<bar> \<le> 5 / 1000000000"
  using assms unfolding clampFloat64_def by (simp add: abs_le_iff) argo

lemma math_Round_near: "\<bar>u - real n\<bar> < 1 / 4 \<Longrightarrow> math_Round u = int n"
  unfolding math_Round_def abs_less_iff by (cases n) (auto simp: floor_eq_iff)

lemma EncodeSessionScaledByte_near:
  assumes "float_rounding rnd"
    and x: "\<bar>x - (5 / 100 + 95 / 100 * (real (unat v) / 255))\<bar> \<le> 5 / 1000000000"
  shows "EncodeSessionScaledByte rnd x = v"
proof -
  define a where "a = real (unat v) / 255"
  have a: "0 \<le> a" "a \<le> 1" unfolding a_def by (rule scaled_range)+
  note R = float_rounding_abs [OF assms(1)]
  define w c where "w = rnd (95 / 100)" and "c = rnd (5 / 100)"
  have w: "\<bar>w - 95 / 100\<bar> \<le> 1 / 1000000000" and c: "\<bar>c - 5 / 100\<bar> \<le> 1 / 1000000000"
    using R [of "95 / 100"] R [of "5 / 100"] by (simp_all add: w_def c_def)
  define y where "y = clampFloat64 x c (rnd 1)"
  have y: "\<bar>y - (5 / 100 + 95 / 100 * a)\<bar> \<le> 5 / 1000000000"
    unfolding y_def using x a c R [of 1] by (intro clamp_near) (auto simp: a_def)
  define d where "d = rnd (y - c)"
  have "\<bar>d - (y - c)\<bar> \<le> 1 / 1000000000"
    unfolding d_def using y c a by (intro R) linarith
  then have d: "\<bar>d - 95 / 100 * a\<bar> \<le> 7 / 1000000000" using y c by linarith
  have "\<bar>a * (w - 95 / 100)\<bar> \<le> 1 * (1 / 1000000000)"
    unfolding abs_mult using a w by (intro mult_mono; linarith)
  moreover have "d - a * w = (d - 95 / 100 * a) - a * (w - 95 / 100)" by algebra
  ultimately have "\<bar>d - a * w\<bar> \<le> 8 / 1000000000" using d by linarith
  then have "\<bar>d - a * w\<bar> / w \<le> (8 / 1000000000) / (1 / 2)"
    using w by (intro frac_le; linarith)
  moreover have w0: "0 < w" using w by linarith
  moreover have "d / w - a = (d - a * w) / w" using w0 by (simp add: field_simps)
  ultimately have "\<bar>d / w - a\<bar> \<le> (8 / 1000000000) / (1 / 2)" by simp
  then have dw: "\<bar>d / w - a\<bar> \<le> 16 / 1000000000" by simp
  define z where "z = rnd (d / w)"
  have "\<bar>z - d / w\<bar> \<le> 1 / 1000000000" unfolding z_def using dw a by (intro R) linarith
  then have z: "\<bar>z - a\<bar> \<le> 17 / 1000000000" using dw by linarith
  have v: "real (unat v) = 255 * a" by (simp add: a_def)
  have "\<bar>rnd (z * 255) - z * 255\<bar> \<le> 1 / 1000000000" using z a by (intro R) linarith
  then have "\<bar>rnd (z * 255) - real (unat v)\<bar> < 1 / 4" using z unfolding v by linarith
  then have "math_Round (rnd (z * 255)) = int (unat v)" by (rule math_Round_near)
  then show ?thesis
    by (simp add: EncodeSessionScaledByte_def SessionPolicyScaledMin_def SessionPolicyScaledMax_def
        z_def d_def y_def w_def c_def Let_def)
qed

lemma Encode_Decode_scaled:
  "float_rounding rnd \<Longrightarrow> EncodeSessionScaledByte rnd (DecodeSessionScaledByte rnd fma v) = v"
  by (rule EncodeSessionScaledByte_near [OF _ scaled_value])

section \<open>Policy block and payload round trips\<close>

lemma clampInt_range: "lo \<le> hi \<Longrightarrow> lo \<le> clampInt v lo hi \<and> clampInt v lo hi \<le> hi"
  by (simp add: clampInt_def)

lemma clampInt_id: "lo \<le> v \<Longrightarrow> v \<le> hi \<Longrightarrow> clampInt v lo hi = v"
  by (simp add: clampInt_def)

lemma clampInt_uint8: "word_of_int (clampInt (uint (b :: u8)) 0 255) = b"
  using unsigned_less [of b, where 'a = int] by (simp add: clampInt_id)

lemma clampInt_uint16: "word_of_int (clampInt (uint (b :: u16)) 0 65535) = b"
  using unsigned_less [of b, where 'a = int] by (simp add: clampInt_id)

lemma uint_clampInt8: "uint (word_of_int (clampInt v 0 255) :: u8) = clampInt v 0 255"
  using clampInt_range [of 0 255 v] by (simp add: uint_word_of_int_eq take_bit_int_eq_self)

lemma uint_clampInt16: "uint (word_of_int (clampInt v 0 65535) :: u16) = clampInt v 0 65535"
  using clampInt_range [of 0 65535 v] by (simp add: uint_word_of_int_eq take_bit_int_eq_self)

lemma nibble_mask: "(15 :: u8) = mask 4"
  by (simp add: mask_eq_exp_minus_1)

lemma nibble_range: "uint ((b :: u8) AND 15) \<le> 15" "uint (drop_bit 4 (b :: u8) AND 15) \<le> 15"
  unfolding nibble_mask take_bit_eq_mask [symmetric] unsigned_take_bit_eq by (simp_all add: take_bit_eq_mod)

lemma nibbles_join:
  "word_of_int (push_bit 4 (uint (drop_bit 4 (b :: u8) AND 15)) OR uint (b AND 15)) = b"
  unfolding nibble_mask by (rule bit_word_eqI) (auto simp: bit_simps)

lemma nibbles_split:
  fixes s p :: int
  assumes "0 \<le> s" "s \<le> 15" "0 \<le> p" "p \<le> 15"
  defines "b \<equiv> (word_of_int (push_bit 4 s OR p) :: u8)"
  shows "uint (b AND 15) = p" "uint (drop_bit 4 b AND 15) = s"
proof -
  have s: "s \<in> {0..15}" and p: "p \<in> {0..15}" using assms by simp_all
  have "\<forall>s\<in>{0..15}. \<forall>p\<in>{0..15}. uint ((word_of_int (push_bit 4 s OR p) :: u8) AND 15) = p \<and>
      uint (drop_bit 4 (word_of_int (push_bit 4 s OR p) :: u8) AND 15) = s"
    by code_simp
  with s p show "uint (b AND 15) = p" "uint (drop_bit 4 b AND 15) = s"
    unfolding b_def by blast+
qed

lemma length_policy [simp]: "length (EncodeSessionAcceptClientPolicy rnd policy) = 13"
  by (simp add: EncodeSessionAcceptClientPolicy_def)

text \<open>What survives encoding: integers clamped to their field, the two intervals to their byte.\<close>

definition policy_view :: "(real \<Rightarrow> real) \<Rightarrow> bool \<Rightarrow> client_policy \<Rightarrow> client_policy" where
  "policy_view rnd fma p =
     \<lparr>MaxPacketDuplicationCount = clampInt (MaxPacketDuplicationCount p) 0 15,
      MaxSetupDuplicationCount = clampInt (MaxSetupDuplicationCount p) 0 15,
      pol_MaxUploadMTU = clampInt (pol_MaxUploadMTU p) 0 255,
      pol_MaxDownloadMTU = clampInt (pol_MaxDownloadMTU p) 0 65535,
      MaxRxTxWorkers = clampInt (MaxRxTxWorkers p) 0 255,
      MinPingAggressiveInterval =
        DecodeSessionScaledByte rnd fma (EncodeSessionScaledByte rnd (MinPingAggressiveInterval p)),
      pol_MaxPacketsPerBatch = clampInt (pol_MaxPacketsPerBatch p) 0 255,
      MaxARQWindowSize = clampInt (MaxARQWindowSize p) 0 65535,
      MaxARQDataNackMaxGap = clampInt (MaxARQDataNackMaxGap p) 0 255,
      MinCompressionMinSize = clampInt (MinCompressionMinSize p) 0 65535,
      MinARQInitialRTOSeconds =
        DecodeSessionScaledByte rnd fma (EncodeSessionScaledByte rnd (MinARQInitialRTOSeconds p))\<rparr>"

lemma Decode_Encode_policy:
  "DecodeSessionAcceptClientPolicy rnd fma (EncodeSessionAcceptClientPolicy rnd p) =
     Inr (policy_view rnd fma p)"
  using nibbles_split [of "clampInt (MaxSetupDuplicationCount p) 0 15"
      "clampInt (MaxPacketDuplicationCount p) 0 15"] clampInt_range [of 0 15]
  by (simp add: DecodeSessionAcceptClientPolicy_def EncodeSessionAcceptClientPolicy_def policy_view_def
      put16_def get16_def uint_clampInt8 uint_clampInt16)

lemma Encode_Decode_policy:
  assumes "float_rounding rnd" "length b = 13" "DecodeSessionAcceptClientPolicy rnd fma b = Inr p"
  shows "EncodeSessionAcceptClientPolicy rnd p = b"
proof -
  from assms(3) have p: "p = (case DecodeSessionAcceptClientPolicy rnd fma b of Inr p \<Rightarrow> p)" by simp
  have d: "MaxPacketDuplicationCount p = uint (b ! 0 AND 15)"
    "MaxSetupDuplicationCount p = uint (drop_bit 4 (b ! 0) AND 15)"
    using assms(2,3) by (auto simp: DecodeSessionAcceptClientPolicy_def)
  have n: "word_of_int (push_bit 4 (clampInt (MaxSetupDuplicationCount p) 0 15) OR
      clampInt (MaxPacketDuplicationCount p) 0 15) = b ! 0"
    unfolding d by (simp add: clampInt_id nibble_range nibbles_join)
  show ?thesis
    unfolding EncodeSessionAcceptClientPolicy_def n
    using assms(2,3)
    by (auto simp: DecodeSessionAcceptClientPolicy_def clampInt_uint8 clampInt_uint16 put16_def get16_def
      Encode_Decode_scaled [OF assms(1)] numeral_eq_Suc length_Suc_conv)
qed

definition accept_view :: "(real \<Rightarrow> real) \<Rightarrow> bool \<Rightarrow> accept_payload \<Rightarrow> accept_payload" where
  "accept_view rnd fma p = p\<lparr>acc_ClientPolicy :=
     (if acc_HasClientPolicySync p then policy_view rnd fma (acc_ClientPolicy p) else zero_policy)\<rparr>"

lemma Decode_Encode_payload:
  assumes "length (acc_VerifyCode p) = 4"
  shows "DecodeSessionAcceptPayload rnd fma (EncodeSessionAcceptPayload rnd p) =
    Inr (accept_view rnd fma p)"
  using assms
  by (cases "acc_HasClientPolicySync p")
    (simp_all add: DecodeSessionAcceptPayload_def EncodeSessionAcceptPayload_def accept_view_def
      Decode_Encode_policy slice_def Let_def)

lemma Encode_Decode_payload:
  assumes "float_rounding rnd" "length b = 7 \<or> length b = 20"
    and "DecodeSessionAcceptPayload rnd fma b = Inr p"
  shows "EncodeSessionAcceptPayload rnd p = b"
proof -
  have head: "[b ! 0, b ! 1, b ! 2] @ slice b 3 7 = take 7 b"
    using assms(2) by (auto simp: slice_def numeral_eq_Suc length_Suc_conv)
  show ?thesis
  proof (cases "length b = 7")
    case True
    with assms(3) head show ?thesis
      by (auto simp: DecodeSessionAcceptPayload_def EncodeSessionAcceptPayload_def slice_def)
  next
    case False
    then have l: "length b = 20" using assms(2) by simp
    then obtain q where q: "DecodeSessionAcceptClientPolicy rnd fma (slice b 7 20) = Inr q"
      by (simp add: DecodeSessionAcceptClientPolicy_def slice_def)
    have "EncodeSessionAcceptClientPolicy rnd q = slice b 7 20"
      by (rule Encode_Decode_policy [OF assms(1) _ q]) (simp add: slice_def l)
    with assms(3) l q have e: "EncodeSessionAcceptPayload rnd p = ([b ! 0, b ! 1, b ! 2] @ slice b 3 7) @ slice b 7 20"
      by (auto simp: DecodeSessionAcceptPayload_def EncodeSessionAcceptPayload_def slice_def)
    show ?thesis unfolding e head by (simp add: slice_def l)
  qed
qed

section \<open>Applying a policy\<close>

text \<open>
  Settings respect a policy when every limited field is within the server's bound; a bound below the
  smallest legal value counts as that value.
\<close>

definition within_policy :: "client_policy \<Rightarrow> client_settings \<Rightarrow> bool" where
  "within_policy p s \<longleftrightarrow>
     1 \<le> PacketDuplicationCount s \<and> PacketDuplicationCount s \<le> max (MaxPacketDuplicationCount p) 1 \<and>
     PacketDuplicationCount s \<le> SetupPacketDuplicationCount s \<and>
     SetupPacketDuplicationCount s \<le> max (MaxSetupDuplicationCount p) (PacketDuplicationCount s) \<and>
     1 \<le> MaxUploadMTU s \<and> MaxUploadMTU s \<le> max (pol_MaxUploadMTU p) 1 \<and>
     1 \<le> MaxDownloadMTU s \<and> MaxDownloadMTU s \<le> max (pol_MaxDownloadMTU p) 1 \<and>
     1 \<le> RXTXWorkers s \<and> RXTXWorkers s \<le> max (MaxRxTxWorkers p) 1 \<and>
     MinPingAggressiveInterval p \<le> PingAggressiveInterval s \<and> PingAggressiveInterval s \<le> 30 \<and>
     1 \<le> MaxPacketsPerBatch s \<and> MaxPacketsPerBatch s \<le> max (pol_MaxPacketsPerBatch p) 1 \<and>
     1 \<le> ARQWindowSize s \<and> ARQWindowSize s \<le> max (MaxARQWindowSize p) 1 \<and>
     0 \<le> ARQDataNackMaxGap s \<and> ARQDataNackMaxGap s \<le> max (MaxARQDataNackMaxGap p) 0 \<and>
     max (MinCompressionMinSize p) 1 \<le> CompressionMinSize s \<and>
     MinARQInitialRTOSeconds p \<le> ARQInitialRTOSeconds s \<and>
     ARQInitialRTOSeconds s \<le> ARQMaxRTOSeconds s \<and>
     MinARQInitialRTOSeconds p \<le> ARQControlInitialRTOSeconds s \<and>
     ARQControlInitialRTOSeconds s \<le> ARQControlMaxRTOSeconds s"

text \<open>The intervals a policy asks for are attainable under the client's own ceilings.\<close>

definition attainable :: "client_policy \<Rightarrow> client_settings \<Rightarrow> bool" where
  "attainable p s \<longleftrightarrow> MinPingAggressiveInterval p \<le> 30 \<and>
     MinARQInitialRTOSeconds p \<le> ARQMaxRTOSeconds s \<and>
     MinARQInitialRTOSeconds p \<le> ARQControlMaxRTOSeconds s"

lemma maxInt_eq: "maxInt a b = max a b"
  by (simp add: maxInt_def)

lemma clampFloat64_range: "lo \<le> hi \<Longrightarrow> lo \<le> clampFloat64 v lo hi \<and> clampFloat64 v lo hi \<le> hi"
  by (simp add: clampFloat64_def)

lemma clampFloat64_id: "lo \<le> v \<Longrightarrow> v \<le> hi \<Longrightarrow> clampFloat64 v lo hi = v"
  by (simp add: clampFloat64_def)

lemma Apply_within_policy:
  assumes "attainable p s" "rnd 30 = 30"
  shows "within_policy p (ApplySessionAcceptClientPolicy rnd s p)"
  using assms
  by (simp add: within_policy_def attainable_def ApplySessionAcceptClientPolicy_def Let_def maxInt_eq
      clampInt_range clampFloat64_range)

lemma Apply_fixes_within:
  assumes "within_policy p s" "rnd 30 = 30"
  shows "ApplySessionAcceptClientPolicy rnd s p = s"
  using assms
  by (simp add: within_policy_def ApplySessionAcceptClientPolicy_def Let_def maxInt_eq
      clampInt_id clampFloat64_id max_absorb1)

section \<open>Properties\<close>

text \<open>
  Decoding an encoded SESSION_ACCEPT payload gives the payload back, the policy integers clamped to
  their fields and the two intervals to their scaled byte; without a policy the policy is zero.
\<close>

theorem accept_decodes:
  assumes "length (acc_VerifyCode p) = 4"
  shows "DecodeSessionAcceptPayload rnd fma (EncodeSessionAcceptPayload rnd p) = Inr (accept_view rnd fma p)"
  by (rule Decode_Encode_payload [OF assms])

definition example_accept :: accept_payload where
  "example_accept = \<lparr>acc_SessionID = 3, acc_SessionCookie = 4, acc_CompressionPair = 18, acc_VerifyCode = [1, 2, 3, 4],
     acc_ClientPolicy = zero_policy\<lparr>pol_MaxDownloadMTU := 70000\<rparr>, acc_HasClientPolicySync = True\<rparr>"

theorem accept_decodes_witness:
  "DecodeSessionAcceptPayload id False (EncodeSessionAcceptPayload id example_accept) =
     Inr (accept_view id False example_accept) \<and>
   pol_MaxDownloadMTU (acc_ClientPolicy (accept_view id False example_accept)) = 65535"
  using accept_decodes [of example_accept id False]
  by (simp add: example_accept_def accept_view_def policy_view_def clampInt_def)

text \<open>
  (C34) A received payload of either legal size re-encodes to the same bytes, for every rounding within
  the accuracy of binary64 and with or without a fused multiply-add: the scaled bytes survive the
  conversion to seconds and back.
\<close>

theorem accept_reencodes:
  assumes "float_rounding rnd" "length b = 7 \<or> length b = 20" "DecodeSessionAcceptPayload rnd fma b = Inr p"
  shows "EncodeSessionAcceptPayload rnd p = b"
  by (rule Encode_Decode_payload [OF assms])

theorem accept_reencodes_witness:
  "\<exists>p. DecodeSessionAcceptPayload id True [1, 2, 3, 4, 5, 6, 7, 8, 9, 10, 11, 12, 13, 14, 15, 16, 17, 18, 19, 20] = Inr p \<and>
     EncodeSessionAcceptPayload id p = [1, 2, 3, 4, 5, 6, 7, 8, 9, 10, 11, 12, 13, 14, 15, 16, 17, 18, 19, 20]"
proof -
  let ?b = "[1, 2, 3, 4, 5, 6, 7, 8, 9, 10, 11, 12, 13, 14, 15, 16, 17, 18, 19, 20] :: bytes"
  obtain p where "DecodeSessionAcceptPayload id True ?b = Inr p"
    by (simp add: DecodeSessionAcceptPayload_def DecodeSessionAcceptClientPolicy_def slice_def Let_def)
  with accept_reencodes [OF float_rounding_id, of ?b True p] show ?thesis by auto
qed

text \<open>
  Settings after \<open>ApplySessionAcceptClientPolicy\<close> respect every limit of the policy, and settings that
  respect the policy already are not changed, provided the policy's minimum intervals do not exceed the
  client's own maxima.
\<close>

theorem policy_applied:
  assumes "attainable p s" "rnd 30 = 30"
  shows "within_policy p (ApplySessionAcceptClientPolicy rnd s p) \<and>
    (within_policy p s \<longrightarrow> ApplySessionAcceptClientPolicy rnd s p = s)"
  using Apply_within_policy [of p s rnd] Apply_fixes_within [of p s rnd] assms by blast

definition example_settings :: client_settings where
  "example_settings = \<lparr>PacketDuplicationCount = 9, SetupPacketDuplicationCount = 1, MaxUploadMTU = 500, MaxDownloadMTU = 0,
     RXTXWorkers = 4, PingAggressiveInterval = 0, MaxPacketsPerBatch = 7, ARQWindowSize = 1000, ARQDataNackMaxGap = - 3,
     CompressionMinSize = 0, ARQInitialRTOSeconds = 0, ARQControlInitialRTOSeconds = 9, ARQMaxRTOSeconds = 5,
     ARQControlMaxRTOSeconds = 5\<rparr>"

theorem policy_applied_witness:
  "within_policy zero_policy (ApplySessionAcceptClientPolicy id example_settings zero_policy)"
  using policy_applied [of zero_policy example_settings id]
  by (simp add: attainable_def example_settings_def zero_policy_def)

end
