(* ===== verification/MLQ.thy ===== *)
theory MLQ
  imports Prelude "HOL-Library.Multiset"
begin

text \<open>
  The multi-level queue (\<open>mlq/mlq.go\<close>) that orders outgoing packets: six FIFO lists, a bit mask of
  the non-empty ones, a census that finds an entry by its key, and an atomic size. Under its mutex
  every operation is one step, so an operation is a function on the queue's record. A
  \<open>*list.Element\<close> is its allocation number with the \<open>queueEntry\<close> it holds, which no operation changes.
  Indexing \<open>queues\<close> out of range panics in Go; the invariant below keeps every index under six.
\<close>

section \<open>State\<close>

record 'a queueEntry =
  qe_key :: u64
  qe_item :: 'a

type_synonym 'a elem = "nat \<times> 'a queueEntry"

record 'a censusEntry =
  ce_priority :: nat
  ce_elem :: "'a elem"

record 'a multiLevelQueue =
  queues :: "'a elem list list"
  bitmask :: u16
  fastSize :: "32 word"
  census :: "(u64 \<times> 'a censusEntry) list"
  nextElem :: nat

definition New :: "'a multiLevelQueue" where
  "New = \<lparr>queues = replicate 6 [], bitmask = 0, fastSize = 0, census = [], nextElem = 0\<rparr>"

text \<open>\<open>bits.TrailingZeros16\<close>, and \<open>mask & ^(1 << p)\<close>.\<close>

definition TrailingZeros16 :: "u16 \<Rightarrow> nat" where
  "TrailingZeros16 m = length (takeWhile (\<lambda>i. \<not> bit m i) [0..<16])"

definition clear_bit :: "nat \<Rightarrow> u16 \<Rightarrow> u16" where
  "clear_bit p m = m AND NOT (push_bit p 1)"

text \<open>\<open>items.Remove(e)\<close>: the element with that identity leaves the list.\<close>

definition list_remove :: "'a elem \<Rightarrow> 'a elem list \<Rightarrow> 'a elem list" where
  "list_remove e q = filter (\<lambda>e'. fst e' \<noteq> fst e) q"

section \<open>Operations\<close>

definition Push :: "int \<Rightarrow> u64 \<Rightarrow> 'a \<Rightarrow> 'a multiLevelQueue \<Rightarrow> bool \<times> 'a multiLevelQueue" where
  "Push priority key item m =
     (if map_of (census m) key \<noteq> None then (False, m)
      else
        let p = (if priority < 0 \<or> priority \<ge> 6 then 3 else nat priority);
            e = (nextElem m, \<lparr>qe_key = key, qe_item = item\<rparr>)
        in (True, m\<lparr>queues := (queues m)[p := queues m ! p @ [e]],
                    census := AList.update key \<lparr>ce_priority = p, ce_elem = e\<rparr> (census m),
                    bitmask := bitmask m OR push_bit p 1,
                    fastSize := fastSize m + 1,
                    nextElem := Suc (nextElem m)\<rparr>))"

text \<open>
  The statements every removal ends with: take the element off its list, drop its key from the
  census, count down, and clear the mask bit of a list that became empty.
\<close>

definition removeElem :: "nat \<Rightarrow> 'a elem \<Rightarrow> 'a multiLevelQueue \<Rightarrow> 'a multiLevelQueue" where
  "removeElem p e m =
     (let q = list_remove e (queues m ! p) in
      m\<lparr>queues := (queues m)[p := q],
        census := AList.delete (qe_key (snd e)) (census m),
        fastSize := fastSize m - 1,
        bitmask := (if q = [] then clear_bit p (bitmask m) else bitmask m)\<rparr>)"

lemma TrailingZeros16_bit:
  assumes "m \<noteq> 0"
  shows "bit m (TrailingZeros16 m)" and "i < TrailingZeros16 m \<Longrightarrow> \<not> bit m i"
proof -
  obtain k where k: "bit m k" using assms by (auto simp: bit_eq_iff)
  then have "k < 16" using bit_imp_le_length [of m k] by simp
  then have "takeWhile (\<lambda>i. \<not> bit m i) [0..<16] \<noteq> [0..<16]"
    using k by (auto simp: takeWhile_eq_all_conv)
  then have l: "TrailingZeros16 m < 16"
    unfolding TrailingZeros16_def
    by (metis length_takeWhile_le length_upt diff_zero nat_less_le takeWhile_eq_take take_all_iff order_refl)
  from nth_length_takeWhile [of "\<lambda>i. \<not> bit m i" "[0..<16]"] l
  show "bit m (TrailingZeros16 m)" by (simp add: TrailingZeros16_def)
  assume i: "i < TrailingZeros16 m"
  then have "takeWhile (\<lambda>i. \<not> bit m i) [0..<16] ! i = i"
    using l by (simp add: TrailingZeros16_def takeWhile_nth)
  then show "\<not> bit m i"
    using i nth_mem [of i "takeWhile (\<lambda>i. \<not> bit m i) [0..<16]"]
    by (auto simp: TrailingZeros16_def dest: set_takeWhileD)
qed

lemma bit_clear_bit [simp]: "bit (clear_bit p m) i \<longleftrightarrow> bit m i \<and> i \<noteq> p"
  by (auto simp: clear_bit_def bit_simps dest: bit_imp_le_length)

lemma clear_bit_less: "bit m p \<Longrightarrow> unat (clear_bit p m) < unat m"
proof -
  assume "bit m p"
  then have "clear_bit p m \<noteq> m" by (metis bit_clear_bit)
  moreover have "clear_bit p m \<le> m" by (simp add: clear_bit_def word_and_le2)
  ultimately show ?thesis unfolding word_less_nat_alt [symmetric] by simp
qed

function popLocked :: "'a multiLevelQueue \<Rightarrow> ('a \<times> nat) option \<times> 'a multiLevelQueue" where
  "popLocked m =
     (if bitmask m = 0 then (None, m)
      else
        let p = TrailingZeros16 (bitmask m) in
        case queues m ! p of
          [] \<Rightarrow> popLocked (m\<lparr>bitmask := clear_bit p (bitmask m)\<rparr>)
        | e # _ \<Rightarrow> (Some (qe_item (snd e), p), removeElem p e m))"
  by pat_completeness auto
termination
  by (relation "measure (\<lambda>m. unat (bitmask m))")
    (auto intro: clear_bit_less TrailingZeros16_bit)

declare popLocked.simps [simp del]

definition Pop :: "'a multiLevelQueue \<Rightarrow> ('a \<times> nat) option \<times> 'a multiLevelQueue" where
  "Pop m = popLocked m"

function peekFrom :: "'a multiLevelQueue \<Rightarrow> u16 \<Rightarrow> ('a \<times> nat) option" where
  "peekFrom m tempMask =
     (if tempMask = 0 then None
      else
        let p = TrailingZeros16 tempMask in
        case queues m ! p of
          e # _ \<Rightarrow> Some (qe_item (snd e), p)
        | [] \<Rightarrow> peekFrom m (clear_bit p tempMask))"
  by pat_completeness auto
termination
  by (relation "measure (\<lambda>(_, t). unat t)") (auto intro: clear_bit_less TrailingZeros16_bit)

declare peekFrom.simps [simp del]

definition Peek :: "'a multiLevelQueue \<Rightarrow> ('a \<times> nat) option" where
  "Peek m = (if bitmask m = 0 then None else peekFrom m (bitmask m))"

definition Get :: "u64 \<Rightarrow> 'a multiLevelQueue \<Rightarrow> 'a option" where
  "Get key m = (case map_of (census m) key of None \<Rightarrow> None | Some c \<Rightarrow> Some (qe_item (snd (ce_elem c))))"

definition RemoveByKey :: "u64 \<Rightarrow> 'a multiLevelQueue \<Rightarrow> 'a option \<times> 'a multiLevelQueue" where
  "RemoveByKey key m =
     (case map_of (census m) key of
        None \<Rightarrow> (None, m)
      | Some c \<Rightarrow>
          if ce_priority c \<ge> 6 then (None, m)
          else
            let q = list_remove (ce_elem c) (queues m ! ce_priority c) in
            (Some (qe_item (snd (ce_elem c))),
             m\<lparr>queues := (queues m)[ce_priority c := q],
               census := AList.delete key (census m),
               fastSize := fastSize m - 1,
               bitmask := (if q = [] then clear_bit (ce_priority c) (bitmask m) else bitmask m)\<rparr>))"

definition Count :: "int \<Rightarrow> 'a multiLevelQueue \<Rightarrow> nat" where
  "Count priority m = (if priority < 0 \<or> priority \<ge> 6 then 0 else length (queues m ! nat priority))"

definition Size :: "'a multiLevelQueue \<Rightarrow> nat" where
  "Size m = length (census m)"

definition FastSize :: "'a multiLevelQueue \<Rightarrow> int" where
  "FastSize m = sint (fastSize m)"

text \<open>\<open>Clear\<close> returns the items its callback sees, in order; a nil callback sees none.\<close>

definition Clear :: "bool \<Rightarrow> 'a multiLevelQueue \<Rightarrow> 'a list \<times> 'a multiLevelQueue" where
  "Clear callback m =
     (if callback then concat (map (map (\<lambda>e. qe_item (snd e))) (queues m)) else [],
      m\<lparr>queues := map (\<lambda>_. []) (queues m), census := [], bitmask := 0, fastSize := 0\<rparr>)"

definition HighestPriority :: "'a multiLevelQueue \<Rightarrow> int" where
  "HighestPriority m = (if bitmask m = 0 then - 1 else int (TrailingZeros16 (bitmask m)))"

text \<open>A nil predicate accepts every item.\<close>

definition accepts :: "('a \<Rightarrow> bool) option \<Rightarrow> 'a elem \<Rightarrow> bool" where
  "accepts predicate e = (case predicate of None \<Rightarrow> True | Some f \<Rightarrow> f (qe_item (snd e)))"

definition PopIf ::
  "int \<Rightarrow> ('a \<Rightarrow> bool) option \<Rightarrow> 'a multiLevelQueue \<Rightarrow> 'a option \<times> 'a multiLevelQueue" where
  "PopIf priority predicate m =
     (if bitmask m = 0 \<or> priority < 0 \<or> priority \<ge> 6 then (None, m)
      else
        let p = nat priority in
        if bitmask m AND push_bit p 1 = 0 then (None, m)
        else case queues m ! p of
            [] \<Rightarrow> (None, m\<lparr>bitmask := clear_bit p (bitmask m)\<rparr>)
          | e # _ \<Rightarrow>
              if \<not> accepts predicate e then (None, m)
              else (Some (qe_item (snd e)), removeElem p e m))"

function popAnyFrom ::
  "int \<Rightarrow> ('a \<Rightarrow> bool) option \<Rightarrow> 'a multiLevelQueue \<Rightarrow> u16 \<Rightarrow> 'a option \<times> 'a multiLevelQueue" where
  "popAnyFrom maxPriority predicate m tempMask =
     (if tempMask = 0 then (None, m)
      else
        let p = TrailingZeros16 tempMask in
        if int p > maxPriority then (None, m)
        else case find (accepts predicate) (queues m ! p) of
            Some e \<Rightarrow> (Some (qe_item (snd e)), removeElem p e m)
          | None \<Rightarrow> popAnyFrom maxPriority predicate m (clear_bit p tempMask))"
  by pat_completeness auto
termination
  by (relation "measure (\<lambda>(_, _, _, t). unat t)") (auto intro: clear_bit_less TrailingZeros16_bit)

declare popAnyFrom.simps [simp del]

definition PopAnyIf ::
  "int \<Rightarrow> ('a \<Rightarrow> bool) option \<Rightarrow> 'a multiLevelQueue \<Rightarrow> 'a option \<times> 'a multiLevelQueue" where
  "PopAnyIf maxPriority predicate m =
     (if bitmask m = 0 then (None, m) else popAnyFrom maxPriority predicate m (bitmask m))"

section \<open>The entries in the order Pop serves them\<close>

definition entries_range :: "'a elem list list \<Rightarrow> nat \<Rightarrow> nat \<Rightarrow> (nat \<times> 'a elem) list" where
  "entries_range qs i j = concat (map (\<lambda>p. map (Pair p) (qs ! p)) [i..<j])"

abbreviation entries :: "'a multiLevelQueue \<Rightarrow> (nat \<times> 'a elem) list" where
  "entries m \<equiv> entries_range (queues m) 0 6"

abbreviation entry_id :: "nat \<times> 'a elem \<Rightarrow> nat" where
  "entry_id x \<equiv> fst (snd x)"

abbreviation entry_key :: "nat \<times> 'a elem \<Rightarrow> u64" where
  "entry_key x \<equiv> qe_key (snd (snd x))"

abbreviation entry_item :: "nat \<times> 'a elem \<Rightarrow> 'a" where
  "entry_item x \<equiv> qe_item (snd (snd x))"

definition census_row :: "nat \<times> 'a elem \<Rightarrow> u64 \<times> 'a censusEntry" where
  "census_row x = (entry_key x, \<lparr>ce_priority = fst x, ce_elem = snd x\<rparr>)"

definition mlq_inv :: "'a multiLevelQueue \<Rightarrow> bool" where
  "mlq_inv m \<longleftrightarrow>
     length (queues m) = 6 \<and>
     distinct (map entry_id (entries m)) \<and> (\<forall>x\<in>set (entries m). entry_id x < nextElem m) \<and>
     distinct (map entry_key (entries m)) \<and>
     mset (census m) = mset (map census_row (entries m)) \<and>
     (\<forall>p. bit (bitmask m) p \<longleftrightarrow> p < 6 \<and> queues m ! p \<noteq> []) \<and>
     fastSize m = of_nat (length (entries m))"

lemma entries_range_cong:
  "(\<And>p. i \<le> p \<Longrightarrow> p < j \<Longrightarrow> qs ! p = rs ! p) \<Longrightarrow> entries_range qs i j = entries_range rs i j"
  unfolding entries_range_def by (intro arg_cong [where f = concat] map_cong) auto

lemma entries_range_split:
  assumes "p < 6"
  shows "entries_range qs 0 6 = entries_range qs 0 p @ map (Pair p) (qs ! p) @ entries_range qs (Suc p) 6"
proof -
  have "[0..<6] = [0..<p] @ p # [Suc p..<6]"
    using assms upt_add_eq_append [of 0 p "6 - p"] by (simp add: upt_conv_Cons)
  then show ?thesis by (simp add: entries_range_def)
qed

lemma entries_range_update:
  assumes "p < 6" "length qs = 6"
  shows "entries_range (qs[p := q]) 0 6 =
    entries_range qs 0 p @ map (Pair p) q @ entries_range qs (Suc p) 6"
proof -
  have "entries_range (qs[p := q]) 0 p = entries_range qs 0 p"
    "entries_range (qs[p := q]) (Suc p) 6 = entries_range qs (Suc p) 6"
    by (rule entries_range_cong; simp)+
  with assms show ?thesis by (simp add: entries_range_split)
qed

lemma in_entries_range: "x \<in> set (entries_range qs i j) \<longleftrightarrow> i \<le> fst x \<and> fst x < j \<and> snd x \<in> set (qs ! fst x)"
  by (cases x) (auto simp: entries_range_def)

lemma in_entries: "x \<in> set (entries m) \<longleftrightarrow> fst x < 6 \<and> snd x \<in> set (queues m ! fst x)"
  by (simp add: in_entries_range)

lemma sorted_const: "sorted (map (\<lambda>x. c) xs)"
  by (induction xs) auto

lemma sorted_entries: "sorted (map fst (entries_range qs i j))"
proof (induction j)
  case (Suc j)
  then show ?case
    by (cases "i \<le> j") (auto simp: entries_range_def sorted_append comp_def sorted_const)
qed (simp add: entries_range_def)

lemma entries_New [simp]: "entries New = []"
  by (simp add: entries_range_def New_def)

lemma mlq_inv_New [inv_intros]: "mlq_inv New"
  by (simp add: mlq_inv_def) (simp add: New_def)

lemma entries_Nil_iff: "mlq_inv m \<Longrightarrow> entries m = [] \<longleftrightarrow> bitmask m = 0"
  by (auto simp: mlq_inv_def bit_eq_iff entries_range_def)

section \<open>Adding an entry\<close>

lemma update_new: "map_of al k = None \<Longrightarrow> AList.update k v al = al @ [(k, v)]"
  by (induction al) (auto split: if_splits)

lemma census_keys:
  assumes "mlq_inv m"
  shows "distinct (map fst (census m))" "fst ` set (census m) = entry_key ` set (entries m)"
proof -
  have c: "mset (census m) = mset (map census_row (entries m))" and d: "distinct (map entry_key (entries m))"
    using assms unfolding mlq_inv_def by blast+
  have *: "mset (map fst (census m)) = mset (map entry_key (entries m))"
    using arg_cong [OF c, of "image_mset fst"] by (simp add: comp_def census_row_def image_mset.compositionality)
  from mset_eq_imp_distinct_iff [OF this] d show "distinct (map fst (census m))" by simp
  from mset_eq_setD [OF *] show "fst ` set (census m) = entry_key ` set (entries m)" by simp
qed

lemma map_of_census:
  assumes "mlq_inv m"
  shows "map_of (census m) k = Some c \<longleftrightarrow> (k, c) \<in> census_row ` set (entries m)"
proof -
  have "map_of (census m) k = Some c \<longleftrightarrow> (k, c) \<in> set (census m)"
    using census_keys(1) [OF assms] by simp
  also have "set (census m) = census_row ` set (entries m)"
    using assms mset_eq_setD [of "census m" "map census_row (entries m)"] by (simp add: mlq_inv_def)
  finally show ?thesis .
qed

definition push_level :: "int \<Rightarrow> nat" where
  "push_level priority = (if priority < 0 \<or> priority \<ge> 6 then 3 else nat priority)"

lemma push_level_less [simp]: "push_level priority < 6"
  by (auto simp: push_level_def)

lemma push_level_16 [simp]: "push_level priority < 16"
  using push_level_less [of priority] by (rule less_trans) simp

definition new_entry :: "int \<Rightarrow> u64 \<Rightarrow> 'a \<Rightarrow> 'a multiLevelQueue \<Rightarrow> nat \<times> 'a elem" where
  "new_entry priority key item m = (push_level priority, nextElem m, \<lparr>qe_key = key, qe_item = item\<rparr>)"

lemma Push_new_key: "mlq_inv m \<Longrightarrow> fst (Push priority key item m) \<longleftrightarrow> key \<notin> entry_key ` set (entries m)"
  using census_keys(2) [of m] by (simp add: Push_def Let_def map_of_eq_None_iff)

lemma entries_Push:
  assumes "mlq_inv m" "fst (Push priority key item m)"
  shows "entries (snd (Push priority key item m)) =
    filter (\<lambda>x. fst x \<le> push_level priority) (entries m) @ new_entry priority key item m #
    filter (\<lambda>x. push_level priority < fst x) (entries m)"
proof -
  define p where "p = push_level priority"
  have p: "p < 6" by (simp add: p_def)
  have "queues (snd (Push priority key item m)) =
      (queues m)[p := queues m ! p @ [snd (new_entry priority key item m)]]"
    using assms(2) by (simp add: Push_def Let_def p_def push_level_def new_entry_def split: if_splits)
  then have "entries (snd (Push priority key item m)) =
      entries_range (queues m) 0 p @ map (Pair p) (queues m ! p) @
      (p, snd (new_entry priority key item m)) # entries_range (queues m) (Suc p) 6"
    using assms(1) p by (simp add: entries_range_update mlq_inv_def)
  moreover have "filter (\<lambda>x. fst x \<le> p) (entries m) = entries_range (queues m) 0 p @ map (Pair p) (queues m ! p)"
    "filter (\<lambda>x. p < fst x) (entries m) = entries_range (queues m) (Suc p) 6"
    unfolding entries_range_split [OF p]
    by (auto simp: filter_empty_conv filter_id_conv in_entries_range)
  ultimately show ?thesis by (simp add: p_def new_entry_def)
qed

lemma Push_mset:
  assumes "mlq_inv m" "fst (Push priority key item m)"
  shows "mset (entries (snd (Push priority key item m))) =
    add_mset (new_entry priority key item m) (mset (entries m))"
proof -
  have "filter_mset (\<lambda>x. fst x \<le> push_level priority) M + filter_mset (\<lambda>x. push_level priority < fst x) M = M"
    for M :: "(nat \<times> 'a elem) multiset"
    using multiset_partition [of M "\<lambda>x. fst x \<le> push_level priority"] by (simp add: not_le)
  then show ?thesis by (simp add: entries_Push [OF assms])
qed

lemma mlq_inv_Push [inv_intros]:
  assumes "mlq_inv m"
  shows "mlq_inv (snd (Push priority key item m))"
proof (cases "fst (Push priority key item m)")
  case False
  then show ?thesis using assms by (simp add: Push_def Let_def split: if_splits)
next
  case True
  let ?m = "snd (Push priority key item m)" and ?x = "new_entry priority key item m"
  have new: "map_of (census m) key = None" using True by (auto simp: Push_def Let_def split: if_splits)
  note ms = Push_mset [OF assms True]
  have "mset (map f (entries ?m)) = mset (f ?x # map f (entries m))" for f :: "nat \<times> 'a elem \<Rightarrow> 'b"
    by (simp add: ms)
  then have d: "distinct (map f (entries ?m)) \<longleftrightarrow> distinct (f ?x # map f (entries m))"
    for f :: "nat \<times> 'a elem \<Rightarrow> 'b"
    by (rule mset_eq_imp_distinct_iff)
  have s: "set (entries ?m) = insert ?x (set (entries m))"
    using ms by (metis set_mset_add_mset_insert set_mset_mset)
  have l: "length (entries ?m) = Suc (length (entries m))"
    using ms by (metis size_add_mset size_mset)
  have fields: "census ?m = census m @ [census_row ?x]" "nextElem ?m = Suc (nextElem m)"
      "fastSize ?m = fastSize m + 1" "length (queues ?m) = length (queues m)"
      "bitmask ?m = bitmask m OR push_bit (push_level priority) 1"
      "queues ?m = (queues m)[push_level priority := queues m ! push_level priority @ [snd ?x]]"
    using new by (simp_all add: Push_def Let_def new_entry_def census_row_def push_level_def update_new)
  have "length (queues m) = 6" "\<forall>p. bit (bitmask m) p \<longleftrightarrow> p < 6 \<and> queues m ! p \<noteq> []"
    using assms by (simp_all add: mlq_inv_def)
  then have "\<forall>q. bit (bitmask ?m) q \<longleftrightarrow> q < 6 \<and> queues ?m ! q \<noteq> []"
    unfolding fields(5,6) by (auto simp: bit_simps nth_list_update)
  moreover have "entry_key ?x \<notin> entry_key ` set (entries m)"
    using Push_new_key [OF assms] True by (simp add: new_entry_def)
  moreover have "entry_id ?x = nextElem m" by (simp add: new_entry_def)
  moreover have "mset (census ?m) = mset (map census_row (entries ?m))"
    using assms unfolding fields(1) mlq_inv_def by (simp add: ms)
  moreover have "\<forall>x\<in>set (entries m). entry_id x < nextElem m" using assms unfolding mlq_inv_def by blast
  moreover have "distinct (map entry_id (entries m))" "distinct (map entry_key (entries m))"
    "length (queues m) = 6" "fastSize m = of_nat (length (entries m))"
    using assms unfolding mlq_inv_def by blast+
  ultimately show ?thesis
    unfolding mlq_inv_def d s by (simp add: fields(2-4) l less_Suc_eq) auto
qed

section \<open>Removing an entry\<close>

lemma filter_unique: "distinct (map f xs) \<Longrightarrow> x \<in> set xs \<Longrightarrow> filter (\<lambda>y. f y = f x) xs = [x]"
  by (induction xs) (auto simp: filter_empty_conv, metis imageI)

lemma entries_removeElem:
  assumes "mlq_inv m" "p < 6" "e \<in> set (queues m ! p)"
  shows "entries (removeElem p e m) = filter (\<lambda>x. entry_id x \<noteq> fst e) (entries m)"
proof -
  have len: "length (queues m) = 6" and d: "distinct (map entry_id (entries m))"
    using assms(1) unfolding mlq_inv_def by blast+
  have i: "fst e \<in> fst ` set (queues m ! p)" using assms(3) by (rule imageI)
  have "fst e \<notin> entry_id ` set (entries_range (queues m) 0 p)"
    using d i unfolding entries_range_split [OF assms(2)] by (simp add: image_image) blast
  moreover have "fst e \<notin> entry_id ` set (entries_range (queues m) (Suc p) 6)"
    using d i unfolding entries_range_split [OF assms(2)] by (simp add: image_image) blast
  ultimately have "\<forall>x\<in>set (entries_range (queues m) 0 p). entry_id x \<noteq> fst e"
    "\<forall>x\<in>set (entries_range (queues m) (Suc p) 6). entry_id x \<noteq> fst e"
    by (metis imageI)+
  then have "filter (\<lambda>x. entry_id x \<noteq> fst e) (entries_range (queues m) 0 p) = entries_range (queues m) 0 p"
    "filter (\<lambda>x. entry_id x \<noteq> fst e) (entries_range (queues m) (Suc p) 6) = entries_range (queues m) (Suc p) 6"
    by (simp_all add: filter_id_conv)
  then show ?thesis
    unfolding removeElem_def Let_def
    by (simp add: entries_range_update [OF assms(2) len] list_remove_def filter_map comp_def)
      (simp add: entries_range_split [OF assms(2)] filter_map comp_def)
qed

lemma id_key_agree:
  assumes "mlq_inv m" "x \<in> set (entries m)" "y \<in> set (entries m)"
  shows "entry_id x = entry_id y \<longleftrightarrow> x = y" "entry_key x = entry_key y \<longleftrightarrow> x = y"
  using assms unfolding mlq_inv_def distinct_map inj_on_def by blast+

lemma mlq_inv_removeElem:
  assumes inv: "mlq_inv m" and p: "p < 6" and e: "e \<in> set (queues m ! p)"
  shows "mlq_inv (removeElem p e m)"
proof -
  let ?m = "removeElem p e m"
  have x: "(p, e) \<in> set (entries m)" using p e by (simp add: in_entries)
  note entries = entries_removeElem [OF inv p e]
  have parts: "length (queues m) = 6" "distinct (map entry_id (entries m))"
    "\<forall>x\<in>set (entries m). entry_id x < nextElem m" "distinct (map entry_key (entries m))"
    "mset (census m) = mset (map census_row (entries m))"
    "\<forall>p. bit (bitmask m) p \<longleftrightarrow> p < 6 \<and> queues m ! p \<noteq> []" "fastSize m = of_nat (length (entries m))"
    using inv unfolding mlq_inv_def by blast+
  have same: "filter (\<lambda>y. entry_key y \<noteq> qe_key (snd e)) (entries m) = entries ?m"
    unfolding entries using id_key_agree [OF inv _ x] by (intro filter_cong) (auto)
  have c: "mset (census ?m) = mset (map census_row (entries ?m))"
  proof -
    have "census ?m = filter (\<lambda>r. fst r \<noteq> qe_key (snd e)) (census m)"
      by (auto simp: removeElem_def Let_def AList.delete_eq split_def intro: filter_cong)
    then have "mset (census ?m) = filter_mset (\<lambda>r. fst r \<noteq> qe_key (snd e)) (mset (map census_row (entries m)))"
      by (simp only: parts(5) [symmetric] mset_filter)
    also have "\<dots> = mset (map census_row (filter (\<lambda>y. entry_key y \<noteq> qe_key (snd e)) (entries m)))"
      by (simp only: mset_filter [symmetric] filter_map comp_def) (simp add: census_row_def)
    finally show ?thesis by (simp only: same)
  qed
  have "filter (\<lambda>y. entry_id y = fst e) (entries m) = [(p, e)]"
    using filter_unique [OF parts(2) x] by simp
  then have l: "Suc (length (entries ?m)) = length (entries m)"
    unfolding entries using sum_length_filter_compl [of "\<lambda>y. entry_id y = fst e" "entries m"] by simp
  have b: "\<forall>q. bit (bitmask ?m) q \<longleftrightarrow> q < 6 \<and> queues ?m ! q \<noteq> []"
  proof
    fix q
    show "bit (bitmask ?m) q \<longleftrightarrow> q < 6 \<and> queues ?m ! q \<noteq> []"
      using parts(6) [rule_format, of q] parts(1) p e
      by (cases "q = p"; cases "queues m ! p") (auto simp: removeElem_def Let_def)
  qed
  have "fastSize ?m = of_nat (length (entries ?m))"
    using parts(7) by (simp add: removeElem_def Let_def l [symmetric])
  moreover have "length (queues ?m) = 6" "nextElem ?m = nextElem m"
    using parts(1) by (simp_all add: removeElem_def Let_def)
  moreover have "\<forall>x\<in>set (entries ?m). entry_id x < nextElem m" using parts(3) unfolding entries set_filter by blast
  moreover have "distinct (map entry_id (entries ?m))" "distinct (map entry_key (entries ?m))"
    using parts(2,4) unfolding entries by (simp_all add: distinct_map_filter)
  ultimately show ?thesis using b c unfolding mlq_inv_def by simp
qed

section \<open>What the operations return\<close>

lemma mlq_bits: "mlq_inv m \<Longrightarrow> bit (bitmask m) p \<longleftrightarrow> p < 6 \<and> queues m ! p \<noteq> []"
  by (simp add: mlq_inv_def)

text \<open>The lowest bit of the mask, or of its part at or above a level, names the first entry.\<close>

lemma first_level:
  assumes "mlq_inv m" "bitmask m \<noteq> 0"
  obtains e es where "queues m ! TrailingZeros16 (bitmask m) = e # es" "TrailingZeros16 (bitmask m) < 6"
    "entries m = (TrailingZeros16 (bitmask m), e) #
       map (Pair (TrailingZeros16 (bitmask m))) es @ entries_range (queues m) (Suc (TrailingZeros16 (bitmask m))) 6"
proof -
  let ?p = "TrailingZeros16 (bitmask m)"
  have p: "?p < 6" "queues m ! ?p \<noteq> []"
    using TrailingZeros16_bit(1) [OF assms(2)] mlq_bits [OF assms(1)] by simp_all
  then obtain e es where q: "queues m ! ?p = e # es" by (cases "queues m ! ?p") auto
  have "queues m ! i = []" if "i < ?p" for i
    using TrailingZeros16_bit(2) [OF assms(2) that] mlq_bits [OF assms(1), of i] that p(1) by auto
  then have "entries_range (queues m) 0 ?p = []" by (auto simp: entries_range_def)
  with that q p(1) entries_range_split [OF p(1), of "queues m"] show thesis by simp
qed

lemma Pop_empty: "mlq_inv m \<Longrightarrow> entries m = [] \<Longrightarrow> Pop m = (None, m)"
  by (simp add: Pop_def entries_Nil_iff popLocked.simps)

lemma Pop_first:
  assumes "mlq_inv m" "entries m = x # xs"
  shows "Pop m = (Some (entry_item x, fst x), removeElem (fst x) (snd x) m)"
proof -
  have nz: "bitmask m \<noteq> 0" using assms entries_Nil_iff [OF assms(1)] by auto
  show ?thesis
    by (rule first_level [OF assms(1) nz])
      (use assms(2) nz in \<open>simp add: Pop_def popLocked.simps Let_def\<close>)
qed

lemma Peek_eq: "mlq_inv m \<Longrightarrow> Peek m = fst (Pop m)"
  by (cases "bitmask m = 0")
    (auto simp: Peek_def Pop_def popLocked.simps peekFrom.simps Let_def elim: first_level)

lemma HighestPriority_eq:
  assumes "mlq_inv m"
  shows "HighestPriority m = (case entries m of [] \<Rightarrow> - 1 | x # _ \<Rightarrow> int (fst x))"
  by (cases "bitmask m = 0")
    (use assms entries_Nil_iff [OF assms] in \<open>auto simp: HighestPriority_def elim: first_level\<close>)

lemma entry_removed:
  assumes "mlq_inv m" "x \<in> set (entries m)"
  shows "entries (removeElem (fst x) (snd x) m) = filter (\<lambda>y. entry_key y \<noteq> entry_key x) (entries m)"
    and "mlq_inv (removeElem (fst x) (snd x) m)"
proof -
  have x: "fst x < 6" "snd x \<in> set (queues m ! fst x)" using assms(2) by (simp_all add: in_entries)
  show "mlq_inv (removeElem (fst x) (snd x) m)" by (rule mlq_inv_removeElem [OF assms(1) x])
  have "filter (\<lambda>y. entry_id y \<noteq> entry_id x) (entries m) = filter (\<lambda>y. entry_key y \<noteq> entry_key x) (entries m)"
    using id_key_agree [OF assms(1) _ assms(2)] by (intro filter_cong) (auto)
  with entries_removeElem [OF assms(1) x]
  show "entries (removeElem (fst x) (snd x) m) = filter (\<lambda>y. entry_key y \<noteq> entry_key x) (entries m)"
    by simp
qed

lemma entries_Pop:
  assumes "mlq_inv m" "entries m = x # xs"
  shows "entries (snd (Pop m)) = xs"
proof -
  have x: "x \<in> set (entries m)" using assms(2) by (metis list.set_intros(1))
  have "distinct (map entry_key (x # xs))" using assms unfolding mlq_inv_def by metis
  then have "entry_key x \<notin> entry_key ` set xs" by simp
  then have "\<forall>y\<in>set xs. entry_key y \<noteq> entry_key x" by (metis imageI)
  then show ?thesis
    using entry_removed(1) [OF assms(1) x] by (simp add: Pop_first [OF assms] assms(2) filter_id_conv)
qed

lemma mlq_inv_Pop [inv_intros]: "mlq_inv m \<Longrightarrow> mlq_inv (snd (Pop m))"
proof (cases "entries m")
  case (Cons x xs)
  assume "mlq_inv m"
  moreover have "x \<in> set (entries m)" unfolding Cons by simp
  ultimately show ?thesis using Cons entry_removed(2) [of m x] by (simp add: Pop_first)
qed (simp add: Pop_empty)

lemma find_key:
  assumes "mlq_inv m"
  shows "map_of (census m) k = map_option (snd \<circ> census_row) (find (\<lambda>x. entry_key x = k) (entries m))"
proof (cases "find (\<lambda>x. entry_key x = k) (entries m)")
  case None
  then have "k \<notin> fst ` set (census m)" unfolding census_keys(2) [OF assms] by (metis (mono_tags, lifting) find_None_iff imageE)
  with None show ?thesis by (simp add: map_of_eq_None_iff)
next
  case (Some x)
  then have "x \<in> set (entries m)" "entry_key x = k" by (auto simp: find_Some_iff)
  with Some map_of_census [OF assms, of k "snd (census_row x)"] show ?thesis
    by (auto simp: census_row_def intro: rev_image_eqI)
qed

lemma Get_eq:
  "mlq_inv m \<Longrightarrow> Get k m = map_option entry_item (find (\<lambda>x. entry_key x = k) (entries m))"
  by (cases "find (\<lambda>x. entry_key x = k) (entries m)") (simp_all add: Get_def find_key census_row_def)

lemma find_SomeD: "find P xs = Some x \<Longrightarrow> x \<in> set xs \<and> P x"
  by (auto simp: find_Some_iff)

lemma RemoveByKey_eq:
  assumes "mlq_inv m"
  shows "RemoveByKey k m =
    (case find (\<lambda>x. entry_key x = k) (entries m) of
       None \<Rightarrow> (None, m)
     | Some x \<Rightarrow> (Some (entry_item x), removeElem (fst x) (snd x) m))"
  by (cases "find (\<lambda>x. entry_key x = k) (entries m)")
    (auto simp: RemoveByKey_def find_key [OF assms] census_row_def removeElem_def Let_def in_entries dest: find_SomeD)

lemma RemoveByKey_entries:
  assumes "mlq_inv m"
  shows "entries (snd (RemoveByKey k m)) = filter (\<lambda>x. entry_key x \<noteq> k) (entries m)"
    and "mlq_inv (snd (RemoveByKey k m))"
proof -
  have "entries (snd (RemoveByKey k m)) = filter (\<lambda>x. entry_key x \<noteq> k) (entries m) \<and> mlq_inv (snd (RemoveByKey k m))"
  proof (cases "find (\<lambda>x. entry_key x = k) (entries m)")
    case None
    then have "filter (\<lambda>x. entry_key x \<noteq> k) (entries m) = entries m"
      unfolding filter_id_conv find_None_iff by blast
    with None assms show ?thesis by (simp add: RemoveByKey_eq)
  next
    case (Some x)
    from find_SomeD [OF this] entry_removed [OF assms, of x] Some show ?thesis
      by (simp add: RemoveByKey_eq [OF assms])
  qed
  then show "entries (snd (RemoveByKey k m)) = filter (\<lambda>x. entry_key x \<noteq> k) (entries m)"
    "mlq_inv (snd (RemoveByKey k m))" by blast+
qed

lemma Clear_correct:
  assumes "mlq_inv m"
  shows "fst (Clear True m) = map entry_item (entries m)"
    and "mlq_inv (snd (Clear cb m))" and "entries (snd (Clear cb m)) = []"
proof -
  have l: "length (queues m) = 6" using assms by (simp add: mlq_inv_def)
  then have q: "queues m = map (\<lambda>p. queues m ! p) [0..<6]" by (metis map_nth)
  have "map entry_item (entries m) = concat (map (map (\<lambda>e. qe_item (snd e))) (map (\<lambda>p. queues m ! p) [0..<6]))"
    by (simp add: entries_range_def map_concat comp_def)
  then show "fst (Clear True m) = map entry_item (entries m)" by (simp add: Clear_def q [symmetric])
  show e: "entries (snd (Clear cb m)) = []" using l by (auto simp: Clear_def entries_range_def)
  show "mlq_inv (snd (Clear cb m))" unfolding mlq_inv_def e using l by (auto simp: Clear_def)
qed

lemma Size_eq: "mlq_inv m \<Longrightarrow> Size m = length (entries m)"
  unfolding mlq_inv_def Size_def by (metis length_map mset_eq_length)

lemma FastSize_eq:
  assumes "mlq_inv m" "Size m < 2 ^ 31"
  shows "FastSize m = int (Size m)"
  using assms by (simp add: FastSize_def Size_eq) (simp add: mlq_inv_def signed_of_nat signed_take_bit_int_eq_self)

text \<open>\<open>PopAnyIf\<close> takes the first acceptable entry among those of level at most \<open>maxPriority\<close>.\<close>

definition take_first :: "(nat \<times> 'a elem \<Rightarrow> bool) \<Rightarrow> 'a multiLevelQueue \<Rightarrow> 'a option \<times> 'a multiLevelQueue" where
  "take_first P m =
     (case find P (entries m) of
        None \<Rightarrow> (None, m)
      | Some x \<Rightarrow> (Some (entry_item x), removeElem (fst x) (snd x) m))"

lemma find_append: "find P (xs @ ys) = (case find P xs of None \<Rightarrow> find P ys | Some x \<Rightarrow> Some x)"
  by (induction xs) auto

lemma find_map: "find P (map g xs) = map_option g (find (P \<circ> g) xs)"
  by (induction xs) auto

lemma find_Pair: "find P (map (Pair p) xs) = map_option (Pair p) (find (\<lambda>e. P (p, e)) xs)"
  by (induction xs) auto

lemma popAnyFrom_eq:
  assumes "\<forall>p. bit t p \<longleftrightarrow> p < 6 \<and> n \<le> p \<and> queues m ! p \<noteq> []" "n \<le> 6"
    and "find (\<lambda>x. int (fst x) \<le> k \<and> accepts f (snd x)) (entries_range (queues m) 0 n) = None"
  shows "popAnyFrom k f m t = take_first (\<lambda>x. int (fst x) \<le> k \<and> accepts f (snd x)) m"
  using assms
proof (induction k f m t arbitrary: n rule: popAnyFrom.induct)
  case (1 k f m t)
  let ?P = "\<lambda>x. int (fst x) \<le> k \<and> accepts f (snd x)" and ?p = "TrailingZeros16 t"
  show ?case
  proof (cases "t = 0")
    case True
    then have "\<forall>p. n \<le> p \<longrightarrow> p < 6 \<longrightarrow> queues m ! p = []" using "1.prems"(1) by auto
    then have "entries_range (queues m) n 6 = []" by (auto simp: entries_range_def)
    then have "entries m = entries_range (queues m) 0 n"
      using "1.prems"(2) upt_add_eq_append [of 0 n "6 - n"] by (simp add: entries_range_def)
    with "1.prems"(3) True show ?thesis by (simp add: popAnyFrom.simps take_first_def)
  next
    case False
    have p: "?p < 6" "n \<le> ?p" using TrailingZeros16_bit(1) [OF False] "1.prems"(1) by simp_all
    have "\<forall>i. n \<le> i \<longrightarrow> i < ?p \<longrightarrow> queues m ! i = []"
      using TrailingZeros16_bit(2) [OF False] "1.prems"(1) p(1) by (metis order.strict_trans)
    then have "entries_range (queues m) n ?p = []" by (auto simp: entries_range_def)
    then have "entries_range (queues m) 0 ?p = entries_range (queues m) 0 n"
      using p(2) upt_add_eq_append [of 0 n "?p - n"] by (simp add: entries_range_def)
    then have pre: "find ?P (entries_range (queues m) 0 ?p) = None" using "1.prems"(3) by simp
    show ?thesis
    proof (cases "int ?p > k")
      case True
      then have "\<forall>x\<in>set (entries_range (queues m) ?p 6). \<not> ?P x" by (auto simp: in_entries_range)
      then have "find ?P (entries_range (queues m) ?p 6) = None" by (metis (mono_tags, lifting) find_None_iff)
      then have "find ?P (entries m) = None"
        using pre p(1) by (simp add: entries_range_split [OF p(1)] find_append find_Pair)
          (simp add: entries_range_def upt_conv_Cons find_append find_Pair split: option.splits)
      with True False show ?thesis by (simp add: popAnyFrom.simps take_first_def Let_def)
    next
      case le: False
      show ?thesis
      proof (cases "find (accepts f) (queues m ! ?p)")
        case (Some e)
        then show ?thesis using False le pre
          by (simp add: popAnyFrom.simps take_first_def Let_def entries_range_split [OF p(1)] find_append find_Pair)
      next
        case None
        then have "find ?P (entries_range (queues m) 0 (Suc ?p)) = None"
          using pre le by (simp add: entries_range_def find_append find_Pair)
        moreover have "\<forall>q. bit (clear_bit ?p t) q \<longleftrightarrow> q < 6 \<and> Suc ?p \<le> q \<and> queues m ! q \<noteq> []"
          using "1.prems"(1) TrailingZeros16_bit(2) [OF False] p(2) by (auto simp: Suc_le_eq)
        ultimately show ?thesis
          using "1.IH" [OF False refl, of "Suc ?p"] None le p(1) False
          by (simp add: popAnyFrom.simps [of k f m t] Let_def)
      qed
    qed
  qed
qed

lemma PopAnyIf_eq:
  "mlq_inv m \<Longrightarrow> PopAnyIf k f m = take_first (\<lambda>x. int (fst x) \<le> k \<and> accepts f (snd x)) m"
  using popAnyFrom_eq [of "bitmask m" 0 m k f] entries_Nil_iff [of m]
  by (auto simp: PopAnyIf_def mlq_bits take_first_def entries_range_def [of _ 0 0])

lemma mlq_inv_take_first:
  assumes "mlq_inv m"
  shows "mlq_inv (snd (take_first P m))"
    and "entries (snd (take_first P m)) = (case find P (entries m) of None \<Rightarrow> entries m
      | Some x \<Rightarrow> filter (\<lambda>y. entry_key y \<noteq> entry_key x) (entries m))"
  using find_SomeD [of P "entries m"] entry_removed [OF assms] assms
  by (simp_all add: take_first_def split: option.splits)

lemma PopIf_eq:
  assumes "mlq_inv m"
  shows "PopIf priority f m =
    (if priority < 0 \<or> priority \<ge> 6 then (None, m)
     else case queues m ! nat priority of
       [] \<Rightarrow> (None, m)
     | e # _ \<Rightarrow> if accepts f e then (Some (qe_item (snd e)), removeElem (nat priority) e m) else (None, m))"
proof (cases "priority < 0 \<or> priority \<ge> 6")
  case False
  then have p: "nat priority < 6" by auto
  have "bitmask m AND push_bit (nat priority) 1 = 0 \<longleftrightarrow> \<not> bit (bitmask m) (nat priority)"
    by (simp add: bit_iff_and_push_bit_not_eq_0)
  with False p mlq_bits [OF assms, of "nat priority"] show ?thesis
    by (auto simp: PopIf_def Let_def split: list.splits)
qed (auto simp: PopIf_def)

lemma mlq_inv_PopIf [inv_intros]:
  assumes "mlq_inv m"
  shows "mlq_inv (snd (PopIf priority f m))"
  using mlq_inv_removeElem [OF assms] assms
  by (auto simp: PopIf_eq [OF assms] split: list.splits)

lemma mlq_inv_PopAnyIf [inv_intros]: "mlq_inv m \<Longrightarrow> mlq_inv (snd (PopAnyIf k f m))"
  by (simp add: PopAnyIf_eq mlq_inv_take_first)

lemmas mlq_inv_ops [inv_intros] = RemoveByKey_entries(2) Clear_correct(2)

section \<open>The contract its clients use\<close>

text \<open>
  A keyed priority queue: \<open>contents\<close> lists priority, key and item in serving order. Pushing places an
  entry behind those of its level and refuses a key that is present; popping takes the first entry.
\<close>

fun pops :: "('q \<Rightarrow> 'b option \<times> 'q) \<Rightarrow> nat \<Rightarrow> 'q \<Rightarrow> 'b list \<times> 'q" where
  "pops pop 0 q = ([], q)"
| "pops pop (Suc n) q =
     (case pop q of
        (None, q') \<Rightarrow> ([], q')
      | (Some y, q') \<Rightarrow> let (ys, q'') = pops pop n q' in (y # ys, q''))"

definition pushes ::
  "(int \<Rightarrow> u64 \<Rightarrow> 'a \<Rightarrow> 'q \<Rightarrow> bool \<times> 'q) \<Rightarrow> (int \<times> u64 \<times> 'a) list \<Rightarrow> 'q \<Rightarrow> 'q" where
  "pushes push ps q = foldl (\<lambda>q (p, k, x). snd (push p k x q)) q ps"

lemma stable_insert:
  fixes f :: "'a \<Rightarrow> 'b :: linorder"
  shows "sort_key f (xs @ [x]) =
    filter (\<lambda>y. f y \<le> f x) (sort_key f xs) @ x # filter (\<lambda>y. f x < f y) (sort_key f xs)"
proof (rule properties_for_sort_key)
  show "mset (filter (\<lambda>y. f y \<le> f x) (sort_key f xs) @ x # filter (\<lambda>y. f x < f y) (sort_key f xs)) =
      mset (xs @ [x])"
    using multiset_partition [of "mset xs" "\<lambda>y. f y \<le> f x"] by (simp add: not_le)
  fix k
  have "filter (\<lambda>y. f k = f y) (filter Q (sort_key f xs)) = filter Q (filter (\<lambda>y. f y = f k) (sort_key f xs))" for Q
    by (simp add: conj_commute eq_commute)
  then have *: "filter (\<lambda>y. f k = f y) (filter Q (sort_key f xs)) = filter Q (filter (\<lambda>y. f y = f k) xs)" for Q
    by (simp add: sort_key_stable)
  show "filter (\<lambda>y. f k = f y)
      (filter (\<lambda>y. f y \<le> f x) (sort_key f xs) @ x # filter (\<lambda>y. f x < f y) (sort_key f xs)) =
      filter (\<lambda>y. f k = f y) (xs @ [x])"
  proof (cases "f k \<le> f x")
    case True
    then have "filter (\<lambda>y. f y \<le> f x) (filter (\<lambda>y. f y = f k) xs) = filter (\<lambda>y. f k = f y) xs"
      "filter (\<lambda>y. f x < f y) (filter (\<lambda>y. f y = f k) xs) = []"
      unfolding filter_filter by (auto simp: filter_empty_conv intro!: filter_cong)
    then show ?thesis unfolding filter_append filter.simps(2) * by simp
  next
    case False
    then have "filter (\<lambda>y. f y \<le> f x) (filter (\<lambda>y. f y = f k) xs) = []"
      "filter (\<lambda>y. f x < f y) (filter (\<lambda>y. f y = f k) xs) = filter (\<lambda>y. f k = f y) xs"
      unfolding filter_filter by (auto simp: filter_empty_conv intro!: filter_cong)
    then show ?thesis using False unfolding filter_append filter.simps(2) * by auto
  qed
  show "sorted (map f (filter (\<lambda>y. f y \<le> f x) (sort_key f xs) @ x # filter (\<lambda>y. f x < f y) (sort_key f xs)))"
    by (auto simp: sorted_append intro: sorted_filter)
qed

locale keyed_queue =
  fixes invar :: "'q \<Rightarrow> bool"
    and contents :: "'q \<Rightarrow> (nat \<times> u64 \<times> 'a) list"
    and empty :: 'q
    and push :: "int \<Rightarrow> u64 \<Rightarrow> 'a \<Rightarrow> 'q \<Rightarrow> bool \<times> 'q"
    and pop :: "'q \<Rightarrow> ('a \<times> nat) option \<times> 'q"
    and level :: "int \<Rightarrow> nat"
  assumes invar_empty: "invar empty" and contents_empty: "contents empty = []"
    and invar_push: "invar q \<Longrightarrow> invar (snd (push p k x q))"
    and invar_pop: "invar q \<Longrightarrow> invar (snd (pop q))"
    and push_fresh: "invar q \<Longrightarrow> k \<notin> (fst \<circ> snd) ` set (contents q) \<Longrightarrow> fst (push p k x q) \<and>
      contents (snd (push p k x q)) =
        filter (\<lambda>c. fst c \<le> level p) (contents q) @ (level p, k, x) # filter (\<lambda>c. level p < fst c) (contents q)"
    and push_known: "invar q \<Longrightarrow> k \<in> (fst \<circ> snd) ` set (contents q) \<Longrightarrow> push p k x q = (False, q)"
    and pop_none: "invar q \<Longrightarrow> contents q = [] \<Longrightarrow> pop q = (None, q)"
    and pop_some: "invar q \<Longrightarrow> contents q = (l, k, x) # cs \<Longrightarrow>
      fst (pop q) = Some (x, l) \<and> contents (snd (pop q)) = cs"
begin

lemma drain_contents:
  assumes "invar q"
  shows "fst (pops pop (length (contents q)) q) = map (\<lambda>(p, k, x). (x, p)) (contents q)"
    and "contents (snd (pops pop (length (contents q)) q)) = []"
proof -
  have "fst (pops pop (length cs) q) = map (\<lambda>(p, k, x). (x, p)) cs \<and> contents (snd (pops pop (length cs) q)) = []"
    if "invar q" "contents q = cs" for q cs
    using that
  proof (induction cs arbitrary: q)
    case (Cons c cs)
    obtain p k x where c: "c = (p, k, x)" by (cases c)
    with Cons.prems pop_some [of q p k x cs] have "fst (pop q) = Some (x, p)" "contents (snd (pop q)) = cs"
      by simp_all
    with Cons.IH [of "snd (pop q)"] Cons.prems invar_pop [of q] c show ?case
      by (cases "pop q") (auto split: prod.splits)
  qed simp
  with assms show "fst (pops pop (length (contents q)) q) = map (\<lambda>(p, k, x). (x, p)) (contents q)"
    "contents (snd (pops pop (length (contents q)) q)) = []" by blast+
qed

lemma contents_pushes:
  assumes "distinct (map (fst \<circ> snd) ps)"
  shows "invar (pushes push ps empty) \<and>
    contents (pushes push ps empty) = sort_key fst (map (\<lambda>(p, k, x). (level p, k, x)) ps)"
  using assms
proof (induction ps rule: rev_induct)
  case (snoc c ps)
  obtain p k x where c: "c = (p, k, x)" by (cases c)
  let ?f = "\<lambda>(p, k, x). (level p, k, x)" and ?q = "pushes push ps empty"
  have IH: "invar ?q" "contents ?q = sort_key fst (map ?f ps)" using snoc by simp_all
  have "k \<notin> (fst \<circ> snd) ` set (contents ?q)"
    using snoc.prems unfolding IH(2) c by (force simp: split_def)
  from push_fresh [OF IH(1) this, of p x] IH(2)
  show ?case using invar_push [OF IH(1), of p k x]
    by (simp add: pushes_def c stable_insert)
qed (simp_all add: pushes_def invar_empty contents_empty)

lemma batch_order:
  assumes "distinct (map (fst \<circ> snd) ps)"
  shows "fst (pops pop (length ps) (pushes push ps empty)) =
    map (\<lambda>(p, k, x). (x, p)) (sort_key fst (map (\<lambda>(p, k, x). (level p, k, x)) ps))"
  using drain_contents(1) [of "pushes push ps empty"] contents_pushes [OF assms] by simp

end

definition contents :: "'a multiLevelQueue \<Rightarrow> (nat \<times> u64 \<times> 'a) list" where
  "contents m = map (\<lambda>x. (fst x, entry_key x, entry_item x)) (entries m)"

interpretation mlq: keyed_queue mlq_inv contents New Push Pop push_level
proof (unfold_locales, goal_cases)
  case (5 q k p x)
  then have "fst (Push p k x q)" by (auto simp: Push_new_key contents_def image_image)
  with 5 show ?case by (simp add: entries_Push contents_def new_entry_def filter_map comp_def)
next
  case (6 q k p x)
  then have "\<not> fst (Push p k x q)" by (auto simp: Push_new_key contents_def image_image)
  then show ?case by (simp add: Push_def Let_def split: if_splits)
next
  case (8 q p k x cs)
  then obtain y ys where y: "entries q = y # ys" by (cases "entries q") (auto simp: contents_def)
  with 8 show ?case using entries_Pop [OF 8(1) y] Pop_first [OF 8(1) y] by (auto simp: contents_def)
qed (auto simp: contents_def Pop_empty intro: inv_intros)

section \<open>Properties\<close>

text \<open>
  (C23) Packets with different keys pushed on an empty queue are popped ordered by level,
  and in the order they were pushed within a level: the output is the stable sort of the input.
\<close>

theorem mlq_batch_order:
  assumes "distinct (map (fst \<circ> snd) ps)"
  shows "fst (pops Pop (length ps) (pushes Push ps New)) =
    map (\<lambda>(p, k, x). (x, p)) (sort_key fst (map (\<lambda>(p, k, x). (push_level p, k, x)) ps))"
  by (rule mlq.batch_order [OF assms])

theorem mlq_batch_order_witness:
  "fst (pops Pop 3 (pushes Push [(4, 7, CHR ''a''), (9, 8, CHR ''b''), (0, 9, CHR ''c'')] New)) =
     [(CHR ''c'', 0), (CHR ''b'', 3), (CHR ''a'', 4)]"
  using mlq_batch_order [of "[(4, 7, CHR ''a''), (9, 8, CHR ''b''), (0, 9, CHR ''c'')]"]
  by (simp add: push_level_def numeral_eq_Suc)

text \<open>
  Every operation keeps the queue's invariant: six lists, mask bits exactly for
  the non-empty ones, unique keys, a census that agrees with the lists and a matching size counter.
\<close>

theorem mlq_operations_sound:
  assumes "mlq_inv m"
  shows "mlq_inv (snd (Push p k x m)) \<and> mlq_inv (snd (Pop m)) \<and> mlq_inv (snd (RemoveByKey k m)) \<and>
    mlq_inv (snd (PopIf p f m)) \<and> mlq_inv (snd (PopAnyIf p f m)) \<and> mlq_inv (snd (Clear cb m)) \<and>
    Size m = length (contents m) \<and> (Size m < 2 ^ 31 \<longrightarrow> FastSize m = int (Size m))"
  using assms by (auto intro: inv_intros simp: Size_eq contents_def FastSize_eq)

theorem mlq_operations_sound_witness:
  "mlq_inv (snd (Push 0 1 True New)) \<and> FastSize (New :: bool multiLevelQueue) = 0"
  using mlq_operations_sound [OF mlq_inv_New, of 0 1 True None False]
  by (simp add: Size_def New_def)

text \<open>
  \<open>PopAnyIf\<close> returns the first item in serving order that the predicate accepts
  among the levels up to \<open>maxPriority\<close> and removes only that entry; with no such item the queue is
  unchanged. \<open>RemoveByKey\<close> and \<open>Get\<close> find exactly the entry of the key.
\<close>

theorem mlq_selective_pop:
  assumes "mlq_inv m"
  shows "fst (PopAnyIf k (Some f) m) =
      map_option (snd \<circ> snd) (find (\<lambda>(p, _, x). int p \<le> k \<and> f x) (contents m)) \<and>
    contents (snd (PopAnyIf k (Some f) m)) =
      (case find (\<lambda>(p, _, x). int p \<le> k \<and> f x) (contents m) of
         None \<Rightarrow> contents m | Some c \<Rightarrow> filter (\<lambda>d. fst (snd d) \<noteq> fst (snd c)) (contents m)) \<and>
    fst (RemoveByKey key m) = Get key m \<and>
    Get key m = map_option (snd \<circ> snd) (find (\<lambda>c. fst (snd c) = key) (contents m)) \<and>
    contents (snd (RemoveByKey key m)) = filter (\<lambda>c. fst (snd c) \<noteq> key) (contents m)"
proof (intro conjI)
  let ?P = "\<lambda>x. int (fst x) \<le> k \<and> accepts (Some f) (snd x)"
  have P: "find (\<lambda>(p, _, x). int p \<le> k \<and> f x) (contents m) =
      map_option (\<lambda>x. (fst x, entry_key x, entry_item x)) (find ?P (entries m))"
    by (simp add: contents_def find_map comp_def accepts_def)
  show "fst (PopAnyIf k (Some f) m) = map_option (snd \<circ> snd) (find (\<lambda>(p, _, x). int p \<le> k \<and> f x) (contents m))"
    unfolding P PopAnyIf_eq [OF assms] take_first_def by (cases "find ?P (entries m)") simp_all
  show "contents (snd (PopAnyIf k (Some f) m)) =
      (case find (\<lambda>(p, _, x). int p \<le> k \<and> f x) (contents m) of
         None \<Rightarrow> contents m | Some c \<Rightarrow> filter (\<lambda>d. fst (snd d) \<noteq> fst (snd c)) (contents m))"
    unfolding P unfolding PopAnyIf_eq [OF assms] contents_def mlq_inv_take_first(2) [OF assms]
    by (cases "find ?P (entries m)") (simp_all add: filter_map comp_def)
  show "fst (RemoveByKey key m) = Get key m"
    by (simp add: RemoveByKey_eq [OF assms] Get_eq [OF assms] split: option.splits)
  show "Get key m = map_option (snd \<circ> snd) (find (\<lambda>c. fst (snd c) = key) (contents m))"
    by (simp add: Get_eq [OF assms] contents_def find_map comp_def option.map_comp)
  show "contents (snd (RemoveByKey key m)) = filter (\<lambda>c. fst (snd c) \<noteq> key) (contents m)"
    by (simp add: contents_def RemoveByKey_entries(1) [OF assms] filter_map comp_def)
qed

theorem mlq_selective_pop_witness: "fst (PopAnyIf 3 (Some Not) (New :: bool multiLevelQueue)) = None"
  using mlq_selective_pop [OF mlq_inv_New, of 3 Not 0] by (simp add: contents_def)

end
