(* ===== verification/FragmentStore.thy ===== *)
theory FragmentStore
  imports Prelude
begin

text \<open>
  Fragment reassembly (\<open>fragmentstore/store.go\<close>). A store maps a key to the fragments received so
  far and remembers completed keys until their retention ends. Every method holds the mutex
  throughout, so a call is one step on the record. Where the code compares a chunk with nil the
  chunk is an option: \<open>append(nil[:0], payload...)\<close> stays nil for an empty payload.
\<close>

section \<open>State\<close>

record entry =
  createdAt :: time
  ent_totalFragments :: u8
  chunks :: "bytes option list"
  ent_count :: u8

record 'k store =
  items :: "'k \<rightharpoonup> entry"
  completed :: "'k \<rightharpoonup> time"
  lastPurge :: time

definition New :: "'k store" where
  "New = \<lparr>items = Map.empty, completed = Map.empty, lastPurge = 0\<rparr>"

definition new_entry :: "time \<Rightarrow> u8 \<Rightarrow> entry" where
  "new_entry now totalFragments =
     \<lparr>createdAt = now, ent_totalFragments = totalFragments, chunks = replicate 256 None, ent_count = 0\<rparr>"

text \<open>The outcome of \<open>Collect\<close>: assembled bytes, completed, duplicate of a completed key.\<close>

type_synonym collected = "bytes \<times> bool \<times> bool"

section \<open>Operations\<close>

definition purgeLocked :: "time \<Rightarrow> duration \<Rightarrow> 'k store \<Rightarrow> 'k store" where
  "purgeLocked now retention s =
     (if retention \<le> 0 then s\<lparr>items := Map.empty, completed := Map.empty\<rparr>
      else
        let deadline = now - retention in
        s\<lparr>items := (\<lambda>k. case items s k of
              None \<Rightarrow> None
            | Some current \<Rightarrow> if \<not> createdAt current > deadline then None else Some current),
          completed := (\<lambda>k. case completed s k of
              None \<Rightarrow> None
            | Some expiresAt \<Rightarrow> if \<not> now < expiresAt then None else Some expiresAt)\<rparr>)"

definition purgeIfDue :: "time \<Rightarrow> duration \<Rightarrow> 'k store \<Rightarrow> 'k store" where
  "purgeIfDue now retention s =
     (if time_sub now (lastPurge s) \<ge> second
      then (purgeLocked now retention s)\<lparr>lastPurge := now\<rparr> else s)"

definition isCompleted :: "'k \<Rightarrow> time \<Rightarrow> 'k store \<Rightarrow> bool" where
  "isCompleted key now s = (case completed s key of None \<Rightarrow> False | Some expiresAt \<Rightarrow> now < expiresAt)"

text \<open>\<open>append(chunk[:0], payload...)\<close>.\<close>

definition refill :: "bytes option \<Rightarrow> bytes \<Rightarrow> bytes option" where
  "refill chunk payload = (if chunk = None \<and> payload = [] then None else Some payload)"

definition Collect ::
  "'k \<Rightarrow> bytes \<Rightarrow> u8 \<Rightarrow> u8 \<Rightarrow> time \<Rightarrow> duration \<Rightarrow> 'k store \<Rightarrow> collected \<times> 'k store" where
  "Collect key payload fragmentID totalFragments now retention s =
     (if totalFragments \<le> 1 then
        if retention \<le> 0 then ((payload, True, False), s)
        else
          let s = purgeIfDue now retention s in
          if isCompleted key now s then (([], False, True), s)
          else ((payload, True, False),
                s\<lparr>items := (items s)(key := None),
                  completed := (completed s)(key \<mapsto> now + retention)\<rparr>)
      else if fragmentID \<ge> totalFragments then (([], False, False), s)
      else
        let s = purgeIfDue now retention s in
        if isCompleted key now s then (([], False, True), s)
        else
          let current = (case items s key of
                Some e \<Rightarrow> if ent_totalFragments e \<noteq> totalFragments then new_entry now totalFragments else e
              | None \<Rightarrow> new_entry now totalFragments);
              i = unat fragmentID;
              current = (if chunks current ! i = None
                         then current\<lparr>ent_count := ent_count current + 1\<rparr> else current);
              current = current\<lparr>chunks := (chunks current)[i := refill (chunks current ! i) payload]\<rparr>;
              s = s\<lparr>items := (items s)(key \<mapsto> current)\<rparr>
          in
            if ent_count current < totalFragments then (([], False, False), s)
            else if None \<in> set (take (unat totalFragments) (chunks current)) then (([], False, False), s)
            else
              ((concat (map the (take (unat totalFragments) (chunks current))), True, False),
               s\<lparr>items := (items s)(key := None),
                 completed := (if retention > 0 then (completed s)(key \<mapsto> now + retention)
                               else (completed s)(key := None))\<rparr>))"

definition Purge :: "time \<Rightarrow> duration \<Rightarrow> 'k store \<Rightarrow> 'k store" where
  "Purge now retention s = purgeLocked now retention s"

definition Remove :: "'k \<Rightarrow> 'k store \<Rightarrow> 'k store" where
  "Remove key s = s\<lparr>items := (items s)(key := None), completed := (completed s)(key := None)\<rparr>"

text \<open>A nil \<open>match\<close> changes nothing.\<close>

definition RemoveIf :: "('k \<Rightarrow> bool) option \<Rightarrow> 'k store \<Rightarrow> 'k store" where
  "RemoveIf match s =
     (case match of
        None \<Rightarrow> s
      | Some f \<Rightarrow> s\<lparr>items := (\<lambda>k. if f k then None else items s k),
                   completed := (\<lambda>k. if f k then None else completed s k)\<rparr>)"

section \<open>Specification of one key\<close>

text \<open>
  A receiver of \<open>n\<close> fragments waits until every index has been seen, delivers the message once and
  reports every later fragment as a duplicate.
\<close>

datatype receiver = Receiving "nat set" | Finished

fun receive :: "nat \<Rightarrow> bytes \<Rightarrow> receiver \<Rightarrow> nat \<Rightarrow> collected \<times> receiver" where
  "receive n msg Finished i = (([], False, True), Finished)"
| "receive n msg (Receiving S) i =
     (if insert i S = {..<n} then ((msg, True, False), Finished)
      else (([], False, False), Receiving (insert i S)))"

fun receive_all :: "nat \<Rightarrow> bytes \<Rightarrow> receiver \<Rightarrow> nat list \<Rightarrow> collected list" where
  "receive_all n msg r [] = []"
| "receive_all n msg r (i # is) = (let (c, r') = receive n msg r i in c # receive_all n msg r' is)"

text \<open>The calls of \<open>Collect\<close> for all keys, in the order the mutex admits them.\<close>

record 'k fragment =
  fr_key :: 'k
  fr_payload :: bytes
  fr_id :: u8
  fr_total :: u8
  fr_now :: time

fun collect_all :: "duration \<Rightarrow> 'k fragment list \<Rightarrow> 'k store \<Rightarrow> ('k \<times> collected) list \<times> 'k store" where
  "collect_all ret [] s = ([], s)"
| "collect_all ret (f # fs) s =
     (let (c, s') = Collect (fr_key f) (fr_payload f) (fr_id f) (fr_total f) (fr_now f) ret s;
          (cs, s'') = collect_all ret fs s'
      in ((fr_key f, c) # cs, s''))"

section \<open>Refinement\<close>

text \<open>\<open>refines\<close> relates a store at a key to the receiver, between \<open>t0\<close> and \<open>t0 + ret\<close>.\<close>

definition has_chunks :: "bytes list \<Rightarrow> nat set \<Rightarrow> entry \<Rightarrow> bool" where
  "has_chunks ps S e \<longleftrightarrow>
     unat (ent_totalFragments e) = length ps \<and> unat (ent_count e) = card S \<and> S \<subseteq> {..<length ps} \<and>
     S \<noteq> {..<length ps} \<and> length (chunks e) = 256 \<and>
     (\<forall>i<length ps. chunks e ! i = (if i \<in> S then Some (ps ! i) else None))"

fun store_refines :: "bytes list \<Rightarrow> time \<Rightarrow> duration \<Rightarrow> 'k \<Rightarrow> 'k store \<Rightarrow> receiver \<Rightarrow> bool" where
  "store_refines ps t0 ret k s Finished \<longleftrightarrow> (\<exists>T. completed s k = Some T \<and> t0 + ret \<le> T)"
| "store_refines ps t0 ret k s (Receiving S) \<longleftrightarrow> completed s k = None \<and>
     (case items s k of None \<Rightarrow> S = {} | Some e \<Rightarrow> has_chunks ps S e \<and> t0 \<le> createdAt e)"

lemma purgeIfDue_refines:
  assumes "store_refines ps t0 ret k s r" "now < t0 + ret" "0 < ret"
  shows "store_refines ps t0 ret k (purgeIfDue now ret s) r"
  using assms
  by (cases r) (auto simp: purgeIfDue_def purgeLocked_def Let_def split: option.splits)

lemma store_refines_cong:
  "items s k = items s' k \<Longrightarrow> completed s k = completed s' k \<Longrightarrow>
    store_refines ps t0 ret k s r = store_refines ps t0 ret k s' r"
  by (cases r) auto

lemma Collect_other_key:
  assumes "k' \<noteq> k"
  shows "\<exists>s'\<in>{s, purgeIfDue now ret s}.
    items (snd (Collect k' p i n now ret s)) k = items s' k \<and>
    completed (snd (Collect k' p i n now ret s)) k = completed s' k"
  using assms by (auto simp: Collect_def Let_def)

lemma refines_other_key:
  assumes "store_refines ps t0 ret k s r" "now < t0 + ret" "0 < ret" "k' \<noteq> k"
  shows "store_refines ps t0 ret k (snd (Collect k' p i n now ret s)) r"
  using Collect_other_key [OF assms(4), of s now ret p i n] purgeIfDue_refines [OF assms(1-3)] assms(1)
  by (auto cong: store_refines_cong)

text \<open>Filling one chunk of an entry.\<close>

definition fill :: "nat \<Rightarrow> bytes \<Rightarrow> entry \<Rightarrow> entry" where
  "fill i payload e =
     (let e = (if chunks e ! i = None then e\<lparr>ent_count := ent_count e + 1\<rparr> else e)
      in e\<lparr>chunks := (chunks e)[i := refill (chunks e ! i) payload]\<rparr>)"

lemma has_chunks_new:
  assumes "2 \<le> length ps" "length ps < 256"
  shows "has_chunks ps {} (new_entry now (of_nat (length ps)))"
proof -
  have "{..<length ps} \<noteq> {}" using assms(1) by (auto simp: lessThan_empty_iff)
  then show ?thesis using assms by (auto simp: has_chunks_def new_entry_def unat_of_nat)
qed

lemma fill_chunks:
  assumes "has_chunks ps S e" "i < length ps" "ps ! i \<noteq> []" "length ps < 256"
  shows "\<forall>j<length ps. chunks (fill i (ps ! i) e) ! j = (if j \<in> insert i S then Some (ps ! j) else None)"
    and "unat (ent_count (fill i (ps ! i) e)) = card (insert i S)"
    and "length (chunks (fill i (ps ! i) e)) = 256"
    and "ent_totalFragments (fill i (ps ! i) e) = ent_totalFragments e"
    and "createdAt (fill i (ps ! i) e) = createdAt e"
proof -
  have f: "finite S" and c: "card S < length ps"
    using assms(1) unfolding has_chunks_def
    by (auto intro: finite_subset psubset_card_mono [of "{..<length ps}", simplified])
  show "\<forall>j<length ps. chunks (fill i (ps ! i) e) ! j = (if j \<in> insert i S then Some (ps ! j) else None)"
    using assms by (auto simp: fill_def Let_def has_chunks_def refill_def nth_list_update)
  show "unat (ent_count (fill i (ps ! i) e)) = card (insert i S)"
  proof (cases "i \<in> S")
    case True
    then show ?thesis using assms by (simp add: fill_def has_chunks_def insert_absorb)
  next
    case False
    have "unat (ent_count e + 1) = Suc (unat (ent_count e))"
      using assms(1,4) c by (simp add: has_chunks_def unat_word_ariths)
    with False show ?thesis using assms f by (simp add: fill_def has_chunks_def)
  qed
qed (use assms in \<open>simp_all add: fill_def Let_def has_chunks_def\<close>)

lemma all_present:
  assumes "\<forall>j<n. cs ! j = (if j \<in> S then Some (ps ! j) else None)" "length ps = n" "n \<le> length cs"
  shows "None \<in> set (take n cs) \<longleftrightarrow> \<not> {..<n} \<subseteq> S"
    and "{..<n} \<subseteq> S \<Longrightarrow> map the (take n cs) = ps"
proof -
  have n: "take n cs = map (\<lambda>j. if j \<in> S then Some (ps ! j) else None) [0..<n]"
    using assms by (intro nth_equalityI) auto
  show "None \<in> set (take n cs) \<longleftrightarrow> \<not> {..<n} \<subseteq> S" by (auto simp: n split: if_splits)
  show "{..<n} \<subseteq> S \<Longrightarrow> map the (take n cs) = ps"
    using assms(2) by (auto simp: n intro!: nth_equalityI)
qed

lemma Collect_fragment:
  assumes "2 \<le> length ps" "length ps < 256" "\<forall>p\<in>set ps. p \<noteq> []" "0 < ret"
    and "store_refines ps t0 ret k s r" "t0 \<le> now" "now < t0 + ret" "i < length ps"
  defines "out \<equiv> Collect k (ps ! i) (of_nat i) (of_nat (length ps)) now ret s"
  shows "fst out = fst (receive (length ps) (concat ps) r i)"
    and "store_refines ps t0 ret k (snd out) (snd (receive (length ps) (concat ps) r i))"
proof -
  define n :: u8 where "n = of_nat (length ps)"
  have n: "unat n = length ps" using assms(2) by (simp add: n_def unat_of_nat)
  have i: "unat (of_nat i :: u8) = i" using assms(2,8) by (simp add: unat_of_nat)
  have guard: "\<not> n \<le> 1" "\<not> n \<le> of_nat i"
    using assms(1,8) unfolding word_le_nat_alt n i by simp_all
  define s1 where "s1 = purgeIfDue now ret s"
  have r1: "store_refines ps t0 ret k s1 r"
    unfolding s1_def by (rule purgeIfDue_refines [OF assms(5,7,4)])
  have "fst out = fst (receive (length ps) (concat ps) r i) \<and>
    store_refines ps t0 ret k (snd out) (snd (receive (length ps) (concat ps) r i))"
  proof (cases r)
    case Finished
    then have "isCompleted k now s1" using r1 assms(7) by (auto simp: isCompleted_def)
    then have "out = (([], False, True), s1)"
      unfolding out_def Collect_def n_def [symmetric] Let_def s1_def [symmetric] using guard by simp
    then show ?thesis using r1 Finished by simp
  next
    case (Receiving S)
    define e where "e = (case items s1 k of Some e \<Rightarrow> if ent_totalFragments e \<noteq> n then new_entry now n else e
        | None \<Rightarrow> new_entry now n)"
    have tn: "has_chunks ps S x \<Longrightarrow> ent_totalFragments x = n" for x
      by (simp add: has_chunks_def word_unat_eq_iff n)
    have e: "has_chunks ps S e" "t0 \<le> createdAt e"
      using r1 Receiving assms(6) has_chunks_new [OF assms(1,2), of now] tn
      by (auto simp: e_def n_def [symmetric] split: option.splits) (auto simp: new_entry_def)
    note c = fill_chunks [OF e(1) assms(8) _ assms(2)]
    have ne: "ps ! i \<noteq> []" using assms(3,8) by simp
    let ?e = "fill i (ps ! i) e" and ?S = "insert i S"
    have nc: "\<not> isCompleted k now s1" using r1 Receiving by (simp add: isCompleted_def)
    have S: "?S \<subseteq> {..<length ps}" using e(1) assms(8) by (auto simp: has_chunks_def)
    have cnt: "ent_count ?e < n \<longleftrightarrow> ?S \<noteq> {..<length ps}"
      unfolding word_less_nat_alt n c(2) [OF ne]
      using S by (metis card_lessThan card_subset_eq finite_lessThan nat_less_le card_mono)
    have "length ps \<le> length (chunks ?e)" using c(3) [OF ne] assms(2) by simp
    note pres = all_present [OF c(1) [OF ne] refl this]
    have out: "out =
        (if ent_count ?e < n then (([], False, False), s1\<lparr>items := (items s1)(k \<mapsto> ?e)\<rparr>)
         else if None \<in> set (take (length ps) (chunks ?e)) then (([], False, False), s1\<lparr>items := (items s1)(k \<mapsto> ?e)\<rparr>)
         else ((concat (map the (take (length ps) (chunks ?e))), True, False),
            s1\<lparr>items := (items s1)(k := None), completed := (completed s1)(k \<mapsto> now + ret)\<rparr>))"
      unfolding out_def Collect_def n_def [symmetric] s1_def [symmetric] n i Let_def fill_def
      using guard nc assms(4) by (simp add: e_def)
    show ?thesis
    proof (cases "?S = {..<length ps}")
      case True
      then show ?thesis using out cnt pres assms(6) Receiving by simp
    next
      case False
      have "has_chunks ps ?S ?e"
        using c [OF ne] e(1) S False by (simp add: has_chunks_def)
      with False show ?thesis using out cnt e(2) c(5) [OF ne] r1 Receiving by simp
    qed
  qed
  then show "fst out = fst (receive (length ps) (concat ps) r i)"
    "store_refines ps t0 ret k (snd out) (snd (receive (length ps) (concat ps) r i))" by blast+
qed

section \<open>Whole runs\<close>

text \<open>The fragments of key \<open>k\<close> among the calls are those of the message \<open>ps\<close>, within the retention.\<close>

definition carries :: "'k \<Rightarrow> bytes list \<Rightarrow> time \<Rightarrow> duration \<Rightarrow> 'k fragment list \<Rightarrow> bool" where
  "carries k ps t0 ret fs \<longleftrightarrow>
     (\<forall>f\<in>set fs. t0 \<le> fr_now f \<and> fr_now f < t0 + ret \<and>
        (fr_key f = k \<longrightarrow> unat (fr_id f) < length ps \<and> fr_payload f = ps ! unat (fr_id f) \<and>
           fr_total f = of_nat (length ps)))"

definition ids_of :: "'k \<Rightarrow> 'k fragment list \<Rightarrow> nat list" where
  "ids_of k fs = map (\<lambda>f. unat (fr_id f)) (filter (\<lambda>f. fr_key f = k) fs)"

definition outcomes :: "'k \<Rightarrow> ('k \<times> collected) list \<Rightarrow> collected list" where
  "outcomes k cs = map snd (filter (\<lambda>c. fst c = k) cs)"

lemma outcomes_Cons:
  "outcomes k (fst (collect_all ret (f # fs) s)) =
     (let out = Collect (fr_key f) (fr_payload f) (fr_id f) (fr_total f) (fr_now f) ret s in
      (if fr_key f = k then [fst out] else []) @ outcomes k (fst (collect_all ret fs (snd out))))"
  by (simp add: outcomes_def split: prod.splits)

lemma collect_all_refines:
  assumes "2 \<le> length ps" "length ps < 256" "\<forall>p\<in>set ps. p \<noteq> []" "0 < ret"
    and "carries k ps t0 ret fs" "store_refines ps t0 ret k s r"
  shows "outcomes k (fst (collect_all ret fs s)) = receive_all (length ps) (concat ps) r (ids_of k fs)"
  using assms(5,6)
proof (induction fs arbitrary: s r)
  case (Cons f fs)
  define out where "out = Collect (fr_key f) (fr_payload f) (fr_id f) (fr_total f) (fr_now f) ret s"
  have f: "t0 \<le> fr_now f" "fr_now f < t0 + ret" and fs: "carries k ps t0 ret fs"
    using Cons.prems(1) by (simp_all add: carries_def)
  note split = outcomes_Cons [of k ret f fs s, folded out_def]
  show ?case
  proof (cases "fr_key f = k")
    case True
    then have "unat (fr_id f) < length ps" "fr_payload f = ps ! unat (fr_id f)" "fr_total f = of_nat (length ps)"
      using Cons.prems(1) by (simp_all add: carries_def)
    with True Collect_fragment [OF assms(1-4) Cons.prems(2) f, of "unat (fr_id f)"]
    have "fst out = fst (receive (length ps) (concat ps) r (unat (fr_id f)))"
      "store_refines ps t0 ret k (snd out) (snd (receive (length ps) (concat ps) r (unat (fr_id f))))"
      by (simp_all add: out_def)
    with True Cons.IH [OF fs this(2)] show ?thesis
      unfolding split Let_def by (simp add: ids_of_def split: prod.splits)
  next
    case False
    then have "store_refines ps t0 ret k (snd out) r"
      unfolding out_def by (rule refines_other_key [OF Cons.prems(2) f(2) assms(4)])
    with False Cons.IH [OF fs this] show ?thesis unfolding split Let_def by (simp add: ids_of_def)
  qed
qed (simp add: ids_of_def outcomes_def)

text \<open>The specification delivers once, when the last missing index arrives.\<close>

lemma receive_all_Finished: "receive_all n msg Finished is = replicate (length is) ([], False, True)"
  by (induction "is") simp_all

lemma receive_all_once:
  assumes "S \<union> set is = {..<n}" "S \<noteq> {..<n}"
  shows "filter (fst \<circ> snd) (receive_all n msg (Receiving S) is) = [(msg, True, False)]"
  using assms
proof (induction "is" arbitrary: S)
  case (Cons i "is")
  then show ?case by (auto simp: receive_all_Finished)
qed simp

lemma receive_all_waits:
  assumes "S \<union> set is \<noteq> {..<n}" "S \<union> set is \<subseteq> {..<n}"
  shows "receive_all n msg (Receiving S) is = replicate (length is) ([], False, False)"
  using assms
proof (induction "is" arbitrary: S)
  case (Cons i "is")
  then show ?case by (auto simp: Un_commute)
qed simp

section \<open>Empty fragments\<close>

text \<open>
  A chunk that was nil stays nil after an empty payload, although the counter advanced: a message one
  of whose fragments is empty keeps a gap, whatever else arrives.
\<close>

definition gap_at :: "'k \<Rightarrow> u8 \<Rightarrow> u8 \<Rightarrow> 'k store \<Rightarrow> bool" where
  "gap_at k i n s \<longleftrightarrow>
     (\<forall>e. items s k = Some e \<and> ent_totalFragments e = n \<longrightarrow>
        length (chunks e) = 256 \<and> chunks e ! unat i = None)"

lemma gap_purge: "gap_at k i n s \<Longrightarrow> gap_at k i n (purgeIfDue now ret s)"
  by (auto simp: gap_at_def purgeIfDue_def purgeLocked_def Let_def split: option.splits if_splits)

lemma Collect_gap:
  assumes "gap_at k i n s" "i < n" "1 < n" "j = i \<longrightarrow> p = []"
  shows "gap_at k i n (snd (Collect k p j n now ret s))"
    and "\<not> fst (snd (fst (Collect k p j n now ret s)))"
proof -
  define s1 where "s1 = purgeIfDue now ret s"
  have g1: "gap_at k i n s1" unfolding s1_def by (rule gap_purge [OF assms(1)])
  define e where "e = (case items s1 k of Some e \<Rightarrow> if ent_totalFragments e \<noteq> n then new_entry now n else e
      | None \<Rightarrow> new_entry now n)"
  have i: "unat i < 256" "unat i < unat n" using unsigned_less [of i, where 'a = nat] assms(2)
    by (simp_all add: word_less_nat_alt)
  have e: "length (chunks e) = 256" "chunks e ! unat i = None" "ent_totalFragments e = n"
    using g1 i by (auto simp: e_def gap_at_def new_entry_def split: option.splits)
  let ?e = "fill (unat j) p e"
  have f: "chunks ?e ! unat i = None" "length (chunks ?e) = 256" "ent_totalFragments ?e = n"
    using e i assms(4) by (cases "j = i"; auto simp: fill_def Let_def refill_def word_unat_eq_iff)+
  then have none: "None \<in> set (take (unat n) (chunks ?e))"
    using i by (force simp: in_set_conv_nth)
  have guard: "\<not> n \<le> 1" using assms(3) by simp
  have out: "Collect k p j n now ret s = (([], False, False), s) \<or>
      Collect k p j n now ret s = (([], False, True), s1) \<or>
      Collect k p j n now ret s = (([], False, False), s1\<lparr>items := (items s1)(k \<mapsto> ?e)\<rparr>)"
    unfolding Collect_def s1_def [symmetric] Let_def
    using guard none by (simp add: e_def fill_def Let_def)
  then show "\<not> fst (snd (fst (Collect k p j n now ret s)))" by auto
  show "gap_at k i n (snd (Collect k p j n now ret s))"
    using out assms(1) g1 f by (auto simp: gap_at_def)
qed

lemma gap_other_key:
  assumes "gap_at k i n s" "k' \<noteq> k"
  shows "gap_at k i n (snd (Collect k' p j m now ret s))"
proof -
  obtain s' where "s' \<in> {s, purgeIfDue now ret s}" "items (snd (Collect k' p j m now ret s)) k = items s' k"
    by (rule bexE [OF Collect_other_key [OF assms(2), of s now ret p j m]]) (use that in simp)
  then show ?thesis using gap_purge [OF assms(1), of now ret] assms(1) by (auto simp: gap_at_def)
qed

lemma collect_all_gap:
  assumes "gap_at k i n s" "i < n" "1 < n"
    and "\<forall>f\<in>set fs. fr_key f = k \<longrightarrow> fr_total f = n \<and> (fr_id f = i \<longrightarrow> fr_payload f = [])"
  shows "\<forall>c\<in>set (outcomes k (fst (collect_all ret fs s))). \<not> fst (snd c)"
  using assms(1,4)
proof (induction fs arbitrary: s)
  case (Cons f fs)
  let ?out = "Collect (fr_key f) (fr_payload f) (fr_id f) (fr_total f) (fr_now f) ret s"
  have "gap_at k i n (snd ?out) \<and> (fr_key f = k \<longrightarrow> \<not> fst (snd (fst ?out)))"
    using Cons.prems Collect_gap [OF _ assms(2,3), of k s] gap_other_key [of k i n s "fr_key f"]
    by (cases "fr_key f = k") simp_all
  with Cons.IH [of "snd ?out"] Cons.prems show ?case
    unfolding outcomes_Cons Let_def by (cases "fr_key f = k") auto
qed (simp add: outcomes_def)

section \<open>Properties\<close>

text \<open>
  (C9) A message of 2 to 255 non-empty fragments is delivered exactly once, whole
  and in order, whatever the arrival order, the duplicates, and the calls for other keys in between, if
  all its fragments arrive within the retention of the first call.
\<close>

theorem fragments_delivered_once:
  assumes "2 \<le> length ps" "length ps < 256" "\<forall>p\<in>set ps. p \<noteq> []" "0 < ret"
    and "carries k ps t0 ret fs" "set (ids_of k fs) = {..<length ps}"
  shows "filter (fst \<circ> snd) (outcomes k (fst (collect_all ret fs New))) = [(concat ps, True, False)]"
proof -
  have "{} \<noteq> {..<length ps}" using assms(1) lessThan_empty_iff [of "length ps"] by auto
  then have "filter (fst \<circ> snd) (receive_all (length ps) (concat ps) (Receiving {}) (ids_of k fs)) =
      [(concat ps, True, False)]"
    using assms(6) by (intro receive_all_once) simp_all
  moreover have r: "store_refines ps t0 ret k New (Receiving {})" by (simp add: New_def)
  ultimately show ?thesis by (simp only: collect_all_refines [OF assms(1-5) r])
qed

lemma two_ids: "{Suc 0, 0} = {..<Suc (Suc 0)}"
  by auto

theorem fragments_delivered_once_witness:
  "filter (fst \<circ> snd) (outcomes True (fst (collect_all second
     [\<lparr>fr_key = True, fr_payload = [7], fr_id = 1, fr_total = 2, fr_now = 0\<rparr>,
      \<lparr>fr_key = False, fr_payload = [9], fr_id = 0, fr_total = 1, fr_now = 1\<rparr>,
      \<lparr>fr_key = True, fr_payload = [5, 6], fr_id = 0, fr_total = 2, fr_now = 2\<rparr>] New))) =
     [([5, 6, 7], True, False)]"
  using fragments_delivered_once [of "[[5, 6], [7]]" second True 0
     "[\<lparr>fr_key = True, fr_payload = [7], fr_id = 1, fr_total = 2, fr_now = 0\<rparr>,
       \<lparr>fr_key = False, fr_payload = [9], fr_id = 0, fr_total = 1, fr_now = 1\<rparr>,
       \<lparr>fr_key = True, fr_payload = [5, 6], fr_id = 0, fr_total = 2, fr_now = 2\<rparr>]"]
  by (simp add: carries_def ids_of_def two_ids del: collect_all.simps)

text \<open>
  While a fragment is missing every call for the message answers that it is neither
  complete nor a duplicate.
\<close>

theorem fragments_wait:
  assumes "2 \<le> length ps" "length ps < 256" "\<forall>p\<in>set ps. p \<noteq> []" "0 < ret"
    and "carries k ps t0 ret fs" "i < length ps" "i \<notin> set (ids_of k fs)"
  shows "set (outcomes k (fst (collect_all ret fs New))) \<subseteq> {([], False, False)}"
proof -
  have "store_refines ps t0 ret k New (Receiving {})" by (simp add: New_def)
  from collect_all_refines [OF assms(1-5) this]
  have "outcomes k (fst (collect_all ret fs New)) =
      receive_all (length ps) (concat ps) (Receiving {}) (ids_of k fs)" .
  moreover have "set (ids_of k fs) \<subseteq> {..<length ps}" using assms(5) by (auto simp: carries_def ids_of_def)
  moreover have "set (ids_of k fs) \<noteq> {..<length ps}" using assms(6,7) by auto
  ultimately show ?thesis using receive_all_waits [of "{}" "ids_of k fs"] by auto
qed

theorem fragments_wait_witness:
  "set (outcomes True (fst (collect_all second
     [\<lparr>fr_key = True, fr_payload = [7], fr_id = 1, fr_total = 2, fr_now = 0\<rparr>] New))) \<subseteq> {([], False, False)}"
  using fragments_wait [of "[[5, 6], [7]]" second True 0
     "[\<lparr>fr_key = True, fr_payload = [7], fr_id = 1, fr_total = 2, fr_now = 0\<rparr>]" 0]
  by (simp add: carries_def ids_of_def)

text \<open>
  (C40) A message with an empty fragment is never delivered: the nil chunk
  is counted on every arrival but never stored, so reassembly keeps finding the gap.
\<close>

theorem empty_fragment_never_completes:
  assumes "i < n" "1 < n"
    and "\<forall>f\<in>set fs. fr_key f = k \<longrightarrow> fr_total f = n \<and> (fr_id f = i \<longrightarrow> fr_payload f = [])"
  shows "\<forall>c\<in>set (outcomes k (fst (collect_all ret fs New))). \<not> fst (snd c)"
  by (rule collect_all_gap [OF _ assms]) (simp add: gap_at_def New_def)

theorem empty_fragment_never_completes_witness:
  "\<not> fst (snd (fst (Collect True [] 1 2 5 second (snd (Collect True [4] 0 2 5 second New)))))"
  using empty_fragment_never_completes [of 1 2
      "[\<lparr>fr_key = True, fr_payload = [4], fr_id = 0, fr_total = 2, fr_now = 5\<rparr>,
        \<lparr>fr_key = True, fr_payload = [], fr_id = 1, fr_total = 2, fr_now = 5\<rparr>]" True second]
  unfolding outcomes_Cons Let_def by simp

end
