(* ===== verification/Inflight.thy ===== *)
theory Inflight
  imports Prelude
begin

text \<open>
  The in-flight manager (\<open>inflight/manager.go\<close>): of the concurrent requests for one key the first
  becomes the leader, the others wait for the value it resolves. Entries are shared with the waiters
  by pointer, so they live on a heap indexed by allocation number; \<open>ent_ready\<close> says that the channel
  \<open>ready\<close> has been closed. A Go function value \<open>cloneValue\<close> that may be nil is an option. The methods
  on a nil manager, which return at once, are not represented.
\<close>

section \<open>State\<close>

record 'v entry =
  ent_createdAt :: time
  ent_ready :: bool
  ent_value :: "'v option"

text \<open>\<open>value\<close> and \<open>hasValue\<close> are one option: \<open>value\<close> is only written together with \<open>hasValue\<close>.\<close>

record 'v manager =
  timeout :: duration
  cleanupWindow :: duration
  nextCleanupAt :: time
  cloneValue :: "('v \<Rightarrow> 'v) option"
  items :: "gostring \<rightharpoonup> nat"
  heap :: "nat \<rightharpoonup> 'v entry"
  nextPtr :: nat

text \<open>Go's integer division truncates towards zero.\<close>

definition New :: "duration \<Rightarrow> duration \<Rightarrow> ('v \<Rightarrow> 'v) option \<Rightarrow> 'v manager" where
  "New tmo fallback clone =
     (let tmo = (if tmo \<le> 0 then fallback else tmo);
          window = (if tmo < 0 then - (- tmo div 4) else tmo div 4);
          window = (if window < second then second else window)
      in \<lparr>timeout = tmo, cleanupWindow = window, nextCleanupAt = 0, cloneValue = clone,
          items = Map.empty, heap = Map.empty, nextPtr = 0\<rparr>)"

section \<open>Operations\<close>

definition created :: "'v manager \<Rightarrow> nat \<Rightarrow> time" where
  "created m i = (case heap m i of Some e \<Rightarrow> ent_createdAt e | None \<Rightarrow> 0)"

definition cleanup :: "time \<Rightarrow> 'v manager \<Rightarrow> 'v manager" where
  "cleanup now m =
     (if nextCleanupAt m = 0 \<or> \<not> now < nextCleanupAt m
      then m\<lparr>items := (\<lambda>k. case items m k of
               None \<Rightarrow> None
             | Some i \<Rightarrow> if time_sub now (created m i) \<ge> timeout m then None else Some i),
             nextCleanupAt := now + cleanupWindow m\<rparr>
      else m)"

definition Acquire :: "gostring \<Rightarrow> time \<Rightarrow> 'v manager \<Rightarrow> (nat option \<times> bool) \<times> 'v manager" where
  "Acquire key now m =
     (if key = [] then ((None, False), m)
      else
        let m = cleanup now m;
            fresh = (let i = nextPtr m in
              ((Some i, True),
               m\<lparr>heap := (heap m)(i \<mapsto> \<lparr>ent_createdAt = now, ent_ready = False, ent_value = None\<rparr>),
                 items := (items m)(key \<mapsto> i), nextPtr := Suc i\<rparr>))
        in case items m key of
             Some i \<Rightarrow> if time_sub now (created m i) < timeout m then ((Some i, False), m) else fresh
           | None \<Rightarrow> fresh)"

definition Begin :: "gostring \<Rightarrow> time \<Rightarrow> 'v manager \<Rightarrow> bool \<times> 'v manager" where
  "Begin key now m = (let ((_, leader), m') = Acquire key now m in (leader, m'))"

definition clone :: "'v manager \<Rightarrow> 'v \<Rightarrow> 'v" where
  "clone m v = (case cloneValue m of None \<Rightarrow> v | Some f \<Rightarrow> f v)"

text \<open>Closing a channel twice panics: that outcome is the error.\<close>

definition Resolve :: "gostring \<Rightarrow> 'v \<Rightarrow> bool \<Rightarrow> 'v manager \<Rightarrow> 'v manager result" where
  "Resolve key v hasValue m =
     (if key = [] then Inr m
      else
        let entry = items m key;
            m = m\<lparr>items := (items m)(key := None)\<rparr>
        in case entry of
             None \<Rightarrow> Inr m
           | Some i \<Rightarrow>
               (case heap m i of
                  None \<Rightarrow> Inl (ErrLibrary ''nil dereference'')
                | Some e \<Rightarrow>
                    let e = (if hasValue then e\<lparr>ent_value := Some (clone m v)\<rparr> else e) in
                    if ent_ready e then Inl (ErrLibrary ''close of closed channel'')
                    else Inr (m\<lparr>heap := (heap m)(i \<mapsto> e\<lparr>ent_ready := True\<rparr>)\<rparr>)))"

text \<open>
  \<open>Wait\<close> lists the outcomes the \<open>select\<close> may take, given whether its timer has fired; with none it
  still blocks. The zero value of the type is a parameter.
\<close>

definition Wait :: "'v \<Rightarrow> nat option \<Rightarrow> duration \<Rightarrow> bool \<Rightarrow> 'v manager \<Rightarrow> ('v \<times> bool) list" where
  "Wait zero entry tmo timerFired m =
     (case entry of
        None \<Rightarrow> [(zero, False)]
      | Some i \<Rightarrow>
          let tmo = (if tmo \<le> 0 then timeout m else tmo) in
          if tmo \<le> 0 then [(zero, False)]
          else
            (case heap m i of
               Some e \<Rightarrow>
                 if ent_ready e
                 then [case ent_value e of None \<Rightarrow> (zero, True) | Some v \<Rightarrow> (clone m v, True)] else []
             | None \<Rightarrow> []) @
            (if timerFired then [(zero, False)] else []))"

section \<open>Reachable states\<close>

inductive reachable :: "'v manager \<Rightarrow> bool" where
  New: "reachable (New tmo fallback cl)"
| Acquire: "reachable m \<Longrightarrow> reachable (snd (Acquire key now m))"
| Resolve: "reachable m \<Longrightarrow> Resolve key v hasValue m = Inr m' \<Longrightarrow> reachable m'"

text \<open>
  Every listed entry is allocated and open, and no entry is listed under two keys; a closed entry is
  not listed any more.
\<close>

definition inflight_inv :: "'v manager \<Rightarrow> bool" where
  "inflight_inv m \<longleftrightarrow>
     (\<forall>k i. items m k = Some i \<longrightarrow> (\<exists>e. heap m i = Some e \<and> \<not> ent_ready e)) \<and>
     (\<forall>k k' i. items m k = Some i \<longrightarrow> items m k' = Some i \<longrightarrow> k = k') \<and>
     (\<forall>i. heap m i \<noteq> None \<longrightarrow> i < nextPtr m)"

lemma inflight_inv_New [inv_intros]: "inflight_inv (New tmo fallback cl)"
  by (simp add: inflight_inv_def New_def Let_def)

lemma cleanup_sub: "items (cleanup now m) k = Some i \<Longrightarrow> items m k = Some i"
  by (auto simp: cleanup_def split: if_splits option.splits)

lemma cleanup_heap [simp]:
  "heap (cleanup now m) = heap m" "nextPtr (cleanup now m) = nextPtr m" "timeout (cleanup now m) = timeout m"
  "cloneValue (cleanup now m) = cloneValue m" "created (cleanup now m) i = created m i"
  by (auto simp: cleanup_def created_def)

lemma inflight_inv_cleanup: "inflight_inv m \<Longrightarrow> inflight_inv (cleanup now m)"
  unfolding inflight_inv_def cleanup_heap by (meson cleanup_sub)

lemma inflight_inv_Acquire [inv_intros]:
  assumes "inflight_inv m"
  shows "inflight_inv (snd (Acquire key now m))"
proof -
  let ?m = "cleanup now m"
  have inv: "inflight_inv ?m" by (rule inflight_inv_cleanup [OF assms])
  let ?i = "nextPtr ?m"
  let ?f = "?m\<lparr>heap := (heap ?m)(?i \<mapsto> \<lparr>ent_createdAt = now, ent_ready = False, ent_value = None\<rparr>),
        items := (items ?m)(key \<mapsto> ?i), nextPtr := Suc ?i\<rparr>"
  have new: "items ?m k \<noteq> Some ?i" for k
    using inv unfolding inflight_inv_def by (metis less_irrefl option.distinct(1))
  have "inflight_inv ?f"
    using inv new unfolding inflight_inv_def by (auto simp: less_Suc_eq)
  then show ?thesis using assms inv by (auto simp: Acquire_def Let_def split: option.splits)
qed

lemma Resolve_listed:
  assumes "inflight_inv m" "key \<noteq> []" "items m key = Some i"
  obtains e where "heap m i = Some e" "\<not> ent_ready e"
    "Resolve key v hasValue m = Inr (m\<lparr>items := (items m)(key := None),
       heap := (heap m)(i \<mapsto> e\<lparr>ent_value := (if hasValue then Some (clone m v) else ent_value e),
                             ent_ready := True\<rparr>)\<rparr>)"
proof -
  obtain e where "heap m i = Some e" "\<not> ent_ready e"
    using assms(1,3) unfolding inflight_inv_def by blast
  with that assms(2,3) show thesis by (cases e) (simp add: Resolve_def Let_def clone_def)
qed

lemma Resolve_ok:
  assumes "inflight_inv m"
  shows "\<exists>m'. Resolve key v hasValue m = Inr m' \<and> inflight_inv m'"
proof (cases "key = [] \<or> items m key = None")
  case True
  then show ?thesis using assms by (auto simp: Resolve_def Let_def inflight_inv_def)
next
  case False
  then obtain i where i: "key \<noteq> []" "items m key = Some i" by auto
  then have other: "items m k \<noteq> Some i" if "k \<noteq> key" for k
    using assms that unfolding inflight_inv_def by metis
  show ?thesis
    by (rule Resolve_listed [OF assms i, of v hasValue])
      (use assms i other in \<open>auto simp: inflight_inv_def\<close>)
qed

lemma inflight_inv_Resolve [inv_intros]:
  "inflight_inv m \<Longrightarrow> Resolve key v hasValue m = Inr m' \<Longrightarrow> inflight_inv m'"
  using Resolve_ok [of m key v hasValue] by auto

lemma reachable_inv: "reachable m \<Longrightarrow> inflight_inv m"
  by (induction rule: reachable.induct) (auto intro: inv_intros)

section \<open>One leader per key and window\<close>

text \<open>The calls of other goroutines, in the order the mutex admits them.\<close>

datatype 'v request = CAcquire gostring time | CResolve gostring 'v bool

fun call :: "'v request \<Rightarrow> 'v manager \<Rightarrow> 'v manager" where
  "call (CAcquire k now) m = snd (Acquire k now m)"
| "call (CResolve k v h) m = (case Resolve k v h m of Inr m' \<Rightarrow> m' | Inl _ \<Rightarrow> m)"

definition calls :: "'v request list \<Rightarrow> 'v manager \<Rightarrow> 'v manager" where
  "calls cs m = foldl (\<lambda>m c. call c m) m cs"

definition pending :: "gostring \<Rightarrow> nat \<Rightarrow> time \<Rightarrow> 'v manager \<Rightarrow> bool" where
  "pending k i t m \<longleftrightarrow> items m k = Some i \<and> (\<exists>e. heap m i = Some e \<and> ent_createdAt e = t)"

text \<open>A call that neither resolves the key nor comes after the timeout.\<close>

fun in_window :: "gostring \<Rightarrow> time \<Rightarrow> 'v manager \<Rightarrow> 'v request \<Rightarrow> bool" where
  "in_window k t m (CAcquire _ now) \<longleftrightarrow> time_sub now t < timeout m"
| "in_window k t m (CResolve k' _ _) \<longleftrightarrow> k' \<noteq> k"

lemma call_timeout [simp]: "timeout (call c m) = timeout m"
  by (cases c) (auto simp: Acquire_def Resolve_def Let_def split: option.splits)

lemma in_window_call: "in_window k t (call c' m) c = in_window k t m c"
  by (cases c) simp_all

lemma inflight_inv_call: "inflight_inv m \<Longrightarrow> inflight_inv (call c m)"
  by (cases c) (auto intro: inv_intros split: sum.splits)

lemma pending_cleanup:
  assumes "pending k i t m" "time_sub now t < timeout m"
  shows "pending k i t (cleanup now m)"
  using assms by (auto simp: pending_def cleanup_def created_def)

lemma Acquire_pending:
  assumes "pending k i t m" "time_sub now t < timeout m" "k \<noteq> []"
  shows "Acquire k now m = ((Some i, False), cleanup now m)"
  using pending_cleanup [OF assms(1,2)] assms
  by (auto simp: Acquire_def Let_def pending_def created_def)

lemma pending_call:
  assumes "inflight_inv m" "pending k i t m" "in_window k t m c" "k \<noteq> []"
  shows "pending k i t (call c m)"
proof (cases c)
  case (CAcquire k' now)
  show ?thesis
  proof (cases "k' = k")
    case True
    then show ?thesis using assms CAcquire by (simp add: Acquire_pending pending_cleanup)
  next
    case False
    have p: "pending k i t (cleanup now m)" using assms CAcquire by (simp add: pending_cleanup)
    then have "i \<noteq> nextPtr (cleanup now m)"
      using assms(1) unfolding pending_def inflight_inv_def by force
    with p False CAcquire show ?thesis
      by (auto simp: Acquire_def Let_def pending_def dest: cleanup_sub split: option.splits)
  qed
next
  case (CResolve k' v h)
  show ?thesis
  proof (cases "k' = [] \<or> items m k' = None")
    case True
    then show ?thesis using assms CResolve by (auto simp: Resolve_def Let_def pending_def)
  next
    case False
    then obtain j where j: "k' \<noteq> []" "items m k' = Some j" by auto
    then have "j \<noteq> i" using assms CResolve unfolding inflight_inv_def pending_def by force
    then show ?thesis
      by - (rule Resolve_listed [OF assms(1) j, of v h], use assms CResolve in \<open>auto simp: pending_def\<close>)
  qed
qed

lemma pending_calls:
  assumes "inflight_inv m" "pending k i t m" "\<forall>c\<in>set cs. in_window k t m c" "k \<noteq> []"
  shows "pending k i t (calls cs m) \<and> timeout (calls cs m) = timeout m"
  using assms
proof (induction cs arbitrary: m)
  case (Cons c cs)
  have "pending k i t (calls cs (call c m)) \<and> timeout (calls cs (call c m)) = timeout (call c m)"
    using Cons.prems by (intro Cons.IH) (simp_all add: inflight_inv_call pending_call in_window_call)
  then show ?case by (simp add: calls_def)
qed (simp add: calls_def)

lemma Acquire_leader:
  assumes "Acquire k now m = ((Some i, True), m')"
  shows "pending k i now m'" and "k \<noteq> []"
  using assms by (auto simp: Acquire_def Let_def pending_def split: if_splits option.splits)

section \<open>Waiters see the value that was resolved\<close>

definition resolved :: "nat \<Rightarrow> 'v option \<Rightarrow> 'v manager \<Rightarrow> bool" where
  "resolved i v m \<longleftrightarrow> (\<exists>e. heap m i = Some e \<and> ent_ready e \<and> ent_value e = v)"

lemma resolved_call:
  assumes "inflight_inv m" "resolved i v m"
  shows "resolved i v (call c m) \<and> cloneValue (call c m) = cloneValue m"
proof (cases c)
  case (CAcquire k now)
  have "i \<noteq> nextPtr (cleanup now m)"
    using assms unfolding resolved_def inflight_inv_def by force
  with assms(2) CAcquire show ?thesis
    by (auto simp: Acquire_def Let_def resolved_def split: option.splits)
next
  case (CResolve k w h)
  show ?thesis
  proof (cases "k = [] \<or> items m k = None")
    case True
    then show ?thesis using assms CResolve by (auto simp: Resolve_def Let_def resolved_def)
  next
    case False
    then obtain j where j: "k \<noteq> []" "items m k = Some j" by auto
    then have "j \<noteq> i" using assms unfolding inflight_inv_def resolved_def by force
    then show ?thesis
      by - (rule Resolve_listed [OF assms(1) j, of w h], use assms CResolve in \<open>auto simp: resolved_def\<close>)
  qed
qed

lemma resolved_calls:
  assumes "inflight_inv m" "resolved i v m"
  shows "resolved i v (calls cs m) \<and> cloneValue (calls cs m) = cloneValue m"
  using assms
proof (induction cs arbitrary: m)
  case (Cons c cs)
  have "resolved i v (calls cs (call c m)) \<and> cloneValue (calls cs (call c m)) = cloneValue (call c m)"
    using Cons.prems by (intro Cons.IH) (simp_all add: inflight_inv_call resolved_call)
  with resolved_call [OF Cons.prems] show ?case by (simp add: calls_def)
qed (simp add: calls_def)

lemma Resolve_resolved:
  assumes "inflight_inv m" "k \<noteq> []" "items m k = Some i" "Resolve k v True m = Inr m'"
  shows "resolved i (Some (clone m v)) m' \<and> cloneValue m' = cloneValue m"
  by (rule Resolve_listed [OF assms(1-3), of v True]) (use assms(4) in \<open>auto simp: resolved_def\<close>)

lemma Wait_resolved:
  assumes "resolved i (Some v) m" "0 < tmo"
  shows "Wait zero (Some i) tmo False m = [(clone m v, True)]"
  using assms by (auto simp: Wait_def resolved_def)

section \<open>Properties\<close>

text \<open>
  (C33) After a caller became the leader for a key, every other caller that asks for the key
  before the timeout, and before the key is resolved, is told to wait on the leader's entry, whatever
  calls for other keys are interleaved.
\<close>

theorem single_leader:
  assumes "reachable m" "Acquire k t m = ((Some i, True), m')"
    and "\<forall>c\<in>set cs. in_window k t m' c" "time_sub now t < timeout m'"
  shows "fst (Acquire k now (calls cs m')) = (Some i, False)"
proof -
  have "inflight_inv m'" using inflight_inv_Acquire [OF reachable_inv [OF assms(1)], of k t] assms(2) by simp
  from pending_calls [OF this Acquire_leader(1) [OF assms(2)] assms(3) Acquire_leader(2) [OF assms(2)]]
  show ?thesis using Acquire_pending [of k i t "calls cs m'" now] Acquire_leader(2) [OF assms(2)] assms(4) by simp
qed

theorem single_leader_witness:
  "fst (Acquire [1] 20 (snd (Acquire [2] 15 (snd (Acquire [1] 10 (New 100 7 (None :: (nat \<Rightarrow> nat) option))))))) =
     (Some 0, False)"
  using single_leader [OF reachable.New [of 100 7 "None :: (nat \<Rightarrow> nat) option"], of "[1]" 10 0
      "snd (Acquire [1] 10 (New 100 7 None))" "[CAcquire [2] 15]" 20]
  by (simp add: Acquire_def cleanup_def New_def Let_def calls_def time_sub_def)

text \<open>
  (C35) Once the leader resolves the key with a value, a waiter on its entry receives a
  clone of that value and not a timeout, at any later point, whatever happens in between.
\<close>

theorem waiters_get_value:
  assumes "reachable m" "k \<noteq> []" "items m k = Some i" "Resolve k v True m = Inr m'" "0 < tmo"
  shows "Wait zero (Some i) tmo False (calls cs m') = [(clone m (clone m v), True)]"
proof -
  have inv: "inflight_inv m" by (rule reachable_inv [OF assms(1)])
  have r: "resolved i (Some (clone m v)) m'" "cloneValue m' = cloneValue m"
    using Resolve_resolved [OF inv assms(2-4)] by simp_all
  have "inflight_inv m'" by (rule inflight_inv_Resolve [OF inv assms(4)])
  from resolved_calls [OF this r(1), of cs] r(2)
  show ?thesis using Wait_resolved [OF _ assms(5), of i "clone m v" "calls cs m'" zero] by (simp add: clone_def)
qed

theorem waiters_get_value_witness:
  "\<exists>m'. Resolve [1] 5 True (snd (Acquire [1] 10 (New 100 7 (Some Suc)))) = Inr m' \<and>
     Wait 0 (Some 0) 50 False (calls [CAcquire [1] 30] m') = [(7, True)]"
proof -
  let ?m = "snd (Acquire [1] 10 (New 100 7 (Some Suc)))"
  have m: "reachable ?m" by (intro reachable.intros)
  have i: "items ?m [1] = Some 0" by (simp add: Acquire_def cleanup_def New_def Let_def)
  obtain m' where r: "Resolve [1] 5 True ?m = Inr m'"
    using Resolve_ok [OF reachable_inv [OF m]] by blast
  have "clone ?m (clone ?m 5) = 7"
    by (simp add: clone_def Acquire_def cleanup_def New_def Let_def)
  with waiters_get_value [OF m _ i r, of 50 0 "[CAcquire [1] 30]"] r show ?thesis by simp
qed

text \<open>
  In a reachable manager \<open>Resolve\<close> never closes a channel twice and never
  follows a nil entry.
\<close>

theorem resolve_never_panics:
  assumes "reachable m"
  shows "\<exists>m'. Resolve key v hasValue m = Inr m'"
  using Resolve_ok [OF reachable_inv [OF assms]] by blast

theorem resolve_never_panics_witness: "\<exists>m'. Resolve [1] (5 :: nat) True (New 100 7 None) = Inr m'"
  by (rule resolve_never_panics [OF reachable.New])

end
