(* ===== verification/DnsParser.thy ===== *)
theory DnsParser
  imports Prelude Enums
begin

text \<open>
  The DNS message parser and the builders of local responses (\<open>dnsparser/parser.go\<close>,
  \<open>dnsparser/response.go\<close>, \<open>dnsparser/policy.go\<close>). A message is a byte list; offsets are natural
  numbers, as no path makes one negative. A parse function returns the value and the next offset, or
  the error it returns in Go; where a caller uses the offset that comes with an error the function
  returns both.
\<close>

section \<open>Data\<close>

abbreviation dnsHeaderSize :: nat where "dnsHeaderSize \<equiv> 12"
abbreviation maxNameJumps :: nat where "maxNameJumps \<equiv> 10"
abbreviation maxLikelyQuestions :: u16 where "maxLikelyQuestions \<equiv> 64"
abbreviation maxLikelyAnswers :: u16 where "maxLikelyAnswers \<equiv> 256"
abbreviation maxLikelyAuthority :: u16 where "maxLikelyAuthority \<equiv> 256"
abbreviation maxLikelyAdditional :: u16 where "maxLikelyAdditional \<equiv> 256"

record header =
  hdr_ID :: u16
  hdr_Flags :: u16
  hdr_QR :: u8
  hdr_OpCode :: u8
  hdr_AA :: u8
  hdr_TC :: u8
  hdr_RD :: u8
  hdr_RA :: u8
  hdr_Z :: u8
  hdr_RCode :: u8
  hdr_QDCount :: u16
  hdr_ANCount :: u16
  hdr_NSCount :: u16
  hdr_ARCount :: u16

record question =
  q_Name :: gostring
  q_Type :: u16
  q_Class :: u16

record resourceRecord =
  rr_Name :: gostring
  rr_Type :: u16
  rr_Class :: u16
  rr_TTL :: u32
  rr_RDLen :: u16
  rr_RData :: bytes

record dnsPacket =
  pkt_Header :: header
  pkt_Questions :: "question list"
  pkt_Answers :: "resourceRecord list"
  pkt_Authorities :: "resourceRecord list"
  pkt_Additional :: "resourceRecord list"

record litePacket =
  lite_Header :: header
  lite_Questions :: "question list"
  lite_FirstQuestion :: question
  lite_HasQuestion :: bool
  lite_QuestionEndOffset :: nat

definition zero_question :: question where
  "zero_question = \<lparr>q_Name = [], q_Type = 0, q_Class = 0\<rparr>"

section \<open>Header\<close>

definition parseHeader :: "bytes \<Rightarrow> header" where
  "parseHeader data =
     (let flags = get16 data 2 in
      \<lparr>hdr_ID = get16 data 0,
       hdr_Flags = flags,
       hdr_QR = ucast (drop_bit 15 flags AND 0x1),
       hdr_OpCode = ucast (drop_bit 11 flags AND 0xF),
       hdr_AA = ucast (drop_bit 10 flags AND 0x1),
       hdr_TC = ucast (drop_bit 9 flags AND 0x1),
       hdr_RD = ucast (drop_bit 8 flags AND 0x1),
       hdr_RA = ucast (drop_bit 7 flags AND 0x1),
       hdr_Z = ucast (drop_bit 4 flags AND 0x7),
       hdr_RCode = ucast (flags AND 0xF),
       hdr_QDCount = get16 data 4,
       hdr_ANCount = get16 data 6,
       hdr_NSCount = get16 data 8,
       hdr_ARCount = get16 data 10\<rparr>)"

section \<open>Names\<close>

definition isUpper :: "u8 \<Rightarrow> bool" where
  "isUpper c \<longleftrightarrow> 65 \<le> c \<and> c \<le> 90"

definition toLowerByte :: "u8 \<Rightarrow> u8" where
  "toLowerByte ch = (if isUpper ch then ch + (97 - 65) else ch)"

definition writeLowerASCIILabel :: "bytes \<Rightarrow> bytes \<Rightarrow> bytes" where
  "writeLowerASCIILabel dst label =
     (let upperIndex = length (takeWhile (\<lambda>c. \<not> isUpper c) label) in
      if upperIndex = length label then dst @ label
      else dst @ take upperIndex label @ map toLowerByte (drop upperIndex label))"

text \<open>The loop of \<open>parseName\<close>; its locals are arguments.\<close>

function parseNameLoop ::
  "bytes \<Rightarrow> nat \<Rightarrow> bool \<Rightarrow> nat \<Rightarrow> nat \<Rightarrow> bytes \<Rightarrow> bool \<Rightarrow> (gostring \<times> nat) result" where
  "parseNameLoop data offset jumped jumps origNext name hasLabel =
     (if offset \<ge> length data then Inl ErrInvalidName
      else
        let len = unat (data ! offset) in
        if len = 0 then
          (let origNext = (if \<not> jumped then offset + 1 else origNext)
           in Inr (if hasLabel then name else ascii ''.'', origNext))
        else if len \<ge> 192 then
          if offset + 1 \<ge> length data \<or> jumps \<ge> maxNameJumps then Inl ErrInvalidName
          else
            let ptr = unat (get16 data offset AND 0x3FFF) in
            if ptr \<ge> length data then Inl ErrInvalidName
            else
              parseNameLoop data ptr True (jumps + 1) (if \<not> jumped then offset + 2 else origNext) name hasLabel
        else if len > 63 then Inl ErrInvalidName
        else
          let end = offset + 1 + len in
          if end > length data then Inl ErrInvalidName
          else
            let name = (if name = [] then name else name @ ascii ''.'') in
            parseNameLoop data end jumped jumps (if \<not> jumped then end else origNext)
              (writeLowerASCIILabel name (slice data (offset + 1) end)) True)"
  by pat_completeness auto
termination
  by (relation "measures [\<lambda>(_, _, _, jumps, _). maxNameJumps - jumps,
        \<lambda>(data, offset, _). length data - offset]") auto

declare parseNameLoop.simps [simp del]

definition parseName :: "bytes \<Rightarrow> nat \<Rightarrow> (gostring \<times> nat) result" where
  "parseName data offset =
     (if offset \<ge> length data then Inl ErrInvalidName
      else parseNameLoop data offset False 0 offset [] False)"

function skipName :: "bytes \<Rightarrow> nat \<Rightarrow> nat result" where
  "skipName data offset =
     (if offset \<ge> length data then Inl ErrInvalidName
      else
        let len = unat (data ! offset) in
        if len = 0 then Inr (offset + 1)
        else if len \<ge> 192 then
          if offset + 1 \<ge> length data then Inl ErrInvalidName else Inr (offset + 2)
        else if len > 63 then Inl ErrInvalidName
        else skipName data (offset + (len + 1)))"
  by pat_completeness auto
termination
  by (relation "measure (\<lambda>(data, offset). length data - offset)") auto

declare skipName.simps [simp del]

section \<open>Sections of a message\<close>

fun parseQuestions :: "bytes \<Rightarrow> nat \<Rightarrow> nat \<Rightarrow> (question list \<times> nat) result" where
  "parseQuestions data offset 0 = Inr ([], offset)"
| "parseQuestions data offset (Suc count) =
     (case parseName data offset of
        Inl _ \<Rightarrow> Inl ErrInvalidQuestion
      | Inr (name, offset) \<Rightarrow>
          if offset + 4 > length data then Inl ErrInvalidQuestion
          else
            let q = \<lparr>q_Name = name, q_Type = get16 data offset, q_Class = get16 data (offset + 2)\<rparr>
            in case parseQuestions data (offset + 4) count of
                 Inl e \<Rightarrow> Inl e
               | Inr (qs, offset) \<Rightarrow> Inr (q # qs, offset))"

fun parseResourceRecords :: "bytes \<Rightarrow> nat \<Rightarrow> nat \<Rightarrow> (resourceRecord list \<times> nat) result" where
  "parseResourceRecords data offset 0 = Inr ([], offset)"
| "parseResourceRecords data offset (Suc count) =
     (case parseName data offset of
        Inl _ \<Rightarrow> Inl ErrInvalidAnswer
      | Inr (name, offset) \<Rightarrow>
          if offset + 10 > length data then Inl ErrInvalidAnswer
          else
            let rdLen = get16 data (offset + 8);
                end = offset + 10 + unat rdLen
            in
              if end > length data then Inl ErrInvalidAnswer
              else
                let r = \<lparr>rr_Name = name, rr_Type = get16 data offset, rr_Class = get16 data (offset + 2),
                         rr_TTL = get32 data (offset + 4), rr_RDLen = rdLen,
                         rr_RData = slice data (offset + 10) end\<rparr>
                in case parseResourceRecords data end count of
                     Inl e \<Rightarrow> Inl e
                   | Inr (rs, offset) \<Rightarrow> Inr (r # rs, offset))"

definition isLikelyDNSRequestHeader :: "header \<Rightarrow> bool" where
  "isLikelyDNSRequestHeader h =
     (if hdr_QR h \<noteq> 0 then False
      else if hdr_QDCount h = 0 \<or> hdr_QDCount h > maxLikelyQuestions then False
      else if hdr_OpCode h > 6 then False
      else if hdr_ANCount h > maxLikelyAnswers then False
      else if hdr_NSCount h > maxLikelyAuthority then False
      else if hdr_ARCount h > maxLikelyAdditional then False
      else True)"

definition parsePacketLiteWithHeader :: "bytes \<Rightarrow> header \<Rightarrow> litePacket result" where
  "parsePacketLiteWithHeader data h =
     (if hdr_QDCount h = 0 then
        Inr \<lparr>lite_Header = h, lite_Questions = [], lite_FirstQuestion = zero_question,
             lite_HasQuestion = False, lite_QuestionEndOffset = dnsHeaderSize\<rparr>
      else case parseQuestions data dnsHeaderSize (unat (hdr_QDCount h)) of
          Inl _ \<Rightarrow> Inl ErrInvalidQuestion
        | Inr (questions, offset) \<Rightarrow>
            Inr \<lparr>lite_Header = h, lite_Questions = questions,
                 lite_FirstQuestion = (case questions of q # _ \<Rightarrow> q | [] \<Rightarrow> zero_question),
                 lite_HasQuestion = (length questions > 0), lite_QuestionEndOffset = offset\<rparr>)"

definition ParsePacketLite :: "bytes \<Rightarrow> litePacket result" where
  "ParsePacketLite data =
     (if length data < dnsHeaderSize then Inl ErrDnsPacketTooShort
      else parsePacketLiteWithHeader data (parseHeader data))"

definition ParseDNSRequestLite :: "bytes \<Rightarrow> litePacket result" where
  "ParseDNSRequestLite data =
     (if length data < dnsHeaderSize then Inl ErrDnsPacketTooShort
      else
        let h = parseHeader data in
        if \<not> isLikelyDNSRequestHeader h then Inl ErrNotDNSRequest
        else parsePacketLiteWithHeader data h)"

definition ParsePacket :: "bytes \<Rightarrow> dnsPacket result" where
  "ParsePacket data =
     (if length data < dnsHeaderSize then Inl ErrDnsPacketTooShort
      else
        let h = parseHeader data in
        bind_result (parseQuestions data dnsHeaderSize (unat (hdr_QDCount h))) (\<lambda>(questions, offset).
        bind_result (parseResourceRecords data offset (unat (hdr_ANCount h))) (\<lambda>(answers, offset).
        bind_result (parseResourceRecords data offset (unat (hdr_NSCount h))) (\<lambda>(authorities, offset).
        bind_result (parseResourceRecords data offset (unat (hdr_ARCount h))) (\<lambda>(additional, _).
          Inr \<lparr>pkt_Header = h, pkt_Questions = questions, pkt_Answers = answers,
               pkt_Authorities = authorities, pkt_Additional = additional\<rparr>)))))"

section \<open>Walking a message without allocating\<close>

text \<open>\<open>skipQuestions\<close> returns the offset it reached also with an error; a caller uses it.\<close>

fun skipQuestions :: "bytes \<Rightarrow> nat \<Rightarrow> nat \<Rightarrow> nat \<times> go_error option" where
  "skipQuestions data offset 0 = (offset, None)"
| "skipQuestions data offset (Suc count) =
     (case skipName data offset of
        Inl _ \<Rightarrow> (offset, Some ErrInvalidQuestion)
      | Inr nextOffset \<Rightarrow>
          if nextOffset + 4 > length data then (offset, Some ErrInvalidQuestion)
          else skipQuestions data (nextOffset + 4) count)"

fun skipResourceRecords :: "bytes \<Rightarrow> nat \<Rightarrow> nat \<Rightarrow> nat \<times> go_error option" where
  "skipResourceRecords data offset 0 = (offset, None)"
| "skipResourceRecords data offset (Suc count) =
     (case skipName data offset of
        Inl _ \<Rightarrow> (offset, Some ErrInvalidAnswer)
      | Inr nextOffset \<Rightarrow>
          if nextOffset + 10 > length data then (offset, Some ErrInvalidAnswer)
          else
            let rdLen = unat (get16 data (nextOffset + 8));
                recordEnd = nextOffset + 10 + rdLen
            in
              if recordEnd > length data then (offset, Some ErrInvalidAnswer)
              else skipResourceRecords data recordEnd count)"

fun findFirstOPTRecordInAdditional :: "bytes \<Rightarrow> nat \<Rightarrow> nat \<Rightarrow> nat \<times> nat" where
  "findFirstOPTRecordInAdditional data offset 0 = (0, 0)"
| "findFirstOPTRecordInAdditional data offset (Suc count) =
     (case skipName data offset of
        Inl _ \<Rightarrow> (0, 0)
      | Inr nextOffset \<Rightarrow>
          if nextOffset + 10 > length data then (0, 0)
          else
            let recordType = get16 data nextOffset;
                rdLen = unat (get16 data (nextOffset + 8));
                recordEnd = nextOffset + 10 + rdLen
            in
              if recordEnd > length data then (0, 0)
              else if recordType = DNS_RECORD_TYPE_OPT then (offset, recordEnd - offset)
              else findFirstOPTRecordInAdditional data recordEnd count)"

definition findOPTRecordRange :: "bytes \<Rightarrow> header \<Rightarrow> nat \<Rightarrow> nat \<times> nat" where
  "findOPTRecordRange request h questionEndOffset =
     (if hdr_ARCount h = 0 \<or> questionEndOffset < dnsHeaderSize \<or> questionEndOffset > length request
      then (0, 0)
      else
        let (offset, err) =
              (if hdr_ANCount h > 0 then skipResourceRecords request questionEndOffset (unat (hdr_ANCount h))
               else (questionEndOffset, None))
        in
          if err \<noteq> None then (0, 0)
          else
            let (offset, err) =
                  (if hdr_NSCount h > 0 then skipResourceRecords request offset (unat (hdr_NSCount h))
                   else (offset, None))
            in
              if err \<noteq> None then (0, 0)
              else findFirstOPTRecordInAdditional request offset (unat (hdr_ARCount h)))"

fun extractRawOPTRecords :: "bytes \<Rightarrow> nat \<Rightarrow> nat \<Rightarrow> (bytes list \<times> nat \<times> nat) result" where
  "extractRawOPTRecords data offset 0 = Inr ([], 0, offset)"
| "extractRawOPTRecords data offset (Suc count) =
     (case skipName data offset of
        Inl _ \<Rightarrow> Inl ErrInvalidAnswer
      | Inr nextOffset \<Rightarrow>
          if nextOffset + 10 > length data then Inl ErrInvalidAnswer
          else
            let recordType = get16 data nextOffset;
                rdLen = unat (get16 data (nextOffset + 8));
                recordEnd = nextOffset + 10 + rdLen
            in
              if recordEnd > length data then Inl ErrInvalidAnswer
              else case extractRawOPTRecords data recordEnd count of
                  Inl e \<Rightarrow> Inl e
                | Inr (records, recordsLen, end) \<Rightarrow>
                    if recordType = DNS_RECORD_TYPE_OPT
                    then let record = slice data offset recordEnd
                         in Inr (record # records, length record + recordsLen, end)
                    else Inr (records, recordsLen, end))"

definition extractQuestionSection :: "bytes \<Rightarrow> header \<Rightarrow> bytes \<times> u16 \<times> nat" where
  "extractQuestionSection request h =
     (if hdr_QDCount h = 0 then ([], 0, dnsHeaderSize)
      else case skipQuestions request dnsHeaderSize (unat (hdr_QDCount h)) of
          (_, Some _) \<Rightarrow> ([], 0, 0)
        | (offset, None) \<Rightarrow> (slice request dnsHeaderSize offset, hdr_QDCount h, offset))"

definition extractOPTRecordsFromOffset :: "bytes \<Rightarrow> header \<Rightarrow> nat \<Rightarrow> bytes list \<times> nat" where
  "extractOPTRecordsFromOffset request h questionEndOffset =
     (let (start, len) = findOPTRecordRange request h questionEndOffset in
      if len = 0 then ([], 0) else ([slice request start (start + len)], len))"

definition extractOPTRecordsFromRequest :: "bytes \<Rightarrow> header \<Rightarrow> bool \<Rightarrow> bytes list \<times> nat" where
  "extractOPTRecordsFromRequest request h canWalk =
     (if \<not> canWalk \<or> hdr_ARCount h = 0 then ([], 0)
      else case skipQuestions request dnsHeaderSize (unat (hdr_QDCount h)) of
          (_, Some _) \<Rightarrow> ([], 0)
        | (offset, None) \<Rightarrow> extractOPTRecordsFromOffset request h offset)"

section \<open>Local responses\<close>

definition getARCount :: "nat \<Rightarrow> u16" where
  "getARCount optLen = (if optLen > 0 then 1 else 0)"

definition buildResponseFlags :: "u16 \<Rightarrow> u8 \<Rightarrow> u16" where
  "buildResponseFlags requestFlags rcode =
     (let flagQR = push_bit 15 1; flagAA = push_bit 10 1; flagTC = push_bit 9 1; flagRD = push_bit 8 1;
          flagRA = push_bit 7 1; flagCD = push_bit 4 1;
          flags = flagQR OR flagRA OR (requestFlags AND 0x7800) OR ucast (rcode AND 0x0F);
          flags = (if requestFlags AND flagRD \<noteq> 0 then flags OR flagRD else flags);
          flags = (if requestFlags AND flagCD \<noteq> 0 then flags OR flagCD else flags)
      in flags AND NOT (flagAA OR flagTC))"

definition buildAuthoritativeResponseFlags :: "u16 \<Rightarrow> u8 \<Rightarrow> u16" where
  "buildAuthoritativeResponseFlags requestFlags rcode =
     (let flagQR = push_bit 15 1; flagAA = push_bit 10 1; flagTC = push_bit 9 1; flagRD = push_bit 8 1;
          flagRA = push_bit 7 1; flagCD = push_bit 4 1;
          flags = flagQR OR flagAA OR (requestFlags AND 0x7800) OR ucast (rcode AND 0x0F);
          flags = (if requestFlags AND flagRD \<noteq> 0 then flags OR flagRD else flags);
          flags = (if requestFlags AND flagCD \<noteq> 0 then flags OR flagCD else flags)
      in flags AND NOT (flagRA OR flagTC))"

text \<open>The twelve bytes of a header, as the \<open>PutUint16\<close> calls on a zeroed buffer leave them.\<close>

definition dnsHeaderBytes :: "u16 \<Rightarrow> u16 \<Rightarrow> u16 \<Rightarrow> u16 \<Rightarrow> u16 \<Rightarrow> u16 \<Rightarrow> bytes" where
  "dnsHeaderBytes ident flags qd an ns ar = put16 ident @ put16 flags @ put16 qd @ put16 an @ put16 ns @ put16 ar"

definition buildResponseWithRCode :: "bytes \<Rightarrow> u8 \<Rightarrow> bytes result" where
  "buildResponseWithRCode request rcode =
     (if length request < dnsHeaderSize then Inl ErrDnsPacketTooShort
      else
        let h = parseHeader request in
        if \<not> isLikelyDNSRequestHeader h then Inl ErrNotDNSRequest
        else
          let (questionEndOffset, err) = skipQuestions request dnsHeaderSize (unat (hdr_QDCount h));
              ok = (err = None \<and> questionEndOffset \<ge> dnsHeaderSize \<and> questionEndOffset \<le> length request);
              questionLen = (if ok then questionEndOffset - dnsHeaderSize else 0);
              questionCount = (if ok then hdr_QDCount h else 0);
              (optStart, optLen) = findOPTRecordRange request h questionEndOffset
          in Inr (dnsHeaderBytes (hdr_ID h) (buildResponseFlags (hdr_Flags h) rcode) questionCount 0 0 (getARCount optLen) @
                  (if questionLen > 0 then slice request dnsHeaderSize questionEndOffset else []) @
                  (if optLen > 0 then slice request optStart (optStart + optLen) else [])))"

definition buildResponseWithFlagsLite :: "bytes \<Rightarrow> litePacket \<Rightarrow> u16 \<Rightarrow> bytes result" where
  "buildResponseWithFlagsLite request parsed flags =
     (if length request < dnsHeaderSize then Inl ErrDnsPacketTooShort
      else if \<not> isLikelyDNSRequestHeader (lite_Header parsed) then Inl ErrNotDNSRequest
      else
        let (optStart, optLen) = findOPTRecordRange request (lite_Header parsed) (lite_QuestionEndOffset parsed);
            questionLen =
              (if lite_QuestionEndOffset parsed \<ge> dnsHeaderSize \<and> lite_QuestionEndOffset parsed \<le> length request
               then lite_QuestionEndOffset parsed - dnsHeaderSize else 0)
        in Inr (dnsHeaderBytes (hdr_ID (lite_Header parsed)) flags (hdr_QDCount (lite_Header parsed)) 0 0 (getARCount optLen) @
                (if questionLen > 0 then slice request dnsHeaderSize (lite_QuestionEndOffset parsed) else []) @
                (if optLen > 0 then slice request optStart (optStart + optLen) else [])))"

definition buildResponseWithRCodeLite :: "bytes \<Rightarrow> litePacket \<Rightarrow> u8 \<Rightarrow> bytes result" where
  "buildResponseWithRCodeLite request parsed rcode =
     buildResponseWithFlagsLite request parsed (buildResponseFlags (hdr_Flags (lite_Header parsed)) rcode)"

definition buildAuthoritativeResponseWithRCodeLite :: "bytes \<Rightarrow> litePacket \<Rightarrow> u8 \<Rightarrow> bytes result" where
  "buildAuthoritativeResponseWithRCodeLite request parsed rcode =
     buildResponseWithFlagsLite request parsed
       (buildAuthoritativeResponseFlags (hdr_Flags (lite_Header parsed)) rcode)"

definition buildNoDataResponseLite :: "bytes \<Rightarrow> litePacket \<Rightarrow> bytes result" where
  "buildNoDataResponseLite request parsed = buildResponseWithRCodeLite request parsed DNSR_CODE_NO_ERROR"

definition BuildEmptyNoErrorResponse :: "bytes \<Rightarrow> bytes result" where
  "BuildEmptyNoErrorResponse request = buildResponseWithRCode request DNSR_CODE_NO_ERROR"

definition BuildEmptyNoErrorResponseFromLite :: "bytes \<Rightarrow> litePacket \<Rightarrow> bytes result" where
  "BuildEmptyNoErrorResponseFromLite request parsed = buildResponseWithRCodeLite request parsed DNSR_CODE_NO_ERROR"

definition BuildNoDataResponseFromLite :: "bytes \<Rightarrow> litePacket \<Rightarrow> bytes result" where
  "BuildNoDataResponseFromLite request parsed = buildNoDataResponseLite request parsed"

definition BuildNoDataResponse :: "bytes \<Rightarrow> bytes result" where
  "BuildNoDataResponse request =
     (case ParseDNSRequestLite request of Inl e \<Rightarrow> Inl e | Inr parsed \<Rightarrow> BuildNoDataResponseFromLite request parsed)"

definition BuildNameErrorResponseFromLite :: "bytes \<Rightarrow> litePacket \<Rightarrow> bytes result" where
  "BuildNameErrorResponseFromLite request parsed =
     buildAuthoritativeResponseWithRCodeLite request parsed DNSR_CODE_NAME_ERROR"

definition BuildFormatErrorResponse :: "bytes \<Rightarrow> bytes result" where
  "BuildFormatErrorResponse request = buildResponseWithRCode request DNSR_CODE_FORMAT_ERROR"

definition BuildFormatErrorResponseFromLite :: "bytes \<Rightarrow> litePacket \<Rightarrow> bytes result" where
  "BuildFormatErrorResponseFromLite request parsed = buildResponseWithRCodeLite request parsed DNSR_CODE_FORMAT_ERROR"

definition BuildRefusedResponseFromLite :: "bytes \<Rightarrow> litePacket \<Rightarrow> bytes result" where
  "BuildRefusedResponseFromLite request parsed = buildResponseWithRCodeLite request parsed DNSR_CODE_REFUSED"

definition BuildServerFailureResponse :: "bytes \<Rightarrow> bytes result" where
  "BuildServerFailureResponse request = buildResponseWithRCode request DNSR_CODE_SERVER_FAILURE"

definition BuildServerFailureResponseFromLite :: "bytes \<Rightarrow> litePacket \<Rightarrow> bytes result" where
  "BuildServerFailureResponseFromLite request parsed = buildResponseWithRCodeLite request parsed DNSR_CODE_SERVER_FAILURE"

definition BuildNotImplementedResponseFromLite :: "bytes \<Rightarrow> litePacket \<Rightarrow> bytes result" where
  "BuildNotImplementedResponseFromLite request parsed = buildResponseWithRCodeLite request parsed DNSR_CODE_NOT_IMPLEMENTED"

section \<open>Query policy\<close>

definition IsSupportedTunnelDNSQuery :: "u16 \<Rightarrow> u16 \<Rightarrow> bool" where
  "IsSupportedTunnelDNSQuery qType qClass =
     (if qClass \<noteq> DNSQ_CLASS_IN then False
      else qType \<in> {DNS_RECORD_TYPE_A, DNS_RECORD_TYPE_AAAA, DNS_RECORD_TYPE_CNAME, DNS_RECORD_TYPE_MX,
        DNS_RECORD_TYPE_NS, DNS_RECORD_TYPE_PTR, DNS_RECORD_TYPE_SRV, DNS_RECORD_TYPE_SVCB,
        DNS_RECORD_TYPE_CAA, DNS_RECORD_TYPE_NAPTR, DNS_RECORD_TYPE_SOA, DNS_RECORD_TYPE_HTTPS,
        DNS_RECORD_TYPE_TLSA})"

section \<open>The two walkers agree\<close>

lemma writeLowerASCIILabel_eq: "writeLowerASCIILabel dst label = dst @ map toLowerByte label"
proof -
  let ?u = "length (takeWhile (\<lambda>c. \<not> isUpper c) label)"
  have "map toLowerByte (take ?u label) = take ?u label"
    unfolding takeWhile_eq_take [symmetric] by (rule map_idI) (auto simp: toLowerByte_def dest: set_takeWhileD)
  moreover have "take ?u label @ drop ?u label = label" by simp
  ultimately have "map toLowerByte label = take ?u label @ map toLowerByte (drop ?u label)"
    by (metis map_append)
  then show ?thesis by (simp add: writeLowerASCIILabel_def Let_def)
qed

text \<open>Once a pointer was followed the end of the name in the message is fixed.\<close>

lemma parseNameLoop_jumped:
  "parseNameLoop data offset True jumps origNext name hasLabel = Inr (nm, next) \<Longrightarrow> next = origNext"
proof (induction data offset "True" jumps origNext name hasLabel rule: parseNameLoop.induct)
  case (1 data offset jumps origNext name hasLabel)
  note u = "1.prems" [unfolded parseNameLoop.simps [of data offset True jumps origNext name hasLabel] Let_def]
  show ?case
    using u "1.hyps" by (simp split: if_splits)
qed

lemma parseNameLoop_skipName:
  "parseNameLoop data offset False jumps origNext name hasLabel = Inr (nm, next) \<Longrightarrow>
    skipName data offset = Inr next"
proof (induction data offset "False" jumps origNext name hasLabel rule: parseNameLoop.induct)
  case (1 data offset jumps origNext name hasLabel)
  note u = "1.prems" [unfolded parseNameLoop.simps [of data offset False jumps origNext name hasLabel] Let_def]
  show ?case
    using u "1.hyps" unfolding skipName.simps [of data offset] Let_def
    by (simp split: if_splits) (auto dest: parseNameLoop_jumped)
qed

lemma parseName_skipName: "parseName data offset = Inr (nm, next) \<Longrightarrow> skipName data offset = Inr next"
  by (auto simp: parseName_def split: if_splits dest: parseNameLoop_skipName)

lemma skipName_bounds: "skipName data offset = Inr next \<Longrightarrow> offset < next \<and> next \<le> length data"
proof (induction data offset rule: skipName.induct)
  case (1 data offset)
  from "1.prems" show ?case
    by (subst (asm) skipName.simps) (auto simp: Let_def split: if_splits dest: "1.IH")
qed

lemma parseQuestions_skip:
  "parseQuestions data offset n = Inr (qs, next) \<Longrightarrow> skipQuestions data offset n = (next, None) \<and> length qs = n"
  by (induction n arbitrary: offset qs)
    (auto simp: parseName_skipName Let_def split: sum.splits if_splits prod.splits)

lemma skipQuestions_bounds:
  "skipQuestions data offset n = (next, None) \<Longrightarrow> offset \<le> length data \<Longrightarrow> offset \<le> next \<and> next \<le> length data"
  by (induction n arbitrary: offset)
    (fastforce split: sum.splits if_splits dest: skipName_bounds)+

lemma parseResourceRecords_skip:
  "parseResourceRecords data offset n = Inr (rs, next) \<Longrightarrow>
    skipResourceRecords data offset n = (next, None) \<and> length rs = n"
  by (induction n arbitrary: offset rs)
    (auto simp: parseName_skipName Let_def split: sum.splits if_splits prod.splits)

section \<open>Names on the wire\<close>

definition wire_label :: "bytes \<Rightarrow> bytes" where
  "wire_label l = of_nat (length l) # l"

definition wire_name :: "bytes list \<Rightarrow> bytes" where
  "wire_name ls = concat (map wire_label ls) @ [0]"

definition label_ok :: "bytes \<Rightarrow> bool" where
  "label_ok l \<longleftrightarrow> 0 < length l \<and> length l \<le> 63"

definition dot :: u8 where "dot = 46"

lemma ascii_dot: "ascii ''.'' = [dot]"
  by (simp add: ascii_def dot_def)

text \<open>Labels joined by dots.\<close>

fun join_labels :: "bytes list \<Rightarrow> gostring" where
  "join_labels [] = []"
| "join_labels [l] = l"
| "join_labels (l # ls) = l @ dot # join_labels ls"

definition dotted :: "bytes \<Rightarrow> bytes list \<Rightarrow> bytes" where
  "dotted name ls = foldl (\<lambda>nm l. (if nm = [] then nm else nm @ [dot]) @ map toLowerByte l) name ls"

lemma dotted_join: "name \<noteq> [] \<Longrightarrow> dotted name ls = name @ concat (map (\<lambda>l. dot # map toLowerByte l) ls)"
  by (induction ls arbitrary: name) (auto simp: dotted_def)

lemma join_labels_Cons: "join_labels (l # ls) = l @ concat (map ((#) dot) ls)"
  by (induction ls arbitrary: l) auto

lemma dotted_Nil:
  assumes "\<forall>l\<in>set ls. l \<noteq> []"
  shows "dotted [] ls = map toLowerByte (join_labels ls)"
proof (cases ls)
  case (Cons l ms)
  have "dotted [] ls = dotted (map toLowerByte l) ms" by (simp add: Cons dotted_def)
  also have "\<dots> = map toLowerByte l @ concat (map (\<lambda>l. dot # map toLowerByte l) ms)"
    using assms Cons by (simp add: dotted_join)
  also have "\<dots> = map toLowerByte (join_labels ls)"
    by (simp add: Cons join_labels_Cons map_concat comp_def toLowerByte_def isUpper_def dot_def)
  finally show ?thesis .
qed (simp add: dotted_def)

lemma parseNameLoop_label:
  assumes "label_ok l"
  shows "parseNameLoop (pre @ wire_label l @ post) (length pre) jumped jumps origNext name hasLabel =
    parseNameLoop (pre @ wire_label l @ post) (length (pre @ wire_label l)) jumped jumps
      (if jumped then origNext else length (pre @ wire_label l))
      ((if name = [] then name else name @ [dot]) @ map toLowerByte l) True"
proof -
  have u: "unat (of_nat (length l) :: u8) = length l" using assms by (simp add: label_ok_def unat_of_nat)
  have s: "slice (pre @ wire_label l @ post) (Suc (length pre)) (Suc (length pre + length l)) = l"
    by (simp add: slice_def wire_label_def)
  have n: "(pre @ wire_label l @ post) ! length pre = of_nat (length l)" by (simp add: wire_label_def)
  have ln: "length (wire_label l) = Suc (length l)" by (simp add: wire_label_def)
  show ?thesis
    using assms
    by (subst parseNameLoop.simps)
      (simp add: Let_def n u s ln label_ok_def writeLowerASCIILabel_eq ascii_dot)
qed

lemma parseNameLoop_wire:
  assumes "\<forall>l\<in>set ls. label_ok l"
  shows "parseNameLoop (pre @ wire_name ls @ post) (length pre) jumped jumps origNext name hasLabel =
    Inr (if hasLabel \<or> ls \<noteq> [] then dotted name ls else ascii ''.'',
      if jumped then origNext else length pre + length (wire_name ls))"
  using assms
proof (induction ls arbitrary: pre name hasLabel origNext)
  case Nil
  show ?case
    by (subst parseNameLoop.simps) (simp add: wire_name_def dotted_def)
next
  case (Cons l ls)
  have e: "pre @ wire_name (l # ls) @ post = pre @ wire_label l @ (wire_name ls @ post)"
    by (simp add: wire_name_def)
  have "(pre @ wire_label l) @ wire_name ls @ post = pre @ wire_label l @ (wire_name ls @ post)" by simp
  with Cons.IH [of "pre @ wire_label l"] Cons.prems show ?case
    unfolding e by (simp add: parseNameLoop_label dotted_def) (simp add: wire_name_def)
qed

lemma parseName_wire:
  assumes "\<forall>l\<in>set ls. label_ok l" "ls \<noteq> []"
  shows "parseName (pre @ wire_name ls @ post) (length pre) =
    Inr (map toLowerByte (join_labels ls), length pre + length (wire_name ls))"
proof -
  have "\<forall>l\<in>set ls. l \<noteq> []" using assms(1) by (auto simp: label_ok_def)
  moreover have "0 < length (wire_name ls)" by (simp add: wire_name_def)
  ultimately show ?thesis
    using assms by (simp add: parseName_def parseNameLoop_wire dotted_Nil)
qed

lemma pointer_byte: "192 \<le> unat (hi8 (0xC000 OR w))"
proof -
  have "hi8 (0xC000 OR w) = 192 OR hi8 w"
    unfolding hi8_def drop_bit_or by (simp add: unsigned_or_eq)
  moreover have "192 \<le> 192 OR hi8 w" by (rule le_word_or2)
  ultimately have "(192 :: u8) \<le> hi8 (0xC000 OR w)" by simp
  then show ?thesis by (simp add: word_le_nat_alt)
qed

lemma pointer_target:
  assumes "p < 0x4000"
  shows "unat ((0xC000 OR of_nat p :: u16) AND 0x3FFF) = p"
proof -
  have m: "(0x3FFF :: u16) = mask 14" by (simp add: mask_eq_exp_minus_1)
  have "take_bit 14 (0xC000 :: u16) = 0" by (simp add: take_bit_eq_mod)
  then have "(0xC000 OR of_nat p :: u16) AND 0x3FFF = take_bit 14 (of_nat p)"
    unfolding m take_bit_eq_mask [symmetric] by simp
  also have "\<dots> = of_nat p" using assms by (simp add: take_bit_of_nat take_bit_nat_eq_self)
  finally show ?thesis using assms by (simp add: unat_of_nat)
qed

text \<open>A pointer in first position to a name without pointers.\<close>

lemma parseName_pointer_to:
  assumes "\<forall>l\<in>set ls. label_ok l" "length pre < 0x4000"
    and "data = pre @ wire_name ls @ mid @ put16 (0xC000 OR of_nat (length pre)) @ post"
  shows "parseName data (length (pre @ wire_name ls @ mid)) =
    Inr (if ls \<noteq> [] then dotted [] ls else ascii ''.'', length (pre @ wire_name ls @ mid) + 2)"
proof -
  define off where "off = length (pre @ wire_name ls @ mid)"
  let ?w = "0xC000 OR of_nat (length pre) :: u16"
  have d: "data = (pre @ wire_name ls @ mid) @ put16 ?w @ post" by (simp add: assms(3))
  have w: "get16 data off = ?w" unfolding d off_def by (rule get16_put16)
  have b: "data ! off = hi8 ?w" unfolding d off_def by (simp add: nth_append put16_def)
  have h: "192 \<le> unat (hi8 ?w)" by (rule pointer_byte)
  have t: "unat (?w AND 0x3FFF) = length pre" by (rule pointer_target [OF assms(2)])
  have l: "off + 1 < length data" "length pre < length data" by (simp_all add: assms(3) off_def wire_name_def)
  have "parseName data off = parseNameLoop data (length pre) True 1 (off + 2) [] False"
    using h l unfolding parseName_def by (subst parseNameLoop.simps) (simp add: w b t Let_def)
  also have "\<dots> = Inr (if ls \<noteq> [] then dotted [] ls else ascii ''.'', off + 2)"
    using parseNameLoop_wire [OF assms(1), of pre "mid @ put16 ?w @ post" True 1 "off + 2" "[]" False]
    by (simp add: assms(3))
  finally show ?thesis by (simp add: off_def)
qed

lemma parseName_pointer:
  assumes "\<forall>l\<in>set ls. label_ok l" "ls \<noteq> []" "length pre < 0x4000"
    and "data = pre @ wire_name ls @ mid @ put16 (0xC000 OR of_nat (length pre)) @ post"
  shows "parseName data (length (pre @ wire_name ls @ mid)) =
    Inr (map toLowerByte (join_labels ls), length (pre @ wire_name ls @ mid) + 2)"
proof -
  have "\<forall>l\<in>set ls. l \<noteq> []" using assms(1) by (auto simp: label_ok_def)
  with parseName_pointer_to [OF assms(1,3,4)] assms(2) show ?thesis by (simp add: dotted_Nil)
qed

section \<open>Headers of responses\<close>

lemma parseHeader_bytes:
  "parseHeader (dnsHeaderBytes ident flags qd an ns ar @ rest) =
     \<lparr>hdr_ID = ident, hdr_Flags = flags,
      hdr_QR = ucast (drop_bit 15 flags AND 0x1), hdr_OpCode = ucast (drop_bit 11 flags AND 0xF),
      hdr_AA = ucast (drop_bit 10 flags AND 0x1), hdr_TC = ucast (drop_bit 9 flags AND 0x1),
      hdr_RD = ucast (drop_bit 8 flags AND 0x1), hdr_RA = ucast (drop_bit 7 flags AND 0x1),
      hdr_Z = ucast (drop_bit 4 flags AND 0x7), hdr_RCode = ucast (flags AND 0xF),
      hdr_QDCount = qd, hdr_ANCount = an, hdr_NSCount = ns, hdr_ARCount = ar\<rparr>"
  by (simp add: parseHeader_def dnsHeaderBytes_def put16_def get16_def Let_def)

lemma length_header [simp]: "length (dnsHeaderBytes ident flags qd an ns ar) = 12"
  by (simp add: dnsHeaderBytes_def)

lemma opcode_mask: "(0x7800 :: u16) = push_bit 11 (mask 4)"
  by (simp add: mask_eq_exp_minus_1 push_bit_eq_mult)

lemma nibble16: "(0xF :: u16) = mask 4" "(0x1 :: u16) = mask 1" "(0xF :: u8) = mask 4" "(0x7 :: u16) = mask 3"
  by (simp_all add: mask_eq_exp_minus_1)

lemma flag_set: "f AND push_bit n 1 \<noteq> 0 \<longleftrightarrow> bit (f :: u16) n"
  by (simp add: bit_iff_and_push_bit_not_eq_0)

lemma below_16: "n < 16 \<Longrightarrow> n \<in> {0, 1, 2, 3, 4, 5, 6, 7, 8, 9, 10, 11, 12, 13, 14, 15 :: nat}"
  by (auto simp: numeral_eq_Suc less_Suc_eq)

lemma bit_buildResponseFlags:
  "bit (buildResponseFlags f r) n \<longleftrightarrow>
     n = 15 \<or> n = 7 \<or> (bit f n \<and> (11 \<le> n \<and> n \<le> 14 \<or> n = 8 \<or> n = 4)) \<or> (n < 4 \<and> bit r n)"
proof (cases "n < 16")
  case True
  then have "n \<in> {0, 1, 2, 3, 4, 5, 6, 7, 8, 9, 10, 11, 12, 13, 14, 15}" by (rule below_16)
  then show ?thesis
    unfolding buildResponseFlags_def Let_def flag_set opcode_mask nibble16(3)
    by (elim insertE emptyE; simp add: bit_simps)
qed (use bit_imp_le_length [of "buildResponseFlags f r" n] bit_imp_le_length [of f n] in auto)

lemma bit_buildAuthoritativeResponseFlags:
  "bit (buildAuthoritativeResponseFlags f r) n \<longleftrightarrow>
     n = 15 \<or> n = 10 \<or> (bit f n \<and> (11 \<le> n \<and> n \<le> 14 \<or> n = 8 \<or> n = 4)) \<or> (n < 4 \<and> bit r n)"
proof (cases "n < 16")
  case True
  then have "n \<in> {0, 1, 2, 3, 4, 5, 6, 7, 8, 9, 10, 11, 12, 13, 14, 15}" by (rule below_16)
  then show ?thesis
    unfolding buildAuthoritativeResponseFlags_def Let_def flag_set opcode_mask nibble16(3)
    by (elim insertE emptyE; simp add: bit_simps)
qed (use bit_imp_le_length [of "buildAuthoritativeResponseFlags f r" n] bit_imp_le_length [of f n] in auto)

text \<open>What a client reads in the header of a local answer.\<close>

definition answers_header :: "header \<Rightarrow> u8 \<Rightarrow> header \<Rightarrow> bool" where
  "answers_header req rcode res \<longleftrightarrow>
     hdr_ID res = hdr_ID req \<and> hdr_QR res = 1 \<and> hdr_OpCode res = hdr_OpCode req \<and>
     hdr_TC res = 0 \<and> hdr_RD res = hdr_RD req \<and> hdr_RCode res = rcode AND 0xF \<and>
     hdr_ANCount res = 0 \<and> hdr_NSCount res = 0"

lemma field_QR: "bit flags 15 \<Longrightarrow> ucast (drop_bit 15 (flags :: u16) AND 0x1) = (1 :: u8)"
  unfolding nibble16 by (rule bit_word_eqI) (auto simp: bit_simps bit_1_iff)

lemma field_TC: "\<not> bit flags 9 \<Longrightarrow> ucast (drop_bit 9 (flags :: u16) AND 0x1) = (0 :: u8)"
  unfolding nibble16 by (rule bit_word_eqI) (auto simp: bit_simps intro!: gr0I)

lemma field_OpCode:
  assumes "\<And>n. 11 \<le> n \<Longrightarrow> n \<le> 14 \<Longrightarrow> bit flags n = bit f n"
  shows "ucast (drop_bit 11 (flags :: u16) AND 0xF) = (ucast (drop_bit 11 (f :: u16) AND 0xF) :: u8)"
  unfolding nibble16 by (rule bit_word_eqI) (auto simp: bit_simps assms)

lemma field_RD:
  assumes "bit flags 8 = bit f 8"
  shows "ucast (drop_bit 8 (flags :: u16) AND 0x1) = (ucast (drop_bit 8 (f :: u16) AND 0x1) :: u8)"
  unfolding nibble16 by (rule bit_word_eqI) (auto simp: bit_simps assms)

lemma field_RCode:
  assumes "\<And>n. n < 4 \<Longrightarrow> bit flags n = bit r n"
  shows "ucast (flags AND 0xF :: u16) = r AND (0xF :: u8)"
  unfolding nibble16 by (rule bit_word_eqI) (auto simp: bit_simps assms)

lemma buildResponse_header:
  assumes "flags \<in> {buildResponseFlags (get16 request 2) rcode, buildAuthoritativeResponseFlags (get16 request 2) rcode}"
  shows "answers_header (parseHeader request) rcode
    (parseHeader (dnsHeaderBytes (hdr_ID (parseHeader request)) flags qd 0 0 ar @ rest))"
proof -
  let ?f = "get16 request 2"
  have b: "bit flags 15" "\<not> bit flags 9" "\<And>n. 11 \<le> n \<Longrightarrow> n \<le> 14 \<Longrightarrow> bit flags n = bit ?f n"
    "bit flags 8 = bit ?f 8" "\<And>n. n < 4 \<Longrightarrow> bit flags n = bit rcode n"
    using assms by (auto simp: bit_buildResponseFlags bit_buildAuthoritativeResponseFlags)
  from field_QR [OF b(1)] field_TC [OF b(2)] field_OpCode [OF b(3)] field_RD [OF b(4)] field_RCode [OF b(5)]
  show ?thesis unfolding answers_header_def parseHeader_bytes by (simp add: parseHeader_def Let_def)
qed

section \<open>The question section of a response\<close>

text \<open>The walkers only look at bytes before the offset they return.\<close>

definition agree :: "nat \<Rightarrow> bytes \<Rightarrow> bytes \<Rightarrow> bool" where
  "agree n xs ys \<longleftrightarrow> n \<le> length xs \<and> n \<le> length ys \<and> (\<forall>i. 12 \<le> i \<longrightarrow> i < n \<longrightarrow> xs ! i = ys ! i)"

lemma agreeD: "agree n xs ys \<Longrightarrow> 12 \<le> i \<Longrightarrow> i < n \<Longrightarrow> ys ! i = xs ! i"
  by (simp add: agree_def)

lemma agree_len: "agree n xs ys \<Longrightarrow> n \<le> length ys"
  by (simp add: agree_def)

lemma agree_mono: "agree n xs ys \<Longrightarrow> m \<le> n \<Longrightarrow> agree m xs ys"
  by (simp add: agree_def)

lemma skipName_agree:
  "skipName data offset = Inr next \<Longrightarrow> agree next data data' \<Longrightarrow> 12 \<le> offset \<Longrightarrow> skipName data' offset = Inr next"
proof (induction data offset rule: skipName.induct)
  case (1 data offset)
  note b = skipName_bounds [OF "1.prems"(1)]
  have same: "data' ! offset = data ! offset" "offset < length data'" "next \<le> length data'"
    using agreeD [OF "1.prems"(2)] agree_len [OF "1.prems"(2)] "1.prems"(3) b by simp_all
  note u = "1.prems"(1) [unfolded skipName.simps [of data offset] Let_def]
  show ?case
    using u "1.IH" [OF _ refl] "1.prems"(2,3) same b
    unfolding skipName.simps [of data' offset] Let_def
    by (simp split: if_splits)
qed

lemma skipQuestions_agree:
  "skipQuestions data offset n = (next, None) \<Longrightarrow> agree next data data' \<Longrightarrow> 12 \<le> offset \<Longrightarrow> offset \<le> length data \<Longrightarrow>
    skipQuestions data' offset n = (next, None)"
proof (induction n arbitrary: offset)
  case (Suc n)
  from Suc.prems(1) obtain m where m: "skipName data offset = Inr m" "m + 4 \<le> length data"
      "skipQuestions data (m + 4) n = (next, None)"
    by (auto split: sum.splits if_splits)
  have b: "offset < m" "m + 4 \<le> next"
    using skipName_bounds [OF m(1)] skipQuestions_bounds [OF m(3,2)] by simp_all
  have "agree m data data'" by (rule agree_mono [OF Suc.prems(2)]) (use b in simp)
  then have "skipName data' offset = Inr m" by (rule skipName_agree [OF m(1) _ Suc.prems(3)])
  moreover have "skipQuestions data' (m + 4) n = (next, None)"
    by (rule Suc.IH [OF m(3) Suc.prems(2)]) (use Suc.prems(3) m b in simp_all)
  moreover have "m + 4 \<le> length data'" using agree_len [OF Suc.prems(2)] b by simp
  ultimately show ?case by simp
qed simp

lemma ParseDNSRequestLite_offset:
  assumes "ParseDNSRequestLite request = Inr p"
  shows "lite_Header p = parseHeader request" "isLikelyDNSRequestHeader (lite_Header p)"
    "skipQuestions request 12 (unat (hdr_QDCount (lite_Header p))) = (lite_QuestionEndOffset p, None)"
    "12 \<le> length request" "12 \<le> lite_QuestionEndOffset p" "lite_QuestionEndOffset p \<le> length request"
proof -
  have h: "lite_Header p = parseHeader request" and l: "isLikelyDNSRequestHeader (lite_Header p)"
    and len: "12 \<le> length request"
    using assms by (auto simp: ParseDNSRequestLite_def parsePacketLiteWithHeader_def Let_def
        split: if_splits sum.splits)
  then show "lite_Header p = parseHeader request" "isLikelyDNSRequestHeader (lite_Header p)" "12 \<le> length request"
    by blast+
  have nz: "hdr_QDCount (lite_Header p) \<noteq> 0" using l by (simp add: isLikelyDNSRequestHeader_def split: if_splits)
  show s: "skipQuestions request 12 (unat (hdr_QDCount (lite_Header p))) = (lite_QuestionEndOffset p, None)"
    using assms nz
    by (auto simp: ParseDNSRequestLite_def parsePacketLiteWithHeader_def Let_def
        split: if_splits sum.splits prod.splits dest!: parseQuestions_skip)
  from skipQuestions_bounds [OF s len]
  show "12 \<le> lite_QuestionEndOffset p" "lite_QuestionEndOffset p \<le> length request" by simp_all
qed

lemma lite_response:
  assumes "ParseDNSRequestLite request = Inr p"
    and "flags \<in> {buildResponseFlags (get16 request 2) rcode, buildAuthoritativeResponseFlags (get16 request 2) rcode}"
  shows "\<exists>res. buildResponseWithFlagsLite request p flags = Inr res \<and>
    answers_header (parseHeader request) rcode (parseHeader res) \<and>
    hdr_QDCount (parseHeader res) = hdr_QDCount (parseHeader request) \<and>
    skipQuestions res 12 (unat (hdr_QDCount (parseHeader res))) = (lite_QuestionEndOffset p, None) \<and>
    slice res 12 (lite_QuestionEndOffset p) = slice request 12 (lite_QuestionEndOffset p)"
proof -
  note o = ParseDNSRequestLite_offset [OF assms(1)]
  let ?q = "lite_QuestionEndOffset p" and ?h = "lite_Header p"
  obtain s n where opt: "findOPTRecordRange request (parseHeader request) ?q = (s, n)" by fastforce
  let ?opt = "if n > 0 then slice request s (s + n) else []"
  let ?hb = "dnsHeaderBytes (hdr_ID (parseHeader request)) flags (hdr_QDCount ?h) 0 0 (getARCount n)"
  define res where "res = ?hb @ slice request 12 ?q @ ?opt"
  have b: "buildResponseWithFlagsLite request p flags = Inr res"
    using o by (auto simp: buildResponseWithFlagsLite_def opt Let_def res_def slice_def)
  have len: "length (slice request 12 ?q) = ?q - 12" using o by simp
  have hdr: "parseHeader res = parseHeader (?hb @ (slice request 12 ?q @ ?opt))" by (simp add: res_def)
  have sl: "slice res 12 ?q = slice request 12 ?q"
    unfolding res_def using o(5) len by (simp add: slice_def)
  have "agree ?q request res"
    unfolding agree_def res_def using o(5,6) len by (auto simp: nth_append slice_def)
  then have "skipQuestions res 12 (unat (hdr_QDCount ?h)) = (?q, None)"
    by (rule skipQuestions_agree [OF o(3)]) (use o in simp_all)
  moreover have "hdr_QDCount (parseHeader res) = hdr_QDCount ?h" unfolding hdr parseHeader_bytes by simp
  moreover have "answers_header (parseHeader request) rcode (parseHeader res)"
    unfolding hdr by (rule buildResponse_header [OF assms(2)])
  ultimately show ?thesis using b sl o(1) by simp
qed

section \<open>Properties\<close>

text \<open>
  (C36) Where the name parser succeeds, the allocation-free walker stops at the same offset, which is
  beyond the start and inside the message; likewise for whole question sections.
\<close>

theorem name_walkers_agree:
  "(parseName data offset = Inr (nm, next) \<longrightarrow>
      skipName data offset = Inr next \<and> offset < next \<and> next \<le> length data) \<and>
   (parseQuestions data offset n = Inr (qs, next) \<longrightarrow> skipQuestions data offset n = (next, None) \<and> length qs = n)"
  using parseName_skipName [of data offset nm "next"] skipName_bounds [of data offset "next"]
    parseQuestions_skip [of data offset n qs "next"] by blast

theorem name_walkers_agree_witness: "skipName [1, 65, 0] 0 = Inr 3"
proof -
  have "parseName [1, 65, 0] 0 = Inr ([97], 3)"
    using parseName_wire [of "[[65]]" "[]" "[]"]
    by (simp add: wire_name_def wire_label_def label_ok_def toLowerByte_def isUpper_def)
  then show ?thesis using name_walkers_agree [of "[1, 65, 0]" 0 "[97]" 3] by blast
qed

text \<open>
  A name written as length-prefixed labels is parsed to the labels in lower case joined by dots, both in
  place and through a compression pointer to it.
\<close>

theorem wire_names_parse:
  assumes "\<forall>l\<in>set ls. label_ok l" "ls \<noteq> []" "length pre < 0x4000"
  shows "parseName (pre @ wire_name ls @ post) (length pre) =
      Inr (map toLowerByte (join_labels ls), length pre + length (wire_name ls)) \<and>
    parseName (pre @ wire_name ls @ mid @ put16 (0xC000 OR of_nat (length pre)) @ post)
      (length (pre @ wire_name ls @ mid)) =
      Inr (map toLowerByte (join_labels ls), length (pre @ wire_name ls @ mid) + 2)"
  using parseName_wire [OF assms(1,2)] parseName_pointer [OF assms refl] by blast

theorem wire_names_parse_witness: "parseName [9, 1, 65, 2, 98, 99, 0, 7] 1 = Inr ([97, 46, 98, 99], 7)"
  using wire_names_parse [of "[[65], [98, 99]]" "[9]" "[7]" "[]"]
  by (simp add: wire_name_def wire_label_def label_ok_def toLowerByte_def isUpper_def dot_def)

text \<open>
  (C24) For a request the server accepted, building a local response succeeds; its header has the same
  identifier, opcode and RD bit, QR set, TC clear, the given response code and no answers, and its
  question section is the request's, byte for byte, and can be walked.
\<close>

theorem local_response_wellformed:
  assumes "ParseDNSRequestLite request = Inr p"
    and "flags \<in> {buildResponseFlags (get16 request 2) rcode, buildAuthoritativeResponseFlags (get16 request 2) rcode}"
  shows "\<exists>res. buildResponseWithFlagsLite request p flags = Inr res \<and>
    answers_header (parseHeader request) rcode (parseHeader res) \<and>
    hdr_QDCount (parseHeader res) = hdr_QDCount (parseHeader request) \<and>
    skipQuestions res 12 (unat (hdr_QDCount (parseHeader res))) = (lite_QuestionEndOffset p, None) \<and>
    slice res 12 (lite_QuestionEndOffset p) = slice request 12 (lite_QuestionEndOffset p)"
  by (rule lite_response [OF assms])

theorem local_response_wellformed_witness:
  "\<exists>p res. ParseDNSRequestLite [1, 2, 1, 0, 0, 1, 0, 0, 0, 0, 0, 0, 1, 97, 0, 0, 16, 0, 1] = Inr p \<and>
     BuildRefusedResponseFromLite [1, 2, 1, 0, 0, 1, 0, 0, 0, 0, 0, 0, 1, 97, 0, 0, 16, 0, 1] p = Inr res \<and>
     hdr_RCode (parseHeader res) = 5"
proof -
  let ?r = "[1, 2, 1, 0, 0, 1, 0, 0, 0, 0, 0, 0, 1, 97, 0, 0, 16, 0, 1] :: bytes"
  have "\<not> isl (ParseDNSRequestLite ?r)" by code_simp
  then obtain p where p: "ParseDNSRequestLite ?r = Inr p" by (cases "ParseDNSRequestLite ?r") auto
  show ?thesis
    using local_response_wellformed [OF p, of "buildResponseFlags (get16 ?r 2) 5" 5] p
      ParseDNSRequestLite_offset(1) [OF p]
    by (auto simp: BuildRefusedResponseFromLite_def buildResponseWithRCodeLite_def answers_header_def parseHeader_def Let_def)
qed

end
