(* ===== verification/Base64.thy ===== *)
theory Base64
  imports Prelude
begin

text \<open>
  The unpadded base-64 code of binary answers (\<open>basecodec/rawbase64.go\<close>), a wrapper of
  \<open>base64.RawStdEncoding\<close>. The library's encoder and decoder are written out: three bytes become four
  characters of six bits, one or two bytes at the end become two or three; the decoder skips carriage
  returns and line feeds and rejects any other character outside the alphabet and a single trailing
  character.
\<close>

definition b64Alphabet :: bytes where
  "b64Alphabet =
     map of_nat ([65..<91] @ [97..<123] @ [48..<58] @ [43, 47])"

definition b64Char :: "u32 \<Rightarrow> u8" where
  "b64Char v = b64Alphabet ! unat (v AND 0x3F)"

definition b64Index :: "u8 \<Rightarrow> nat option" where
  "b64Index c = map_option fst (find (\<lambda>(i, a). a = c) (enumerate 0 b64Alphabet))"

fun b64Encode :: "bytes \<Rightarrow> bytes" where
  "b64Encode [] = []"
| "b64Encode [a] =
     (let val = push_bit 16 (ucast a :: u32) in [b64Char (drop_bit 18 val), b64Char (drop_bit 12 val)])"
| "b64Encode [a, b] =
     (let val = push_bit 16 (ucast a :: u32) OR push_bit 8 (ucast b)
      in [b64Char (drop_bit 18 val), b64Char (drop_bit 12 val), b64Char (drop_bit 6 val)])"
| "b64Encode (a # b # c # rest) =
     (let val = push_bit 16 (ucast a :: u32) OR push_bit 8 (ucast b) OR ucast c
      in [b64Char (drop_bit 18 val), b64Char (drop_bit 12 val), b64Char (drop_bit 6 val), b64Char val] @
         b64Encode rest)"

fun b64DecodeDigits :: "u32 list \<Rightarrow> bytes result" where
  "b64DecodeDigits [] = Inr []"
| "b64DecodeDigits [v] = Inl (ErrLibrary ''illegal base64 data'')"
| "b64DecodeDigits [v, w] =
     (let val = push_bit 18 v OR push_bit 12 w in Inr [ucast (drop_bit 16 val)])"
| "b64DecodeDigits [v, w, x] =
     (let val = push_bit 18 v OR push_bit 12 w OR push_bit 6 x
      in Inr [ucast (drop_bit 16 val), ucast (drop_bit 8 val)])"
| "b64DecodeDigits (v # w # x # y # rest) =
     (let val = push_bit 18 v OR push_bit 12 w OR push_bit 6 x OR y
      in case b64DecodeDigits rest of
           Inl e \<Rightarrow> Inl e
         | Inr out \<Rightarrow> Inr ([ucast (drop_bit 16 val), ucast (drop_bit 8 val), ucast val] @ out))"

fun b64Digits :: "bytes \<Rightarrow> u32 list result" where
  "b64Digits [] = Inr []"
| "b64Digits (c # cs) =
     (if c = 10 \<or> c = 13 then b64Digits cs
      else case b64Index c of
          None \<Rightarrow> Inl (ErrLibrary ''illegal base64 data'')
        | Some i \<Rightarrow> (case b64Digits cs of Inl e \<Rightarrow> Inl e | Inr ds \<Rightarrow> Inr (of_nat i # ds)))"

definition b64Decode :: "bytes \<Rightarrow> bytes result" where
  "b64Decode data = bind_result (b64Digits data) b64DecodeDigits"

section \<open>The wrappers\<close>

definition EncodedRawBase64Len :: "nat \<Rightarrow> nat" where
  "EncodedRawBase64Len n = n div 3 * 4 + (n mod 3 * 8 + 5) div 6"

definition EncodeRawBase64 :: "bytes \<Rightarrow> bytes" where
  "EncodeRawBase64 data = (if data = [] then [] else b64Encode data)"

definition EncodeRawBase64To :: "bytes \<Rightarrow> bytes \<Rightarrow> bytes" where
  "EncodeRawBase64To dst data = (if data = [] then dst else dst @ b64Encode data)"

text \<open>\<open>EncodeRawBase64Into\<close> writes at the start of a buffer that is large enough.\<close>

definition EncodeRawBase64Into :: "bytes \<Rightarrow> bytes \<Rightarrow> bytes" where
  "EncodeRawBase64Into dst data = (if data = [] then dst else copy_at dst 0 (b64Encode data))"

definition DecodeRawBase64 :: "bytes \<Rightarrow> bytes result" where
  "DecodeRawBase64 data = (if data = [] then Inr [] else b64Decode data)"

section \<open>Round trip\<close>

lemma b64_index_alphabet: "i < 64 \<Longrightarrow> b64Index (b64Alphabet ! i) = Some i \<and> b64Alphabet ! i \<noteq> 10 \<and> b64Alphabet ! i \<noteq> 13"
proof -
  have "list_all (\<lambda>i. b64Index (b64Alphabet ! i) = Some i \<and> b64Alphabet ! i \<noteq> 10 \<and> b64Alphabet ! i \<noteq> 13) [0..<64]"
    by code_simp
  then show "i < 64 \<Longrightarrow> ?thesis" by (simp add: list_all_iff)
qed

lemma six_bits: "unat (v AND 0x3F :: u32) < 64"
proof -
  have m: "(0x3F :: u32) = mask 6" by (simp add: mask_eq_exp_minus_1)
  show ?thesis unfolding m take_bit_eq_mask [symmetric] unsigned_take_bit_eq
    using take_bit_nat_less_exp [of 6 "unat v"] by simp
qed

lemma b64Digits_char: "b64Digits (b64Char v # cs) =
    (case b64Digits cs of Inl e \<Rightarrow> Inl e | Inr ds \<Rightarrow> Inr ((v AND 0x3F) # ds))"
  using b64_index_alphabet [OF six_bits [of v]] by (simp add: b64Char_def split: sum.splits)

lemma mask6: "(0x3F :: u32) = mask 6"
  by (simp add: mask_eq_exp_minus_1)

text \<open>Four digits of six bits hold the bits below 24.\<close>

lemma join_digits:
  fixes val :: u32
  assumes "\<And>n. 24 \<le> n \<Longrightarrow> \<not> bit val n"
  shows "push_bit 18 (drop_bit 18 val AND 0x3F) OR push_bit 12 (drop_bit 12 val AND 0x3F) OR
    push_bit 6 (drop_bit 6 val AND 0x3F) OR (val AND 0x3F) = val"
  unfolding mask6
proof (rule bit_word_eqI)
  fix n assume n: "n < LENGTH(32)"
  consider "24 \<le> n" | m where "n = 18 + m" "m < 6" | m where "n = 12 + m" "m < 6"
    | m where "n = 6 + m" "m < 6" | "n < 6"
  proof -
    have "24 \<le> n \<or> (n = 18 + (n - 18) \<and> n - 18 < 6) \<or> (n = 12 + (n - 12) \<and> n - 12 < 6) \<or>
        (n = 6 + (n - 6) \<and> n - 6 < 6) \<or> n < 6" by arith
    with that show thesis by blast
  qed
  then show "bit (push_bit 18 (drop_bit 18 val AND mask 6) OR push_bit 12 (drop_bit 12 val AND mask 6) OR
      push_bit 6 (drop_bit 6 val AND mask 6) OR (val AND mask 6)) n = bit val n"
    using n assms by cases (auto simp: bit_simps)
qed

lemma triple_low: "24 \<le> n \<Longrightarrow> \<not> bit (push_bit 16 (ucast (a :: u8) :: u32) OR push_bit 8 (ucast (b :: u8)) OR ucast (c :: u8)) n"
  by (auto simp: bit_simps dest!: bit_imp_le_length)

lemma triple_bytes:
  fixes a b c :: u8
  defines "val \<equiv> push_bit 16 (ucast a :: u32) OR push_bit 8 (ucast b) OR ucast c"
  shows "ucast (drop_bit 16 val) = a" "ucast (drop_bit 8 val) = b" "ucast val = c"
  unfolding val_def by (rule bit_word_eqI; auto simp: bit_simps dest: bit_imp_le_length)+

declare b64Digits.simps(2) [simp del]

lemma tail_digits:
  "drop_bit 6 (push_bit 16 (ucast (a :: u8) :: u32)) AND 0x3F = 0" "push_bit 16 (ucast (a :: u8) :: u32) AND 0x3F = 0"
  "(push_bit 16 (ucast (a :: u8) :: u32) OR push_bit 8 (ucast (b :: u8))) AND 0x3F = 0"
  unfolding mask6 by (rule bit_word_eqI; auto simp: bit_simps)+

lemma b64Decode_b64Encode: "\<exists>ds. b64Digits (b64Encode data) = Inr ds \<and> b64DecodeDigits ds = Inr data"
proof (induction data rule: b64Encode.induct)
  case (2 a)
  let ?v = "push_bit 16 (ucast a :: u32)"
  have "\<not> bit ?v n" if "24 \<le> n" for n using triple_low [OF that, of a 0 0] by simp
  then have "push_bit 18 (drop_bit 18 ?v AND 0x3F) OR push_bit 12 (drop_bit 12 ?v AND 0x3F) = ?v"
    using join_digits [of ?v] unfolding tail_digits by simp
  then show ?case using triple_bytes(1) [of a 0 0] by (simp only: b64Encode.simps Let_def b64Digits_char b64Digits.simps(1)) simp
next
  case (3 a b)
  let ?v = "push_bit 16 (ucast a :: u32) OR push_bit 8 (ucast b)"
  have "\<not> bit ?v n" if "24 \<le> n" for n using triple_low [OF that, of a b 0] by simp
  then have "push_bit 18 (drop_bit 18 ?v AND 0x3F) OR push_bit 12 (drop_bit 12 ?v AND 0x3F) OR
      push_bit 6 (drop_bit 6 ?v AND 0x3F) = ?v"
    using join_digits [of ?v] unfolding tail_digits by simp
  then show ?case
    using triple_bytes(1,2) [of a b 0] by (simp only: b64Encode.simps Let_def b64Digits_char b64Digits.simps(1)) simp
next
  case (4 a b c rest)
  let ?v = "push_bit 16 (ucast a :: u32) OR push_bit 8 (ucast b) OR ucast c"
  from "4.IH" obtain ds where "b64Digits (b64Encode rest) = Inr ds" "b64DecodeDigits ds = Inr rest" by blast
  then show ?case
    using join_digits [of ?v, OF triple_low] triple_bytes [of a b c]
    by (simp only: b64Encode.simps Let_def b64Digits_char append.simps) simp
qed simp

lemma DecodeRawBase64_EncodeRawBase64: "DecodeRawBase64 (EncodeRawBase64 data) = Inr data"
proof -
  obtain ds where "b64Digits (b64Encode data) = Inr ds" "b64DecodeDigits ds = Inr data"
    using b64Decode_b64Encode by blast
  moreover from this have "b64Encode data = [] \<Longrightarrow> data = []" by auto
  ultimately show ?thesis
    by (auto simp: DecodeRawBase64_def EncodeRawBase64_def b64Decode_def bind_result_def)
qed

lemma length_b64Encode: "length (b64Encode data) = EncodedRawBase64Len (length data)"
  by (induction data rule: b64Encode.induct) (simp_all add: EncodedRawBase64Len_def Let_def)

lemma EncodeRawBase64_Nil [simp]: "EncodeRawBase64 data = [] \<longleftrightarrow> data = []"
  using DecodeRawBase64_EncodeRawBase64 [of data] by (auto simp: DecodeRawBase64_def EncodeRawBase64_def)

interpretation base64: code "\<lambda>data. Inr (EncodeRawBase64 data)" DecodeRawBase64 "\<lambda>data. data"
  by unfold_locales (auto simp: DecodeRawBase64_EncodeRawBase64)

section \<open>Properties\<close>

text \<open>
  Decoding unpadded base-64 text gives the bytes that were encoded, and the length computed in advance
  is the exact length of the text.
\<close>

theorem base64_roundtrip:
  "DecodeRawBase64 (EncodeRawBase64 data) = Inr data \<and> EncodedRawBase64Len (length data) = length (EncodeRawBase64 data)"
  by (simp add: DecodeRawBase64_EncodeRawBase64) (simp add: EncodeRawBase64_def length_b64Encode EncodedRawBase64Len_def)

end
