(* ===== verification/GoStrings.thy ===== *)
theory GoStrings
  imports Prelude
begin

text \<open>
  The functions of Go's \<open>strings\<close> package the sources use on names. A string is its UTF-8 bytes.
  \<open>TrimSpace\<close> strips the encodings of the white-space characters of Unicode. The case tables for
  characters outside ASCII are parameters of \<open>ToLower\<close> and \<open>EqualFold\<close>: \<open>lowerU\<close> is the result
  for a string with such a character, \<open>foldU\<close> the comparison from the first such character on.
\<close>

definition space_seqs :: "bytes list" where
  "space_seqs =
     [[9], [10], [11], [12], [13], [32], [0xC2, 0x85], [0xC2, 0xA0], [0xE1, 0x9A, 0x80],
      [0xE2, 0x80, 0x80], [0xE2, 0x80, 0x81], [0xE2, 0x80, 0x82], [0xE2, 0x80, 0x83], [0xE2, 0x80, 0x84],
      [0xE2, 0x80, 0x85], [0xE2, 0x80, 0x86], [0xE2, 0x80, 0x87], [0xE2, 0x80, 0x88], [0xE2, 0x80, 0x89],
      [0xE2, 0x80, 0x8A], [0xE2, 0x80, 0xA8], [0xE2, 0x80, 0xA9], [0xE2, 0x80, 0xAF], [0xE2, 0x81, 0x9F],
      [0xE3, 0x80, 0x80]]"

lemma space_seqs_nonempty: "w \<in> set space_seqs \<Longrightarrow> 0 < length w"
  by (auto simp: space_seqs_def)

definition has_prefix :: "bytes \<Rightarrow> bytes \<Rightarrow> bool" where
  "has_prefix s w \<longleftrightarrow> take (length w) s = w"

definition has_suffix :: "bytes \<Rightarrow> bytes \<Rightarrow> bool" where
  "has_suffix s w \<longleftrightarrow> length w \<le> length s \<and> drop (length s - length w) s = w"

lemma find_space: "find P space_seqs = Some w \<Longrightarrow> P w \<and> 0 < length w"
  by (metis find_Some_iff nth_mem space_seqs_nonempty)

function trimLeftSpace :: "gostring \<Rightarrow> gostring" where
  "trimLeftSpace s =
     (case find (has_prefix s) space_seqs of
        None \<Rightarrow> s
      | Some w \<Rightarrow> trimLeftSpace (drop (length w) s))"
  by pat_completeness auto
termination
proof (relation "measure length", goal_cases)
  case (2 s w)
  from find_space [OF 2] show ?case by (cases s) (auto simp: has_prefix_def)
qed simp

declare trimLeftSpace.simps [simp del]

function trimRightSpace :: "gostring \<Rightarrow> gostring" where
  "trimRightSpace s =
     (case find (has_suffix s) space_seqs of
        None \<Rightarrow> s
      | Some w \<Rightarrow> trimRightSpace (take (length s - length w) s))"
  by pat_completeness auto
termination
proof (relation "measure length", goal_cases)
  case (2 s w)
  from find_space [OF 2] have "0 < length w" "length w \<le> length s" by (simp_all add: has_suffix_def)
  then have "length s - length w < length s" by linarith
  then show ?case by simp
qed simp

declare trimRightSpace.simps [simp del]

definition TrimSpace :: "gostring \<Rightarrow> gostring" where
  "TrimSpace s = trimRightSpace (trimLeftSpace s)"

definition TrimSuffix :: "gostring \<Rightarrow> gostring \<Rightarrow> gostring" where
  "TrimSuffix s w = (if has_suffix s w then take (length s - length w) s else s)"

definition asciiLower :: "u8 \<Rightarrow> u8" where
  "asciiLower c = (if 65 \<le> c \<and> c \<le> 90 then c + 32 else c)"

definition isASCII :: "gostring \<Rightarrow> bool" where
  "isASCII s \<longleftrightarrow> (\<forall>c\<in>set s. c < 128)"

definition ToLower :: "(gostring \<Rightarrow> gostring) \<Rightarrow> gostring \<Rightarrow> gostring" where
  "ToLower lowerU s = (if isASCII s then map asciiLower s else lowerU s)"

fun EqualFold :: "(gostring \<Rightarrow> gostring \<Rightarrow> bool) \<Rightarrow> gostring \<Rightarrow> gostring \<Rightarrow> bool" where
  "EqualFold foldU (a # s) (b # t) =
     (if a OR b \<ge> 128 then foldU (a # s) (b # t)
      else asciiLower a = asciiLower b \<and> EqualFold foldU s t)"
| "EqualFold foldU s t \<longleftrightarrow> s = [] \<and> t = []"

text \<open>\<open>strings.LastIndexByte\<close>, with None for -1; \<open>strings.IndexByte(s, c) >= 0\<close> is membership.\<close>

definition LastIndexByte :: "gostring \<Rightarrow> u8 \<Rightarrow> nat option" where
  "LastIndexByte s c =
     (if c \<in> set s then Some (length s - 1 - length (takeWhile (\<lambda>x. x \<noteq> c) (rev s))) else None)"

lemma EqualFold_refl: "isASCII s \<Longrightarrow> EqualFold foldU s s"
  by (induction s) (auto simp: isASCII_def not_le)

lemma LastIndexByte_append: "c \<notin> set t \<Longrightarrow> LastIndexByte (s @ c # t) c = Some (length s)"
proof -
  assume "c \<notin> set t"
  then have "takeWhile (\<lambda>x. x \<noteq> c) (rev t @ c # rev s) = rev t" by (subst takeWhile_append2) auto
  then show ?thesis by (simp add: LastIndexByte_def)
qed

end
