(* ===== verification/DnsTransport.thy ===== *)
theory DnsTransport
  imports DnsParser VpnProto Base64 GoStrings
begin

text \<open>
  The DNS side of the tunnel (\<open>dnsparser/transport.go\<close>): TXT questions whose name carries a frame,
  TXT answers that carry a frame in one or several strings, and the assembly of such answers. The
  request identifier counter, a process-wide atomic with a random start, is a state that the question
  builders return. Buffers are written left to right; \<open>put_bytes\<close> fails where Go's slicing panics and
  \<open>copy_bytes\<close> truncates like \<open>copy\<close>.
\<close>

section \<open>Limits and the request identifier\<close>

abbreviation maxDNSNameLen :: nat where "maxDNSNameLen \<equiv> 253"
abbreviation maxDNSLabelLen :: nat where "maxDNSLabelLen \<equiv> 63"
abbreviation maxTXTAnswerPayload :: nat where "maxTXTAnswerPayload \<equiv> 255"
abbreviation maxTXTEncodedChunk :: nat where "maxTXTEncodedChunk \<equiv> 191"

record dnsID =
  dnsIDInit :: bool
  dnsIDCounter :: u32

definition nextDNSRequestID :: "rand_read \<Rightarrow> dnsID \<Rightarrow> u16 \<times> dnsID" where
  "nextDNSRequestID rnd st =
     (let st = (if dnsIDInit st then st
                else case rnd 4 of
                  Inr seed \<Rightarrow> \<lparr>dnsIDInit = True, dnsIDCounter = get32 seed 0\<rparr>
                | Inl _ \<Rightarrow> st\<lparr>dnsIDInit := True\<rparr>);
          n = dnsIDCounter st + 1
      in (ucast n, st\<lparr>dnsIDCounter := n\<rparr>))"

section \<open>Names\<close>

fun encodeLabels :: "bytes \<Rightarrow> gostring \<Rightarrow> bytes result" where
  "encodeLabels cur [] =
     (if length cur = 0 \<or> length cur > maxDNSLabelLen then Inl ErrInvalidName
      else Inr (of_nat (length cur) # cur))"
| "encodeLabels cur (c # name) =
     (if c \<noteq> dot then encodeLabels (cur @ [c]) name
      else if length cur = 0 \<or> length cur > maxDNSLabelLen then Inl ErrInvalidName
      else case encodeLabels [] name of
          Inl e \<Rightarrow> Inl e
        | Inr rest \<Rightarrow> Inr ((of_nat (length cur) # cur) @ rest))"

definition encodeDNSNameStrict :: "gostring \<Rightarrow> bytes result" where
  "encodeDNSNameStrict name =
     (let name = TrimSuffix (TrimSpace name) [dot] in
      if name = [] then Inr [0]
      else if length name > maxDNSNameLen then Inl ErrInvalidName
      else case encodeLabels [] name of Inl e \<Rightarrow> Inl e | Inr encoded \<Rightarrow> Inr (encoded @ [0]))"

definition encodedQNameLen :: "int \<Rightarrow> int \<Rightarrow> int" where
  "encodedQNameLen encodedChars domainLen =
     (if encodedChars \<le> 0 then domainLen
      else encodedChars + (encodedChars - 1) div int maxDNSLabelLen + 1 + domainLen)"

text \<open>The binary search of \<open>CalculateMaxEncodedQNameChars\<close>; the bounds never become negative but \<open>high\<close>.\<close>

function searchQName :: "int \<Rightarrow> int \<Rightarrow> int \<Rightarrow> int \<Rightarrow> int" where
  "searchQName domainLen low high best =
     (if low \<le> high then
        let mid = (low + high) div 2 in
        if encodedQNameLen mid domainLen \<le> int maxDNSNameLen
        then searchQName domainLen (mid + 1) high mid
        else searchQName domainLen low (mid - 1) best
      else best)"
  by pat_completeness auto
termination
  by (relation "measure (\<lambda>(_, low, high, _). nat (high + 1 - low))") auto

declare searchQName.simps [simp del]

definition CalculateMaxEncodedQNameChars :: "gostring \<Rightarrow> int" where
  "CalculateMaxEncodedQNameChars domain =
     (let domainLen = int (length (TrimSuffix (TrimSpace domain) [dot])) in
      if domainLen \<le> 0 then int maxDNSNameLen
      else searchQName domainLen 0 (int maxDNSNameLen) 0)"

text \<open>Consecutive slices of at most \<open>n\<close> bytes: the loops that advance \<open>start\<close> by a constant.\<close>

function chunks_of :: "nat \<Rightarrow> bytes \<Rightarrow> bytes list" where
  "chunks_of n data =
     (if data = [] \<or> n = 0 then [] else take n data # chunks_of n (drop n data))"
  by pat_completeness auto
termination
  by (relation "measure (\<lambda>(_, data). length data)") auto

declare chunks_of.simps [simp del]

definition EncodeDataToLabels :: "gostring \<Rightarrow> gostring" where
  "EncodeDataToLabels data =
     (if length data \<le> maxDNSLabelLen then data else join_labels (chunks_of maxDNSLabelLen data))"

definition BuildTunnelQuestionName :: "(gostring \<Rightarrow> gostring) \<Rightarrow> gostring \<Rightarrow> gostring \<Rightarrow> gostring result" where
  "BuildTunnelQuestionName lowerU domain encodedFrame =
     (let domain = TrimSuffix (ToLower lowerU (TrimSpace domain)) [dot] in
      if domain = [] then Inl ErrInvalidName
      else if encodedFrame = [] then Inr domain
      else
        let name = EncodeDataToLabels encodedFrame @ [dot] @ domain in
        if length name > maxDNSNameLen then Inl ErrInvalidName else Inr name)"

section \<open>Questions\<close>

text \<open>The EDNS record of a question: root name, type OPT, UDP size, zero TTL and length.\<close>

definition ednsRecord :: "u16 \<Rightarrow> bytes" where
  "ednsRecord ednsUDPSize =
     (if ednsUDPSize > 0
      then [0] @ put16 DNS_RECORD_TYPE_OPT @ put16 ednsUDPSize @ [0, 0, 0, 0] @ put16 0 else [])"

definition question_packet :: "u16 \<Rightarrow> bytes \<Rightarrow> u16 \<Rightarrow> u16 \<Rightarrow> bytes" where
  "question_packet requestID qname qType ednsUDPSize =
     dnsHeaderBytes requestID 0x0100 1 0 0 (if ednsUDPSize > 0 then 1 else 0) @
     qname @ put16 qType @ put16 DNSQ_CLASS_IN @ ednsRecord ednsUDPSize"

definition BuildTXTQuestionPacket ::
  "rand_read \<Rightarrow> gostring \<Rightarrow> u16 \<Rightarrow> u16 \<Rightarrow> dnsID \<Rightarrow> bytes result \<times> dnsID" where
  "BuildTXTQuestionPacket rnd name qType ednsUDPSize st =
     (case encodeDNSNameStrict name of
        Inl e \<Rightarrow> (Inl e, st)
      | Inr qname \<Rightarrow>
          let (requestID, st) = nextDNSRequestID rnd st
          in (Inr (question_packet requestID qname qType ednsUDPSize), st))"

definition PrepareTunnelDomainQname :: "(gostring \<Rightarrow> gostring) \<Rightarrow> gostring \<Rightarrow> (gostring \<times> bytes) result" where
  "PrepareTunnelDomainQname lowerU domain =
     (let normalizedDomain = TrimSuffix (ToLower lowerU (TrimSpace domain)) [dot] in
      if normalizedDomain = [] then Inl ErrInvalidName
      else case encodeDNSNameStrict normalizedDomain of
          Inl e \<Rightarrow> Inl e
        | Inr domainQname \<Rightarrow> Inr (normalizedDomain, domainQname))"

definition buildTXTQuestionPacketPrepared ::
  "rand_read \<Rightarrow> bytes \<Rightarrow> u16 \<Rightarrow> u16 \<Rightarrow> dnsID \<Rightarrow> bytes \<times> dnsID" where
  "buildTXTQuestionPacketPrepared rnd qname qType ednsUDPSize st =
     (let (requestID, st) = nextDNSRequestID rnd st
      in (question_packet requestID qname qType ednsUDPSize, st))"

definition BuildTunnelTXTQuestionPacketPrepared ::
  "rand_read \<Rightarrow> gostring \<Rightarrow> bytes \<Rightarrow> bytes \<Rightarrow> u16 \<Rightarrow> u16 \<Rightarrow> dnsID \<Rightarrow> bytes result \<times> dnsID" where
  "BuildTunnelTXTQuestionPacketPrepared rnd normalizedDomain domainQname encodedFrame qType ednsUDPSize st =
     (if normalizedDomain = [] \<or> length domainQname = 0 then (Inl ErrInvalidName, st)
      else if length encodedFrame = 0 then
        let (packet, st) = buildTXTQuestionPacketPrepared rnd domainQname qType ednsUDPSize st in (Inr packet, st)
      else if encodedQNameLen (int (length encodedFrame)) (int (length normalizedDomain)) > int maxDNSNameLen
      then (Inl ErrInvalidName, st)
      else
        let (requestID, st) = nextDNSRequestID rnd st;
            frameLabels = concat (map (\<lambda>l. of_nat (length l) # l) (chunks_of maxDNSLabelLen encodedFrame))
        in (Inr (question_packet requestID (frameLabels @ domainQname) qType ednsUDPSize), st))"

definition BuildTunnelTXTQuestionPacket ::
  "(gostring \<Rightarrow> gostring) \<Rightarrow> rand_read \<Rightarrow> gostring \<Rightarrow> bytes \<Rightarrow> u16 \<Rightarrow> u16 \<Rightarrow> dnsID \<Rightarrow> bytes result \<times> dnsID" where
  "BuildTunnelTXTQuestionPacket lowerU rnd domain encodedFrame qType ednsUDPSize st =
     (case PrepareTunnelDomainQname lowerU domain of
        Inl e \<Rightarrow> (Inl e, st)
      | Inr (normalizedDomain, domainQname) \<Rightarrow>
          BuildTunnelTXTQuestionPacketPrepared rnd normalizedDomain domainQname encodedFrame qType ednsUDPSize st)"

section \<open>Answer strings\<close>

definition buildLengthPrefixedTXTChunk :: "u8 \<Rightarrow> bytes \<Rightarrow> bytes" where
  "buildLengthPrefixedTXTChunk pfx data = of_nat (1 + length data) # pfx # data"

definition appendLengthPrefixedTXT :: "bytes \<Rightarrow> bytes" where
  "appendLengthPrefixedTXT data =
     (if length data \<le> 255 then of_nat (length data) # data
      else concat (map (\<lambda>part. of_nat (length part) # part) (chunks_of 255 data)))"

definition appendLengthPrefixedBase64TXT :: "bytes \<Rightarrow> bytes" where
  "appendLengthPrefixedBase64TXT data =
     (let encodedLen = EncodedRawBase64Len (length data)
      in of_nat encodedLen # EncodeRawBase64Into (replicate encodedLen 0) data)"

definition buildTXTAnswerChunk :: "bytes \<Rightarrow> bool \<Rightarrow> bytes" where
  "buildTXTAnswerChunk data baseEncode =
     (if \<not> baseEncode then appendLengthPrefixedTXT data else appendLengthPrefixedBase64TXT data)"

definition appendRawTXTAnswerChunks :: "bytes list \<Rightarrow> bytes \<Rightarrow> nat \<Rightarrow> nat \<Rightarrow> bytes list" where
  "appendRawTXTAnswerChunks chunks payload cursor maxChunkNData =
     chunks @ map (\<lambda>(chunkID, data). buildLengthPrefixedTXTChunk (of_nat chunkID) data)
       (enumerate 1 (chunks_of maxChunkNData (drop cursor payload)))"

definition appendBase64TXTAnswerChunks :: "bytes list \<Rightarrow> bytes \<Rightarrow> nat \<Rightarrow> nat \<Rightarrow> bytes list" where
  "appendBase64TXTAnswerChunks chunks payload cursor maxChunkNData =
     chunks @ map (\<lambda>(chunkID, data). appendLengthPrefixedBase64TXT (of_nat chunkID # data))
       (enumerate 1 (chunks_of maxChunkNData (drop cursor payload)))"

definition buildTXTAnswerChunks :: "bytes \<Rightarrow> bool \<Rightarrow> bytes list result" where
  "buildTXTAnswerChunks rawFrame baseEncode =
     (let maxChunk = (if baseEncode then maxTXTEncodedChunk else maxTXTAnswerPayload) in
      if length rawFrame = 0 then Inr [appendLengthPrefixedTXT []]
      else if length rawFrame \<le> maxChunk then Inr [buildTXTAnswerChunk rawFrame baseEncode]
      else case Parse rawFrame of
          Inl _ \<Rightarrow> Inr [buildTXTAnswerChunk rawFrame baseEncode]
        | Inr header \<Rightarrow>
            let headerLen = HeaderLength header;
                maxChunk0Data = maxChunk - 2 - headerLen;
                maxChunkNData = maxChunk - 1;
                totalChunks = 1 + (if length (Payload header) > maxChunk0Data
                  then (length (Payload header) - maxChunk0Data + maxChunkNData - 1) div maxChunkNData else 0)
            in
              if totalChunks > 255 then Inl ErrTXTAnswerTooLarge
              else
                let chunk0DataLen = min maxChunk0Data (length (Payload header));
                    rawChunk0 = [0, of_nat totalChunks] @ take headerLen rawFrame @ take chunk0DataLen (Payload header)
                in
                  if \<not> baseEncode
                  then Inr (appendRawTXTAnswerChunks [appendLengthPrefixedTXT rawChunk0]
                              (Payload header) maxChunk0Data maxChunkNData)
                  else Inr (appendBase64TXTAnswerChunks [appendLengthPrefixedBase64TXT rawChunk0]
                              (Payload header) maxChunk0Data maxChunkNData))"

section \<open>Answers\<close>

text \<open>Writing a buffer of \<open>len\<close> bytes: \<open>PutUint16\<close> on a slice, and \<open>copy\<close>.\<close>

definition put_bytes :: "nat \<Rightarrow> bytes \<Rightarrow> bytes \<Rightarrow> bytes result" where
  "put_bytes len bs out =
     (if length out + length bs \<le> len then Inr (out @ bs)
      else Inl (ErrLibrary ''slice bounds out of range''))"

definition copy_bytes :: "nat \<Rightarrow> bytes \<Rightarrow> bytes \<Rightarrow> bytes" where
  "copy_bytes len bs out = out @ take (len - length out) bs"

definition sameDNSName :: "(gostring \<Rightarrow> gostring \<Rightarrow> bool) \<Rightarrow> gostring \<Rightarrow> gostring \<Rightarrow> bool" where
  "sameDNSName foldU a b = EqualFold foldU (TrimSuffix a [dot]) (TrimSuffix b [dot])"

definition extractFirstQuestionNameWire :: "bytes \<Rightarrow> (bytes \<times> gostring) option" where
  "extractFirstQuestionNameWire packet =
     (if length packet < dnsHeaderSize then None
      else if hdr_QDCount (parseHeader packet) = 0 then None
      else case parseName packet dnsHeaderSize of
          Inl _ \<Rightarrow> None
        | Inr (name, nextOffset) \<Rightarrow>
            if nextOffset \<le> dnsHeaderSize \<or> nextOffset > length packet then None
            else Some (slice packet dnsHeaderSize nextOffset, name))"

definition responseAnswerNameBytes ::
  "(gostring \<Rightarrow> gostring \<Rightarrow> bool) \<Rightarrow> bytes \<Rightarrow> gostring \<Rightarrow> bytes result" where
  "responseAnswerNameBytes foldU questionPacket answerName =
     (case extractFirstQuestionNameWire questionPacket of
        Some (rawName, parsedName) \<Rightarrow>
          if sameDNSName foldU parsedName answerName then Inr rawName else encodeDNSNameStrict answerName
      | None \<Rightarrow> encodeDNSNameStrict answerName)"

text \<open>Type, class, TTL and length of a TXT answer.\<close>

definition txtFields :: "bytes \<Rightarrow> bytes" where
  "txtFields payload =
     put16 DNS_RECORD_TYPE_TXT @ put16 DNSQ_CLASS_IN @ put32 0 @ put16 (of_nat (length payload))"

fun writeAnswers ::
  "nat \<Rightarrow> bool \<Rightarrow> nat \<Rightarrow> bytes \<Rightarrow> nat \<Rightarrow> bytes list \<Rightarrow> bytes \<Rightarrow> bytes result" where
  "writeAnswers len useCompression firstName nameBytes i [] out = Inr out"
| "writeAnswers len useCompression firstName nameBytes i (payload # payloads) out =
     bind_result
       (if useCompression \<and> i > 0 \<and> firstName \<le> 0x3FFF
        then put_bytes len (put16 (0xC000 OR of_nat firstName)) out
        else Inr (copy_bytes len nameBytes out))
       (\<lambda>out. bind_result (put_bytes len (txtFields payload) out)
       (\<lambda>out. writeAnswers len useCompression firstName nameBytes (Suc i) payloads (copy_bytes len payload out)))"

definition buildSingleTXTResponsePacket ::
  "(gostring \<Rightarrow> gostring \<Rightarrow> bool) \<Rightarrow> bytes \<Rightarrow> gostring \<Rightarrow> bytes \<Rightarrow> bytes result" where
  "buildSingleTXTResponsePacket foldU questionPacket answerName answerPayload =
     (if length questionPacket < dnsHeaderSize then Inl ErrDnsPacketTooShort
      else
        let h = parseHeader questionPacket;
            (questionBytes, questionCount, questionEndOffset) = extractQuestionSection questionPacket h;
            (optStart, optLen) = findOPTRecordRange questionPacket h questionEndOffset
        in case responseAnswerNameBytes foldU questionPacket answerName of
             Inl e \<Rightarrow> Inl e
           | Inr nameBytes \<Rightarrow>
               Inr (dnsHeaderBytes (hdr_ID h) (buildResponseFlags (hdr_Flags h) DNSR_CODE_NO_ERROR)
                      questionCount 1 0 (getARCount optLen) @
                    questionBytes @ nameBytes @ txtFields answerPayload @ answerPayload @
                    (if optLen > 0 then slice questionPacket optStart (optStart + optLen) else [])))"

definition BuildTXTResponsePacket ::
  "(gostring \<Rightarrow> gostring \<Rightarrow> bool) \<Rightarrow> bytes \<Rightarrow> gostring \<Rightarrow> bytes list \<Rightarrow> bytes result" where
  "BuildTXTResponsePacket foldU questionPacket answerName answerPayloads =
     (if length answerPayloads = 1
      then buildSingleTXTResponsePacket foldU questionPacket answerName (hd answerPayloads)
      else if length questionPacket < dnsHeaderSize then Inl ErrDnsPacketTooShort
      else
        let h = parseHeader questionPacket;
            (questionBytes, questionCount, questionEndOffset) = extractQuestionSection questionPacket h;
            (optStart, optLen) = findOPTRecordRange questionPacket h questionEndOffset
        in case responseAnswerNameBytes foldU questionPacket answerName of
             Inl e \<Rightarrow> Inl e
           | Inr nameBytes \<Rightarrow>
               let useAnswerNameCompression = length answerPayloads > 1;
                   answerLen = sum_list (map (\<lambda>(i, payload).
                     (if useAnswerNameCompression \<and> i > 0 then 2 else length nameBytes) + 10 + length payload)
                     (enumerate 0 answerPayloads));
                   len = dnsHeaderSize + length questionBytes + answerLen + optLen;
                   out = dnsHeaderBytes (hdr_ID h) (buildResponseFlags (hdr_Flags h) DNSR_CODE_NO_ERROR)
                     questionCount (of_nat (length answerPayloads)) 0 (getARCount optLen) @ questionBytes
               in bind_result
                    (writeAnswers len useAnswerNameCompression (length out) nameBytes 0 answerPayloads out)
                    (\<lambda>out.
                      let out = (if optLen > 0
                        then copy_bytes len (slice questionPacket optStart (optStart + optLen)) out else out)
                      in Inr (out @ replicate (len - length out) 0)))"

definition BuildVPNResponsePacket ::
  "comp_lib \<Rightarrow> (gostring \<Rightarrow> gostring \<Rightarrow> bool) \<Rightarrow> bytes \<Rightarrow> gostring \<Rightarrow> packet \<Rightarrow> bool \<Rightarrow> bytes result" where
  "BuildVPNResponsePacket lib foldU questionPacket answerName packet baseEncode =
     (case BuildRawAuto lib
        \<lparr>opt_SessionID = SessionID packet, opt_PacketType = PacketType packet,
         opt_SessionCookie = SessionCookie packet, opt_StreamID = StreamID packet,
         opt_SequenceNum = SequenceNum packet, opt_FragmentID = FragmentID packet,
         opt_TotalFragments = TotalFragments packet, opt_CompressionType = CompressionType packet,
         opt_Payload = Payload packet\<rparr> DefaultMinSize of
        Inl e \<Rightarrow> Inl e
      | Inr rawFrame \<Rightarrow>
          let maxChunk = (if baseEncode then maxTXTEncodedChunk else maxTXTAnswerPayload) in
          if length rawFrame \<le> maxChunk
          then buildSingleTXTResponsePacket foldU questionPacket answerName (buildTXTAnswerChunk rawFrame baseEncode)
          else case buildTXTAnswerChunks rawFrame baseEncode of
              Inl e \<Rightarrow> Inl e
            | Inr answerPayloads \<Rightarrow> BuildTXTResponsePacket foldU questionPacket answerName answerPayloads)"

section \<open>Reading answers\<close>

function txtStrings :: "bytes \<Rightarrow> bytes" where
  "txtStrings rData =
     (case rData of
        [] \<Rightarrow> []
      | sz # rest \<Rightarrow>
          let n = unat sz in
          if n = 0 then txtStrings rest
          else if n > length rest then rest
          else take n rest @ txtStrings (drop n rest))"
  by pat_completeness auto
termination
  by (relation "measure length") auto

declare txtStrings.simps [simp del]

definition extractTXTBytes :: "bytes \<Rightarrow> bytes" where
  "extractTXTBytes rData =
     (if length rData = 0 then []
      else if unat (rData ! 0) + 1 = length rData then drop 1 rData
      else txtStrings rData)"

definition extractTXTAnswerPayloads :: "dnsPacket \<Rightarrow> bytes list" where
  "extractTXTAnswerPayloads parsed =
     filter (\<lambda>raw. length raw \<noteq> 0)
       (map (\<lambda>answer. extractTXTBytes (rr_RData answer))
         (filter (\<lambda>answer. rr_Type answer = DNS_RECORD_TYPE_TXT) (pkt_Answers parsed)))"

text \<open>The locals of the loop in \<open>assembleVPNResponse\<close>; the header is None until seen.\<close>

record assembly =
  asm_chunks :: "bytes option list"
  asm_totalExpected :: nat
  asm_seenChunks :: nat
  asm_header :: "packet option"

definition storeChunk :: "nat \<Rightarrow> bytes \<Rightarrow> assembly \<Rightarrow> assembly" where
  "storeChunk i payload a =
     a\<lparr>asm_seenChunks := (if asm_chunks a ! i = None then asm_seenChunks a + 1 else asm_seenChunks a),
       asm_chunks := (asm_chunks a)[i := Some payload]\<rparr>"

fun assembleLoop :: "bool \<Rightarrow> bytes list \<Rightarrow> assembly \<Rightarrow> assembly result" where
  "assembleLoop baseEncoded [] a = Inr a"
| "assembleLoop baseEncoded (raw # raws) a =
     (case (if baseEncoded then DecodeRawBase64 raw else Inr raw) of
        Inl e \<Rightarrow> Inl e
      | Inr raw \<Rightarrow>
          if length raw = 0 then assembleLoop baseEncoded raws a
          else if raw ! 0 = 0 then
            if length raw < 3 then Inl ErrTXTAnswerMalformed
            else
              let totalExpected = unat (raw ! 1) in
              if totalExpected \<le> 0 \<or> totalExpected > 256 then Inl ErrTXTAnswerMalformed
              else case ParseAtOffset raw 2 of
                  Inl e \<Rightarrow> Inl e
                | Inr parsed \<Rightarrow>
                    assembleLoop baseEncoded raws
                      (storeChunk 0 (Payload parsed) (a\<lparr>asm_totalExpected := totalExpected, asm_header := Some parsed\<rparr>))
          else assembleLoop baseEncoded raws (storeChunk (unat (raw ! 0)) (drop 1 raw) a))"

definition assembleVPNResponse :: "comp_lib \<Rightarrow> bytes list \<Rightarrow> bool \<Rightarrow> packet result" where
  "assembleVPNResponse lib rawAnswers baseEncoded =
     (if length rawAnswers = 1 then
        (case (if baseEncoded then DecodeRawBase64 (hd rawAnswers) else Inr (hd rawAnswers)) of
           Inl e \<Rightarrow> Inl e
         | Inr raw \<Rightarrow> ParseInflated lib raw)
      else
        (case assembleLoop baseEncoded rawAnswers
                \<lparr>asm_chunks = replicate 256 None, asm_totalExpected = 0, asm_seenChunks = 0, asm_header = None\<rparr> of
           Inl e \<Rightarrow> Inl e
         | Inr a \<Rightarrow>
             (case asm_header a of
                None \<Rightarrow> Inl ErrTXTAnswerMalformed
              | Some header \<Rightarrow>
                  if asm_totalExpected a \<le> 0 \<or> asm_seenChunks a \<noteq> asm_totalExpected a then Inl ErrTXTAnswerMalformed
                  else if None \<in> set (take (asm_totalExpected a) (asm_chunks a)) then Inl ErrTXTAnswerMalformed
                  else if \<exists>c\<in>set (drop (asm_totalExpected a) (asm_chunks a)). c \<noteq> None then Inl ErrTXTAnswerMalformed
                  else InflatePayload lib
                    (header\<lparr>Payload := concat (map the (take (asm_totalExpected a) (asm_chunks a)))\<rparr>))))"

definition ExtractVPNResponse :: "comp_lib \<Rightarrow> bytes \<Rightarrow> bool \<Rightarrow> packet result" where
  "ExtractVPNResponse lib packet baseEncoded =
     (case ParsePacket packet of
        Inl e \<Rightarrow> Inl e
      | Inr parsed \<Rightarrow>
          let rawAnswers = extractTXTAnswerPayloads parsed in
          if length rawAnswers = 0 then Inl ErrTXTAnswerMissing
          else assembleVPNResponse lib rawAnswers baseEncoded)"

section \<open>Names and labels\<close>

definition plain_label :: "bytes \<Rightarrow> bool" where
  "plain_label l \<longleftrightarrow> label_ok l \<and> dot \<notin> set l"

lemma join_labels_not_Nil: "ls \<noteq> [] \<Longrightarrow> join_labels (l # ls) = l @ dot # join_labels ls"
  by (cases ls) simp_all

lemma encodeLabels_wire:
  assumes "encodeLabels cur name = Inr w" "dot \<notin> set cur"
  shows "\<exists>ls. ls \<noteq> [] \<and> (\<forall>l\<in>set ls. plain_label l) \<and> join_labels ls = cur @ name \<and> w = concat (map wire_label ls)"
  using assms
proof (induction name arbitrary: cur w)
  case Nil
  then show ?case
    by (intro exI [of _ "[cur]"]) (auto simp: plain_label_def label_ok_def wire_label_def split: if_splits)
next
  case (Cons c name)
  show ?case
  proof (cases "c = dot")
    case False
    then show ?thesis using Cons.IH [of "cur @ [c]" w] Cons.prems by auto
  next
    case True
    then obtain rest where r: "encodeLabels [] name = Inr rest" "w = wire_label cur @ rest" "plain_label cur"
      using Cons.prems by (auto simp: plain_label_def label_ok_def wire_label_def split: if_splits sum.splits)
    from Cons.IH [OF r(1)] obtain ls where "ls \<noteq> []" "\<forall>l\<in>set ls. plain_label l" "join_labels ls = name"
        "rest = concat (map wire_label ls)" by auto
    with r True show ?thesis by (intro exI [of _ "cur # ls"]) (simp add: join_labels_not_Nil)
  qed
qed

lemma encodeDNSNameStrict_wire:
  assumes "encodeDNSNameStrict name = Inr w"
  obtains "TrimSuffix (TrimSpace name) [dot] = []" "w = [0]"
  | ls where "ls \<noteq> []" "\<forall>l\<in>set ls. plain_label l" "join_labels ls = TrimSuffix (TrimSpace name) [dot]" "w = wire_name ls"
      "length (join_labels ls) \<le> 253"
proof (cases "TrimSuffix (TrimSpace name) [dot] = []")
  case True
  with assms that(1) show thesis by (simp add: encodeDNSNameStrict_def)
next
  case False
  with assms obtain e where e: "encodeLabels [] (TrimSuffix (TrimSpace name) [dot]) = Inr e" "w = e @ [0]"
      "length (TrimSuffix (TrimSpace name) [dot]) \<le> 253"
    by (auto simp: encodeDNSNameStrict_def Let_def split: if_splits sum.splits)
  from encodeLabels_wire [OF e(1)] e(2,3) that(2) show thesis by (auto simp: wire_name_def)
qed

lemma plain_label_ok: "\<forall>l\<in>set ls. plain_label l \<Longrightarrow> \<forall>l\<in>set ls. label_ok l"
  by (simp add: plain_label_def)

section \<open>Slices\<close>

lemma chunks_of_Nil [simp]: "chunks_of n [] = []"
  by (subst chunks_of.simps) simp

lemma concat_chunks_of [simp]: "0 < n \<Longrightarrow> concat (chunks_of n data) = data"
proof (induction n data rule: chunks_of.induct)
  case (1 n data)
  then show ?case by (cases "data = []") (simp_all add: chunks_of.simps [of n data])
qed

lemma chunks_of_bounds: "l \<in> set (chunks_of n data) \<Longrightarrow> 0 < length l \<and> length l \<le> n"
proof (induction n data rule: chunks_of.induct)
  case (1 n data)
  then show ?case by (cases "data = [] \<or> n = 0") (auto simp: chunks_of.simps [of n data])
qed

lemma chunks_of_eq_Nil [simp]: "0 < n \<Longrightarrow> chunks_of n data = [] \<longleftrightarrow> data = []"
  by (subst chunks_of.simps) simp

lemma length_chunks_of: "0 < n \<Longrightarrow> length (chunks_of n data) = (length data + n - 1) div n"
proof (induction n data rule: chunks_of.induct)
  case (1 n data)
  show ?case
  proof (cases "data = []")
    case True
    then show ?thesis using "1.prems" by (simp add: chunks_of.simps [of n data])
  next
    case False
    then have "length (chunks_of n data) = Suc ((length data - n + n - 1) div n)"
      using 1 by (simp add: chunks_of.simps [of n data])
    also have "(length data - n + n - 1) div n = (length data - 1) div n"
      using "1.prems" by (cases "n \<le> length data") auto
    also have "Suc ((length data - 1) div n) = ((length data - 1) + n) div n"
      using "1.prems" by (simp add: div_add_self2)
    also have "(length data - 1) + n = length data + n - 1" using False by (cases data) auto
    finally show ?thesis .
  qed
qed

section \<open>The binary search\<close>

lemma encodedQNameLen_mono: "a \<le> b \<Longrightarrow> encodedQNameLen a d \<le> encodedQNameLen b d"
  by (auto simp: encodedQNameLen_def zdiv_mono1 add_mono)

text \<open>While it runs, everything below \<open>low\<close> fits, everything above \<open>high\<close> does not, and \<open>best\<close> fits.\<close>

lemma searchQName_max:
  assumes "\<forall>n. high < n \<longrightarrow> n \<le> 253 \<longrightarrow> encodedQNameLen n d > 253" "best = low - 1 \<or> (low = 0 \<and> best = 0)"
    and "encodedQNameLen best d \<le> 253" "0 \<le> low" "high \<le> 253" "low \<le> high + 1"
  shows "encodedQNameLen (searchQName d low high best) d \<le> 253 \<and>
    (\<forall>n. searchQName d low high best < n \<longrightarrow> n \<le> 253 \<longrightarrow> encodedQNameLen n d > 253) \<and>
    0 \<le> searchQName d low high best \<and> searchQName d low high best \<le> 253"
  using assms
proof (induction d low high best rule: searchQName.induct)
  case (1 d low high best)
  show ?case
  proof (cases "low \<le> high")
    case False
    then have "low = high + 1" using "1.prems"(6) by simp
    moreover have "high \<noteq> - 1"
    proof
      assume h: "high = - 1"
      then have "encodedQNameLen 0 d > 253" using "1.prems"(1) by simp
      moreover have "best \<le> 0" using "1.prems"(2) h \<open>low = high + 1\<close> by auto
      ultimately show False using "1.prems"(3) by (simp add: encodedQNameLen_def)
    qed
    ultimately have "best = high" "0 \<le> high" using "1.prems"(2,4) by auto
    with False "1.prems" show ?thesis by (simp add: searchQName.simps)
  next
    case True
    define mid where "mid = (low + high) div 2"
    have m: "low \<le> mid" "mid \<le> high" using True by (auto simp: mid_def)
    show ?thesis
    proof (cases "encodedQNameLen mid d \<le> 253")
      case fits: True
      then show ?thesis
        using True "1.IH"(1) [OF True mid_def] "1.prems" m
        by (subst (1 2 3 4) searchQName.simps) (simp add: mid_def [symmetric] Let_def)
    next
      case big: False
      have "\<forall>n. mid - 1 < n \<longrightarrow> n \<le> 253 \<longrightarrow> encodedQNameLen n d > 253"
      proof (intro allI impI)
        fix n :: int
        assume "mid - 1 < n"
        then show "encodedQNameLen n d > 253" using big encodedQNameLen_mono [of mid n d] by linarith
      qed
      then show ?thesis
        using True big "1.IH"(2) [OF True mid_def] "1.prems" m
        by (subst (1 2 3 4) searchQName.simps) (simp add: mid_def [symmetric] Let_def)
    qed
  qed
qed

text \<open>The answer of \<open>CalculateMaxEncodedQNameChars\<close> is the largest number of
  encoded characters (up to the 253 the name limit allows) with which a name under the domain still fits
  into 253 bytes, for every domain that itself fits.\<close>

theorem calculate_max_is_greatest:
  assumes "length (TrimSuffix (TrimSpace domain) [dot]) \<le> 253" "TrimSuffix (TrimSpace domain) [dot] \<noteq> []"
  shows "0 \<le> CalculateMaxEncodedQNameChars domain \<and> CalculateMaxEncodedQNameChars domain \<le> 253 \<and>
    (\<forall>n. 0 \<le> n \<longrightarrow> n \<le> 253 \<longrightarrow>
      (encodedQNameLen n (int (length (TrimSuffix (TrimSpace domain) [dot]))) \<le> 253
        \<longleftrightarrow> n \<le> CalculateMaxEncodedQNameChars domain))"
proof -
  define d where "d = int (length (TrimSuffix (TrimSpace domain) [dot]))"
  have d: "d \<le> 253" "0 < d" using assms by (simp_all add: d_def)
  define m where "m = searchQName d 0 253 0"
  have m: "CalculateMaxEncodedQNameChars domain = m"
    using d by (simp add: CalculateMaxEncodedQNameChars_def Let_def d_def [symmetric] m_def)
  have s: "encodedQNameLen m d \<le> 253" "\<forall>n. m < n \<longrightarrow> n \<le> 253 \<longrightarrow> encodedQNameLen n d > 253" "0 \<le> m" "m \<le> 253"
    using searchQName_max [of 253 d 0 0] d(1) encodedQNameLen_def [of 0 d] by (simp_all add: m_def)
  have "encodedQNameLen n d \<le> 253 \<longleftrightarrow> n \<le> m" if "n \<le> 253" for n
    using s(2) that encodedQNameLen_mono [of n m d] s(1) by (metis leD le_less_linear order_trans)
  with s show ?thesis unfolding m d_def [symmetric] by blast
qed

theorem calculate_max_is_greatest_witness: "CalculateMaxEncodedQNameChars [97, 46, 98] = 246"
proof -
  have d: "TrimSuffix (TrimSpace [97, 46, 98]) [dot] = [97, 46, 98]" by code_simp
  define m where "m = CalculateMaxEncodedQNameChars [97, 46, 98]"
  have "\<forall>n. 0 \<le> n \<longrightarrow> n \<le> 253 \<longrightarrow> (encodedQNameLen n 3 \<le> 253 \<longleftrightarrow> n \<le> m)"
    using calculate_max_is_greatest [of "[97, 46, 98]"] by (simp add: d m_def)
  from this [rule_format, of 246] this [rule_format, of 247] have "246 \<le> m" "\<not> 247 \<le> m"
    by (simp_all add: encodedQNameLen_def)
  then show ?thesis by (simp add: m_def [symmetric])
qed

section \<open>Questions on the wire\<close>

lemma join_labels_append:
  "xs \<noteq> [] \<Longrightarrow> ys \<noteq> [] \<Longrightarrow> join_labels (xs @ ys) = join_labels xs @ dot # join_labels ys"
proof (induction xs)
  case (Cons x xs)
  then show ?case by (cases "xs = []") (simp_all add: join_labels_not_Nil)
qed simp

lemma EncodeDataToLabels_join:
  assumes "data \<noteq> []"
  shows "EncodeDataToLabels data = join_labels (chunks_of 63 data)"
proof (cases "length data \<le> 63")
  case True
  then have "chunks_of 63 data = [data]" using assms by (subst chunks_of.simps) simp
  with True show ?thesis by (simp add: EncodeDataToLabels_def)
qed (simp add: EncodeDataToLabels_def)

lemma chunks_label_ok: "\<forall>l\<in>set (chunks_of 63 data). label_ok l"
  using chunks_of_bounds [of _ 63 data] by (auto simp: label_ok_def)

lemma parseQuestions_wire:
  assumes "\<forall>l\<in>set ls. label_ok l" "ls \<noteq> []" "length pre = 12"
    and "data = pre @ wire_name ls @ put16 t @ put16 c @ rest"
  shows "parseQuestions data 12 1 =
    Inr ([\<lparr>q_Name = map toLowerByte (join_labels ls), q_Type = t, q_Class = c\<rparr>], 12 + length (wire_name ls) + 4)"
proof -
  have n: "parseName data 12 = Inr (map toLowerByte (join_labels ls), 12 + length (wire_name ls))"
    using parseName_wire [OF assms(1,2), of pre] assms(3) by (simp add: assms(4))
  have "get16 data (12 + length (wire_name ls)) = t"
    using get16_put16 [of "pre @ wire_name ls" t] assms(3) by (simp add: assms(4))
  moreover have "get16 data (12 + length (wire_name ls) + 2) = c"
    using get16_put16 [of "pre @ wire_name ls @ put16 t" c rest] assms(3) by (simp add: assms(4))
  moreover have "\<not> 12 + length (wire_name ls) + 4 > length data" using assms(3) by (simp add: assms(4))
  ultimately show ?thesis by (simp add: n Let_def)
qed

lemma question_packet_parses:
  assumes "\<forall>l\<in>set ls. label_ok l" "ls \<noteq> []"
  obtains p where "ParseDNSRequestLite (question_packet requestID (wire_name ls) qType edns) = Inr p"
    "lite_HasQuestion p" "hdr_ID (lite_Header p) = requestID"
    "lite_FirstQuestion p = \<lparr>q_Name = map toLowerByte (join_labels ls), q_Type = qType, q_Class = DNSQ_CLASS_IN\<rparr>"
    "lite_QuestionEndOffset p = 12 + length (wire_name ls) + 4"
proof -
  let ?q = "question_packet requestID (wire_name ls) qType edns"
  have h: "parseHeader ?q = parseHeader (dnsHeaderBytes requestID 0x0100 1 0 0 (if edns > 0 then 1 else 0))"
    using parseHeader_bytes [where ident = requestID and flags = "0x0100" and qd = 1 and an = 0 and ns = 0 and ar = "if edns > 0 then 1 else 0"]
      parseHeader_bytes [where ident = requestID and flags = "0x0100" and qd = 1 and an = 0 and ns = 0 and ar = "if edns > 0 then 1 else 0" and rest = "[]"]
    by (simp add: question_packet_def split del: if_split)
  have q: "parseQuestions ?q 12 1 = Inr ([\<lparr>q_Name = map toLowerByte (join_labels ls), q_Type = qType,
      q_Class = DNSQ_CLASS_IN\<rparr>], 12 + length (wire_name ls) + 4)"
    by (rule parseQuestions_wire [OF assms, where pre = "dnsHeaderBytes requestID 0x0100 1 0 0 (if edns > 0 then 1 else 0)"
        and rest = "ednsRecord edns"]) (simp_all add: question_packet_def)
  have "isLikelyDNSRequestHeader (parseHeader ?q)" "hdr_QDCount (parseHeader ?q) = 1" "hdr_ID (parseHeader ?q) = requestID"
    using parseHeader_bytes [where ident = requestID and flags = "0x0100" and qd = 1 and an = 0 and ns = 0 and ar = "if edns > 0 then 1 else 0" and rest = "[]"]
    by (simp_all add: h isLikelyDNSRequestHeader_def)
  moreover have "\<not> length ?q < 12" by (simp add: question_packet_def)
  moreover define quest where
    "quest = \<lparr>q_Name = map toLowerByte (join_labels ls), q_Type = qType, q_Class = DNSQ_CLASS_IN\<rparr>"
  ultimately have "ParseDNSRequestLite ?q = Inr \<lparr>lite_Header = parseHeader ?q, lite_Questions = [quest],
      lite_FirstQuestion = quest, lite_HasQuestion = True, lite_QuestionEndOffset = 12 + length (wire_name ls) + 4\<rparr>"
    using q by (simp add: ParseDNSRequestLite_def parsePacketLiteWithHeader_def del: One_nat_def)
  then show thesis
    by (rule that) (simp_all add: \<open>hdr_ID (parseHeader ?q) = requestID\<close> quest_def)
qed

end
