(* ===== verification/DnsTunnel.thy ===== *)
theory DnsTunnel
  imports DnsTransport
begin

text \<open>
  What the two directions of the DNS transport guarantee: a question that carries a frame is read back
  by the server, and an answer built for such a question is read back by the client, whatever number of
  TXT strings it needed. The lemmas follow the code: strings, chunk assembly, records, packets.
\<close>

section \<open>Strings\<close>

text \<open>A TXT string on the wire, and its content with and without base-64 coding.\<close>

definition txt_string :: "bytes \<Rightarrow> bytes" where
  "txt_string data = of_nat (length data) # data"

definition txt_data :: "bool \<Rightarrow> bytes \<Rightarrow> bytes" where
  "txt_data baseEncode data = (if baseEncode then EncodeRawBase64 data else data)"

definition max_chunk :: "bool \<Rightarrow> nat" where
  "max_chunk baseEncode = (if baseEncode then maxTXTEncodedChunk else maxTXTAnswerPayload)"

lemma max_chunk_bounds: "191 \<le> max_chunk b" "max_chunk b \<le> 255"
  by (simp_all add: max_chunk_def)

lemma extractTXTBytes_string: "length data \<le> 255 \<Longrightarrow> extractTXTBytes (txt_string data) = data"
  by (simp add: extractTXTBytes_def txt_string_def unat_of_nat)

lemma encoded_chunk_bound:
  fixes q r :: nat
  assumes "3 * q + r \<le> 191" "r < 3"
  shows "q * 4 + (r * 8 + 5) div 6 \<le> 255"
proof -
  have "r = 0 \<or> r = 1 \<or> r = 2" using assms(2) by auto
  with assms(1) show ?thesis by auto
qed

lemma length_txt_data: "length data \<le> max_chunk b \<Longrightarrow> length (txt_data b data) \<le> 255"
proof (cases b)
  case True
  assume "length data \<le> max_chunk b"
  then have "length data \<le> 191" using True by (simp add: max_chunk_def)
  then have "length data div 3 * 4 + (length data mod 3 * 8 + 5) div 6 \<le> 255"
    by (intro encoded_chunk_bound) simp_all
  with True show ?thesis
    by (simp add: txt_data_def EncodeRawBase64_def length_b64Encode EncodedRawBase64Len_def)
qed (simp add: txt_data_def max_chunk_def)

lemma txt_data_decodes: "(if b then DecodeRawBase64 (txt_data b data) else Inr (txt_data b data)) = Inr data"
  by (simp add: txt_data_def DecodeRawBase64_EncodeRawBase64)

lemma txt_data_Nil [simp]: "txt_data b data = [] \<longleftrightarrow> data = []"
  by (simp add: txt_data_def)

lemma appendLengthPrefixedBase64TXT_string:
  "appendLengthPrefixedBase64TXT data = txt_string (txt_data True data)"
  by (simp add: appendLengthPrefixedBase64TXT_def txt_string_def txt_data_def EncodeRawBase64Into_def
      EncodeRawBase64_def length_b64Encode copy_at_def EncodedRawBase64Len_def)

lemma appendLengthPrefixedTXT_string:
  "length data \<le> 255 \<Longrightarrow> appendLengthPrefixedTXT data = txt_string (txt_data False data)"
  by (simp add: appendLengthPrefixedTXT_def txt_string_def txt_data_def)

lemma buildTXTAnswerChunk_string:
  "length data \<le> max_chunk b \<Longrightarrow> buildTXTAnswerChunk data b = txt_string (txt_data b data)"
  using max_chunk_bounds(2) [of b]
  by (simp add: buildTXTAnswerChunk_def appendLengthPrefixedTXT_string appendLengthPrefixedBase64TXT_string)

section \<open>Chunks of a long frame\<close>

text \<open>The contents of the strings of a frame that does not fit into one.\<close>

definition later_chunks :: "bool \<Rightarrow> buildOptions \<Rightarrow> bytes list" where
  "later_chunks b opts =
     chunks_of (max_chunk b - 1) (drop (max_chunk b - 2 - HeaderRawSize (opt_PacketType opts)) (opt_Payload opts))"

definition first_part :: "bool \<Rightarrow> buildOptions \<Rightarrow> bytes" where
  "first_part b opts = take (max_chunk b - 2 - HeaderRawSize (opt_PacketType opts)) (opt_Payload opts)"

definition number_chunks :: "nat \<Rightarrow> bytes list \<Rightarrow> bytes list" where
  "number_chunks k ds = map (\<lambda>(i, d). of_nat i # d) (enumerate k ds)"

definition answer_parts :: "bool \<Rightarrow> buildOptions \<Rightarrow> bytes list" where
  "answer_parts b opts =
     ([0, of_nat (1 + length (later_chunks b opts))] @ frame (opts\<lparr>opt_Payload := first_part b opts\<rparr>)) #
     number_chunks 1 (later_chunks b opts)"

lemma number_chunks_simps [simp]:
  "number_chunks k [] = []" "number_chunks k (d # ds) = (of_nat k # d) # number_chunks (Suc k) ds"
  by (simp_all add: number_chunks_def)

lemma length_number_chunks [simp]: "length (number_chunks k ds) = length ds"
  by (simp add: number_chunks_def)

lemma header_size_bounds: "HeaderRawSize t \<le> 11"
  by (simp add: HeaderRawSize_eq flagsHeaderLen_eq)

lemma length_frame: "validType (opt_PacketType opts) \<Longrightarrow>
    length (frame opts) = HeaderRawSize (opt_PacketType opts) + length (opt_Payload opts)"
  using length_BuildRaw [of opts "frame opts"] by (simp add: BuildRaw_Inr)

lemma frame_payload: "frame (opts\<lparr>opt_Payload := x\<rparr>) = take (length (frame opts) - length (opt_Payload opts)) (frame opts) @ x"
  by (simp add: frame_def header_bytes_def)

lemma number_chunks_bounds:
  assumes "\<forall>d\<in>set ds. length d \<le> n"
  shows "p \<in> set (number_chunks k ds) \<Longrightarrow> p \<noteq> [] \<and> length p \<le> Suc n"
  using assms by (induction ds arbitrary: k) auto

lemma later_chunks_bounds: "d \<in> set (later_chunks b opts) \<Longrightarrow> length d \<le> max_chunk b - 1"
  using chunks_of_bounds by (simp add: later_chunks_def)

lemma concat_later_chunks: "first_part b opts @ concat (later_chunks b opts) = opt_Payload opts"
  using max_chunk_bounds(1) [of b] by (simp add: first_part_def later_chunks_def)

lemma answer_parts_bounds:
  assumes "validType (opt_PacketType opts)" "p \<in> set (answer_parts b opts)"
  shows "p \<noteq> [] \<and> length p \<le> max_chunk b"
proof -
  have h: "HeaderRawSize (opt_PacketType opts) + 2 \<le> max_chunk b"
    using header_size_bounds [of "opt_PacketType opts"] max_chunk_bounds(1) [of b] by linarith
  have "p \<noteq> [] \<and> length p \<le> Suc (max_chunk b - 1)" if "p \<in> set (number_chunks 1 (later_chunks b opts))"
    using number_chunks_bounds [OF _ that] later_chunks_bounds by blast
  then show ?thesis
    using assms h by (auto simp: answer_parts_def length_frame first_part_def min_def)
qed

lemma long_frame_payload:
  assumes "validType (opt_PacketType opts)" "max_chunk b < length (frame opts)"
  shows "max_chunk b - 2 - HeaderRawSize (opt_PacketType opts) < length (opt_Payload opts)"
  using assms header_size_bounds [of "opt_PacketType opts"] max_chunk_bounds(1) [of b] by (simp add: length_frame)

lemma later_chunks_count:
  assumes "validType (opt_PacketType opts)" "max_chunk b < length (frame opts)"
  shows "length (later_chunks b opts) =
    (length (opt_Payload opts) - (max_chunk b - 2 - HeaderRawSize (opt_PacketType opts)) + (max_chunk b - 1) - 1)
      div (max_chunk b - 1)"
    and "later_chunks b opts \<noteq> []"
  using long_frame_payload [OF assms] max_chunk_bounds(1) [of b]
  by (simp_all add: later_chunks_def length_chunks_of)

lemma number_chunks_strings:
  assumes "\<forall>d\<in>set ds. length d \<le> 254"
  shows "map (\<lambda>(i, d). buildLengthPrefixedTXTChunk (of_nat i) d) (enumerate k ds) =
      map (\<lambda>d. txt_string (txt_data False d)) (number_chunks k ds)"
    and "map (\<lambda>(i, d). appendLengthPrefixedBase64TXT (of_nat i # d)) (enumerate k ds) =
      map (\<lambda>d. txt_string (txt_data True d)) (number_chunks k ds)"
  by (simp_all add: number_chunks_def appendLengthPrefixedBase64TXT_string buildLengthPrefixedTXTChunk_def
      txt_string_def txt_data_def split_def)

text \<open>A frame too long for one string becomes the strings of its parts, or is refused beyond 255 parts.\<close>

lemma buildTXTAnswerChunks_parts:
  assumes "validType (opt_PacketType opts)" "max_chunk b < length (frame opts)"
  shows "buildTXTAnswerChunks (frame opts) b =
    (if length (answer_parts b opts) > 255 then Inl ErrTXTAnswerTooLarge
     else Inr (map (\<lambda>d. txt_string (txt_data b d)) (answer_parts b opts)))"
proof -
  define h where "h = HeaderRawSize (opt_PacketType opts)"
  define c0 where "c0 = [0, of_nat (1 + length (later_chunks b opts))] @ frame (opts\<lparr>opt_Payload := first_part b opts\<rparr>)"
  have parse: "Parse (frame opts) = Inr (packet_of opts)" by (rule Parse_frame [OF assms(1)])
  have hd: "HeaderLength (packet_of opts) = h" "Payload (packet_of opts) = opt_Payload opts"
    by (simp_all add: packet_of_def Let_def h_def)
  have long: "max_chunk b - 2 - h < length (opt_Payload opts)"
    using long_frame_payload [OF assms] by (simp add: h_def)
  have nonempty: "length (frame opts) \<noteq> 0" using assms(2) by auto
  have th: "take h (frame opts) @ take (min (max_chunk b - 2 - h) (length (opt_Payload opts))) (opt_Payload opts) =
      frame (opts\<lparr>opt_Payload := first_part b opts\<rparr>)"
    using long length_frame [OF assms(1)]
    by (subst frame_payload) (simp add: h_def [symmetric] first_part_def min_def)
  have m: "max_chunk b = (if b then maxTXTEncodedChunk else maxTXTAnswerPayload)" by (simp add: max_chunk_def)
  have len0: "length c0 \<le> 255"
    using answer_parts_bounds [OF assms(1), of c0 b] max_chunk_bounds(2) [of b]
    by (simp add: answer_parts_def c0_def)
  have n: "1 + (length (opt_Payload opts) - (max_chunk b - 2 - h) + (max_chunk b - 1) - 1) div (max_chunk b - 1)
      = length (answer_parts b opts)"
    using later_chunks_count(1) [OF assms] by (simp add: answer_parts_def h_def)
  have c0: "c0 = [0, of_nat (length (answer_parts b opts))] @ frame (opts\<lparr>opt_Payload := first_part b opts\<rparr>)"
    by (simp add: c0_def answer_parts_def)
  have small: "\<forall>d\<in>set (later_chunks b opts). length d \<le> 254"
    using later_chunks_bounds [of _ b opts] max_chunk_bounds(2) [of b] by fastforce
  have "buildTXTAnswerChunks (frame opts) b =
    (if length (answer_parts b opts) > 255 then Inl ErrTXTAnswerTooLarge
     else if \<not> b then Inr (appendRawTXTAnswerChunks [appendLengthPrefixedTXT c0] (opt_Payload opts) (max_chunk b - 2 - h) (max_chunk b - 1))
     else Inr (appendBase64TXTAnswerChunks [appendLengthPrefixedBase64TXT c0] (opt_Payload opts) (max_chunk b - 2 - h) (max_chunk b - 1)))"
    unfolding buildTXTAnswerChunks_def m [symmetric] parse sum.case Let_def hd if_P [OF long] n th c0
    using assms(2) nonempty by simp
  moreover have "appendRawTXTAnswerChunks [x] (opt_Payload opts) (max_chunk b - 2 - h) (max_chunk b - 1) =
      x # map (\<lambda>d. txt_string (txt_data False d)) (number_chunks 1 (later_chunks b opts))"
    "appendBase64TXTAnswerChunks [x] (opt_Payload opts) (max_chunk b - 2 - h) (max_chunk b - 1) =
      x # map (\<lambda>d. txt_string (txt_data True d)) (number_chunks 1 (later_chunks b opts))" for x
    unfolding number_chunks_strings [OF small, symmetric]
    by (simp_all add: appendRawTXTAnswerChunks_def appendBase64TXTAnswerChunks_def later_chunks_def h_def)
  moreover have "answer_parts b opts = c0 # number_chunks 1 (later_chunks b opts)"
    by (simp add: answer_parts_def c0_def)
  ultimately show ?thesis
    using appendLengthPrefixedTXT_string [OF len0] appendLengthPrefixedBase64TXT_string [of c0] by (cases b) auto
qed

section \<open>Assembly\<close>

definition assembled :: "bytes list \<Rightarrow> nat \<Rightarrow> packet option \<Rightarrow> assembly" where
  "assembled parts expected h =
     \<lparr>asm_chunks = map Some parts @ replicate (256 - length parts) None, asm_totalExpected = expected,
      asm_seenChunks = length parts, asm_header = h\<rparr>"

lemma storeChunk_assembled:
  assumes "length parts < 256"
  shows "storeChunk (length parts) d (assembled parts n h) = assembled (parts @ [d]) n h"
proof -
  obtain k where k: "256 - length parts = Suc k" using assms by (cases "256 - length parts") auto
  then have "256 - length (parts @ [d]) = k" by simp
  with k show ?thesis by (simp add: storeChunk_def assembled_def nth_append list_update_append)
qed

lemma assembleLoop_chunk:
  assumes "0 < k" "k < 256"
  shows "assembleLoop b (txt_data b (of_nat k # d) # raws) a = assembleLoop b raws (storeChunk k d a)"
proof -
  have u: "unat (of_nat k :: u8) = k" using assms by (simp add: unat_of_nat)
  then have "(of_nat k :: u8) \<noteq> 0" using assms(1) by auto
  then show ?thesis using u txt_data_decodes [of b "of_nat k # d"] by (cases b) simp_all
qed

declare assembleLoop.simps(2) [simp del]

lemma assembleLoop_numbered:
  assumes "0 < length parts" "length parts + length ds \<le> 256"
  shows "assembleLoop b (map (txt_data b) (number_chunks (length parts) ds)) (assembled parts n h) =
    Inr (assembled (parts @ ds) n h)"
  using assms
proof (induction ds arbitrary: parts)
  case (Cons d ds)
  have "assembleLoop b (map (txt_data b) (number_chunks (length parts) (d # ds))) (assembled parts n h) =
      assembleLoop b (map (txt_data b) (number_chunks (length (parts @ [d])) ds)) (assembled (parts @ [d]) n h)"
    using Cons.prems by (simp add: assembleLoop_chunk storeChunk_assembled)
  also have "\<dots> = Inr (assembled ((parts @ [d]) @ ds) n h)"
    using Cons.prems by (intro Cons.IH) simp_all
  finally show ?case by simp
qed simp

lemma assembleLoop_first:
  assumes "validType (opt_PacketType opts)" "0 < n" "n \<le> 255"
  shows "assembleLoop b (txt_data b ([0, of_nat n] @ frame opts) # raws) (assembled [] 0 None) =
    assembleLoop b raws (assembled [opt_Payload opts] n (Some (packet_of opts)))"
proof -
  have "ParseAtOffset ([0, of_nat n] @ frame opts) 2 = Inr (packet_of opts)"
    using parseFrom_frame [OF assms(1), of "[0, of_nat n]"]
    by (simp add: ParseAtOffset_def frame_def numeral_2_eq_2)
  moreover have "storeChunk 0 (Payload (packet_of opts)) (assembled [] n (Some (packet_of opts))) =
      assembled [opt_Payload opts] n (Some (packet_of opts))"
    using storeChunk_assembled [of "[]"] by (simp add: packet_of_def Let_def)
  moreover have "(assembled [] 0 None)\<lparr>asm_totalExpected := n, asm_header := Some (packet_of opts)\<rparr> =
      assembled [] n (Some (packet_of opts))" by (simp add: assembled_def)
  moreover have "unat (of_nat n :: u8) = n" "frame opts \<noteq> []"
    using assms by (simp_all add: unat_of_nat frame_def)
  ultimately show ?thesis
    using assms txt_data_decodes [of b "[0, of_nat n] @ frame opts"]
    by (cases b) (simp_all add: assembleLoop.simps(2))
qed

text \<open>The parts of a frame assemble to what parsing the whole frame gives.\<close>

lemma assembleVPNResponse_parts:
  assumes "validType (opt_PacketType opts)" "max_chunk b < length (frame opts)" "length (answer_parts b opts) \<le> 255"
  shows "assembleVPNResponse lib (map (txt_data b) (answer_parts b opts)) b = ParseInflated lib (frame opts)"
proof -
  let ?ds = "later_chunks b opts"
  let ?first = "opts\<lparr>opt_Payload := first_part b opts\<rparr>"
  define n where "n = 1 + length ?ds"
  have n: "0 < n" "n \<le> 255" using assms(3) by (simp_all add: n_def answer_parts_def)
  have start: "\<lparr>asm_chunks = replicate 256 None, asm_totalExpected = 0, asm_seenChunks = 0, asm_header = None\<rparr> =
      assembled [] 0 None" by (simp add: assembled_def)
  have loop: "assembleLoop b (map (txt_data b) (answer_parts b opts)) (assembled [] 0 None) =
      Inr (assembled (first_part b opts # ?ds) n (Some (packet_of ?first)))"
    using assembleLoop_first [of ?first n b] assembleLoop_numbered [of "[first_part b opts]" ?ds b n] assms(1) n
    by (simp add: answer_parts_def n_def)
  have "length (answer_parts b opts) \<noteq> 1"
    using later_chunks_count(2) [OF assms(1,2)] by (simp add: answer_parts_def)
  moreover have "(packet_of ?first)\<lparr>Payload := concat (first_part b opts # ?ds)\<rparr> = packet_of opts"
    using concat_later_chunks [of b opts] by (simp add: packet_of_def Let_def)
  ultimately show ?thesis
    unfolding assembleVPNResponse_def start loop
    using Parse_frame [OF assms(1)] by (simp add: assembled_def n_def ParseInflated_def comp_def)
qed

lemma assembleVPNResponse_single:
  "assembleVPNResponse lib [txt_data b raw] b = ParseInflated lib raw"
  using txt_data_decodes [of b raw] by (cases b) (simp_all add: assembleVPNResponse_def)

section \<open>Records\<close>

definition txt_rr :: "gostring \<Rightarrow> bytes \<Rightarrow> resourceRecord" where
  "txt_rr name p = \<lparr>rr_Name = name, rr_Type = DNS_RECORD_TYPE_TXT, rr_Class = DNSQ_CLASS_IN, rr_TTL = 0,
     rr_RDLen = of_nat (length p), rr_RData = p\<rparr>"

definition push_record :: "resourceRecord \<Rightarrow> (resourceRecord list \<times> nat) result \<Rightarrow> (resourceRecord list \<times> nat) result" where
  "push_record r res = (case res of Inl e \<Rightarrow> Inl e | Inr (rs, offset) \<Rightarrow> Inr (r # rs, offset))"

lemma push_record_Inr [simp]: "push_record r (Inr (rs, offset)) = Inr (r # rs, offset)"
  by (simp add: push_record_def)

lemma parseResourceRecords_fields:
  assumes "data = pre @ nm @ put16 t @ put16 c @ put32 ttl @ put16 (of_nat (length p)) @ p @ post"
    and "parseName data (length pre) = Inr (name, length pre + length nm)" "length p < 65536"
  shows "parseResourceRecords data (length pre) (Suc k) =
    push_record \<lparr>rr_Name = name, rr_Type = t, rr_Class = c, rr_TTL = ttl, rr_RDLen = of_nat (length p), rr_RData = p\<rparr>
      (parseResourceRecords data (length pre + length nm + 10 + length p) k)"
proof -
  define off where "off = length pre + length nm"
  have u: "unat (of_nat (length p) :: u16) = length p" using assms(3) by (simp add: unat_of_nat)
  have "get16 data off = t"
    using get16_put16 [of "pre @ nm" t] by (simp add: assms(1) off_def)
  moreover have "get16 data (off + 2) = c"
    using get16_put16 [of "pre @ nm @ put16 t" c] by (simp add: assms(1) off_def)
  moreover have "get32 data (off + 4) = ttl"
    using get32_put32 [of "pre @ nm @ put16 t @ put16 c" ttl] by (simp add: assms(1) off_def add.assoc)
  moreover have "get16 data (off + 8) = of_nat (length p)"
    using get16_put16 [of "pre @ nm @ put16 t @ put16 c @ put32 ttl"] by (simp add: assms(1) off_def add.assoc)
  moreover have "slice data (off + 10) (off + 10 + length p) = p"
    using slice_append_mid [of "pre @ nm @ put16 t @ put16 c @ put32 ttl @ put16 (of_nat (length p))" p post]
    by (simp add: assms(1) off_def add.assoc)
  moreover have "off + 10 + length p \<le> length data" by (simp add: assms(1) off_def)
  ultimately show ?thesis
    unfolding off_def [symmetric]
    by (simp only: parseResourceRecords.simps assms(2) off_def [symmetric] sum.case prod.case Let_def u)
      (simp add: push_record_def)
qed

text \<open>An answer under a name without pointers, and answers whose name points to it.\<close>

lemma parseName_wire_any:
  assumes "\<forall>l\<in>set ls. label_ok l"
  shows "\<exists>nm. parseName (pre @ wire_name ls @ post) (length pre) = Inr (nm, length pre + length (wire_name ls))"
  using parseNameLoop_wire [OF assms, of pre post False 0 "length pre" "[]" False]
  by (simp add: parseName_def wire_name_def)

lemma parseName_pointer_any:
  assumes "\<forall>l\<in>set ls. label_ok l" "length pre < 0x4000"
    and "data = pre @ wire_name ls @ mid @ put16 (0xC000 OR of_nat (length pre)) @ post"
  shows "\<exists>nm. parseName data (length (pre @ wire_name ls @ mid)) = Inr (nm, length (pre @ wire_name ls @ mid) + 2)"
  using parseName_pointer_to [OF assms] by blast

definition carries :: "resourceRecord list \<Rightarrow> bytes list \<Rightarrow> bool" where
  "carries rs ps \<longleftrightarrow> map rr_RData rs = ps \<and> (\<forall>r\<in>set rs. rr_Type r = DNS_RECORD_TYPE_TXT)"

definition pointed_answers :: "nat \<Rightarrow> bytes list \<Rightarrow> bytes" where
  "pointed_answers target ps = concat (map (\<lambda>p. put16 (0xC000 OR of_nat target) @ txtFields p @ p) ps)"

lemma pointed_answers_Cons:
  "pointed_answers target (p # ps) = put16 (0xC000 OR of_nat target) @ txtFields p @ p @ pointed_answers target ps"
  by (simp add: pointed_answers_def)

lemma length_txtFields [simp]: "length (txtFields p) = 10"
  by (simp add: txtFields_def)

lemma parse_pointed_answers:
  assumes "\<forall>l\<in>set ns. label_ok l" "length pre < 0x4000" "\<forall>p\<in>set ps. length p < 65536"
    and "data = pre @ wire_name ns @ mid @ pointed_answers (length pre) ps @ post"
  shows "\<exists>rs. parseResourceRecords data (length (pre @ wire_name ns @ mid)) (length ps) =
      Inr (rs, length (pre @ wire_name ns @ mid @ pointed_answers (length pre) ps)) \<and> carries rs ps"
  using assms(3,4)
proof (induction ps arbitrary: mid)
  case Nil
  then show ?case by (simp add: pointed_answers_def carries_def)
next
  case (Cons p ps)
  define pre' where "pre' = pre @ wire_name ns @ mid"
  let ?ptr = "put16 (0xC000 OR of_nat (length pre)) :: bytes"
  have d: "data = pre' @ ?ptr @ put16 DNS_RECORD_TYPE_TXT @ put16 DNSQ_CLASS_IN @ put32 0 @
      put16 (of_nat (length p)) @ p @ pointed_answers (length pre) ps @ post"
    using Cons.prems(2) by (simp add: pointed_answers_Cons txtFields_def pre'_def)
  obtain nm where "parseName data (length pre') = Inr (nm, length pre' + length ?ptr)"
    using parseName_pointer_any [OF assms(1,2), of data mid "txtFields p @ p @ pointed_answers (length pre) ps @ post"] Cons.prems(2)
    by (auto simp: pointed_answers_Cons pre'_def)
  from parseResourceRecords_fields [OF d this] Cons.prems(1)
  have step: "parseResourceRecords data (length pre') (Suc (length ps)) =
      push_record (txt_rr nm p) (parseResourceRecords data (length pre' + length ?ptr + 10 + length p) (length ps))"
    by (simp add: txt_rr_def)
  let ?mid = "mid @ ?ptr @ txtFields p @ p"
  obtain rs where "parseResourceRecords data (length (pre @ wire_name ns @ ?mid)) (length ps) =
      Inr (rs, length (pre @ wire_name ns @ ?mid @ pointed_answers (length pre) ps))" "carries rs ps"
    using Cons.IH [of ?mid] Cons.prems by (auto simp: pointed_answers_Cons)
  with step show ?case
    by (intro exI [of _ "txt_rr nm p # rs"])
      (simp add: pre'_def pointed_answers_Cons carries_def txt_rr_def add_ac)
qed

lemma parse_answers:
  assumes "\<forall>l\<in>set ns. label_ok l" "length pre < 0x4000" "\<forall>q\<in>set (p # ps). length q < 65536"
    and "data = pre @ wire_name ns @ txtFields p @ p @ pointed_answers (length pre) ps @ post"
  shows "\<exists>rs. parseResourceRecords data (length pre) (Suc (length ps)) =
      Inr (rs, length (pre @ wire_name ns @ txtFields p @ p @ pointed_answers (length pre) ps)) \<and> carries rs (p # ps)"
proof -
  have d: "data = pre @ wire_name ns @ put16 DNS_RECORD_TYPE_TXT @ put16 DNSQ_CLASS_IN @ put32 0 @
      put16 (of_nat (length p)) @ p @ pointed_answers (length pre) ps @ post"
    by (simp add: assms(4) txtFields_def)
  obtain nm where "parseName data (length pre) = Inr (nm, length pre + length (wire_name ns))"
    using parseName_wire_any [OF assms(1), of pre] assms(4) by blast
  from parseResourceRecords_fields [OF d this] assms(3)
  have step: "parseResourceRecords data (length pre) (Suc (length ps)) =
      push_record (txt_rr nm p) (parseResourceRecords data (length pre + length (wire_name ns) + 10 + length p) (length ps))"
    by (simp add: txt_rr_def)
  obtain rs where "parseResourceRecords data (length (pre @ wire_name ns @ txtFields p @ p)) (length ps) =
      Inr (rs, length (pre @ wire_name ns @ (txtFields p @ p) @ pointed_answers (length pre) ps))" "carries rs ps"
    using parse_pointed_answers [OF assms(1,2), of ps data "txtFields p @ p" post] assms(3,4) by auto
  with step show ?thesis
    by (intro exI [of _ "txt_rr nm p # rs"]) (simp add: carries_def txt_rr_def add_ac)
qed

section \<open>Requests\<close>

text \<open>
  A question as it reaches the server: a resolver may have changed the identifier, the flags and the
  additional section, which holds at most the OPT record of EDNS.
\<close>

definition opt_record :: "u16 \<Rightarrow> u32 \<Rightarrow> bytes \<Rightarrow> bytes" where
  "opt_record udpSize ttl rdata =
     wire_name [] @ put16 DNS_RECORD_TYPE_OPT @ put16 udpSize @ put32 ttl @ put16 (of_nat (length rdata)) @ rdata"

datatype edns = NoEDNS | EDNS u16 u32 bytes

fun edns_count :: "edns \<Rightarrow> u16" where
  "edns_count NoEDNS = 0"
| "edns_count (EDNS _ _ _) = 1"

fun edns_bytes :: "edns \<Rightarrow> bytes" where
  "edns_bytes NoEDNS = []"
| "edns_bytes (EDNS s ttl rdata) = opt_record s ttl rdata"

fun edns_ok :: "edns \<Rightarrow> bool" where
  "edns_ok NoEDNS = True"
| "edns_ok (EDNS s ttl rdata) = (length rdata < 65536)"

definition wire_question :: "bytes list \<Rightarrow> u16 \<Rightarrow> u16 \<Rightarrow> bytes" where
  "wire_question ls t c = wire_name ls @ put16 t @ put16 c"

definition request :: "u16 \<Rightarrow> u16 \<Rightarrow> bytes list \<Rightarrow> u16 \<Rightarrow> u16 \<Rightarrow> edns \<Rightarrow> bytes" where
  "request ident flags ls t c e =
     dnsHeaderBytes ident flags 1 0 0 (edns_count e) @ wire_question ls t c @ edns_bytes e"

definition question_edns :: "u16 \<Rightarrow> edns" where
  "question_edns s = (if s > 0 then EDNS s 0 [] else NoEDNS)"

lemma question_packet_request:
  "question_packet ident (wire_name ls) t s = request ident 0x0100 ls t DNSQ_CLASS_IN (question_edns s)"
  by (simp add: question_packet_def request_def question_edns_def wire_question_def ednsRecord_def opt_record_def
      wire_name_def put32_def)

lemma length_wire_question: "length (wire_question ls t c) = length (wire_name ls) + 4"
  by (simp add: wire_question_def)

lemma wire_name_not_Nil [simp]: "wire_name ls \<noteq> []"
  by (simp add: wire_name_def)

lemma skipQuestions_request:
  assumes "\<forall>l\<in>set ls. label_ok l" "ls \<noteq> []" "length pre = 12" "data = pre @ wire_question ls t c @ rest"
  shows "skipQuestions data 12 1 = (12 + length (wire_question ls t c), None)"
  using parseQuestions_skip [OF parseQuestions_wire [OF assms(1-3), of data t c rest]] assms(4)
  by (simp add: wire_question_def del: One_nat_def)

lemma parseHeader_request:
  "hdr_QDCount (parseHeader (request ident flags ls t c e)) = 1"
  "hdr_ANCount (parseHeader (request ident flags ls t c e)) = 0"
  "hdr_NSCount (parseHeader (request ident flags ls t c e)) = 0"
  "hdr_ARCount (parseHeader (request ident flags ls t c e)) = edns_count e"
  "hdr_ID (parseHeader (request ident flags ls t c e)) = ident"
  "hdr_Flags (parseHeader (request ident flags ls t c e)) = flags"
  by (simp_all add: request_def parseHeader_bytes)

lemma extractQuestionSection_request:
  assumes "\<forall>l\<in>set ls. label_ok l" "ls \<noteq> []"
  shows "extractQuestionSection (request ident flags ls t c e) (parseHeader (request ident flags ls t c e)) =
    (wire_question ls t c, 1, 12 + length (wire_question ls t c))"
proof -
  let ?r = "request ident flags ls t c e"
  have "skipQuestions ?r 12 1 = (12 + length (wire_question ls t c), None)"
    by (rule skipQuestions_request [OF assms, where pre = "dnsHeaderBytes ident flags 1 0 0 (edns_count e)" and rest = "edns_bytes e"])
      (simp_all add: request_def)
  moreover have "slice ?r 12 (12 + length (wire_question ls t c)) = wire_question ls t c"
    using slice_append_mid [of "dnsHeaderBytes ident flags 1 0 0 (edns_count e)" "wire_question ls t c" "edns_bytes e"]
    by (simp add: request_def)
  ultimately show ?thesis
    unfolding extractQuestionSection_def parseHeader_request by (simp del: One_nat_def)
qed

lemma skipName_root: "skipName (pre @ wire_name [] @ post) (length pre) = Inr (length pre + 1)"
  by (subst skipName.simps) (simp add: wire_name_def nth_append)

lemma find_opt_record:
  assumes "length rdata < 65536"
  shows "findFirstOPTRecordInAdditional (pre @ opt_record s ttl rdata) (length pre) (Suc n) =
    (length pre, length (opt_record s ttl rdata))"
proof -
  let ?d = "pre @ opt_record s ttl rdata"
  have n: "skipName ?d (length pre) = Inr (length pre + 1)"
    using skipName_root [of pre] by (simp add: opt_record_def)
  have "get16 ?d (length pre + 1) = DNS_RECORD_TYPE_OPT"
    using get16_put16 [of "pre @ wire_name []" DNS_RECORD_TYPE_OPT] by (simp add: opt_record_def wire_name_def)
  moreover have "get16 ?d (length pre + 1 + 8) = of_nat (length rdata)"
    using get16_put16 [of "pre @ wire_name [] @ put16 DNS_RECORD_TYPE_OPT @ put16 s @ put32 ttl" "of_nat (length rdata)" rdata]
    by (simp add: opt_record_def wire_name_def add.commute)
  moreover have "unat (of_nat (length rdata) :: u16) = length rdata" using assms by (simp add: unat_of_nat)
  moreover have "length (opt_record s ttl rdata) = 11 + length rdata" by (simp add: opt_record_def wire_name_def)
  ultimately show ?thesis using n by (simp add: Let_def)
qed

lemma findOPTRecordRange_request:
  assumes "edns_ok e"
  shows "findOPTRecordRange (request ident flags ls t c e) (parseHeader (request ident flags ls t c e))
      (12 + length (wire_question ls t c)) =
    (case e of NoEDNS \<Rightarrow> (0, 0) | EDNS s ttl rdata \<Rightarrow> (12 + length (wire_question ls t c), length (edns_bytes e)))"
proof (cases e)
  case NoEDNS
  then show ?thesis by (simp add: findOPTRecordRange_def parseHeader_request)
next
  case (EDNS s ttl rdata)
  define pre where "pre = dnsHeaderBytes ident flags 1 0 0 (edns_count e) @ wire_question ls t c"
  have "request ident flags ls t c e = pre @ opt_record s ttl rdata" "length pre = 12 + length (wire_question ls t c)"
    by (simp_all add: request_def pre_def EDNS)
  with find_opt_record [of rdata pre s ttl 0] assms show ?thesis
    unfolding findOPTRecordRange_def parseHeader_request by (simp add: EDNS)
qed

lemma edns_copied:
  assumes "edns_ok e"
    and "findOPTRecordRange (request ident flags ls t c e) (parseHeader (request ident flags ls t c e))
      (12 + length (wire_question ls t c)) = (optStart, optLen)"
  shows "optLen = length (edns_bytes e)" "getARCount optLen = edns_count e"
    "slice (request ident flags ls t c e) optStart (optStart + optLen) = edns_bytes e \<or> optLen = 0"
  using assms(2) unfolding findOPTRecordRange_request [OF assms(1)]
  by (cases e; auto simp: getARCount_def opt_record_def slice_def request_def)+

section \<open>Replies\<close>

definition reply :: "u16 \<Rightarrow> u16 \<Rightarrow> bytes list \<Rightarrow> u16 \<Rightarrow> u16 \<Rightarrow> edns \<Rightarrow> bytes list \<Rightarrow> bytes \<Rightarrow> bytes list \<Rightarrow> bytes" where
  "reply ident flags ls t c e ns p ps =
     dnsHeaderBytes ident (buildResponseFlags flags DNSR_CODE_NO_ERROR) 1 (of_nat (Suc (length ps))) 0 (edns_count e) @
     wire_question ls t c @ wire_name ns @ txtFields p @ p @
     pointed_answers (12 + length (wire_question ls t c)) ps @ edns_bytes e"

lemma extractFirstQuestionNameWire_request:
  assumes "\<forall>l\<in>set ls. label_ok l" "ls \<noteq> []"
  shows "extractFirstQuestionNameWire (request ident flags ls t c e) = Some (wire_name ls, map toLowerByte (join_labels ls))"
proof -
  let ?h = "dnsHeaderBytes ident flags 1 0 0 (edns_count e)"
  have r: "request ident flags ls t c e = ?h @ wire_name ls @ put16 t @ put16 c @ edns_bytes e"
    by (simp add: request_def wire_question_def)
  have "parseName (request ident flags ls t c e) 12 = Inr (map toLowerByte (join_labels ls), 12 + length (wire_name ls))"
    using parseName_wire [OF assms, of ?h "put16 t @ put16 c @ edns_bytes e"] by (simp add: r)
  moreover have "slice (request ident flags ls t c e) 12 (12 + length (wire_name ls)) = wire_name ls"
    using slice_append_mid [of ?h "wire_name ls"] by (simp add: r)
  moreover have "12 + length (wire_name ls) \<le> length (request ident flags ls t c e)" by (simp add: r)
  ultimately show ?thesis
    using parseHeader_request(1) [of ident flags ls t c e] by (simp add: extractFirstQuestionNameWire_def)
qed

lemma responseAnswerNameBytes_wire:
  assumes "\<forall>l\<in>set ls. label_ok l" "ls \<noteq> []"
    and "responseAnswerNameBytes foldU (request ident flags ls t c e) answerName = Inr nb"
  obtains ns where "nb = wire_name ns" "\<forall>l\<in>set ns. label_ok l"
proof (cases "sameDNSName foldU (map toLowerByte (join_labels ls)) answerName")
  case True
  with assms(3) assms(1) that [of ls] show thesis
    by (simp add: responseAnswerNameBytes_def extractFirstQuestionNameWire_request [OF assms(1,2)])
next
  case False
  with assms(3) have "encodeDNSNameStrict answerName = Inr nb"
    by (simp add: responseAnswerNameBytes_def extractFirstQuestionNameWire_request [OF assms(1,2)])
  then show thesis
  proof (cases rule: encodeDNSNameStrict_wire)
    case 1
    with that [of "[]"] show thesis by (simp add: wire_name_def)
  next
    case (2 ns)
    with that plain_label_ok show thesis by blast
  qed
qed

lemma responseAnswerNameBytes_same:
  assumes "\<forall>l\<in>set ls. label_ok l" "ls \<noteq> []" "sameDNSName foldU (map toLowerByte (join_labels ls)) answerName"
  shows "responseAnswerNameBytes foldU (request ident flags ls t c e) answerName = Inr (wire_name ls)"
  using assms(3) by (simp add: responseAnswerNameBytes_def extractFirstQuestionNameWire_request [OF assms(1,2)])

lemma length_request: "12 \<le> length (request ident flags ls t c e)"
  by (simp add: request_def)

lemma edns_copy:
  assumes "edns_ok e"
    and "findOPTRecordRange (request ident flags ls t c e) (parseHeader (request ident flags ls t c e))
      (12 + length (wire_question ls t c)) = (optStart, optLen)"
  shows "(if 0 < optLen then slice (request ident flags ls t c e) optStart (optStart + optLen) else []) = edns_bytes e"
  using edns_copied [OF assms] by auto

lemma buildSingle_reply:
  assumes "\<forall>l\<in>set ls. label_ok l" "ls \<noteq> []" "edns_ok e"
    and "responseAnswerNameBytes foldU (request ident flags ls t c e) answerName = Inr (wire_name ns)"
  shows "buildSingleTXTResponsePacket foldU (request ident flags ls t c e) answerName p = Inr (reply ident flags ls t c e ns p [])"
proof -
  obtain optStart optLen where o: "findOPTRecordRange (request ident flags ls t c e)
      (parseHeader (request ident flags ls t c e)) (12 + length (wire_question ls t c)) = (optStart, optLen)"
    by fastforce
  show ?thesis
    using length_request [of ident flags ls t c e] edns_copied(2) [OF assms(3) o] edns_copy [OF assms(3) o] assms(4)
    unfolding buildSingleTXTResponsePacket_def extractQuestionSection_request [OF assms(1,2)] Let_def prod.case o parseHeader_request
    by (simp add: reply_def pointed_answers_def)
qed

lemma writeAnswers_pointed:
  assumes "0 < i" "target \<le> 0x3FFF" "length out + length (pointed_answers target ps) \<le> len"
  shows "writeAnswers len True target nb i ps out = Inr (out @ pointed_answers target ps)"
  using assms
proof (induction ps arbitrary: i out)
  case (Cons p ps)
  let ?ptr = "put16 (0xC000 OR of_nat target) :: bytes"
  have "writeAnswers len True target nb (Suc i) ps (out @ ?ptr @ txtFields p @ p) =
      Inr ((out @ ?ptr @ txtFields p @ p) @ pointed_answers target ps)"
    using Cons.prems by (intro Cons.IH) (simp_all add: pointed_answers_Cons)
  with Cons.prems show ?case
    by (simp add: pointed_answers_Cons put_bytes_def copy_bytes_def)
qed (simp add: pointed_answers_def)

lemma writeAnswers_reply:
  assumes "target \<le> 0x3FFF" "length out + length nb + 10 + length p + length (pointed_answers target ps) \<le> len"
  shows "writeAnswers len True target nb 0 (p # ps) out = Inr (out @ nb @ txtFields p @ p @ pointed_answers target ps)"
  using assms writeAnswers_pointed [of 1 target "out @ nb @ txtFields p @ p" ps len nb]
  by (simp add: put_bytes_def copy_bytes_def)

lemma answer_lengths:
  "0 < k \<Longrightarrow> sum_list (map (\<lambda>(i, payload). (if 0 < i then 2 else n) + 10 + length payload) (enumerate k ps)) =
    length (pointed_answers target ps)"
  by (induction ps arbitrary: k) (simp_all add: pointed_answers_def)

text \<open>The buffer is sized for pointers; they are used when the first answer starts below offset 0x4000.\<close>

lemma BuildTXTResponsePacket_reply:
  assumes "\<forall>l\<in>set ls. label_ok l" "ls \<noteq> []" "edns_ok e" "ps \<noteq> []" "12 + length (wire_question ls t c) \<le> 0x3FFF"
    and "responseAnswerNameBytes foldU (request ident flags ls t c e) answerName = Inr (wire_name ns)"
  shows "BuildTXTResponsePacket foldU (request ident flags ls t c e) answerName (p # ps) = Inr (reply ident flags ls t c e ns p ps)"
proof -
  obtain optStart optLen where o: "findOPTRecordRange (request ident flags ls t c e)
      (parseHeader (request ident flags ls t c e)) (12 + length (wire_question ls t c)) = (optStart, optLen)"
    by fastforce
  define out where "out = dnsHeaderBytes ident (buildResponseFlags flags DNSR_CODE_NO_ERROR) 1
    (of_nat (length (p # ps))) 0 (edns_count e) @ wire_question ls t c"
  define target where "target = 12 + length (wire_question ls t c)"
  have target: "length out = target" by (simp add: out_def target_def)
  define len where "len = 12 + length (wire_question ls t c) + (length (wire_name ns) + 10 + length p +
      length (pointed_answers target ps)) + optLen"
  have sum: "sum_list (map (\<lambda>(i, payload). (if True \<and> i > 0 then 2 else length (wire_name ns)) + 10 + length payload)
      (enumerate 0 (p # ps))) = length (wire_name ns) + 10 + length p + length (pointed_answers target ps)"
    using assms(4) answer_lengths [of 1 "length (wire_name ns)" ps target] by simp
  have w: "writeAnswers len True target (wire_name ns) 0 (p # ps) out =
      Inr (out @ wire_name ns @ txtFields p @ p @ pointed_answers target ps)"
    using assms(5) by (intro writeAnswers_reply) (simp_all add: len_def target target_def)
  have e: "optLen = length (edns_bytes e)" "getARCount optLen = edns_count e" by (rule edns_copied [OF assms(3) o])+
  have opt: "(if 0 < optLen then copy_bytes len (slice (request ident flags ls t c e) optStart (optStart + optLen)) x else x) =
      x @ edns_bytes e" if "length x + optLen = len" for x
    using edns_copied(3) [OF assms(3) o] e(1) that by (auto simp: copy_bytes_def)
  define full where "full = out @ wire_name ns @ txtFields p @ p @ pointed_answers target ps"
  have full: "length full + optLen = len" by (simp add: full_def len_def target target_def)
  have more: "length (p # ps) \<noteq> 1" "(1 < length (p # ps)) = True" using assms(4) by simp_all
  have r: "full @ edns_bytes e = reply ident flags ls t c e ns p ps"
    by (simp add: full_def out_def reply_def target_def)
  show ?thesis
    unfolding BuildTXTResponsePacket_def extractQuestionSection_request [OF assms(1,2)] Let_def prod.case o
      parseHeader_request assms(6) sum.case sum e(2) out_def [symmetric] target len_def [symmetric] more(2) w
      full_def [symmetric] bind_result_simps opt [OF full] r [symmetric]
    using length_request [of ident flags ls t c e] more(1) full e(1) by auto
qed

section \<open>Reading a reply\<close>

lemma parse_additional:
  assumes "edns_ok e" "data = pre @ edns_bytes e"
  shows "\<exists>rs off. parseResourceRecords data (length pre) (unat (edns_count e)) = Inr (rs, off)"
proof (cases e)
  case (EDNS s ttl rdata)
  obtain nm where "parseName data (length pre) = Inr (nm, length pre + length (wire_name []))"
    using parseName_wire_any [of "[]" pre] assms(2) by (auto simp: EDNS opt_record_def)
  from parseResourceRecords_fields [OF _ this, of DNS_RECORD_TYPE_OPT s ttl rdata "[]" 0] assms
  show ?thesis by (simp add: EDNS opt_record_def)
qed simp

lemma ParsePacket_reply:
  assumes "\<forall>l\<in>set ls. label_ok l" "ls \<noteq> []" "\<forall>l\<in>set ns. label_ok l" "edns_ok e"
    and "\<forall>q\<in>set (p # ps). length q < 65536" "length ps < 65535" "12 + length (wire_question ls t c) \<le> 0x3FFF"
  shows "\<exists>pk. ParsePacket (reply ident flags ls t c e ns p ps) = Inr pk \<and> carries (pkt_Answers pk) (p # ps)"
proof -
  define h where "h = dnsHeaderBytes ident (buildResponseFlags flags DNSR_CODE_NO_ERROR) 1 (of_nat (Suc (length ps))) 0 (edns_count e)"
  define data where "data = reply ident flags ls t c e ns p ps"
  define pre where "pre = h @ wire_question ls t c"
  have pre: "length pre = 12 + length (wire_question ls t c)" by (simp add: pre_def h_def)
  have d: "data = pre @ wire_name ns @ txtFields p @ p @ pointed_answers (length pre) ps @ edns_bytes e"
    unfolding pre by (simp add: data_def reply_def pre_def h_def)
  obtain qs where q: "parseQuestions data 12 1 = Inr (qs, length pre)"
    using parseQuestions_wire [OF assms(1,2), of h data t c] d by (simp add: pre h_def wire_question_def pre_def)
  obtain rs where r: "parseResourceRecords data (length pre) (Suc (length ps)) =
      Inr (rs, length (pre @ wire_name ns @ txtFields p @ p @ pointed_answers (length pre) ps))" "carries rs (p # ps)"
    using parse_answers [OF assms(3) _ assms(5) d] assms(7) pre by auto
  obtain as off where a: "parseResourceRecords data
      (length (pre @ wire_name ns @ txtFields p @ p @ pointed_answers (length pre) ps)) (unat (edns_count e)) = Inr (as, off)"
    using parse_additional [OF assms(4), of data "pre @ wire_name ns @ txtFields p @ p @ pointed_answers (length pre) ps"] d
    by auto
  have hd: "hdr_QDCount (parseHeader data) = 1" "hdr_ANCount (parseHeader data) = of_nat (Suc (length ps))"
      "hdr_NSCount (parseHeader data) = 0" "hdr_ARCount (parseHeader data) = edns_count e"
    by (simp_all add: data_def reply_def parseHeader_bytes del: of_nat_Suc)
  have n: "unat (of_nat (Suc (length ps)) :: u16) = Suc (length ps)" using assms(6) by (simp only: unat_word_of_nat) simp
  have "12 \<le> length data" using pre by (simp add: d)
  then show ?thesis
    unfolding data_def [symmetric] ParsePacket_def Let_def hd n unsigned_1
    using q r a by (simp add: bind_result_eq_Inr del: One_nat_def parseResourceRecords.simps(2) parseQuestions.simps(2))
qed

lemma extractTXTAnswerPayloads_carries:
  assumes "carries (pkt_Answers pk) ps"
  shows "extractTXTAnswerPayloads pk = filter (\<lambda>raw. raw \<noteq> []) (map extractTXTBytes ps)"
proof -
  have "filter (\<lambda>answer. rr_Type answer = DNS_RECORD_TYPE_TXT) (pkt_Answers pk) = pkt_Answers pk"
    using assms by (intro filter_True) (simp add: carries_def)
  moreover have "ps = map rr_RData (pkt_Answers pk)" using assms by (simp add: carries_def)
  ultimately show ?thesis by (simp add: extractTXTAnswerPayloads_def comp_def)
qed

lemma ExtractVPNResponse_reply:
  assumes "\<forall>l\<in>set ls. label_ok l" "ls \<noteq> []" "\<forall>l\<in>set ns. label_ok l" "edns_ok e"
    and "\<forall>q\<in>set (d # ds). length q \<le> max_chunk b \<and> q \<noteq> []" "length ds < 65535" "12 + length (wire_question ls t c) \<le> 0x3FFF"
  shows "ExtractVPNResponse lib (reply ident flags ls t c e ns (txt_string (txt_data b d)) (map (\<lambda>d. txt_string (txt_data b d)) ds)) b =
    assembleVPNResponse lib (map (txt_data b) (d # ds)) b"
proof -
  let ?ps = "map (\<lambda>d. txt_string (txt_data b d)) (d # ds)"
  have small: "\<forall>q\<in>set ?ps. length q < 65536"
    using assms(5) length_txt_data [of _ b] by (fastforce simp: txt_string_def)
  obtain pk where pk: "ParsePacket (reply ident flags ls t c e ns (hd ?ps) (tl ?ps)) = Inr pk" "carries (pkt_Answers pk) ?ps"
    using ParsePacket_reply [OF assms(1-4), of "hd ?ps" "tl ?ps" t c ident flags] small assms(6,7) by auto
  have x: "extractTXTAnswerPayloads pk = filter (\<lambda>raw. raw \<noteq> []) (map extractTXTBytes ?ps)"
    using pk(2) by (simp only: extractTXTAnswerPayloads_carries)
  also have "map extractTXTBytes ?ps = map (txt_data b) (d # ds)"
    using assms(5) length_txt_data [of _ b] by (auto simp: extractTXTBytes_string)
  also have "filter (\<lambda>raw. raw \<noteq> []) (map (txt_data b) (d # ds)) = map (txt_data b) (d # ds)"
    using assms(5) by (intro filter_True) auto
  finally show ?thesis using pk(1) by (simp add: ExtractVPNResponse_def)
qed

section \<open>Whole answers\<close>

lemma parts_fit:
  assumes "length (opt_Payload opts) \<le> 48000"
  shows "length (answer_parts b opts) \<le> 255"
proof -
  define m where "m = max_chunk b - 1"
  have m: "190 \<le> m" using max_chunk_bounds(1) [of b] by (simp add: m_def)
  have "length (later_chunks b opts) =
      (length (drop (max_chunk b - 2 - HeaderRawSize (opt_PacketType opts)) (opt_Payload opts)) + m - 1) div m"
    using m unfolding later_chunks_def m_def by (intro length_chunks_of) linarith
  also have "\<dots> \<le> (48000 + m) div m" using assms by (intro div_le_mono) simp
  also have "\<dots> = 48000 div m + 1" using m by (subst div_add_self2) auto
  also have "48000 div m \<le> 48000 div 190" using m by (intro div_le_mono2) auto
  finally show ?thesis by (simp add: answer_parts_def)
qed

lemma PreparePayload_shorter:
  "PreparePayload lib pt payload ct m = (c, t) \<Longrightarrow> length c \<le> length payload"
  using CompressPayload_result by (fastforce simp: PreparePayload_def Let_def split: if_splits)

text \<open>The answer of a frame, split or not, is read back as the frame.\<close>

lemma frame_answer:
  assumes "\<forall>l\<in>set ls. label_ok l" "ls \<noteq> []" "edns_ok e" "12 + length (wire_question ls t c) \<le> 0x3FFF"
    and "validType (opt_PacketType opts)" "length (opt_Payload opts) \<le> 48000"
    and "responseAnswerNameBytes foldU (request ident flags ls t c e) answerName = Inr (wire_name ns)" "\<forall>l\<in>set ns. label_ok l"
  shows "\<exists>res. (if length (frame opts) \<le> max_chunk b
       then buildSingleTXTResponsePacket foldU (request ident flags ls t c e) answerName (buildTXTAnswerChunk (frame opts) b)
       else case buildTXTAnswerChunks (frame opts) b of Inl x \<Rightarrow> Inl x
         | Inr answerPayloads \<Rightarrow> BuildTXTResponsePacket foldU (request ident flags ls t c e) answerName answerPayloads) = Inr res \<and>
    ExtractVPNResponse lib res b = ParseInflated lib (frame opts)"
proof (cases "length (frame opts) \<le> max_chunk b")
  case True
  have "frame opts \<noteq> []" by (simp add: frame_def)
  with True show ?thesis
    using ExtractVPNResponse_reply [OF assms(1,2,8,3) _ _ assms(4), of "frame opts" "[]" b lib ident flags]
      buildSingle_reply [OF assms(1,2,3,7)] assembleVPNResponse_single [of lib b "frame opts"]
    by (simp add: buildTXTAnswerChunk_string)
next
  case False
  obtain d ds where p: "answer_parts b opts = d # ds" "ds \<noteq> []"
    using later_chunks_count(2) [OF assms(5), of b] False by (cases "later_chunks b opts") (auto simp: answer_parts_def)
  have n: "length (d # ds) \<le> 255" using parts_fit [OF assms(6), of b] p by simp
  have "\<forall>q\<in>set (d # ds). length q \<le> max_chunk b \<and> q \<noteq> []"
    using answer_parts_bounds [OF assms(5), of _ b] p by auto
  then show ?thesis
    using False buildTXTAnswerChunks_parts [OF assms(5), of b] n p
      ExtractVPNResponse_reply [OF assms(1,2,8,3) _ _ assms(4), of d ds b lib ident flags]
      BuildTXTResponsePacket_reply [OF assms(1,2,3) _ assms(4,7), of "map (\<lambda>d. txt_string (txt_data b d)) ds"]
      assembleVPNResponse_parts [OF assms(5), of b lib]
    by simp
qed

section \<open>Properties\<close>

text \<open>
  (C3) For a question that reached the server in the form resolvers forward (one question, at most an OPT
  record), the answer that carries a packet is built, whatever number of TXT strings it takes, and the
  client reads the packet back from it, up to the compression type chosen. 48000 bytes of payload fit in
  the 255 strings an answer may have, also with base-64 coding.
\<close>

theorem downlink_roundtrip:
  assumes "comp_lib_roundtrip lib" "validType (PacketType pkt)" "length (Payload pkt) \<le> 48000"
    and "\<forall>l\<in>set ls. label_ok l" "ls \<noteq> []" "length (wire_name ls) \<le> 255" "edns_ok e"
    and "sameDNSName foldU (map toLowerByte (join_labels ls)) answerName"
  shows "\<exists>res ct. BuildVPNResponsePacket lib foldU (request ident flags ls t c e) answerName pkt b = Inr res \<and>
    ExtractVPNResponse lib res b = Inr ((packet_of (options_of pkt))\<lparr>CompressionType := ct\<rparr>)"
proof -
  let ?o = "options_of pkt"
  obtain d ct where pp: "PreparePayload lib (opt_PacketType ?o) (opt_Payload ?o) (opt_CompressionType ?o) DefaultMinSize = (d, ct)"
    by fastforce
  let ?opts = "?o\<lparr>opt_Payload := d, opt_CompressionType := ct\<rparr>"
  have v: "validType (opt_PacketType ?opts)" using assms(2) by (simp add: options_of_def)
  have raw: "BuildRawAuto lib ?o DefaultMinSize = Inr (frame ?opts)"
    using v by (simp add: BuildRawAuto_def pp BuildRaw_Inr)
  have len: "length (opt_Payload ?opts) \<le> 48000"
    using PreparePayload_shorter [OF pp] assms(3) by (simp add: options_of_def)
  have q: "12 + length (wire_question ls t c) \<le> 0x3FFF" using assms(6) by (simp add: length_wire_question)
  obtain ct where "ParseInflated lib (frame ?opts) = Inr ((packet_of ?o)\<lparr>CompressionType := ct\<rparr>)"
    using ParseInflated_BuildRawAuto [OF assms(1) _ raw] assms(3) by (auto simp: options_of_def)
  moreover have "BuildVPNResponsePacket lib foldU (request ident flags ls t c e) answerName pkt b =
     (if length (frame ?opts) \<le> max_chunk b
       then buildSingleTXTResponsePacket foldU (request ident flags ls t c e) answerName (buildTXTAnswerChunk (frame ?opts) b)
       else case buildTXTAnswerChunks (frame ?opts) b of Inl x \<Rightarrow> Inl x
         | Inr answerPayloads \<Rightarrow> BuildTXTResponsePacket foldU (request ident flags ls t c e) answerName answerPayloads)"
    using raw by (simp add: BuildVPNResponsePacket_def options_of_def max_chunk_def Let_def)
  moreover note frame_answer [OF assms(4,5,7) q v len responseAnswerNameBytes_same [OF assms(4,5,8)] assms(4),
      where ident = ident and flags = flags and b = b and lib = lib]
  ultimately show ?thesis by metis
qed

theorem downlink_roundtrip_witness:
  "\<exists>res ct. BuildVPNResponsePacket run_lib (\<lambda>_ _. False) (request 7 0x0100 [[97, 98], [99]] 16 1 (EDNS 1232 0 [])) [97, 98, 46, 99, 46]
      (packet_of (example_options\<lparr>opt_Payload := replicate 300 5\<rparr>)) True = Inr res \<and>
    ExtractVPNResponse run_lib res True =
      Inr ((packet_of (options_of (packet_of (example_options\<lparr>opt_Payload := replicate 300 5\<rparr>))))\<lparr>CompressionType := ct\<rparr>)"
proof (rule downlink_roundtrip)
  show "comp_lib_roundtrip run_lib" by (rule run_lib_roundtrip)
  show "validType (PacketType (packet_of (example_options\<lparr>opt_Payload := replicate 300 5\<rparr>)))"
    using example_valid by (simp add: packet_of_def Let_def)
  show "sameDNSName (\<lambda>_ _. False) (map toLowerByte (join_labels [[97, 98], [99]])) [97, 98, 46, 99, 46]"
    by code_simp
qed (simp_all add: packet_of_def Let_def label_ok_def wire_name_def wire_label_def)

end
