(* ===== verification/DomainMatcher.thy ===== *)
theory DomainMatcher
  imports DnsTransport "HOL-Library.List_Lexorder" "HOL-Library.Product_Lexorder"
begin

text \<open>
  The domains the server answers for (\<open>domainmatcher/matcher.go\<close>): they are normalised, ordered and
  entered into a trie keyed by labels from the right; a request name is matched by walking the trie. The
  lemmas show that the walk finds what a scan of the ordered list finds, the longest allowed domain that
  the name is or ends in.
\<close>

section \<open>The matcher\<close>

datatype Action = ActionFormatError | ActionNoData | ActionProcess

record decision =
  dec_Action :: Action
  dec_Reason :: string
  dec_Question :: question
  dec_RequestName :: gostring
  dec_BaseDomain :: gostring
  dec_Labels :: gostring
  dec_QuestionType :: u16

datatype domainNode = DomainNode (node_children: "gostring \<Rightarrow> domainNode option") (node_domain: gostring)

record matcher =
  allowedDomains :: "gostring list"
  matcher_root :: "domainNode option"
  minLabelLength :: int

definition empty_node :: domainNode where
  "empty_node = DomainNode Map.empty []"

definition normalizeDomain :: "(gostring \<Rightarrow> gostring) \<Rightarrow> gostring \<Rightarrow> gostring" where
  "normalizeDomain lowerU domain = TrimSuffix (ToLower lowerU (TrimSpace domain)) [dot]"

definition normalizeParsedDomain :: "gostring \<Rightarrow> gostring" where
  "normalizeParsedDomain domain =
     (if length domain \<noteq> 0 \<and> domain ! (length domain - 1) = dot then take (length domain - 1) domain else domain)"

text \<open>
  The keys of the map \<open>unique\<close> are the distinct normalised names; its iteration order does not matter
  since the comparison of \<open>sort.Slice\<close>, longer names first and then byte order, is total on them.
\<close>

definition normalizeDomains :: "(gostring \<Rightarrow> gostring) \<Rightarrow> gostring list \<Rightarrow> gostring list" where
  "normalizeDomains lowerU domains =
     sort_key (\<lambda>d. (- int (length d), d))
       (remdups (filter (\<lambda>d. d \<noteq> [] \<and> d \<noteq> [dot]) (map (normalizeDomain lowerU) domains)))"

text \<open>
  The loop over the labels of a name, from the right: \<open>name\<close> is \<open>domain[:offset]\<close>. The trie is
  updated along the path; a missing child is created.
\<close>

function insertDomain :: "gostring \<Rightarrow> gostring \<Rightarrow> domainNode \<Rightarrow> domainNode" where
  "insertDomain name domain node =
     (if name = [] then DomainNode (node_children node) domain
      else
        let start = LastIndexByte name dot;
            labelStart = (case start of None \<Rightarrow> 0 | Some s \<Rightarrow> s + 1);
            label = drop labelStart name;
            child = (case node_children node label of None \<Rightarrow> empty_node | Some c \<Rightarrow> c);
            child = (case start of
                None \<Rightarrow> DomainNode (node_children child) domain
              | Some s \<Rightarrow> insertDomain (take s name) domain child)
        in DomainNode ((node_children node)(label \<mapsto> child)) (node_domain node))"
  by pat_completeness auto
termination
  by (relation "measure (\<lambda>(name, _). length name)") (auto simp: LastIndexByte_def split: if_splits)

declare insertDomain.simps [simp del]

definition buildDomainTrie :: "gostring list \<Rightarrow> domainNode option" where
  "buildDomainTrie domains =
     (if length domains = 0 then None
      else Some (foldl (\<lambda>rootNode domain. insertDomain domain domain rootNode) empty_node domains))"

definition New :: "(gostring \<Rightarrow> gostring) \<Rightarrow> gostring list \<Rightarrow> int \<Rightarrow> matcher" where
  "New lowerU domains minLen =
     (let normalized = normalizeDomains lowerU domains in
      \<lparr>allowedDomains = normalized, matcher_root = buildDomainTrie normalized,
       minLabelLength = (if minLen < 1 then 3 else minLen)\<rparr>)"

definition Domains :: "matcher \<Rightarrow> gostring list" where
  "Domains m = allowedDomains m"

definition stripLabelDots :: "gostring \<Rightarrow> gostring" where
  "stripLabelDots labels = (if dot \<notin> set labels then labels else filter (\<lambda>c. c \<noteq> dot) labels)"

text \<open>The walk: \<open>name\<close> is \<open>requestName[:offset]\<close>; a position of -1 means nothing matched yet.\<close>

function walkTrie :: "gostring \<Rightarrow> domainNode \<Rightarrow> gostring \<Rightarrow> int \<Rightarrow> gostring \<times> int" where
  "walkTrie name node baseDomain matchedPos =
     (if name = [] then (baseDomain, matchedPos)
      else
        let start = LastIndexByte name dot;
            labelStart = (case start of None \<Rightarrow> 0 | Some s \<Rightarrow> s + 1)
        in case node_children node (drop labelStart name) of
             None \<Rightarrow> (baseDomain, matchedPos)
           | Some node \<Rightarrow>
               let (baseDomain, matchedPos) =
                     (if node_domain node \<noteq> [] then (node_domain node, int labelStart) else (baseDomain, matchedPos))
               in case start of
                    None \<Rightarrow> (baseDomain, matchedPos)
                  | Some s \<Rightarrow> walkTrie (take s name) node baseDomain matchedPos)"
  by pat_completeness auto
termination
  by (relation "measure (\<lambda>(name, _). length name)") (auto simp: LastIndexByte_def split: if_splits)

declare walkTrie.simps [simp del]

definition findAllowedDomain :: "gostring \<Rightarrow> domainNode option \<Rightarrow> gostring \<times> gostring \<times> bool" where
  "findAllowedDomain requestName rootNode =
     (case rootNode of
        None \<Rightarrow> ([], [], False)
      | Some node \<Rightarrow>
          if requestName = [] then ([], [], False)
          else
            let (baseDomain, matchedPos) = walkTrie requestName node [] (- 1) in
            if matchedPos < 0 then ([], [], False)
            else if matchedPos = 0 then (baseDomain, [], True)
            else
              let labels = take (nat matchedPos - 1) requestName;
                  labels = (if dot \<in> set labels then stripLabelDots labels else labels)
              in (baseDomain, labels, True))"

text \<open>The fields a decision literal leaves out have their zero values.\<close>

definition zero_decision :: decision where
  "zero_decision = \<lparr>dec_Action = ActionFormatError, dec_Reason = '''', dec_Question = zero_question,
     dec_RequestName = [], dec_BaseDomain = [], dec_Labels = [], dec_QuestionType = 0\<rparr>"

definition Match :: "matcher \<Rightarrow> litePacket \<Rightarrow> decision" where
  "Match m parsed =
     (if \<not> lite_HasQuestion parsed then zero_decision\<lparr>dec_Action := ActionFormatError, dec_Reason := ''missing-question''\<rparr>
      else
        let q0 = lite_FirstQuestion parsed;
            requestName = normalizeParsedDomain (q_Name q0)
        in
          if requestName = [] \<or> requestName = [dot]
          then zero_decision\<lparr>dec_Action := ActionFormatError, dec_Reason := ''empty-qname''\<rparr>
          else
            let (baseDomain, labels, matched) = findAllowedDomain requestName (matcher_root m);
                d = zero_decision\<lparr>dec_Question := q0, dec_RequestName := requestName, dec_QuestionType := q_Type q0\<rparr>
            in
              if \<not> matched then d\<lparr>dec_Action := ActionNoData, dec_Reason := ''unauthorized-domain''\<rparr>
              else if q_Type q0 \<noteq> DNS_RECORD_TYPE_TXT
              then d\<lparr>dec_Action := ActionNoData, dec_Reason := ''unsupported-qtype'', dec_BaseDomain := baseDomain\<rparr>
              else if labels = []
              then d\<lparr>dec_Action := ActionNoData, dec_Reason := ''missing-vpn-labels'', dec_BaseDomain := baseDomain\<rparr>
              else if int (length labels) < minLabelLength m
              then d\<lparr>dec_Action := ActionNoData, dec_Reason := ''labels-too-short'', dec_BaseDomain := baseDomain,
                     dec_Labels := labels\<rparr>
              else d\<lparr>dec_Action := ActionProcess, dec_Reason := ''matched-vpn-domain'', dec_BaseDomain := baseDomain,
                     dec_Labels := labels\<rparr>)"

section \<open>Names as lists of labels\<close>

lemma LastIndexByte_None: "LastIndexByte s c = None \<longleftrightarrow> c \<notin> set s"
  by (simp add: LastIndexByte_def)

lemma LastIndexByte_SomeE:
  assumes "LastIndexByte s c = Some i"
  obtains p l where "s = p @ c # l" "c \<notin> set l" "i = length p"
proof -
  from assms have "c \<in> set s" by (simp add: LastIndexByte_def split: if_splits)
  then obtain p l where "s = p @ c # l" "c \<notin> set l" by (meson split_list_last)
  with assms that LastIndexByte_append [of c l p] show thesis by auto
qed

lemma last_dot_cases:
  obtains "dot \<notin> set s" "LastIndexByte s dot = None"
  | p l where "s = p @ dot # l" "dot \<notin> set l" "LastIndexByte s dot = Some (length p)"
  by (metis LastIndexByte_None LastIndexByte_SomeE not_None_eq)

text \<open>The labels the loops visit, from the right; an empty label at the front is not visited.\<close>

function walk_labels :: "gostring \<Rightarrow> gostring list" where
  "walk_labels s =
     (if s = [] then []
      else case LastIndexByte s dot of
          None \<Rightarrow> [s]
        | Some i \<Rightarrow> drop (i + 1) s # walk_labels (take i s))"
  by pat_completeness auto
termination
  by (relation "measure length") (auto simp: LastIndexByte_def split: if_splits)

declare walk_labels.simps [simp del]

lemma walk_labels_simps:
  "walk_labels [] = []"
  "s \<noteq> [] \<Longrightarrow> dot \<notin> set s \<Longrightarrow> walk_labels s = [s]"
  "dot \<notin> set l \<Longrightarrow> walk_labels (p @ dot # l) = l # walk_labels p"
  by (simp_all add: walk_labels.simps [of "[]"] walk_labels.simps [of s] walk_labels.simps [of "p @ dot # l"]
      LastIndexByte_None [THEN iffD2] LastIndexByte_append)

lemma walk_labels_induct [case_names Nil label dotted]:
  assumes "P []" "\<And>s. s \<noteq> [] \<Longrightarrow> dot \<notin> set s \<Longrightarrow> P s" "\<And>p l. dot \<notin> set l \<Longrightarrow> P p \<Longrightarrow> P (p @ dot # l)"
  shows "P s"
proof (induction s rule: measure_induct_rule [of length])
  case (less s)
  show ?case
  proof (cases s rule: last_dot_cases)
    case 1
    then show ?thesis using assms(1,2) by (cases "s = []") auto
  next
    case (2 p l)
    then show ?thesis using assms(3) less [of p] by simp
  qed
qed

definition starts_plain :: "gostring \<Rightarrow> bool" where
  "starts_plain d \<longleftrightarrow> d \<noteq> [] \<and> hd d \<noteq> dot"

lemma starts_plain_append [simp]: "p \<noteq> [] \<Longrightarrow> starts_plain (p @ q) = starts_plain p"
  by (simp add: starts_plain_def)

lemma starts_plain_dot [simp]: "\<not> starts_plain (dot # l)" "\<not> starts_plain []"
  by (simp_all add: starts_plain_def)

lemma walk_labels_append: "starts_plain d \<Longrightarrow> walk_labels (x @ dot # d) = walk_labels d @ walk_labels x"
proof (induction d rule: walk_labels_induct)
  case (dotted p l)
  then have "p \<noteq> []" by auto
  with dotted have "walk_labels (x @ dot # p) = walk_labels p @ walk_labels x" by simp
  with dotted(1) walk_labels_simps(3) [OF dotted(1), of "x @ dot # p"] show ?case by (simp add: walk_labels_simps)
qed (simp_all add: walk_labels_simps)

lemma walk_labels_join: "starts_plain d \<Longrightarrow> join_labels (rev (walk_labels d)) = d \<and> walk_labels d \<noteq> []"
proof (induction d rule: walk_labels_induct)
  case (dotted p l)
  then have p: "p \<noteq> []" by auto
  with dotted have "join_labels (rev (walk_labels p)) = p" "walk_labels p \<noteq> []" by simp_all
  then show ?case using dotted(1) join_labels_append [of "rev (walk_labels p)" "[l]"] by (simp add: walk_labels_simps)
qed (simp_all add: walk_labels_simps)

lemma walk_labels_inj: "starts_plain d \<Longrightarrow> starts_plain d' \<Longrightarrow> walk_labels d = walk_labels d' \<Longrightarrow> d = d'"
  by (metis walk_labels_join)

text \<open>Where the \<open>k\<close>th visited label starts.\<close>

fun label_pos :: "gostring list \<Rightarrow> nat \<Rightarrow> nat \<Rightarrow> nat" where
  "label_pos ls n 0 = n + 1"
| "label_pos [] n (Suc k) = n"
| "label_pos (l # ls) n (Suc 0) = n - length l"
| "label_pos (l # ls) n (Suc (Suc k)) = label_pos ls (n - length l - 1) (Suc k)"

definition ends_in :: "gostring \<Rightarrow> gostring \<Rightarrow> bool" where
  "ends_in r d \<longleftrightarrow> r = d \<or> (\<exists>x. r = x @ dot # d)"

lemma ends_in_prefix: "starts_plain d \<Longrightarrow> ends_in r d \<Longrightarrow> \<exists>ls. walk_labels r = walk_labels d @ ls"
  by (auto simp: ends_in_def walk_labels_append)

lemma label_pos_suffix:
  assumes "0 < k" "k \<le> length (walk_labels r)" "starts_plain d" "take k (walk_labels r) = walk_labels d"
  shows "ends_in r d \<and> label_pos (walk_labels r) (length r) k = length r - length d"
  using assms
proof (induction r arbitrary: k d rule: walk_labels_induct)
  case Nil
  then show ?case by (simp add: walk_labels_simps)
next
  case (label s)
  then have "k = 1" "walk_labels d = [s]" by (auto simp: walk_labels_simps)
  with label have "d = s" using walk_labels_join [of d] by simp
  with \<open>k = 1\<close> label show ?case by (simp add: walk_labels_simps ends_in_def)
next
  case (dotted p l)
  note w = walk_labels_simps(3) [OF dotted(1), of p]
  show ?case
  proof (cases "k = 1")
    case True
    with dotted.prems w have "walk_labels d = [l]" by simp
    then have "d = l" using walk_labels_join [OF dotted.prems(3)] by simp
    with True show ?thesis by (auto simp: w ends_in_def)
  next
    case False
    then obtain k' where k: "k = Suc k'" "0 < k'" using dotted.prems(1) by (cases k) auto
    have wd: "walk_labels d = l # take k' (walk_labels p)" using dotted.prems(4) by (simp add: k w)
    obtain d' where d: "d = d' @ dot # l"
    proof (cases d rule: last_dot_cases)
      case 1
      with wd dotted.prems(2,3) k show thesis by (simp add: walk_labels_simps w starts_plain_def)
    next
      case (2 q m)
      with wd that show thesis by (simp add: walk_labels_simps)
    qed
    have "walk_labels d' = take k' (walk_labels p)" using wd dotted(1) by (simp add: d walk_labels_simps)
    moreover have "starts_plain d'"
    proof (cases "d' = []")
      case True
      with d dotted.prems(3) show ?thesis by simp
    qed (use d dotted.prems(3) in simp)
    ultimately have "ends_in p d' \<and> label_pos (walk_labels p) (length p) k' = length p - length d'"
      using dotted.IH [OF k(2), of d'] dotted.prems(2) by (simp add: k w)
    moreover obtain k'' where "k' = Suc k''" using k(2) by (cases k') auto
    ultimately show ?thesis by (auto simp: d k w ends_in_def)
  qed
qed

section \<open>The trie\<close>

text \<open>The name stored at the end of a path; the empty name stands for none.\<close>

fun lookup_path :: "domainNode \<Rightarrow> gostring list \<Rightarrow> gostring" where
  "lookup_path node [] = node_domain node"
| "lookup_path node (l # ls) = (case node_children node l of None \<Rightarrow> [] | Some c \<Rightarrow> lookup_path c ls)"

lemma lookup_empty_node [simp]: "lookup_path empty_node ls = []"
  by (cases ls) (simp_all add: empty_node_def)

lemma insertDomain_steps:
  "insertDomain [] d node = DomainNode (node_children node) d"
  "s \<noteq> [] \<Longrightarrow> dot \<notin> set s \<Longrightarrow> insertDomain s d node =
     DomainNode ((node_children node)(s \<mapsto> DomainNode (node_children (case node_children node s of None \<Rightarrow> empty_node | Some c \<Rightarrow> c)) d))
       (node_domain node)"
  "dot \<notin> set l \<Longrightarrow> insertDomain (p @ dot # l) d node =
     DomainNode ((node_children node)(l \<mapsto> insertDomain p d (case node_children node l of None \<Rightarrow> empty_node | Some c \<Rightarrow> c)))
       (node_domain node)"
  by (simp_all add: insertDomain.simps [of "[]"] insertDomain.simps [of s] insertDomain.simps [of "p @ dot # l"]
      LastIndexByte_None [THEN iffD2] LastIndexByte_append Let_def)

lemma lookup_insertDomain:
  "lookup_path (insertDomain s d node) ls = (if ls = walk_labels s then d else lookup_path node ls)"
proof (induction s arbitrary: node ls rule: walk_labels_induct)
  case Nil
  then show ?case by (cases ls) (simp_all add: insertDomain_steps walk_labels_simps)
next
  case (label s)
  show ?case
  proof (cases ls)
    case (Cons m ms)
    then show ?thesis
      using label by (cases ms) (auto simp: insertDomain_steps walk_labels_simps empty_node_def split: option.splits)
  qed (use label in \<open>simp add: insertDomain_steps walk_labels_simps\<close>)
next
  case (dotted p l)
  then show ?case
    by (cases ls) (auto simp: insertDomain_steps walk_labels_simps split: option.splits)
qed

text \<open>Names that do not start with a dot have different paths, so each is found at its own.\<close>

lemma lookup_foldl_insert:
  assumes "\<forall>d\<in>set ds. starts_plain d" "starts_plain d \<or> d = []"
  shows "lookup_path (foldl (\<lambda>rootNode domain. insertDomain domain domain rootNode) node ds) ls = d \<longleftrightarrow>
    (if \<exists>x\<in>set ds. walk_labels x = ls then d \<in> set ds \<and> walk_labels d = ls else lookup_path node ls = d)"
  using assms(1)
proof (induction ds arbitrary: node)
  case (Cons x ds)
  then have "lookup_path (foldl (\<lambda>rootNode domain. insertDomain domain domain rootNode) (insertDomain x x node) ds) ls = d \<longleftrightarrow>
      (if \<exists>y\<in>set ds. walk_labels y = ls then d \<in> set ds \<and> walk_labels d = ls
       else lookup_path (insertDomain x x node) ls = d)" by simp
  moreover have "x = d" if "walk_labels x = walk_labels d" "starts_plain d"
    using that Cons.prems walk_labels_inj by simp
  moreover have "walk_labels x \<noteq> []" using Cons.prems walk_labels_join by simp
  moreover have "\<forall>y\<in>set ds. walk_labels y = walk_labels x \<longrightarrow> y = x"
    using Cons.prems walk_labels_inj by simp
  ultimately show ?case
    using assms(2) Cons.prems by (auto simp: lookup_insertDomain walk_labels_simps)
qed simp

lemma lookup_buildDomainTrie:
  assumes "\<forall>d\<in>set ds. starts_plain d" "buildDomainTrie ds = Some node"
  shows "lookup_path node ls \<noteq> [] \<longleftrightarrow> (\<exists>d\<in>set ds. walk_labels d = ls)"
    and "d \<in> set ds \<Longrightarrow> lookup_path node (walk_labels d) = d"
  using lookup_foldl_insert [OF assms(1), of "[]" empty_node ls] lookup_foldl_insert [OF assms(1), of d empty_node "walk_labels d"]
    assms by (auto simp: buildDomainTrie_def walk_labels_simps split: if_splits)

section \<open>The walk\<close>

lemma walkTrie_steps:
  "walkTrie [] node b m = (b, m)"
  "s \<noteq> [] \<Longrightarrow> dot \<notin> set s \<Longrightarrow> walkTrie s node b m =
     (case node_children node s of
        None \<Rightarrow> (b, m) | Some c \<Rightarrow> if node_domain c \<noteq> [] then (node_domain c, 0) else (b, m))"
  "dot \<notin> set l \<Longrightarrow> walkTrie (p @ dot # l) node b m =
     (case node_children node l of
        None \<Rightarrow> (b, m)
      | Some c \<Rightarrow> if node_domain c \<noteq> [] then walkTrie p c (node_domain c) (int (length p + 1)) else walkTrie p c b m)"
  by (simp_all add: walkTrie.simps [of "[]"] walkTrie.simps [of s] walkTrie.simps [of "p @ dot # l"]
      LastIndexByte_None [THEN iffD2] LastIndexByte_append Let_def split: option.splits)

text \<open>The walk ends with the longest prefix of the visited labels that has a name, if there is one.\<close>

fun longest_path :: "domainNode \<Rightarrow> gostring list \<Rightarrow> nat" where
  "longest_path node [] = 0"
| "longest_path node (l # ls) =
     (case node_children node l of
        None \<Rightarrow> 0
      | Some c \<Rightarrow> if longest_path c ls > 0 then Suc (longest_path c ls) else if node_domain c \<noteq> [] then 1 else 0)"

lemma longest_path_named:
  "0 < longest_path node ls \<Longrightarrow> longest_path node ls \<le> length ls \<and> lookup_path node (take (longest_path node ls) ls) \<noteq> []"
  by (induction node ls rule: longest_path.induct) (auto split: option.splits if_splits)

lemma longest_path_max:
  "lookup_path node (take j ls) \<noteq> [] \<Longrightarrow> 0 < j \<Longrightarrow> j \<le> length ls \<Longrightarrow> j \<le> longest_path node ls"
proof (induction node ls arbitrary: j rule: longest_path.induct)
  case (2 node l ls)
  obtain i where j: "j = Suc i" using 2 by (cases j) auto
  obtain c where c: "node_children node l = Some c" "lookup_path c (take i ls) \<noteq> []"
    using "2.prems"(1) by (auto simp: j split: option.splits)
  show ?case
  proof (cases "i = 0")
    case True
    with c show ?thesis by (simp add: j)
  next
    case False
    then have "i \<le> longest_path c ls" using "2.IH" [OF c(1), of i] c(2) "2.prems"(3) by (simp add: j)
    with False c show ?thesis by (simp add: j)
  qed
qed simp

lemma walkTrie_longest:
  "walkTrie r node b m =
     (let k = longest_path node (walk_labels r) in
      if k = 0 then (b, m)
      else (lookup_path node (take k (walk_labels r)), int (label_pos (walk_labels r) (length r) k)))"
proof (induction r arbitrary: node b m rule: walk_labels_induct)
  case Nil
  then show ?case by (simp add: walkTrie_steps walk_labels_simps)
next
  case (label s)
  then show ?case by (simp add: walkTrie_steps walk_labels_simps split: option.splits)
next
  case (dotted p l)
  show ?case
  proof (cases "node_children node l")
    case (Some c)
    then show ?thesis
      using dotted(1) dotted(2) [of c]
      by (cases "longest_path c (walk_labels p)") (simp_all add: walkTrie_steps walk_labels_simps Let_def)
  qed (use dotted(1) in \<open>simp add: walkTrie_steps walk_labels_simps\<close>)
qed

section \<open>The scan\<close>

text \<open>The reference: the first of the ordered domains that the name is or ends in.\<close>

definition scanDomains :: "gostring list \<Rightarrow> gostring \<Rightarrow> gostring \<times> gostring \<times> bool" where
  "scanDomains domains name =
     (case find (\<lambda>d. name = d \<or> has_suffix name (dot # d)) domains of
        None \<Rightarrow> ([], [], False)
      | Some d \<Rightarrow> (d, filter (\<lambda>c. c \<noteq> dot) (take (length name - length d - 1) name), True))"

lemma has_suffix_append: "has_suffix s w \<longleftrightarrow> (\<exists>x. s = x @ w)"
proof
  assume "has_suffix s w"
  then show "\<exists>x. s = x @ w" by (metis append_take_drop_id has_suffix_def)
qed (auto simp: has_suffix_def)

lemma ends_in_iff: "name = d \<or> has_suffix name (dot # d) \<longleftrightarrow> ends_in name d"
  by (simp add: ends_in_def has_suffix_append)

lemma find_sorted_least:
  assumes "sorted (map f xs)" "find P xs = Some x" "y \<in> set xs" "P y"
  shows "f x \<le> f y"
  using assms by (induction xs) (auto split: if_splits)

lemma ends_in_same_length: "ends_in r d \<Longrightarrow> ends_in r d' \<Longrightarrow> length d = length d' \<Longrightarrow> d = d'"
  by (auto simp: ends_in_def)

lemma ends_in_length: "ends_in r d \<Longrightarrow> length d \<le> length r"
  by (auto simp: ends_in_def)

text \<open>The domain at the longest path is the first match of the scan.\<close>

lemma longest_path_scan:
  assumes "sorted (map (\<lambda>d. (- int (length d), d)) ds)" "\<forall>d\<in>set ds. starts_plain d" "buildDomainTrie ds = Some node"
    and "0 < longest_path node (walk_labels r)"
  shows "find (ends_in r) ds = Some (lookup_path node (take (longest_path node (walk_labels r)) (walk_labels r)))"
proof -
  define k where "k = longest_path node (walk_labels r)"
  have k: "0 < k" "k \<le> length (walk_labels r)" "lookup_path node (take k (walk_labels r)) \<noteq> []"
    using longest_path_named [OF assms(4)] assms(4) by (simp_all add: k_def)
  then obtain d where d: "d \<in> set ds" "walk_labels d = take k (walk_labels r)"
    using lookup_buildDomainTrie(1) [OF assms(2,3)] by metis
  have look: "lookup_path node (take k (walk_labels r)) = d"
    using lookup_buildDomainTrie(2) [OF assms(2,3) d(1)] d(2) by simp
  have e: "ends_in r d" using label_pos_suffix [OF k(1,2)] d assms(2) by metis
  then obtain d' where f: "find (ends_in r) ds = Some d'"
    using d(1) by (metis find_None_iff not_None_eq)
  then have d': "d' \<in> set ds" "ends_in r d'" by (auto simp: find_Some_iff)
  have "(- int (length d'), d') \<le> (- int (length d), d)" by (rule find_sorted_least [OF assms(1) f d(1) e])
  then have longer: "length d \<le> length d'" by (auto simp: less_eq_prod_def)
  obtain ls where ls: "walk_labels r = walk_labels d' @ ls" using ends_in_prefix d' assms(2) by blast
  have "lookup_path node (take (length (walk_labels d')) (walk_labels r)) \<noteq> []" "0 < length (walk_labels d')"
    using lookup_buildDomainTrie(2) [OF assms(2,3) d'(1)] d'(1) assms(2) walk_labels_join [of d'] by (auto simp: ls)
  then have "length (walk_labels d') \<le> k"
    unfolding k_def by (intro longest_path_max) (simp_all add: ls)
  then have "take (length (walk_labels d')) (walk_labels d) = walk_labels d'"
    unfolding d(2) by (simp add: ls)
  then have "ends_in d d'"
    using label_pos_suffix [of "length (walk_labels d')" d d'] d' assms(2) walk_labels_join [of d'] d(2) k(2)
      \<open>length (walk_labels d') \<le> k\<close> by auto
  then have "length d' \<le> length d" by (rule ends_in_length)
  with longer e d' have "d' = d" using ends_in_same_length by simp
  with f look show ?thesis by (simp add: k_def)
qed

lemma no_path_scan:
  assumes "\<forall>d\<in>set ds. starts_plain d" "buildDomainTrie ds = Some node" "longest_path node (walk_labels r) = 0"
  shows "find (ends_in r) ds = None"
proof -
  have "\<not> ends_in r d" if "d \<in> set ds" for d
  proof
    assume "ends_in r d"
    with that assms(1) obtain ls where "walk_labels r = walk_labels d @ ls" using ends_in_prefix by blast
    then have "length (walk_labels d) \<le> longest_path node (walk_labels r)"
      using lookup_buildDomainTrie(2) [OF assms(1,2) that] walk_labels_join [of d] that assms(1)
      by (intro longest_path_max) auto
    with assms(3) walk_labels_join [of d] that assms(1) show False by simp
  qed
  then show ?thesis by (simp add: find_None_iff)
qed

lemma strip_filter: "(if dot \<in> set labels then stripLabelDots labels else labels) = filter (\<lambda>c. c \<noteq> dot) labels"
  unfolding stripLabelDots_def by (metis (mono_tags, lifting) filter_True)

lemma findAllowedDomain_scan:
  assumes "sorted (map (\<lambda>d. (- int (length d), d)) ds)" "\<forall>d\<in>set ds. starts_plain d" "r \<noteq> []"
  shows "findAllowedDomain r (buildDomainTrie ds) = scanDomains ds r"
proof (cases "buildDomainTrie ds")
  case None
  then show ?thesis by (simp add: findAllowedDomain_def scanDomains_def buildDomainTrie_def split: if_splits)
next
  case (Some node)
  define k where "k = longest_path node (walk_labels r)"
  show ?thesis
  proof (cases "k = 0")
    case True
    with no_path_scan [OF assms(2) Some] show ?thesis
      using assms(3) by (simp add: findAllowedDomain_def scanDomains_def Some walkTrie_longest ends_in_iff k_def)
  next
    case False
    define d where "d = lookup_path node (take k (walk_labels r))"
    have f: "find (ends_in r) ds = Some d"
      using longest_path_scan [OF assms(1,2) Some] False by (simp add: k_def d_def)
    then have d: "d \<in> set ds" "ends_in r d" by (auto simp: find_Some_iff)
    have "walk_labels d = take k (walk_labels r)"
      using longest_path_named [of node "walk_labels r"] False lookup_buildDomainTrie [OF assms(2) Some] unfolding d_def k_def
      by (metis gr0I)
    then have pos: "label_pos (walk_labels r) (length r) k = length r - length d"
      using label_pos_suffix [of k r d] longest_path_named [of node "walk_labels r"] False d assms(2) by (simp add: k_def)
    have "walkTrie r node [] (- 1) = (d, int (length r - length d))"
      using False pos by (simp add: walkTrie_longest Let_def k_def [symmetric] d_def)
    then show ?thesis
      using assms(3) f ends_in_length [OF d(2)]
      unfolding findAllowedDomain_def scanDomains_def Some option.case ends_in_iff Let_def strip_filter
      by (simp add: nat_diff_distrib)
  qed
qed

section \<open>Decisions\<close>

lemma normalizeDomains_sorted: "sorted (map (\<lambda>d. (- int (length d), d)) (normalizeDomains lowerU domains))"
  unfolding normalizeDomains_def by (rule sorted_sort_key)

lemma Domains_nonempty: "d \<in> set (Domains (New lowerU domains k)) \<Longrightarrow> d \<noteq> []"
  by (auto simp: Domains_def New_def Let_def normalizeDomains_def)

lemma findAllowedDomain_New:
  assumes "\<forall>d\<in>set (Domains (New lowerU domains k)). hd d \<noteq> dot" "name \<noteq> []"
  shows "findAllowedDomain name (matcher_root (New lowerU domains k)) = scanDomains (Domains (New lowerU domains k)) name"
proof -
  have "\<forall>d\<in>set (Domains (New lowerU domains k)). starts_plain d"
    using assms(1) Domains_nonempty by (auto simp: starts_plain_def)
  then show ?thesis
    using findAllowedDomain_scan [OF normalizeDomains_sorted _ assms(2)] by (simp add: Domains_def New_def Let_def)
qed

text \<open>A name under an allowed domain with no allowed domain below it.\<close>

lemma scanDomains_exact:
  assumes "sorted (map (\<lambda>d. (- int (length d), d)) ds)" "d \<in> set ds" "\<forall>d'\<in>set ds. \<not> has_suffix d' (dot # d)"
  shows "scanDomains ds (x @ dot # d) = (d, filter (\<lambda>c. c \<noteq> dot) x, True)"
proof -
  have e: "ends_in (x @ dot # d) d" by (simp add: ends_in_def)
  then obtain d' where f: "find (ends_in (x @ dot # d)) ds = Some d'"
    using assms(2) by (metis find_None_iff not_None_eq)
  then have d': "d' \<in> set ds" "ends_in (x @ dot # d) d'" by (auto simp: find_Some_iff)
  have "(- int (length d'), d') \<le> (- int (length d), d)" by (rule find_sorted_least [OF assms(1) f assms(2) e])
  then have longer: "length d \<le> length d'" by (auto simp: less_eq_prod_def)
  have "\<not> length d < length d'"
  proof
    assume l: "length d < length d'"
    obtain y where y: "x @ dot # d = y @ d'" using d'(2) by (auto simp: ends_in_def)
    then obtain z where "d' = z @ dot # d"
      using l by (auto simp: append_eq_append_conv2 Cons_eq_append_conv)
    with assms(3) d'(1) show False by (auto simp: has_suffix_append)
  qed
  with longer e d' have "d' = d" using ends_in_same_length by simp
  with f show ?thesis by (simp add: scanDomains_def ends_in_iff)
qed

lemma scanDomains_longest:
  assumes "sorted (map (\<lambda>d. (- int (length d), d)) ds)" "d \<in> set ds" "ends_in name d"
  shows "\<exists>d' labels. scanDomains ds name = (d', labels, True) \<and> d' \<in> set ds \<and> length d \<le> length d'"
proof -
  obtain d' where f: "find (ends_in name) ds = Some d'" using assms(2,3) by (metis find_None_iff not_None_eq)
  then have "d' \<in> set ds" by (auto simp: find_Some_iff)
  moreover have "(- int (length d'), d') \<le> (- int (length d), d)" by (rule find_sorted_least [OF assms(1) f assms(2,3)])
  ultimately show ?thesis using f by (auto simp: scanDomains_def ends_in_iff less_eq_prod_def)
qed

section \<open>Properties\<close>

text \<open>
  (C4) Looking a name up in the trie gives what a scan of the ordered domains gives: the allowed domain
  that the name is or ends in, the longest if there are several, and the labels before it without dots.
  No configured domain may start with a dot, which normalisation does not remove.
\<close>

theorem trie_refines_scan:
  assumes "\<forall>d\<in>set (Domains (New lowerU domains k)). hd d \<noteq> dot" "name \<noteq> []"
  shows "findAllowedDomain name (matcher_root (New lowerU domains k)) = scanDomains (Domains (New lowerU domains k)) name \<and>
    (\<forall>d\<in>set (Domains (New lowerU domains k)). name = d \<or> has_suffix name (dot # d) \<longrightarrow>
      (\<exists>d' labels. findAllowedDomain name (matcher_root (New lowerU domains k)) = (d', labels, True) \<and> length d \<le> length d'))"
  using findAllowedDomain_New [OF assms] scanDomains_longest [of "Domains (New lowerU domains k)" _ name]
    normalizeDomains_sorted [of lowerU domains] ends_in_iff
  by (fastforce simp: Domains_def New_def Let_def)

theorem trie_refines_scan_witness:
  "findAllowedDomain [97, 98, 46, 120, 46, 99, 46, 100] (matcher_root (New (\<lambda>s. s) [[68], [99, 46, 100, 46]] 3)) =
     ([99, 46, 100], [97, 98, 120], True)"
proof -
  have d: "Domains (New (\<lambda>s. s) [[68], [99, 46, 100, 46]] 3) = [[99, 46, 100], [100]]" by code_simp
  have "scanDomains [[99, 46, 100], [100]] [97, 98, 46, 120, 46, 99, 46, 100] = ([99, 46, 100], [97, 98, 120], True)"
    by code_simp
  then show ?thesis
    using trie_refines_scan [of "\<lambda>s. s" "[[68], [99, 46, 100, 46]]" 3 "[97, 98, 46, 120, 46, 99, 46, 100]"]
    by (simp add: d dot_def)
qed

end
