(* ===== verification/Uplink.thy ===== *)
theory Uplink
  imports DnsTunnel DomainMatcher
begin

text \<open>
  From the client's question to the labels the server decodes: the label alphabet survives the lower-casing
  of the DNS parser, the name of the question is the frame's labels in front of the tunnel domain, and the
  matcher cuts exactly that domain off.
\<close>

section \<open>The label alphabet\<close>

definition label_char :: "u8 \<Rightarrow> bool" where
  "label_char c \<longleftrightarrow> c \<noteq> dot \<and> toLowerByte c = c"

lemma alphabet_label_char: "i < 36 \<Longrightarrow> label_char (lowerBase36Alphabet ! i)"
proof -
  have "list_all (\<lambda>i. label_char (lowerBase36Alphabet ! i)) [0..<36]" by code_simp
  then show "i < 36 \<Longrightarrow> ?thesis" by (simp add: list_all_iff)
qed

lemma writeBase36Block_chars: "c \<in> set (writeBase36Block v n) \<Longrightarrow> label_char c"
proof (induction n arbitrary: v)
  case (Suc n)
  have "unat (v mod 36) < 36" by (simp add: unat_mod)
  with Suc show ?case using alphabet_label_char by auto
qed simp

lemma EncodeLowerBase36To_chars: "c \<in> set (EncodeLowerBase36To src) \<Longrightarrow> label_char c"
proof (induction src rule: EncodeLowerBase36To.induct)
  case (1 src)
  then show ?case
    using writeBase36Block_chars by (auto simp: EncodeLowerBase36To.simps [of src] split: if_splits)
qed

lemma Encode_chars: "c \<in> set (Encode data) \<Longrightarrow> label_char c"
  using EncodeLowerBase36To_chars
  by (simp add: Encode_def EncodeLowerBase36_def EncodeLowerBase36Bytes_def split: if_splits)

lemma EncryptAndEncode_chars: "EncryptAndEncode c rnd raw = Inr labels \<Longrightarrow> \<forall>x\<in>set labels. label_char x"
  using Encode_chars by (auto simp: EncryptAndEncode_def split: option.splits if_splits sum.splits)

lemma toLowerByte_dot [simp]: "toLowerByte dot = dot"
  by (simp add: toLowerByte_def isUpper_def dot_def)

lemma EncodeDataToLabels_undotted:
  assumes "\<forall>c\<in>set data. label_char c"
  shows "filter (\<lambda>c. c \<noteq> dot) (EncodeDataToLabels data) = data"
    and "map toLowerByte (EncodeDataToLabels data) = EncodeDataToLabels data"
proof -
  have join: "filter (\<lambda>c. c \<noteq> dot) (join_labels ls) = concat ls \<and> map toLowerByte (join_labels ls) = join_labels ls"
    if "\<forall>l\<in>set ls. \<forall>c\<in>set l. label_char c" for ls
    using that
  proof (induction ls rule: join_labels.induct)
    case (2 l)
    then show ?case by (auto simp: label_char_def map_idI intro!: filter_True)
  next
    case (3 l m ls)
    then have "filter (\<lambda>c. c \<noteq> dot) l = l" "map toLowerByte l = l" by (auto simp: label_char_def map_idI intro!: filter_True)
    with 3 show ?case by simp
  qed simp
  have "\<forall>l\<in>set (chunks_of 63 data). \<forall>c\<in>set l. label_char c"
    using assms by (metis UN_I concat_chunks_of set_concat zero_less_numeral)
  from join [OF this] assms
  show "filter (\<lambda>c. c \<noteq> dot) (EncodeDataToLabels data) = data" "map toLowerByte (EncodeDataToLabels data) = EncodeDataToLabels data"
    by (cases "data = []"; simp add: EncodeDataToLabels_join; simp add: EncodeDataToLabels_def)+
qed

section \<open>The tunnel domain\<close>

lemma set_trimLeftSpace: "set (trimLeftSpace s) \<subseteq> set s"
proof (induction s rule: trimLeftSpace.induct)
  case (1 s)
  then show ?case by (subst trimLeftSpace.simps) (auto split: option.splits dest: in_set_dropD)
qed

lemma set_trimRightSpace: "set (trimRightSpace s) \<subseteq> set s"
proof (induction s rule: trimRightSpace.induct)
  case (1 s)
  then show ?case by (subst trimRightSpace.simps) (auto split: option.splits dest: in_set_takeD)
qed

lemma set_TrimSuffix: "set (TrimSuffix s w) \<subseteq> set s"
  by (auto simp: TrimSuffix_def dest: in_set_takeD)

lemma toLowerByte_asciiLower: "toLowerByte c = asciiLower c"
  by (simp add: toLowerByte_def isUpper_def asciiLower_def)

lemma asciiLower_idem [simp]: "asciiLower (asciiLower c) = asciiLower c"
proof (cases "65 \<le> c \<and> c \<le> 90")
  case True
  then have "unat c \<ge> 65" "unat c \<le> 90" by (simp_all add: word_le_nat_alt)
  then have "unat (c + 32) = unat c + 32" by (simp add: unat_word_ariths)
  with True show ?thesis by (simp add: asciiLower_def word_le_nat_alt)
qed (simp add: asciiLower_def)

lemma normalizeDomain_lower:
  assumes "isASCII domain"
  shows "map toLowerByte (normalizeDomain lowerU domain) = normalizeDomain lowerU domain"
proof -
  have "isASCII (TrimSpace domain)"
    using assms set_trimLeftSpace set_trimRightSpace unfolding isASCII_def TrimSpace_def by blast
  then have "ToLower lowerU (TrimSpace domain) = map asciiLower (TrimSpace domain)" by (simp add: ToLower_def)
  then have "\<forall>c\<in>set (normalizeDomain lowerU domain). asciiLower c = c"
    using set_TrimSuffix unfolding normalizeDomain_def by fastforce
  then show ?thesis by (simp add: map_idI toLowerByte_asciiLower)
qed

lemma PrepareTunnelDomainQname_wire:
  assumes "PrepareTunnelDomainQname lowerU domain = Inr (nd, qn)" "TrimSuffix (TrimSpace nd) [dot] = nd"
  obtains ls where "nd = normalizeDomain lowerU domain" "nd \<noteq> []" "qn = wire_name ls" "\<forall>l\<in>set ls. label_ok l"
    "ls \<noteq> []" "join_labels ls = nd"
proof -
  have nd: "nd = normalizeDomain lowerU domain" "nd \<noteq> []" "encodeDNSNameStrict nd = Inr qn"
    using assms(1) by (auto simp: PrepareTunnelDomainQname_def normalizeDomain_def Let_def split: if_splits sum.splits)
  from nd(3) show thesis
  proof (cases rule: encodeDNSNameStrict_wire)
    case 1
    with assms(2) nd(2) show thesis by simp
  next
    case (2 ls)
    with that nd assms(2) plain_label_ok show thesis by metis
  qed
qed

section \<open>Questions\<close>

text \<open>The labels of the frame and those of the domain make one name on the wire.\<close>

lemma tunnel_question_packet:
  assumes "BuildTunnelTXTQuestionPacketPrepared rnd nd (wire_name ls) fr qType edns st = (Inr pkt, st')"
    and "fr \<noteq> []" "\<forall>l\<in>set ls. label_ok l" "ls \<noteq> []"
  obtains requestID where "pkt = question_packet requestID (wire_name (chunks_of 63 fr @ ls)) qType edns"
    "join_labels (chunks_of 63 fr @ ls) = EncodeDataToLabels fr @ dot # join_labels ls"
proof -
  have w: "concat (map (\<lambda>l. of_nat (length l) # l) (chunks_of 63 fr)) @ wire_name ls = wire_name (chunks_of 63 fr @ ls)"
    by (simp add: wire_name_def wire_label_def [abs_def])
  obtain requestID st'' where i: "nextDNSRequestID rnd st = (requestID, st'')" by fastforce
  have "pkt = question_packet requestID (wire_name (chunks_of 63 fr @ ls)) qType edns"
    using assms(1,2) w by (simp add: BuildTunnelTXTQuestionPacketPrepared_def i split: if_splits)
  moreover have "join_labels (chunks_of 63 fr @ ls) = EncodeDataToLabels fr @ dot # join_labels ls"
    using assms(2,4) by (simp add: join_labels_append EncodeDataToLabels_join)
  ultimately show thesis by (rule that)
qed

lemma normalizeParsedDomain_plain: "s \<noteq> [] \<Longrightarrow> last s \<noteq> dot \<Longrightarrow> normalizeParsedDomain s = s"
  by (simp add: normalizeParsedDomain_def last_conv_nth)

lemma TrimSuffix_last:
  assumes "TrimSuffix s [dot] = s" "s \<noteq> []"
  shows "last s \<noteq> dot"
proof
  assume "last s = dot"
  then have "s = butlast s @ [dot]" using assms(2) append_butlast_last_id [of s] by simp
  then have "has_suffix s [dot]" unfolding has_suffix_append by blast
  then have "length (TrimSuffix s [dot]) < length s" using assms(2) by (simp add: TrimSuffix_def)
  with assms(1) show False by simp
qed

text \<open>A TXT question for a name under an allowed domain is to be processed, with the labels in front.\<close>

lemma Match_under:
  assumes "\<forall>d\<in>set (Domains (New lowerU domains k)). hd d \<noteq> dot" "d \<in> set (Domains (New lowerU domains k))"
    and "\<forall>d'\<in>set (Domains (New lowerU domains k)). \<not> has_suffix d' (dot # d)" "last d \<noteq> dot"
    and "lite_HasQuestion p" "lite_FirstQuestion p = \<lparr>q_Name = x @ dot # d, q_Type = DNS_RECORD_TYPE_TXT, q_Class = cl\<rparr>"
    and "labels = filter (\<lambda>c. c \<noteq> dot) x" "labels \<noteq> []" "minLabelLength (New lowerU domains k) \<le> int (length labels)"
  shows "dec_Action (Match (New lowerU domains k) p) = ActionProcess \<and> dec_Labels (Match (New lowerU domains k) p) = labels \<and>
    dec_BaseDomain (Match (New lowerU domains k) p) = d"
proof -
  let ?m = "New lowerU domains k"
  have d: "d \<noteq> []" using assms(2) Domains_nonempty by blast
  have n: "normalizeParsedDomain (x @ dot # d) = x @ dot # d" using d assms(4) by (intro normalizeParsedDomain_plain) auto
  have "scanDomains (Domains ?m) (x @ dot # d) = (d, labels, True)"
    using scanDomains_exact [of "Domains ?m" d x] normalizeDomains_sorted [of lowerU domains] assms(2,3,7)
    by (simp add: Domains_def New_def Let_def)
  then have "findAllowedDomain (x @ dot # d) (matcher_root ?m) = (d, labels, True)"
    using findAllowedDomain_New [OF assms(1), of "x @ dot # d"] by simp
  moreover have "x @ dot # d \<noteq> [dot]" using d by (cases x) auto
  ultimately show ?thesis using assms(5-9) n by (simp add: Match_def Let_def)
qed

section \<open>Labels of a packet\<close>

lemma BuildEncodedAuto_chars:
  "BuildEncodedAuto lib opts c rnd m = Inr labels \<Longrightarrow> \<forall>x\<in>set labels. label_char x"
  using EncryptAndEncode_chars by (auto simp: BuildEncodedAuto_def split: sum.splits if_splits)

section \<open>The whole way\<close>

lemma uplink_path:
  assumes "comp_lib_roundtrip lib" "crypto_lib_ok clib" "rand_full rnd" "NewCodec clib meth rawKey = Inr c"
    and "length (opt_Payload opts) \<le> maxDecompressedSize"
    and "BuildEncodedAuto lib opts (Some c) rnd minSize = Inr labels"
    and "PrepareTunnelDomainQname lowerU domain = Inr (nd, qn)"
    and "isASCII domain" "TrimSpace nd = nd" "TrimSuffix nd [dot] = nd"
    and "BuildTunnelTXTQuestionPacketPrepared rnd nd qn labels DNS_RECORD_TYPE_TXT edns st = (Inr pkt, st')"
    and "m = DomainMatcher.New lowerU domains k" "nd \<in> set (Domains m)" "\<forall>d\<in>set (Domains m). hd d \<noteq> dot \<and> \<not> has_suffix d (dot # nd)"
    and "minLabelLength m \<le> int (length labels)"
  shows "\<exists>p ct. ParseDNSRequestLite pkt = Inr p \<and> dec_Action (Match m p) = ActionProcess \<and> dec_BaseDomain (Match m p) = nd \<and>
    ParseInflatedFromLabels lib (dec_Labels (Match m p)) (Some c) = Inr ((packet_of opts)\<lparr>CompressionType := ct\<rparr>)"
proof -
  obtain ls where ls: "nd = normalizeDomain lowerU domain" "nd \<noteq> []" "qn = wire_name ls" "\<forall>l\<in>set ls. label_ok l"
      "ls \<noteq> []" "join_labels ls = nd"
    using PrepareTunnelDomainQname_wire [OF assms(7)] assms(9,10) by metis
  obtain ct where ct: "ParseInflatedFromLabels lib labels (Some c) = Inr ((packet_of opts)\<lparr>CompressionType := ct\<rparr>)"
    using BuildEncodedAuto_labels [OF assms(1-6)] by blast
  have chars: "\<forall>x\<in>set labels. label_char x" and ne: "labels \<noteq> []"
    using BuildEncodedAuto_chars [OF assms(6)] ct by (auto simp: ParseInflatedFromLabels_def ParseFromLabels_def)
  obtain requestID where q: "pkt = question_packet requestID (wire_name (chunks_of 63 labels @ ls)) DNS_RECORD_TYPE_TXT edns"
      "join_labels (chunks_of 63 labels @ ls) = EncodeDataToLabels labels @ dot # nd"
    using tunnel_question_packet [OF assms(11) [unfolded ls(3)] ne ls(4,5)] ls(6) by metis
  obtain p where p: "ParseDNSRequestLite pkt = Inr p" "lite_HasQuestion p"
      "lite_FirstQuestion p = \<lparr>q_Name = map toLowerByte (join_labels (chunks_of 63 labels @ ls)),
        q_Type = DNS_RECORD_TYPE_TXT, q_Class = DNSQ_CLASS_IN\<rparr>"
    using question_packet_parses [of "chunks_of 63 labels @ ls" requestID DNS_RECORD_TYPE_TXT edns] chunks_label_ok ls(4,5) q(1)
    by (metis Un_iff append_is_Nil_conv set_append)
  have name: "map toLowerByte (join_labels (chunks_of 63 labels @ ls)) = EncodeDataToLabels labels @ dot # nd"
    using EncodeDataToLabels_undotted(2) [OF chars] normalizeDomain_lower [OF assms(8)] ls(1) by (simp add: q(2))
  have "dec_Action (Match m p) = ActionProcess \<and> dec_Labels (Match m p) = labels \<and> dec_BaseDomain (Match m p) = nd"
    unfolding assms(12)
    by (rule Match_under [of lowerU domains k nd p "EncodeDataToLabels labels" DNSQ_CLASS_IN])
      (use assms(12-15) p name ne TrimSuffix_last [OF assms(10) ls(2)] EncodeDataToLabels_undotted(1) [OF chars] in auto)
  with p(1) ct show ?thesis by auto
qed

text \<open>An example.\<close>

definition example_domain :: gostring where
  "example_domain = [116, 46, 99, 111]"

lemma example_labels:
  "case NewCodec example_crypto 0 [] of Inl _ \<Rightarrow> False
   | Inr c \<Rightarrow> (case BuildEncodedAuto run_lib example_options (Some c) example_rand 100 of Inl _ \<Rightarrow> False
       | Inr labels \<Rightarrow> 3 \<le> length labels \<and> length labels \<le> 60)"
  by code_simp

lemma example_qname: "PrepareTunnelDomainQname (\<lambda>s. s) example_domain = Inr (example_domain, [1, 116, 2, 99, 111, 0])"
  by code_simp

lemma example_domains: "Domains (DomainMatcher.New (\<lambda>s. s) [example_domain, [111]] 3) = [example_domain, [111]]"
  by code_simp

lemma example_domain_facts:
  "isASCII example_domain" "TrimSpace example_domain = example_domain" "TrimSuffix example_domain [dot] = example_domain"
  by code_simp+

lemma example_payload: "length (opt_Payload example_options) \<le> maxDecompressedSize"
  by (simp add: example_options_def)

lemma example_question:
  obtains c labels pkt st' where "NewCodec example_crypto 0 [] = Inr c"
    "BuildEncodedAuto run_lib example_options (Some c) example_rand 100 = Inr labels"
    "BuildTunnelTXTQuestionPacketPrepared example_rand example_domain [1, 116, 2, 99, 111, 0] labels
      DNS_RECORD_TYPE_TXT 1232 \<lparr>dnsIDInit = True, dnsIDCounter = 41\<rparr> = (Inr pkt, st')"
    "\<forall>d\<in>set (Domains (DomainMatcher.New (\<lambda>s. s) [example_domain, [111]] 3)). hd d \<noteq> dot \<and> \<not> has_suffix d (dot # example_domain)"
    "example_domain \<in> set (Domains (DomainMatcher.New (\<lambda>s. s) [example_domain, [111]] 3))"
    "minLabelLength (DomainMatcher.New (\<lambda>s. s) [example_domain, [111]] 3) \<le> int (length labels)"
proof -
  obtain c labels where c: "NewCodec example_crypto 0 [] = Inr c"
      "BuildEncodedAuto run_lib example_options (Some c) example_rand 100 = Inr labels" "3 \<le> length labels" "length labels \<le> 60"
    using example_labels by (auto split: sum.splits)
  have len: "encodedQNameLen (int (length labels)) (int (length example_domain)) \<le> 253"
    using encodedQNameLen_mono [of "int (length labels)" 60 4] c(4) by (simp add: example_domain_def encodedQNameLen_def)
  have "example_domain \<noteq> []" "labels \<noteq> []" using c(3) by (auto simp: example_domain_def)
  then obtain pkt st' where q: "BuildTunnelTXTQuestionPacketPrepared example_rand example_domain [1, 116, 2, 99, 111, 0] labels
      DNS_RECORD_TYPE_TXT 1232 \<lparr>dnsIDInit = True, dnsIDCounter = 41\<rparr> = (Inr pkt, st')"
    using len by (simp add: BuildTunnelTXTQuestionPacketPrepared_def nextDNSRequestID_def Let_def)
  let ?m = "DomainMatcher.New (\<lambda>s. s) [example_domain, [111]] 3"
  have m: "example_domain \<in> set (Domains ?m)" "\<forall>d\<in>set (Domains ?m). hd d \<noteq> dot \<and> \<not> has_suffix d (dot # example_domain)"
    "minLabelLength ?m \<le> int (length labels)"
    using c(3) unfolding example_domains
    by (simp_all add: example_domain_def dot_def has_suffix_def) (simp add: DomainMatcher.New_def Let_def)
  show ?thesis by (rule that [OF c(1,2) q m(2,1,3)])
qed

end
