(* ===== verification/Arq.thy ===== *)
theory Arq
  imports Enums
begin

text \<open>
  A reliable stream (\<open>arq/arq.go\<close>): its state, the adaptive timeout, and the close protocol. The fields
  of the Go struct are the fields of the record, with the prefix \<open>a_\<close>; the comments in the source group
  them the same way. What a stream does to its surroundings (packets handed to the enqueuer, the
  local connection, its owner) is appended to the trace \<open>a_out\<close>. The enqueuer is an interface: whether it
  takes a packet is a function of the trace, and which optional interfaces it implements are flags.

  A method is one step: the mutex is released and taken again inside some methods, and what another
  goroutine may do in between is not represented. The clock is the argument \<open>now\<close>; several readings in
  one method give the same instant. A Go map is an association list with distinct keys; a channel of
  capacity one that only carries a signal is a flag. Durations are unbounded integers.
\<close>

section \<open>Data\<close>

datatype StreamState = StateOpen | StateHalfClosedLocal | StateHalfClosedRemote | StateClosing | StateReset
  | StateClosed | StateDraining | StateTimeWait

text \<open>The arguments of \<open>PushTXPacket\<close>.\<close>

record tx =
  tx_priority :: int
  tx_packetType :: u8
  tx_sequenceNum :: u16
  tx_fragmentID :: u8
  tx_totalFragments :: u8
  tx_compressionType :: u8
  tx_ttl :: duration
  tx_payload :: bytes

datatype effect =
    Pushed tx bool
  | RemovedData u16
  | RemovedNack u16
  | ConnClosed
  | ConnWriteClosed
  | Wrote bytes
  | OwnerClosed string

record enqueuer =
  enq_PushTXPacket :: "effect list \<Rightarrow> tx \<Rightarrow> bool"
  enq_removesData :: bool
  enq_removesNack :: bool
  enq_terminalOwner :: bool

record arqDataItem =
  itm_Data :: bytes
  itm_CreatedAt :: time
  itm_LastSentAt :: time
  itm_Dispatched :: bool
  itm_LastNackSentAt :: time
  itm_Retries :: int
  itm_CurrentRTO :: duration
  itm_SampleEligible :: bool
  itm_CompressionType :: u8
  itm_TTL :: duration

record arqControlItem =
  ctl_PacketType :: u8
  ctl_SequenceNum :: u16
  ctl_FragmentID :: u8
  ctl_TotalFragments :: u8
  ctl_AckType :: u8
  ctl_Payload :: bytes
  ctl_Priority :: int
  ctl_CreatedAt :: time
  ctl_LastSentAt :: time
  ctl_Dispatched :: bool
  ctl_Retries :: int
  ctl_CurrentRTO :: duration
  ctl_SampleEligible :: bool
  ctl_TTL :: duration

record adaptiveRTOState =
  srtt :: duration
  rttvar :: duration
  currentBase :: duration
  initialized :: bool

text \<open>The parameters that do not change after construction, but \<open>isVirtual\<close>.\<close>

record arq_tuning =
  a_enqueuer :: enqueuer
  a_mtu :: int
  a_compressionType :: u8
  a_IsClient :: bool
  a_windowSize :: int
  a_receiveWindowSize :: int
  a_limit :: int
  a_rto :: duration
  a_maxRTO :: duration
  a_inactivityTimeout :: duration
  a_dataPacketTTL :: duration
  a_maxDataRetries :: int
  a_terminalDrainTimeout :: duration
  a_terminalAckWait :: duration
  a_enableControlReliability :: bool
  a_controlRto :: duration
  a_controlMaxRto :: duration
  a_controlMaxRetries :: int
  a_controlPacketTTL :: duration
  a_dataNackMaxGap :: int
  a_dataNackInitialDelay :: duration
  a_dataNackRepeatInterval :: duration
  a_rxCap :: nat
  a_isVirtual :: bool

record arq_buffers = arq_tuning +
  a_sndNxt :: u16
  a_rcvNxt :: u16
  a_sndBuf :: "(u16 \<times> arqDataItem) list"
  a_rcvBuf :: "(u16 \<times> bytes) list"
  a_controlSndBuf :: "(u32 \<times> arqControlItem) list"
  a_dataAdaptiveRTO :: adaptiveRTOState
  a_controlAdaptiveRTO :: adaptiveRTOState
  a_firstDataNackSeen :: "(u16 \<times> time) list"
  a_lastDataNackSent :: "(u16 \<times> time) list"
  a_rxChan :: "(u16 \<times> bytes) list"
  a_pendingInbound :: int
  a_windowNotFull :: bool
  a_flushSignal :: bool
  a_out :: "effect list"

record arq = arq_buffers +
  a_ioReady :: bool
  a_streamWorkersStarted :: bool
  a_localConn :: "bool option"
  a_cancelled :: bool
  a_state :: StreamState
  a_closed :: bool
  a_closeReason :: string
  a_lastActivity :: time
  a_closeReadSent :: bool
  a_closeReadReceived :: bool
  a_closeReadAcked :: bool
  a_closeReadSeqSent :: "u16 option"
  a_closeWriteSent :: bool
  a_closeWriteReceived :: bool
  a_closeWriteAcked :: bool
  a_closeWriteSeqSent :: "u16 option"
  a_rstReceived :: bool
  a_rstSent :: bool
  a_rstAcked :: bool
  a_rstSeqSent :: "u16 option"
  a_localWriteClosed :: bool
  a_localWriterBroken :: bool
  a_localWritePending :: bool
  a_stopLocalRead :: bool
  a_deferredClose :: bool
  a_deferredReason :: string
  a_deferredDeadline :: time
  a_deferredPacket :: u8
  a_clientEOFAt :: time
  a_closeReadAckedAt :: time
  a_lastDuplicateAckAt :: time
  a_waitingAck :: bool
  a_waitingAckFor :: u8
  a_ackWaitDeadline :: time
  a_drainProgressAt :: time
  a_drainQueueFailAt :: time
  a_drainQueueFails :: int
  a_drainStallLogged :: bool

record closeOptions =
  opt_Force :: bool
  opt_SendRST :: bool
  opt_SendCloseWrite :: bool
  opt_SendCloseRead :: bool
  opt_AfterDrain :: bool
  opt_CloseTTL :: duration

definition no_options :: closeOptions where
  "no_options = \<lparr>opt_Force = False, opt_SendRST = False, opt_SendCloseWrite = False, opt_SendCloseRead = False,
     opt_AfterDrain = False, opt_CloseTTL = 0\<rparr>"

text \<open>\<open>localConn\<close> is nil or a connection that implements \<open>CloseWrite\<close> or not.\<close>

definition setupControlPacketTypes :: "u8 \<Rightarrow> bool" where
  "setupControlPacketTypes t \<longleftrightarrow> t = PACKET_STREAM_SYN \<or> t = PACKET_SOCKS5_SYN"

definition millisecond :: duration where "millisecond = 1000000"

section \<open>Small utilities\<close>

definition absDuration :: "duration \<Rightarrow> duration" where
  "absDuration d = (if d < 0 then - d else d)"

definition clampDuration :: "duration \<Rightarrow> duration \<Rightarrow> duration \<Rightarrow> duration" where
  "clampDuration v minV maxV = (if v < minV then minV else if v > maxV then maxV else v)"

text \<open>Go's integer division truncates towards zero.\<close>

definition go_div :: "int \<Rightarrow> int \<Rightarrow> int" where
  "go_div x d = (if x < 0 then - (- x div d) else x div d)"

definition updateAdaptiveRTO ::
  "adaptiveRTOState \<Rightarrow> duration \<Rightarrow> duration \<Rightarrow> duration \<Rightarrow> adaptiveRTOState" where
  "updateAdaptiveRTO st sample minRTO maxRTO =
     (let sample = clampDuration sample minRTO maxRTO;
          st = (if \<not> initialized st
                then st\<lparr>srtt := sample, rttvar := go_div sample 2, initialized := True\<rparr>
                else
                  let delta = absDuration (srtt st - sample);
                      st = st\<lparr>rttvar := go_div (3 * rttvar st + delta) 4\<rparr>
                  in st\<lparr>srtt := go_div (7 * srtt st + sample) 8\<rparr>)
      in st\<lparr>currentBase := clampDuration (srtt st + 4 * rttvar st) minRTO maxRTO\<rparr>)"

text \<open>
  \<open>time.Duration(float64(x) * factor)\<close>: a float is a real and each operation rounds with \<open>rnd\<close>; the
  conversion truncates.
\<close>

definition growDuration :: "(real \<Rightarrow> real) \<Rightarrow> duration \<Rightarrow> real \<Rightarrow> duration" where
  "growDuration rnd x factor =
     (let v = rnd (rnd (real_of_int x) * rnd factor) in if v < 0 then \<lceil>v\<rceil> else \<lfloor>v\<rfloor>)"

definition dataRetransmitRTOGrowthFactor :: real where "dataRetransmitRTOGrowthFactor = 135 / 100"
definition controlRetransmitRTOGrowthFactor :: real where "controlRetransmitRTOGrowthFactor = 125 / 100"
definition setupControlRTOGrowthFactor :: real where "setupControlRTOGrowthFactor = 115 / 100"

section \<open>Shared state helpers\<close>

definition PushTXPacket :: "tx \<Rightarrow> 'b arq_buffers_scheme \<Rightarrow> bool \<times> 'b arq_buffers_scheme" where
  "PushTXPacket p a =
     (let ok = enq_PushTXPacket (a_enqueuer a) (a_out a) p in (ok, a\<lparr>a_out := a_out a @ [Pushed p ok]\<rparr>))"

definition signalWindowNotFull :: "'b arq_buffers_scheme \<Rightarrow> 'b arq_buffers_scheme" where
  "signalWindowNotFull a = a\<lparr>a_windowNotFull := True\<rparr>"

definition signalFlushReady :: "'b arq_buffers_scheme \<Rightarrow> 'b arq_buffers_scheme" where
  "signalFlushReady a = a\<lparr>a_flushSignal := True\<rparr>"

definition IsClosed :: "arq \<Rightarrow> bool" where
  "IsClosed a = a_closed a"

definition HasPendingSequence :: "u16 \<Rightarrow> arq \<Rightarrow> bool" where
  "HasPendingSequence sn a \<longleftrightarrow> map_of (a_sndBuf a) sn \<noteq> None"

definition IsReset :: "arq \<Rightarrow> bool" where
  "IsReset a \<longleftrightarrow> a_state a = StateReset \<or> a_rstReceived a \<or> a_rstSent a"

definition setState :: "StreamState \<Rightarrow> arq \<Rightarrow> arq" where
  "setState newState a = a\<lparr>a_state := newState\<rparr>"

definition clearDataNackStateLocked :: "'b arq_buffers_scheme \<Rightarrow> 'b arq_buffers_scheme" where
  "clearDataNackStateLocked a = a\<lparr>a_firstDataNackSeen := [], a_lastDataNackSent := []\<rparr>"

definition clearAllQueues :: "bool \<Rightarrow> 'b arq_buffers_scheme \<Rightarrow> 'b arq_buffers_scheme" where
  "clearAllQueues clearControl a =
     (let a = a\<lparr>a_sndBuf := [], a_rcvBuf := []\<rparr>;
          a = (if clearControl then a\<lparr>a_controlSndBuf := []\<rparr> else a)
      in signalWindowNotFull (clearDataNackStateLocked a))"

text \<open>The loops over the keys of a map call the remover once per key.\<close>

definition removeQueued :: "(u16 \<Rightarrow> effect) \<Rightarrow> u16 list \<Rightarrow> 'b arq_buffers_scheme \<Rightarrow> 'b arq_buffers_scheme" where
  "removeQueued eff sns a = a\<lparr>a_out := a_out a @ map eff sns\<rparr>"

definition clearOutboundStateLocked :: "bool \<Rightarrow> 'b arq_buffers_scheme \<Rightarrow> 'b arq_buffers_scheme" where
  "clearOutboundStateLocked clearControl a =
     (let a = (if enq_removesData (a_enqueuer a) then removeQueued RemovedData (map fst (a_sndBuf a)) a else a);
          a = (if enq_removesNack (a_enqueuer a) then removeQueued RemovedNack (map fst (a_lastDataNackSent a)) a else a);
          a = a\<lparr>a_sndBuf := []\<rparr>;
          a = (if clearControl then a\<lparr>a_controlSndBuf := []\<rparr> else a)
      in signalWindowNotFull (clearDataNackStateLocked a))"

text \<open>
  The loop has no bound in the source; it ends at the first sequence number that is not buffered, which
  exists unless all 65536 are.
\<close>

definition contiguousReadyLocked :: "'b arq_buffers_scheme \<Rightarrow> nat" where
  "contiguousReadyLocked a =
     length (takeWhile (\<lambda>i. map_of (a_rcvBuf a) (a_rcvNxt a + of_nat i) \<noteq> None) [0..<65536])"

definition currentDataBaseRTO :: "'b arq_buffers_scheme \<Rightarrow> duration" where
  "currentDataBaseRTO a =
     (let base = currentBase (a_dataAdaptiveRTO a) in
      if base \<le> 0 then a_rto a else clampDuration base (a_rto a) (a_maxRTO a))"

definition currentControlBaseRTO :: "'b arq_buffers_scheme \<Rightarrow> duration" where
  "currentControlBaseRTO a =
     (let base = currentBase (a_controlAdaptiveRTO a) in
      if base \<le> 0 then a_controlRto a else clampDuration base (a_controlRto a) (a_controlMaxRto a))"

definition noteSuccessfulDataSample :: "duration \<Rightarrow> 'b arq_buffers_scheme \<Rightarrow> 'b arq_buffers_scheme" where
  "noteSuccessfulDataSample sample a =
     a\<lparr>a_dataAdaptiveRTO := updateAdaptiveRTO (a_dataAdaptiveRTO a) sample (a_rto a) (a_maxRTO a)\<rparr>"

definition noteSuccessfulControlSample :: "duration \<Rightarrow> 'b arq_buffers_scheme \<Rightarrow> 'b arq_buffers_scheme" where
  "noteSuccessfulControlSample sample a =
     a\<lparr>a_controlAdaptiveRTO := updateAdaptiveRTO (a_controlAdaptiveRTO a) sample (a_controlRto a) (a_controlMaxRto a)\<rparr>"

definition controlKey :: "u8 \<Rightarrow> u16 \<Rightarrow> u8 \<Rightarrow> u32" where
  "controlKey packetType sequenceNum fragmentID =
     push_bit 24 (ucast packetType) OR push_bit 8 (ucast sequenceNum) OR ucast fragmentID"

definition NoteTXPacketDequeued :: "time \<Rightarrow> u8 \<Rightarrow> u16 \<Rightarrow> u8 \<Rightarrow> 'b arq_buffers_scheme \<Rightarrow> 'b arq_buffers_scheme" where
  "NoteTXPacketDequeued now packetType sequenceNum fragmentID a =
     (if packetType = PACKET_STREAM_DATA \<or> packetType = PACKET_STREAM_RESEND then
        (case map_of (a_sndBuf a) sequenceNum of
           None \<Rightarrow> a
         | Some info \<Rightarrow> a\<lparr>a_sndBuf := AList.update sequenceNum (info\<lparr>itm_LastSentAt := now, itm_Dispatched := True\<rparr>) (a_sndBuf a)\<rparr>)
      else if \<not> a_enableControlReliability a then a
      else
        let key = controlKey packetType sequenceNum fragmentID in
        case map_of (a_controlSndBuf a) key of
          None \<Rightarrow> a
        | Some info \<Rightarrow> a\<lparr>a_controlSndBuf := AList.update key (info\<lparr>ctl_LastSentAt := now, ctl_Dispatched := True\<rparr>) (a_controlSndBuf a)\<rparr>)"

end
