(* ===== verification/ArqClose.thy ===== *)
theory ArqClose
  imports Arq
begin

text \<open>
  The close protocol of a stream: closing the two directions with an acknowledgement each, resetting,
  draining before a terminal packet, and the single place where a stream ends. The control packets that
  are retransmitted until they are acknowledged belong here as well.
\<close>

section \<open>The end of a stream\<close>

definition finalizeClose :: "string \<Rightarrow> arq \<Rightarrow> arq" where
  "finalizeClose reason a =
     (if a_closed a \<or> a_isVirtual a then a
      else
        let a = a\<lparr>a_closeReason := reason, a_closed := True, a_deferredClose := False, a_deferredReason := '''',
                  a_deferredDeadline := 0, a_deferredPacket := 0, a_waitingAck := False, a_waitingAckFor := 0,
                  a_ackWaitDeadline := 0\<rparr>;
            a = (if a_state a = StateReset \<or> a_rstReceived a \<or> a_rstSent a then setState StateReset a
                 else if a_closeReadSent a \<or> a_closeReadReceived a \<or> a_closeWriteSent a \<or> a_closeWriteReceived a
                 then setState StateTimeWait a
                 else setState StateClosing a);
            a = a\<lparr>a_cancelled := True\<rparr>;
            a = (if a_localConn a \<noteq> None then a\<lparr>a_out := a_out a @ [ConnClosed]\<rparr> else a);
            a = clearAllQueues True a
        in if enq_terminalOwner (a_enqueuer a) then a\<lparr>a_out := a_out a @ [OwnerClosed reason]\<rparr> else a)"

definition tryFinalizeClientLocalDisconnect :: "arq \<Rightarrow> arq" where
  "tryFinalizeClientLocalDisconnect a =
     (if a_IsClient a \<and> \<not> a_closed a \<and> a_localWriterBroken a \<and> a_closeWriteAcked a \<and> a_closeReadSent a \<and>
         a_closeReadAcked a \<and> length (a_sndBuf a) = 0 \<and> length (a_rcvBuf a) = 0 \<and> a_pendingInbound a = 0 \<and>
         \<not> a_localWritePending a \<and> \<not> a_waitingAck a \<and> \<not> a_deferredClose a
      then finalizeClose ''client local disconnect completed'' a else a)"

definition tryFinalizeRemoteEOF :: "arq \<Rightarrow> arq" where
  "tryFinalizeRemoteEOF a =
     (let waitingForCloseReadAck = (a_waitingAck a \<and> a_waitingAckFor a = PACKET_STREAM_CLOSE_READ);
          receiveDrained = ((length (a_rcvBuf a) = 0 \<and> a_pendingInbound a = 0) \<or> a_localWriterBroken a);
          writeSideSettled = ((\<not> a_localWriterBroken a \<and> (\<not> a_closeWriteSent a \<or> a_closeWriteAcked a)) \<or>
            (a_localWriterBroken a \<and> (a_closeWriteAcked a \<or> a_closeWriteReceived a)));
          shouldClose = (\<not> a_closed a \<and> a_closeReadReceived a \<and> receiveDrained \<and>
            (\<not> a_localWritePending a \<or> a_localWriterBroken a) \<and>
            (a_closeReadAcked a \<or> (a_closeReadSent a \<and> \<not> waitingForCloseReadAck)) \<and> writeSideSettled)
      in if shouldClose then finalizeClose ''close handshake completed'' a
         else tryFinalizeClientLocalDisconnect a)"

definition tryFinalizePeerResetDrain :: "arq \<Rightarrow> bool \<times> arq" where
  "tryFinalizePeerResetDrain a =
     (if \<not> a_rstReceived a \<or> a_closed a then (False, a)
      else if contiguousReadyLocked a > 0 then (False, signalFlushReady a)
      else if a_localWritePending a \<or> a_pendingInbound a > 0 then (False, a)
      else if length (a_rcvBuf a) > 0
      then (True, finalizeClose ''peer reset received with non-contiguous buffered data'' a)
      else (True, finalizeClose ''peer reset received'' a))"

section \<open>Transitions\<close>

definition MarkCloseReadSent :: "arq \<Rightarrow> arq" where
  "MarkCloseReadSent a =
     (let a = a\<lparr>a_closeReadSent := True\<rparr>;
          a = (if a_closeReadReceived a then setState StateClosing a else setState StateHalfClosedLocal a)
      in tryFinalizeRemoteEOF a)"

definition MarkCloseReadReceived :: "arq \<Rightarrow> arq" where
  "MarkCloseReadReceived a =
     (if a_isVirtual a then a
      else
        let a = a\<lparr>a_closeReadReceived := True\<rparr>;
            a = (if a_closeReadSent a then setState StateClosing a else setState StateHalfClosedRemote a)
        in tryFinalizeRemoteEOF (signalFlushReady a))"

definition markCloseReadAcked :: "time \<Rightarrow> arq \<Rightarrow> arq" where
  "markCloseReadAcked now a =
     (let a = a\<lparr>a_closeReadAcked := True, a_closeReadAckedAt := now\<rparr>
      in if a_closeReadReceived a then setState StateClosing a else a)"

definition MarkCloseWriteSent :: "arq \<Rightarrow> arq" where
  "MarkCloseWriteSent a =
     (let a = a\<lparr>a_closeWriteSent := True, a_localWriterBroken := True, a_localWriteClosed := True, a_rcvBuf := []\<rparr>
      in if a_closeReadReceived a then setState StateClosing a else a)"

definition markCloseWriteAcked :: "arq \<Rightarrow> arq" where
  "markCloseWriteAcked a = a\<lparr>a_closeWriteAcked := True, a_localWriterBroken := True, a_localWriteClosed := True\<rparr>"

definition markLocalWriterBroken :: "arq \<Rightarrow> arq" where
  "markLocalWriterBroken a = a\<lparr>a_localWriterBroken := True, a_localWritePending := False, a_rcvBuf := []\<rparr>"

definition noteClientEOF :: "time \<Rightarrow> arq \<Rightarrow> arq" where
  "noteClientEOF now a = (if a_IsClient a \<and> a_clientEOFAt a = 0 then a\<lparr>a_clientEOFAt := now\<rparr> else a)"

definition halfCloseLocalWriter :: "arq \<Rightarrow> arq" where
  "halfCloseLocalWriter a =
     (if a_localWriteClosed a \<or> a_closed a then a
      else
        let a = a\<lparr>a_localWriteClosed := True\<rparr>
        in case a_localConn a of
             None \<Rightarrow> a
           | Some hasCloseWrite \<Rightarrow> if hasCloseWrite then a\<lparr>a_out := a_out a @ [ConnWriteClosed]\<rparr> else a)"

definition clearWaitingAck :: "u8 \<Rightarrow> arq \<Rightarrow> arq" where
  "clearWaitingAck packetType a =
     (if a_waitingAck a \<and> a_waitingAckFor a = packetType
      then a\<lparr>a_waitingAck := False, a_waitingAckFor := 0, a_ackWaitDeadline := 0\<rparr> else a)"

definition resetDrainTrackingLocked :: "time \<Rightarrow> arq \<Rightarrow> arq" where
  "resetDrainTrackingLocked now a =
     a\<lparr>a_drainProgressAt := now, a_drainQueueFailAt := 0, a_drainQueueFails := 0, a_drainStallLogged := False\<rparr>"

definition noteDrainProgressLocked :: "time \<Rightarrow> arq \<Rightarrow> arq" where
  "noteDrainProgressLocked now a = resetDrainTrackingLocked now a"

definition noteDrainQueueFailure :: "time \<Rightarrow> arq \<Rightarrow> arq" where
  "noteDrainQueueFailure now a =
     (if a_deferredClose a \<or> a_state a = StateDraining
      then a\<lparr>a_drainQueueFailAt := now, a_drainQueueFails := a_drainQueueFails a + 1\<rparr> else a)"

definition clearTrackedControlPacket :: "u8 \<Rightarrow> u16 \<Rightarrow> u8 \<Rightarrow> arq \<Rightarrow> arq" where
  "clearTrackedControlPacket packetType sequenceNum fragmentID a =
     a\<lparr>a_controlSndBuf := AList.delete (controlKey packetType sequenceNum fragmentID) (a_controlSndBuf a)\<rparr>"

definition MarkRstSent :: "arq \<Rightarrow> arq" where
  "MarkRstSent a = setState StateReset (clearAllQueues True (a\<lparr>a_rstSent := True\<rparr>))"

definition MarkRstReceived :: "arq \<Rightarrow> arq" where
  "MarkRstReceived a =
     (if a_isVirtual a then a
      else
        let a = a\<lparr>a_rstReceived := True, a_stopLocalRead := True\<rparr>;
            a = setState StateReset (clearOutboundStateLocked True a)
        in signalFlushReady a)"

definition markRstAcked :: "arq \<Rightarrow> arq" where
  "markRstAcked a = setState StateReset (clearAllQueues True (a\<lparr>a_rstAcked := True\<rparr>))"

section \<open>Control packets\<close>

definition SendControlPacketWithTTL ::
  "time \<Rightarrow> u8 \<Rightarrow> u16 \<Rightarrow> u8 \<Rightarrow> u8 \<Rightarrow> bytes \<Rightarrow> int \<Rightarrow> bool \<Rightarrow> u8 option \<Rightarrow> duration \<Rightarrow> arq \<Rightarrow> bool \<times> arq" where
  "SendControlPacketWithTTL now packetType sequenceNum fragmentID totalFragments payload priority trackForAck customAckType ttl a =
     (let priority = NormalizePacketPriority packetType priority;
          p = \<lparr>tx_priority = priority, tx_packetType = packetType, tx_sequenceNum = sequenceNum, tx_fragmentID = fragmentID,
               tx_totalFragments = totalFragments, tx_compressionType = 0, tx_ttl = ttl, tx_payload = payload\<rparr>
      in
        if \<not> a_enableControlReliability a \<or> \<not> trackForAck then PushTXPacket p a
        else
          case (case customAckType of Some ack \<Rightarrow> Some ack | None \<Rightarrow> ControlAckFor packetType) of
            None \<Rightarrow> (True, a)
          | Some expectedAck \<Rightarrow>
              let key = controlKey packetType sequenceNum fragmentID in
              if map_of (a_controlSndBuf a) key \<noteq> None then (True, a)
              else
                let initialRTO = currentControlBaseRTO a;
                    initialRTO = (if setupControlPacketTypes packetType \<and> 350 * millisecond < initialRTO
                                  then 350 * millisecond else initialRTO);
                    (ok, a) = PushTXPacket p a;
                    item = \<lparr>ctl_PacketType = packetType, ctl_SequenceNum = sequenceNum, ctl_FragmentID = fragmentID,
                            ctl_TotalFragments = totalFragments, ctl_AckType = expectedAck, ctl_Payload = payload,
                            ctl_Priority = priority, ctl_CreatedAt = now,
                            ctl_LastSentAt = (if \<not> ok then now - initialRTO else 0), ctl_Dispatched = (\<not> ok),
                            ctl_Retries = 0, ctl_CurrentRTO = initialRTO, ctl_SampleEligible = True, ctl_TTL = ttl\<rparr>
                in (ok, a\<lparr>a_controlSndBuf := AList.update key item (a_controlSndBuf a)\<rparr>))"

section \<open>Terminal packets\<close>

definition emitTerminalPacketWithTTL :: "time \<Rightarrow> u8 \<Rightarrow> string \<Rightarrow> duration \<Rightarrow> arq \<Rightarrow> arq" where
  "emitTerminalPacketWithTTL now packetType reason ttl a =
     (if a_closed a \<or> a_isVirtual a then a
      else
        let a = a\<lparr>a_closeReason := reason, a_stopLocalRead := True, a_deferredClose := False, a_deferredReason := '''',
                  a_deferredDeadline := 0, a_deferredPacket := 0\<rparr>;
            wait = (\<lambda>a. a\<lparr>a_waitingAck := True, a_waitingAckFor := packetType, a_ackWaitDeadline := now + a_terminalAckWait a\<rparr>)
        in
          if a_waitingAck a \<and> a_waitingAckFor a = packetType then a
          else if packetType = PACKET_STREAM_CLOSE_READ then
            if a_rstSent a \<or> a_rstReceived a \<or> a_closeReadSent a then a
            else
              let a = (if a_closeReadSeqSent a = None then a\<lparr>a_closeReadSeqSent := Some 0\<rparr> else a);
                  seq = the (a_closeReadSeqSent a);
                  a = MarkCloseReadSent (wait a)
              in snd (SendControlPacketWithTTL now PACKET_STREAM_CLOSE_READ seq 0 0 []
                   (DefaultPacketPriority PACKET_STREAM_CLOSE_READ) (a_enableControlReliability a)
                   (Some PACKET_STREAM_CLOSE_READ_ACK) ttl a)
          else if packetType = PACKET_STREAM_CLOSE_WRITE then
            if a_rstReceived a \<or> a_rstSent a \<or> a_closeWriteSent a then a
            else
              let a = (if a_closeWriteSeqSent a = None then a\<lparr>a_closeWriteSeqSent := Some 0\<rparr> else a);
                  seq = the (a_closeWriteSeqSent a);
                  a = MarkCloseWriteSent (wait a)
              in snd (SendControlPacketWithTTL now PACKET_STREAM_CLOSE_WRITE seq 0 0 []
                   (DefaultPacketPriority PACKET_STREAM_CLOSE_WRITE) (a_enableControlReliability a)
                   (Some PACKET_STREAM_CLOSE_WRITE_ACK) ttl a)
          else if packetType = PACKET_STREAM_RST then
            if a_rstReceived a \<or> a_rstSent a then a
            else
              let a = (if a_rstSeqSent a = None then a\<lparr>a_rstSeqSent := Some 0\<rparr> else a);
                  rstSeq = the (a_rstSeqSent a);
                  a = MarkRstSent (wait (clearAllQueues True a))
              in snd (SendControlPacketWithTTL now PACKET_STREAM_RST rstSeq 0 0 []
                   (DefaultPacketPriority PACKET_STREAM_RST) (a_enableControlReliability a)
                   (Some PACKET_STREAM_RST_ACK) ttl a)
          else a)"

text \<open>
  \<open>Close\<close> may defer the packet until the send buffer is empty, and settling a deferred close calls
  \<open>Close\<close> again, but never to defer. The body therefore takes \<open>deferTerminalPacket\<close> as an argument.
\<close>

definition closeBody ::
  "(string \<Rightarrow> u8 \<Rightarrow> arq \<Rightarrow> arq) \<Rightarrow> time \<Rightarrow> string \<Rightarrow> closeOptions \<Rightarrow> arq \<Rightarrow> arq" where
  "closeBody dfr now reason opts a =
     (if a_isVirtual a \<and> \<not> opt_Force opts then a
      else if opt_Force opts \<or> (\<not> opt_SendRST opts \<and> \<not> opt_SendCloseRead opts \<and> \<not> opt_SendCloseWrite opts)
      then finalizeClose reason (a\<lparr>a_isVirtual := False\<rparr>)
      else if opt_SendCloseRead opts then
        if opt_AfterDrain opts then dfr reason PACKET_STREAM_CLOSE_READ a
        else emitTerminalPacketWithTTL now PACKET_STREAM_CLOSE_READ reason (opt_CloseTTL opts) a
      else if opt_SendCloseWrite opts
      then emitTerminalPacketWithTTL now PACKET_STREAM_CLOSE_WRITE reason (opt_CloseTTL opts) a
      else if a_closed a then a
      else if a_rstSent a \<or> a_rstReceived a \<or>
          (a_waitingAck a \<and> a_waitingAckFor a = PACKET_STREAM_RST) \<or>
          (a_deferredClose a \<and> a_deferredPacket a = PACKET_STREAM_RST) then a
      else
        let hasPendingData = (length (a_sndBuf a) > 0);
            a = setState StateReset (a\<lparr>a_closeReason := reason\<rparr>);
            a = a\<lparr>a_deferredClose := False, a_deferredReason := '''', a_deferredDeadline := 0, a_deferredPacket := 0\<rparr>
        in if opt_AfterDrain opts \<and> hasPendingData then dfr reason PACKET_STREAM_RST a
           else emitTerminalPacketWithTTL now PACKET_STREAM_RST reason (opt_CloseTTL opts) a)"

definition settleTerminalDrain :: "time \<Rightarrow> arq \<Rightarrow> arq" where
  "settleTerminalDrain now a =
     (if a_closed a \<or> \<not> a_deferredClose a then a
      else
        let emit = (\<lambda>packetType reason.
              closeBody (\<lambda>_ _ a. a) now reason
                (no_options\<lparr>opt_SendCloseRead := packetType = PACKET_STREAM_CLOSE_READ,
                            opt_SendCloseWrite := packetType = PACKET_STREAM_CLOSE_WRITE,
                            opt_SendRST := packetType = PACKET_STREAM_RST\<rparr>)
                (a\<lparr>a_deferredClose := False, a_deferredReason := '''', a_deferredDeadline := 0, a_deferredPacket := 0\<rparr>))
        in
          if length (a_sndBuf a) = 0 then emit (a_deferredPacket a) (a_deferredReason a)
          else if a_deferredDeadline a \<noteq> 0 \<and> now > a_deferredDeadline a
          then emit PACKET_STREAM_RST (a_deferredReason a @ '' but drain timeout expired'')
          else a)"

definition deferTerminalPacket :: "time \<Rightarrow> string \<Rightarrow> u8 \<Rightarrow> arq \<Rightarrow> arq" where
  "deferTerminalPacket now reason packetType a =
     (if a_closed a \<or> a_isVirtual a then a
      else
        let a = (if a_state a \<noteq> StateReset \<and> a_state a \<noteq> StateClosed then setState StateDraining a else a);
            a = a\<lparr>a_stopLocalRead := True, a_deferredClose := True, a_deferredReason := reason, a_deferredPacket := packetType\<rparr>;
            deadline = now + a_terminalDrainTimeout a;
            a = (if a_deferredDeadline a = 0 \<or> deadline > a_deferredDeadline a then a\<lparr>a_deferredDeadline := deadline\<rparr> else a);
            a = resetDrainTrackingLocked now a
        in if length (a_sndBuf a) = 0 then settleTerminalDrain now a else a)"

definition Close :: "time \<Rightarrow> string \<Rightarrow> closeOptions \<Rightarrow> arq \<Rightarrow> arq" where
  "Close now reason opts a = closeBody (deferTerminalPacket now) now reason opts a"

section \<open>Acknowledgements of control packets\<close>

definition MarkCloseWriteReceived :: "time \<Rightarrow> arq \<Rightarrow> arq" where
  "MarkCloseWriteReceived now a =
     (if a_isVirtual a then a
      else
        let a = a\<lparr>a_closeWriteReceived := True, a_stopLocalRead := True\<rparr>;
            a = (if enq_removesData (a_enqueuer a) then removeQueued RemovedData (map fst (a_sndBuf a)) a else a);
            a = signalWindowNotFull (a\<lparr>a_sndBuf := []\<rparr>)
        in tryFinalizeRemoteEOF (settleTerminalDrain now a))"

definition maybeInitiateClientCloseReadAfterWriterBreak :: "time \<Rightarrow> arq \<Rightarrow> arq" where
  "maybeInitiateClientCloseReadAfterWriterBreak now a =
     (let shouldInitiate = (a_IsClient a \<and> a_localWriterBroken a \<and> \<not> a_closed a \<and> \<not> a_rstSent a \<and>
            \<not> a_rstReceived a \<and> \<not> a_closeReadSent a \<and> \<not> a_closeReadReceived a);
          pendingOutbound = (length (a_sndBuf a) > 0 \<or> a_localWritePending a)
      in if \<not> shouldInitiate then a
         else Close now ''Client local endpoint disconnected after write side closed''
           (no_options\<lparr>opt_SendCloseRead := True, opt_AfterDrain := pendingOutbound\<rparr>) a)"

definition handleTrackedPacketTTLExpiry :: "time \<Rightarrow> u8 \<Rightarrow> string \<Rightarrow> arq \<Rightarrow> arq" where
  "handleTrackedPacketTTLExpiry now packetType reason a =
     (if GetPacketCloseStream packetType \<noteq> None \<and> packetType \<noteq> PACKET_STREAM_CLOSE_READ \<and>
         packetType \<noteq> PACKET_STREAM_CLOSE_WRITE
      then finalizeClose reason a
      else Close now reason (no_options\<lparr>opt_SendRST := True\<rparr>) a)"

definition handleTrackedTerminalAck :: "u8 \<Rightarrow> arq \<Rightarrow> bool \<times> arq" where
  "handleTrackedTerminalAck originPtype a =
     (if GetPacketCloseStream originPtype \<noteq> None \<and> originPtype \<noteq> PACKET_STREAM_CLOSE_READ \<and>
         originPtype \<noteq> PACKET_STREAM_CLOSE_WRITE \<and> originPtype \<noteq> PACKET_STREAM_RST
      then (True, finalizeClose (PacketTypeName originPtype @ '' acknowledged'') a)
      else (False, a))"

definition closeReadAcked :: "time \<Rightarrow> arq \<Rightarrow> arq" where
  "closeReadAcked now a = tryFinalizeRemoteEOF (clearWaitingAck PACKET_STREAM_CLOSE_READ (markCloseReadAcked now a))"

definition closeWriteAcked :: "time \<Rightarrow> arq \<Rightarrow> arq" where
  "closeWriteAcked now a =
     tryFinalizeRemoteEOF (maybeInitiateClientCloseReadAfterWriterBreak now
       (clearWaitingAck PACKET_STREAM_CLOSE_WRITE (markCloseWriteAcked a)))"

definition rstAcked :: "arq \<Rightarrow> arq" where
  "rstAcked a = finalizeClose ''RST acknowledged'' (markRstAcked a)"

definition handleWaitingTerminalAck :: "time \<Rightarrow> u8 \<Rightarrow> bool \<Rightarrow> bool \<Rightarrow> bool \<Rightarrow> arq \<Rightarrow> bool \<times> arq" where
  "handleWaitingTerminalAck now ackPacketType isWaitingCloseRead isWaitingCloseWrite isWaitingRst a =
     (if ackPacketType = PACKET_STREAM_CLOSE_READ_ACK \<and> isWaitingCloseRead then (True, closeReadAcked now a)
      else if ackPacketType = PACKET_STREAM_CLOSE_WRITE_ACK \<and> isWaitingCloseWrite then (True, closeWriteAcked now a)
      else if ackPacketType = PACKET_STREAM_RST_ACK \<and> isWaitingRst then (True, rstAcked a)
      else (False, a))"

definition handleTrackedCloseOrResetAck :: "time \<Rightarrow> u8 \<Rightarrow> arq \<Rightarrow> bool \<times> arq" where
  "handleTrackedCloseOrResetAck now originPtype a =
     (if originPtype = PACKET_STREAM_CLOSE_READ then (True, closeReadAcked now a)
      else if originPtype = PACKET_STREAM_CLOSE_WRITE then (True, closeWriteAcked now a)
      else if originPtype = PACKET_STREAM_RST then (True, rstAcked a)
      else (False, a))"

text \<open>
  \<open>info\<close> is the item under the exact key and stays nil when a close packet is only found under another
  sequence number.
\<close>

definition ReceiveControlAck :: "time \<Rightarrow> u8 \<Rightarrow> u16 \<Rightarrow> u8 \<Rightarrow> arq \<Rightarrow> bool \<times> arq" where
  "ReceiveControlAck now ackPacketType sequenceNum fragmentID a =
     (let a = a\<lparr>a_lastActivity := now\<rparr> in
      case ReverseControlAckFor ackPacketType of
        None \<Rightarrow> (False, a)
      | Some originPtype \<Rightarrow>
          let key = controlKey originPtype sequenceNum fragmentID;
              info = map_of (a_controlSndBuf a) key;
              isCloseStreamPacket = (GetPacketCloseStream originPtype \<noteq> None);
              tracked = (info \<noteq> None \<or>
                (isCloseStreamPacket \<and> (\<exists>(_, i) \<in> set (a_controlSndBuf a). ctl_PacketType i = originPtype)));
              waitingFor = a_waitingAckFor a;
              isWaitingCloseRead = (ackPacketType = PACKET_STREAM_CLOSE_READ_ACK \<and> waitingFor = PACKET_STREAM_CLOSE_READ);
              isWaitingCloseWrite = (ackPacketType = PACKET_STREAM_CLOSE_WRITE_ACK \<and> waitingFor = PACKET_STREAM_CLOSE_WRITE);
              isWaitingRst = (ackPacketType = PACKET_STREAM_RST_ACK \<and> waitingFor = PACKET_STREAM_RST)
          in
            if \<not> tracked \<and> \<not> isWaitingCloseRead \<and> \<not> isWaitingCloseWrite \<and> \<not> isWaitingRst then (False, a)
            else
              let sample = (case info of
                      Some i \<Rightarrow> if ctl_SampleEligible i \<and> ctl_Dispatched i \<and> ctl_LastSentAt i \<noteq> 0
                                then Some (time_sub now (ctl_LastSentAt i)) else None
                    | None \<Rightarrow> None);
                  a = (if \<not> tracked then a
                       else if isCloseStreamPacket
                       then a\<lparr>a_controlSndBuf := filter (\<lambda>(_, i). ctl_PacketType i \<noteq> originPtype) (a_controlSndBuf a)\<rparr>
                       else a\<lparr>a_controlSndBuf := AList.delete key (a_controlSndBuf a)\<rparr>);
                  a = (case sample of Some s \<Rightarrow> if tracked then noteSuccessfulControlSample s a else a | None \<Rightarrow> a);
                  (done1, a) = (if tracked then handleTrackedCloseOrResetAck now originPtype a else (False, a))
              in
                if done1 then (True, a)
                else
                  let (done2, a) = (if tracked then handleTrackedTerminalAck originPtype a else (False, a)) in
                  if done2 then (True, a)
                  else
                    let (done3, a) =
                      handleWaitingTerminalAck now ackPacketType isWaitingCloseRead isWaitingCloseWrite isWaitingRst a
                    in if done3 then (True, a) else (tracked, a))"

end
