(* ===== verification/ArqData.thy ===== *)
theory ArqData
  imports ArqClose
begin

text \<open>
  The data plane of a stream: sending what the local application wrote, receiving in any order and
  writing in order, acknowledgements and negative acknowledgements, and the periodic checks that
  retransmit, probe for gaps and enforce the deadlines. The loops of the goroutines are split into their
  iterations: \<open>ioRead\<close> is what \<open>ioLoop\<close> does with the bytes of one read, \<open>ioEnd\<close> what it does after its loop,
  \<open>writeStep\<close> one round of the inner loop of \<open>writeLoop\<close>. Where the code ranges over a map the order is not
  determined; the functions take the association list in the order \<open>ord\<close> gives it.
\<close>

section \<open>Errors of the local connection\<close>

text \<open>An error is what the calls of \<open>errors.Is\<close> and \<open>errors.As\<close> find in it.\<close>

record go_error =
  err_isEOF :: bool
  err_isNetClosed :: bool
  err_isClosedPipe :: bool
  err_netTimeout :: "bool option"
  err_opTryAgain :: "bool option"
  err_isTryAgain :: bool
  err_Error :: string

datatype ioErrorClass = ioErrorFatal | ioErrorTimeout | ioErrorEOF | ioErrorClosed | ioErrorTransient

definition classifyIOError :: "go_error option \<Rightarrow> ioErrorClass" where
  "classifyIOError err =
     (case err of
        None \<Rightarrow> ioErrorFatal
      | Some e \<Rightarrow>
          if err_isEOF e then ioErrorEOF
          else if err_isNetClosed e \<or> err_isClosedPipe e then ioErrorClosed
          else if err_netTimeout e = Some True then ioErrorTimeout
          else if err_opTryAgain e = Some True then ioErrorTransient
          else if err_isTryAgain e then ioErrorTransient
          else ioErrorFatal)"

definition isGracefulCloseInProgress :: "arq \<Rightarrow> bool" where
  "isGracefulCloseInProgress a \<longleftrightarrow>
     a_closed a \<or>
     (a_waitingAck a \<and> (a_waitingAckFor a = PACKET_STREAM_CLOSE_READ \<or> a_waitingAckFor a = PACKET_STREAM_CLOSE_WRITE)) \<or>
     (a_deferredClose a \<and> (a_deferredPacket a = PACKET_STREAM_CLOSE_READ \<or> a_deferredPacket a = PACKET_STREAM_CLOSE_WRITE)) \<or>
     a_state a \<in> {StateHalfClosedLocal, StateHalfClosedRemote, StateClosing, StateDraining, StateTimeWait} \<or>
     a_closeReadSent a \<or> a_closeReadReceived a \<or> a_closeWriteSent a \<or> a_closeWriteReceived a"

section \<open>Packets without payload\<close>

definition bareTX :: "u8 \<Rightarrow> u16 \<Rightarrow> tx" where
  "bareTX packetType sn =
     \<lparr>tx_priority = DefaultPacketPriority packetType, tx_packetType = packetType, tx_sequenceNum = sn, tx_fragmentID = 0,
      tx_totalFragments = 0, tx_compressionType = 0, tx_ttl = 0, tx_payload = []\<rparr>"

section \<open>Sending\<close>

definition windowOpen :: "arq \<Rightarrow> bool" where
  "windowOpen a \<longleftrightarrow> int (length (a_sndBuf a)) < a_limit a \<or> a_closed a"

definition ioRead :: "time \<Rightarrow> bytes \<Rightarrow> arq \<Rightarrow> arq" where
  "ioRead now raw a =
     (let a = a\<lparr>a_lastActivity := now\<rparr>;
          sn = a_sndNxt a;
          a = a\<lparr>a_sndNxt := sn + 1\<rparr>;
          item = \<lparr>itm_Data = raw, itm_CreatedAt = now, itm_LastSentAt = 0, itm_Dispatched = False, itm_LastNackSentAt = 0,
                  itm_Retries = 0, itm_CurrentRTO = currentDataBaseRTO a, itm_SampleEligible = True,
                  itm_CompressionType = a_compressionType a, itm_TTL = 0\<rparr>;
          a = a\<lparr>a_sndBuf := AList.update sn item (a_sndBuf a)\<rparr>;
          (ok, a) = PushTXPacket
            \<lparr>tx_priority = DefaultPacketPriority PACKET_STREAM_DATA, tx_packetType = PACKET_STREAM_DATA, tx_sequenceNum = sn,
             tx_fragmentID = 0, tx_totalFragments = 0, tx_compressionType = a_compressionType a, tx_ttl = 0, tx_payload = raw\<rparr> a
      in
        if ok then a
        else case map_of (a_sndBuf a) sn of
            None \<Rightarrow> a
          | Some info \<Rightarrow> a\<lparr>a_sndBuf := AList.update sn
              (info\<lparr>itm_Dispatched := True, itm_LastSentAt := now - itm_CurrentRTO info\<rparr>) (a_sndBuf a)\<rparr>)"

text \<open>
  How the loop of \<open>ioLoop\<close> is left, and one iteration of it around the call of \<open>Read\<close>: whether to read at all, and
  what an error means. \<open>since\<close> is \<open>transientReadSince\<close>, \<open>n\<close> the number of bytes read with the error.
\<close>

datatype io_outcome = AlreadyHandled | ResetRequired string bool | GracefulEOF string

datatype io_next = IoRead | IoWait | IoContinue time | IoLeave io_outcome

definition ioGuard :: "arq \<Rightarrow> io_next" where
  "ioGuard a =
     (if a_stopLocalRead a \<or> a_closed a then IoLeave AlreadyHandled
      else if \<not> a_ioReady a then IoWait
      else if a_localConn a = None then IoLeave (ResetRequired ''Local connection missing'' False)
      else IoRead)"

abbreviation ioTransientReadBudget :: duration where "ioTransientReadBudget \<equiv> 3 * second"

definition ioError :: "time \<Rightarrow> time \<Rightarrow> nat \<Rightarrow> go_error \<Rightarrow> arq \<Rightarrow> io_next \<times> arq" where
  "ioError now since n err a =
     (case classifyIOError (Some err) of
        ioErrorTimeout \<Rightarrow> (IoContinue 0, a)
      | ioErrorTransient \<Rightarrow>
          if since = 0 then (IoContinue now, a)
          else if time_sub now since > ioTransientReadBudget
          then (IoLeave (ResetRequired (''Repeated transient read errors: '' @ err_Error err) (n > 0)), a)
          else (IoContinue since, a)
      | ioErrorEOF \<Rightarrow> (IoLeave (GracefulEOF ''Local App Closed Connection (EOF)''), noteClientEOF now a)
      | ioErrorClosed \<Rightarrow>
          if isGracefulCloseInProgress a then (IoLeave AlreadyHandled, a)
          else (IoLeave (ResetRequired ''Local connection closed'' (n > 0)), a)
      | ioErrorFatal \<Rightarrow> (IoLeave (ResetRequired (''Read Error: '' @ err_Error err) (n > 0)), a))"

definition ioEnd :: "time \<Rightarrow> io_outcome \<Rightarrow> arq \<Rightarrow> arq" where
  "ioEnd now outcome a =
     (if a_closed a then a
      else case outcome of
          AlreadyHandled \<Rightarrow> a
        | ResetRequired reason afterDrain \<Rightarrow>
            Close now reason (no_options\<lparr>opt_SendRST := True, opt_AfterDrain := afterDrain\<rparr>) a
        | GracefulEOF reason \<Rightarrow>
            Close now reason (no_options\<lparr>opt_SendCloseRead := True, opt_AfterDrain := True\<rparr>) a)"

section \<open>Receiving\<close>

definition needCloseWrite :: "arq \<Rightarrow> bool" where
  "needCloseWrite a \<longleftrightarrow> a_localWriterBroken a \<and> \<not> a_closeWriteSent a \<and>
     \<not> (a_waitingAck a \<and> a_waitingAckFor a = PACKET_STREAM_CLOSE_WRITE) \<and> \<not> a_closed a \<and> \<not> a_rstReceived a \<and> \<not> a_rstSent a"

definition ReceiveData :: "time \<Rightarrow> u16 \<Rightarrow> bytes \<Rightarrow> arq \<Rightarrow> bool \<times> arq" where
  "ReceiveData now sn data a =
     (if a_closed a \<or> a_rstReceived a \<or> a_rstSent a then (False, a)
      else if a_localWriterBroken a then
        (False, if needCloseWrite a
                then Close now ''Inbound data received after local writer closed'' (no_options\<lparr>opt_SendCloseWrite := True\<rparr>) a
                else a)
      else
        let a = a\<lparr>a_pendingInbound := a_pendingInbound a + 1\<rparr> in
        if length (a_rxChan a) < a_rxCap a then (True, a\<lparr>a_rxChan := a_rxChan a @ [(sn, data)]\<rparr>)
        else (False, if a_pendingInbound a > 0 then a\<lparr>a_pendingInbound := a_pendingInbound a - 1\<rparr> else a))"

definition seqBehind :: "u16 \<Rightarrow> u16 \<Rightarrow> bool" where
  "seqBehind base candidate \<longleftrightarrow> candidate \<noteq> base \<and> base - candidate < 32768"

definition pruneDataNackStateLocked :: "u16 \<Rightarrow> 'b arq_buffers_scheme \<Rightarrow> 'b arq_buffers_scheme" where
  "pruneDataNackStateLocked rcvNxt a =
     a\<lparr>a_firstDataNackSeen := filter (\<lambda>(sn, _). \<not> seqBehind rcvNxt sn) (a_firstDataNackSeen a),
       a_lastDataNackSent := filter (\<lambda>(sn, _). \<not> seqBehind rcvNxt sn) (a_lastDataNackSent a)\<rparr>"

definition clearSentDataNack :: "u16 \<Rightarrow> 'b arq_buffers_scheme \<Rightarrow> 'b arq_buffers_scheme" where
  "clearSentDataNack sn a =
     (let a = a\<lparr>a_firstDataNackSeen := AList.delete sn (a_firstDataNackSeen a),
                a_lastDataNackSent := AList.delete sn (a_lastDataNackSent a)\<rparr>
      in if enq_removesNack (a_enqueuer a) then removeQueued RemovedNack [sn] a else a)"

definition shouldSendDataNack :: "u16 \<Rightarrow> time \<Rightarrow> 'b arq_buffers_scheme \<Rightarrow> bool \<times> 'b arq_buffers_scheme" where
  "shouldSendDataNack sn now a =
     (case map_of (a_firstDataNackSeen a) sn of
        None \<Rightarrow> (a_dataNackInitialDelay a \<le> 0, a\<lparr>a_firstDataNackSeen := AList.update sn now (a_firstDataNackSeen a)\<rparr>)
      | Some firstSeenAt \<Rightarrow>
          if a_dataNackInitialDelay a > 0 \<and> time_sub now firstSeenAt < a_dataNackInitialDelay a then (False, a)
          else case map_of (a_lastDataNackSent a) sn of
              None \<Rightarrow> (True, a)
            | Some lastSentAt \<Rightarrow> (time_sub now lastSentAt \<ge> a_dataNackRepeatInterval a, a))"

definition noteDataNackSent :: "u16 \<Rightarrow> time \<Rightarrow> 'b arq_buffers_scheme \<Rightarrow> 'b arq_buffers_scheme" where
  "noteDataNackSent sn now a = a\<lparr>a_lastDataNackSent := AList.update sn now (a_lastDataNackSent a)\<rparr>"

text \<open>The sequence numbers from \<open>sn\<close> on, \<open>n\<close> of them.\<close>

definition seq_range :: "u16 \<Rightarrow> nat \<Rightarrow> u16 list" where
  "seq_range sn n = map (\<lambda>i. sn + of_nat i) [0..<n]"

definition buffered :: "u16 \<Rightarrow> 'b arq_buffers_scheme \<Rightarrow> bool" where
  "buffered sn a \<longleftrightarrow> map_of (a_rcvBuf a) sn \<noteq> None"

text \<open>
  The missing numbers to report: all between the next expected one and \<open>sn\<close> when the gap is within the
  configured span; otherwise the first few, and the highest missing one of the span, which a loop finds
  counting down from the frontier to the next expected number. \<open>maxGap\<close> is positive.
\<close>

fun frontierMissing :: "'b arq_buffers_scheme \<Rightarrow> u16 \<Rightarrow> nat \<Rightarrow> u16 option" where
  "frontierMissing a candidate 0 = (if \<not> buffered candidate a then Some candidate else None)"
| "frontierMissing a candidate (Suc n) =
     (if \<not> buffered candidate a then Some candidate else frontierMissing a (candidate - 1) n)"

definition missingToReport :: "u16 \<Rightarrow> 'b arq_buffers_scheme \<Rightarrow> u16 list" where
  "missingToReport sn a =
     (let rcvNxt = a_rcvNxt a; diff = sn - rcvNxt; windowSpan = word_of_int (a_dataNackMaxGap a) :: u16;
          missing = filter (\<lambda>m. \<not> buffered m a) (seq_range rcvNxt (unat diff))
      in
        if diff \<le> windowSpan then missing
        else
          let sampleCount = max 1 ((a_dataNackMaxGap a + 19) div 20);
              missingSeqs = take (nat sampleCount) missing;
              frontier = rcvNxt + windowSpan - 1
          in missingSeqs @
             (case frontierMissing a frontier (unat (frontier - rcvNxt)) of
                None \<Rightarrow> []
              | Some candidate \<Rightarrow> if candidate \<in> set missingSeqs then [] else [candidate]))"

fun sendNacks :: "bool \<Rightarrow> time \<Rightarrow> u16 list \<Rightarrow> arq \<Rightarrow> arq" where
  "sendNacks noteFailures now [] a = a"
| "sendNacks noteFailures now (missing # rest) a =
     (let (should, a) = shouldSendDataNack missing now a in
      if \<not> should then sendNacks noteFailures now rest a
      else
        let (ok, a) = PushTXPacket (bareTX PACKET_STREAM_DATA_NACK missing) a in
        if \<not> ok then sendNacks noteFailures now rest (if noteFailures then noteDrainQueueFailure now a else a)
        else sendNacks noteFailures now rest (noteDataNackSent missing now a))"

definition maybeSendDataNacks :: "time \<Rightarrow> u16 \<Rightarrow> arq \<Rightarrow> arq" where
  "maybeSendDataNacks now sn a =
     (if a_dataNackMaxGap a \<le> 0 then a
      else if a_closed a then a
      else
        let diff = sn - a_rcvNxt a in
        if diff = 0 \<or> diff \<ge> 32768 then a
        else
          let a = pruneDataNackStateLocked (a_rcvNxt a) a
          in sendNacks True now (missingToReport sn a) a)"

definition processReceivedData :: "time \<Rightarrow> u16 \<Rightarrow> bytes \<Rightarrow> arq \<Rightarrow> arq" where
  "processReceivedData now sn data a =
     (let a = (if a_pendingInbound a > 0 then a\<lparr>a_pendingInbound := a_pendingInbound a - 1\<rparr> else a) in
      if a_localWriterBroken a \<or> a_closeWriteSent a \<or> a_closeWriteAcked a then
        (if needCloseWrite a
         then Close now ''Inbound data received after local writer closed'' (no_options\<lparr>opt_SendCloseWrite := True\<rparr>) a
         else a)
      else
        let a = a\<lparr>a_lastActivity := now\<rparr>;
            diff = sn - a_rcvNxt a
        in
          if diff \<ge> 32768 then snd (PushTXPacket (bareTX PACKET_STREAM_DATA_ACK sn) a)
          else if uint diff > a_receiveWindowSize a then a
          else
            let exists = buffered sn a in
            if \<not> exists \<and> int (length (a_rcvBuf a)) \<ge> a_receiveWindowSize a \<and> sn \<noteq> a_rcvNxt a then a
            else
              let a = (if \<not> exists then a\<lparr>a_rcvBuf := AList.update sn data (a_rcvBuf a)\<rparr> else a);
                  a = snd (PushTXPacket (bareTX PACKET_STREAM_DATA_ACK sn) a);
                  a = (if \<not> exists then clearSentDataNack sn a else a)
              in signalFlushReady (maybeSendDataNacks now sn a))"

text \<open>\<open>rxLoop\<close>: one queued packet is processed; when the stream is cancelled the queue is discarded.\<close>

definition rxStep :: "time \<Rightarrow> arq \<Rightarrow> arq" where
  "rxStep now a =
     (case a_rxChan a of
        [] \<Rightarrow> a
      | (sn, data) # rest \<Rightarrow> processReceivedData now sn data (a\<lparr>a_rxChan := rest\<rparr>))"

definition rxDrain :: "arq \<Rightarrow> arq" where
  "rxDrain a =
     (let drained = int (length (a_rxChan a));
          a = a\<lparr>a_rxChan := []\<rparr>
      in if drained > 0 then a\<lparr>a_pendingInbound := max 0 (a_pendingInbound a - drained)\<rparr> else a)"

definition processReceivedDataBatch :: "time \<Rightarrow> (u16 \<times> bytes) list \<Rightarrow> arq \<Rightarrow> arq" where
  "processReceivedDataBatch now batch a = foldl (\<lambda>a (sn, data). processReceivedData now sn data a) a batch"

section \<open>Writing in order\<close>

text \<open>The loop that takes the contiguous chunks off the receive buffer.\<close>

function takeReady :: "u16 \<Rightarrow> (u16 \<times> bytes) list \<Rightarrow> bytes list \<times> u16 \<times> (u16 \<times> bytes) list" where
  "takeReady rcvNxt rcvBuf =
     (case map_of rcvBuf rcvNxt of
        None \<Rightarrow> ([], rcvNxt, rcvBuf)
      | Some data \<Rightarrow> (case takeReady (rcvNxt + 1) (AList.delete rcvNxt rcvBuf) of (ds, nxt, buf) \<Rightarrow> (data # ds, nxt, buf)))"
  by pat_completeness auto
termination
proof (relation "measure (\<lambda>(_, buf). length buf)", goal_cases)
  case (2 rcvNxt rcvBuf data)
  then have "rcvNxt \<in> fst ` set rcvBuf" by (auto dest: map_of_SomeD intro: rev_image_eqI)
  then show ?case by (auto simp: AList.delete_eq intro!: length_filter_less)
qed simp

declare takeReady.simps [simp del]

abbreviation ioTransientWriteBudget :: nat where "ioTransientWriteBudget \<equiv> 3"

text \<open>
  Writing a chunk: the results of the calls of \<open>Write\<close> are given, how many bytes each took and its error
  if it had one. The chunk is written, the writer is broken, or the results do not say yet.
\<close>

datatype write_end = WriteDone | WriteBroken ioErrorClass string | WriteMore

fun writeChunk :: "bytes \<Rightarrow> nat \<Rightarrow> (nat \<times> go_error option) list \<Rightarrow> bytes \<times> write_end" where
  "writeChunk remaining retries results =
     (if remaining = [] then ([], WriteDone)
      else case results of
          [] \<Rightarrow> ([], WriteMore)
        | (n, err) # results \<Rightarrow>
            let written = take n remaining; remaining = drop n remaining in
            case err of
              None \<Rightarrow> map_prod ((@) written) id (writeChunk remaining retries results)
            | Some e \<Rightarrow>
                let class = classifyIOError (Some e) in
                if (class = ioErrorTimeout \<or> class = ioErrorTransient) \<and> \<not> retries \<ge> ioTransientWriteBudget
                then map_prod ((@) written) id (writeChunk remaining (retries + 1) results)
                else (written, WriteBroken class (err_Error e)))"

declare writeChunk.simps [simp del]

definition brokenReason :: "ioErrorClass \<Rightarrow> string \<Rightarrow> bool \<Rightarrow> string" where
  "brokenReason class err graceful =
     (if class = ioErrorEOF \<or> class = ioErrorClosed then
        if graceful then ''Local App Closed Connection (writer closed during graceful close)''
        else ''Local App Closed Connection (writer closed)''
      else if graceful then ''Local App Write Error during graceful close: '' @ err
      else ''Local App Write Error: '' @ err)"

definition brokenWriter :: "time \<Rightarrow> ioErrorClass \<Rightarrow> string \<Rightarrow> arq \<Rightarrow> arq" where
  "brokenWriter now class err a =
     (let a = markLocalWriterBroken a
      in Close now (brokenReason class err (isGracefulCloseInProgress a)) (no_options\<lparr>opt_SendCloseWrite := True\<rparr>) a)"

text \<open>
  One round of the inner loop of \<open>writeLoop\<close>, in two parts, since the mutex is free while the bytes are
  written: \<open>writeTake\<close> takes the contiguous chunks off the receive buffer or finds that there is nothing
  to write, and \<open>writeFinish\<close> writes them. The first result says whether the goroutine goes on with another
  round, waits, ends, or is still in a call of \<open>Write\<close>.
\<close>

datatype write_next = NextRound | WaitForSignal | WriterExit | WriterBlocked

definition writeTake :: "time \<Rightarrow> arq \<Rightarrow> (write_next + bytes list) \<times> arq" where
  "writeTake now a =
     (if a_closed a then (Inl WriterExit, a)
      else if \<not> a_ioReady a then (Inl WaitForSignal, a)
      else if a_localConn a = None
      then (Inl WriterExit, Close now ''Local connection missing for writer'' (no_options\<lparr>opt_SendRST := True, opt_AfterDrain := True\<rparr>) a)
      else
        let (toWrite, nxt, buf) = takeReady (a_rcvNxt a) (a_rcvBuf a);
            a = a\<lparr>a_rcvNxt := nxt, a_rcvBuf := buf, a_localWritePending := (length toWrite > 0)\<rparr>
        in
          if length toWrite = 0 then
            let a = (if a_closeReadReceived a \<and> a_pendingInbound a = 0 then halfCloseLocalWriter a else a);
                (ended, a) = (if a_rstReceived a then tryFinalizePeerResetDrain a else (False, a))
            in if ended then (Inl WriterExit, a) else (Inl WaitForSignal, tryFinalizeRemoteEOF a)
          else (Inr toWrite, a))"

definition writeFinish :: "time \<Rightarrow> bytes list \<Rightarrow> (nat \<times> go_error option) list \<Rightarrow> arq \<Rightarrow> write_next \<times> arq" where
  "writeFinish now toWrite results a =
     (let (written, end) = writeChunk (concat toWrite) 0 results;
          a = a\<lparr>a_out := a_out a @ [Wrote written]\<rparr>
      in case end of
           WriteMore \<Rightarrow> (WriterBlocked, a)
         | WriteBroken class err \<Rightarrow> (WriterExit, (brokenWriter now class err a)\<lparr>a_localWritePending := False\<rparr>)
         | WriteDone \<Rightarrow>
             let a = a\<lparr>a_localWritePending := False\<rparr>;
                 (ended, a) = tryFinalizePeerResetDrain a
             in if ended then (WriterExit, a) else (NextRound, tryFinalizeRemoteEOF a))"

definition writeStep :: "time \<Rightarrow> (nat \<times> go_error option) list \<Rightarrow> arq \<Rightarrow> write_next \<times> arq" where
  "writeStep now results a =
     (case writeTake now a of
        (Inl next, a) \<Rightarrow> (next, a)
      | (Inr toWrite, a) \<Rightarrow> writeFinish now toWrite results a)"

end
