(* ===== verification/ArqTimer.thy ===== *)
theory ArqTimer
  imports ArqData
begin

text \<open>
  Acknowledgements of data and the periodic checks of a stream (\<open>checkRetransmits\<close> and what it calls), the
  start of its workers, and the constructor.
\<close>

section \<open>Acknowledgements\<close>

definition ReceiveAck :: "time \<Rightarrow> u16 \<Rightarrow> arq \<Rightarrow> bool \<times> arq" where
  "ReceiveAck now sn a =
     (let a = a\<lparr>a_lastActivity := now\<rparr> in
      case map_of (a_sndBuf a) sn of
        None \<Rightarrow> (False, a)
      | Some info \<Rightarrow>
          let sample = (if itm_SampleEligible info \<and> itm_Dispatched info \<and> itm_LastSentAt info \<noteq> 0
                        then Some (time_sub now (itm_LastSentAt info)) else None);
              a = a\<lparr>a_sndBuf := AList.delete sn (a_sndBuf a)\<rparr>;
              a = (if a_deferredClose a \<or> a_state a = StateDraining then noteDrainProgressLocked now a else a);
              a = (if int (length (a_sndBuf a)) < a_limit a then signalWindowNotFull a else a);
              a = (case sample of Some s \<Rightarrow> noteSuccessfulDataSample s a | None \<Rightarrow> a);
              a = (if enq_removesData (a_enqueuer a) then removeQueued RemovedData [sn] a else a);
              a = (if a_closeReadReceived a then tryFinalizeRemoteEOF a else a)
          in (True, settleTerminalDrain now a))"

definition HandleDataNack :: "time \<Rightarrow> u16 \<Rightarrow> arq \<Rightarrow> bool \<times> arq" where
  "HandleDataNack now sn a =
     (if a_closed a \<or> IsReset a then (False, a)
      else
        let a = a\<lparr>a_lastActivity := now\<rparr> in
        case map_of (a_sndBuf a) sn of
          None \<Rightarrow> (False, a)
        | Some info \<Rightarrow>
            let prevNackSentAt = itm_LastNackSentAt info in
            if prevNackSentAt \<noteq> 0 \<and> time_sub now prevNackSentAt < a_dataNackRepeatInterval a then (False, a)
            else
              let a = a\<lparr>a_sndBuf := AList.update sn (info\<lparr>itm_LastNackSentAt := now\<rparr>) (a_sndBuf a)\<rparr>;
                  (ok, a) = PushTXPacket
                    \<lparr>tx_priority = DefaultPacketPriority PACKET_STREAM_RESEND, tx_packetType = PACKET_STREAM_RESEND,
                     tx_sequenceNum = sn, tx_fragmentID = 0, tx_totalFragments = 0,
                     tx_compressionType = itm_CompressionType info, tx_ttl = itm_TTL info, tx_payload = itm_Data info\<rparr> a
              in
                if \<not> ok then
                  (False, a\<lparr>a_sndBuf := AList.update sn (info\<lparr>itm_LastNackSentAt := prevNackSentAt\<rparr>) (a_sndBuf a)\<rparr>)
                else
                  (True, a\<lparr>a_sndBuf := AList.update sn
                     (info\<lparr>itm_LastNackSentAt := now, itm_SampleEligible := False\<rparr>) (a_sndBuf a)\<rparr>))"

definition HandleAckPacket :: "time \<Rightarrow> u8 \<Rightarrow> u16 \<Rightarrow> u8 \<Rightarrow> arq \<Rightarrow> bool \<times> arq" where
  "HandleAckPacket now packetType sequenceNum fragmentID a =
     (if packetType = PACKET_STREAM_DATA_ACK then ReceiveAck now sequenceNum a
      else if ReverseControlAckFor packetType = None then (False, a)
      else ReceiveControlAck now packetType sequenceNum fragmentID a)"

section \<open>Watchdogs\<close>

definition gapRecoveryCandidatesLocked :: "arq \<Rightarrow> u16 list" where
  "gapRecoveryCandidatesLocked a =
     (if a_dataNackMaxGap a \<le> 0 \<or> length (a_rcvBuf a) = 0 then []
      else if buffered (a_rcvNxt a) a then []
      else filter (\<lambda>c. \<not> buffered c a) (seq_range (a_rcvNxt a) (unat (word_of_int (a_dataNackMaxGap a) :: u16))))"

definition runGapRecoveryWatchdog :: "time \<Rightarrow> arq \<Rightarrow> arq" where
  "runGapRecoveryWatchdog now a =
     (if a_dataNackMaxGap a \<le> 0 \<or> a_closed a then a
      else
        let missingSeqs = gapRecoveryCandidatesLocked a in
        if length missingSeqs = 0 then a
        else if time_sub now (a_lastActivity a) < a_dataNackRepeatInterval a then a
        else sendNacks False now missingSeqs (pruneDataNackStateLocked (a_rcvNxt a) a))"

definition runFinalAckWatchdog :: "time \<Rightarrow> arq \<Rightarrow> arq" where
  "runFinalAckWatchdog now a =
     (let shouldAck = (\<not> a_closed a \<and> \<not> a_rstSent a \<and> \<not> a_rstReceived a \<and> a_IsClient a \<and> a_closeReadSent a \<and>
            a_closeReadAcked a \<and> \<not> a_closeReadReceived a \<and> \<not> a_closeWriteSent a \<and> \<not> a_closeWriteAcked a \<and>
            \<not> a_closeWriteReceived a \<and> \<not> a_localWriterBroken a \<and> length (a_rcvBuf a) = 0 \<and> a_pendingInbound a = 0 \<and>
            \<not> a_localWritePending a \<and> a_rcvNxt a > 0 \<and> time_sub now (a_lastActivity a) \<ge> 2 * second \<and>
            (a_lastDuplicateAckAt a = 0 \<or> time_sub now (a_lastDuplicateAckAt a) \<ge> 2 * second))
      in
        if \<not> shouldAck then a
        else
          let ackSN = a_rcvNxt a - 1;
              a = a\<lparr>a_lastDuplicateAckAt := now\<rparr>
          in snd (PushTXPacket (bareTX PACKET_STREAM_DATA_ACK ackSN) a))"

section \<open>Terminal states\<close>

definition handleTerminalRetransmitState :: "time \<Rightarrow> arq \<Rightarrow> bool \<times> arq" where
  "handleTerminalRetransmitState now a =
     (if a_deferredClose a then
        let pending = length (a_sndBuf a);
            shouldClose = (pending = 0);
            shouldAbort = (a_deferredDeadline a \<noteq> 0 \<and> now > a_deferredDeadline a);
            stalledFor = (if a_drainProgressAt a \<noteq> 0 then time_sub now (a_drainProgressAt a) else 0);
            queueBlocked = (a_drainQueueFails a \<ge> 3 \<and> a_drainQueueFailAt a \<noteq> 0 \<and>
              time_sub now (a_drainQueueFailAt a) \<le> 30 * second);
            shouldAbortEarly = (pending > 0 \<and> queueBlocked \<and> stalledFor \<ge> 20 * second);
            a = (if shouldAbortEarly \<and> \<not> a_drainStallLogged a then a\<lparr>a_drainStallLogged := True\<rparr> else a);
            a = (if shouldClose \<or> shouldAbort then settleTerminalDrain now a
                 else if shouldAbortEarly
                 then Close now ''Deferred drain stalled after resend queue pressure'' (no_options\<lparr>opt_SendRST := True\<rparr>) a
                 else a)
        in (a_closed a, a)
      else if a_waitingAck a \<and> a_ackWaitDeadline a \<noteq> 0 \<and> now > a_ackWaitDeadline a then
        if a_waitingAckFor a = PACKET_STREAM_RST then (True, finalizeClose ''Terminal ACK wait timeout'' a)
        else if a_waitingAckFor a = PACKET_STREAM_CLOSE_READ \<or> a_waitingAckFor a = PACKET_STREAM_CLOSE_WRITE
        then (False, Close now ''Close handshake ACK wait timeout'' (no_options\<lparr>opt_SendRST := True\<rparr>) a)
        else (False, a)
      else if a_rstReceived a \<and> \<not> a_closed a then tryFinalizePeerResetDrain a
      else
        let receiveDrainedForCloseWrite = (length (a_rcvBuf a) = 0 \<and> a_pendingInbound a = 0 \<and> \<not> a_localWritePending a);
            peerFinishedSending = (a_closeReadReceived a \<or> a_localWriterBroken a);
            shouldInitiateCloseWriteAfterEOF = (a_IsClient a \<and>
              ((a_clientEOFAt a \<noteq> 0 \<and> time_sub now (a_clientEOFAt a) \<ge> 2 * second) \<or>
               (a_closeReadAckedAt a \<noteq> 0 \<and> time_sub now (a_closeReadAckedAt a) \<ge> 2 * second)) \<and>
              \<not> a_closed a \<and> \<not> a_rstSent a \<and> \<not> a_rstReceived a \<and> a_closeReadSent a \<and> a_closeReadAcked a \<and>
              \<not> a_closeWriteSent a \<and> \<not> a_closeWriteAcked a \<and> \<not> a_closeWriteReceived a \<and>
              \<not> (a_waitingAck a \<and> a_waitingAckFor a = PACKET_STREAM_CLOSE_WRITE) \<and>
              receiveDrainedForCloseWrite \<and> peerFinishedSending)
        in
          if shouldInitiateCloseWriteAfterEOF
          then (False, Close now ''Client close-read grace elapsed'' (no_options\<lparr>opt_SendCloseWrite := True\<rparr>) a)
          else if time_sub now (a_lastActivity a) > a_inactivityTimeout a then
            if length (a_sndBuf a) > 0 \<or> (a_enableControlReliability a \<and> length (a_controlSndBuf a) > 0)
            then (False, a\<lparr>a_lastActivity := now\<rparr>)
            else (True, Close now ''Stream Inactivity Timeout (Dead)'' (no_options\<lparr>opt_SendRST := True\<rparr>) a)
          else (False, a))"

section \<open>Retransmission of data\<close>

type_synonym rtxJob = "u16 \<times> bytes \<times> u8"

datatype rtx_scan = TTLExpired | RetryExceeded | Jobs "rtxJob list"

fun scanRetransmits :: "time \<Rightarrow> bool \<Rightarrow> duration \<Rightarrow> arq \<Rightarrow> (u16 \<times> arqDataItem) list \<Rightarrow> rtxJob list \<Rightarrow> rtx_scan" where
  "scanRetransmits now draining drainRTOCap a [] jobs = Jobs jobs"
| "scanRetransmits now draining drainRTOCap a ((sn, info) # rest) jobs =
     (if itm_TTL info > 0 \<and> time_sub now (itm_CreatedAt info) \<ge> itm_TTL info then TTLExpired
      else if \<not> itm_TTL info > 0 \<and> time_sub now (itm_CreatedAt info) \<ge> a_dataPacketTTL a \<and> itm_Retries info \<ge> a_maxDataRetries a
      then RetryExceeded
      else
        let effectiveRTO = (if draining \<and> itm_CurrentRTO info > drainRTOCap then drainRTOCap else itm_CurrentRTO info) in
        if \<not> itm_Dispatched info \<or> time_sub now (itm_LastSentAt info) < effectiveRTO
        then scanRetransmits now draining drainRTOCap a rest jobs
        else scanRetransmits now draining drainRTOCap a rest (jobs @ [(sn, itm_Data info, itm_CompressionType info)]))"

text \<open>
  The best candidates with their distances, farthest first. A new one is inserted from the end: before
  the entries it beats.
\<close>

definition insertBest :: "rtxJob list \<Rightarrow> nat \<Rightarrow> nat \<Rightarrow> u16 \<Rightarrow> (nat \<times> u16) list \<Rightarrow> (nat \<times> u16) list" where
  "insertBest jobs frontBudget idx dst best =
     (let stays = (\<lambda>(prevIdx, prevDist). prevDist > dst \<or> (prevDist = dst \<and> fst (jobs ! prevIdx) \<le> fst (jobs ! idx)));
          moved = length (takeWhile (\<lambda>e. \<not> stays e) (rev best));
          pos = length best - moved
      in take frontBudget (take pos best @ [(idx, dst)] @ drop pos best))"

definition considerJob :: "u16 \<Rightarrow> rtxJob list \<Rightarrow> nat \<Rightarrow> (nat \<times> u16) list \<Rightarrow> nat \<Rightarrow> (nat \<times> u16) list" where
  "considerJob sndNxt jobs frontBudget best i =
     (let dst = sndNxt - fst (jobs ! i) in
      if length best < frontBudget then insertBest jobs frontBudget i dst best
      else
        let (lastIdx, lastDist) = last best in
        if dst > lastDist \<or> (dst = lastDist \<and> fst (jobs ! i) < fst (jobs ! lastIdx))
        then insertBest jobs frontBudget i dst best else best)"

definition frontBudgetFor :: "int \<Rightarrow> nat \<Rightarrow> nat" where
  "frontBudgetFor windowSize njobs = min (nat (min 64 (max 1 (windowSize div 10)))) njobs"

definition retransmitPriorityKinds :: "rtxJob list \<Rightarrow> 'b arq_buffers_scheme \<Rightarrow> bool list" where
  "retransmitPriorityKinds jobs a =
     (if length jobs = 0 then []
      else if length jobs = 1 then [True]
      else
        let frontBudget = frontBudgetFor (a_windowSize a) (length jobs);
            best = foldl (considerJob (a_sndNxt a) jobs frontBudget) [] [0..<length jobs]
        in map (\<lambda>i. i \<in> fst ` set best) [0..<length jobs])"

definition resendJob ::
  "(real \<Rightarrow> real) \<Rightarrow> time \<Rightarrow> bool \<Rightarrow> duration \<Rightarrow> rtxJob \<times> bool \<Rightarrow> arq \<Rightarrow> arq" where
  "resendJob rnd now draining drainRTOCap jk a =
     (case jk of ((sn, data, compressionType), kind) \<Rightarrow>
        let packetType = (if kind then PACKET_STREAM_RESEND else PACKET_STREAM_DATA);
            (ok, a) = PushTXPacket
              \<lparr>tx_priority = DefaultPacketPriority packetType, tx_packetType = packetType, tx_sequenceNum = sn, tx_fragmentID = 0,
               tx_totalFragments = 0, tx_compressionType = compressionType, tx_ttl = 0, tx_payload = data\<rparr> a
        in
          if \<not> ok then noteDrainQueueFailure now a
          else case map_of (a_sndBuf a) sn of
              None \<Rightarrow> a
            | Some info \<Rightarrow>
                let dataFloor = currentDataBaseRTO a;
                    grownRTO = growDuration rnd (itm_CurrentRTO info) dataRetransmitRTOGrowthFactor;
                    maxRTO = (if draining \<and> a_maxRTO a > drainRTOCap then drainRTOCap else a_maxRTO a)
                in a\<lparr>a_sndBuf := AList.update sn
                     (info\<lparr>itm_LastSentAt := now, itm_Dispatched := False, itm_Retries := itm_Retries info + 1,
                           itm_SampleEligible := False, itm_CurrentRTO := clampDuration grownRTO dataFloor maxRTO\<rparr>) (a_sndBuf a)\<rparr>)"

section \<open>Retransmission of control packets\<close>

fun controlLoop :: "(real \<Rightarrow> real) \<Rightarrow> time \<Rightarrow> (u32 \<times> arqControlItem) list \<Rightarrow> arq \<Rightarrow> arq" where
  "controlLoop rnd now [] a = a"
| "controlLoop rnd now ((key, info) # rest) a =
     (let setup = setupControlPacketTypes (ctl_PacketType info);
          maxRetries = (if setup \<and> a_controlMaxRetries a < 120 then 120 else a_controlMaxRetries a);
          packetTTL = (if setup \<and> a_controlPacketTTL a < 300 * second then 300 * second else a_controlPacketTTL a);
          expiredByTTL = (time_sub now (ctl_CreatedAt info) \<ge> packetTTL);
          exceededRetries = (ctl_Retries info \<ge> maxRetries);
          drop = (\<lambda>a. a\<lparr>a_controlSndBuf := AList.delete key (a_controlSndBuf a)\<rparr>)
      in
        if ctl_TTL info > 0 \<and> time_sub now (ctl_CreatedAt info) \<ge> ctl_TTL info
        then handleTrackedPacketTTLExpiry now (ctl_PacketType info) ''Packet TTL expired'' (drop a)
        else if \<not> ctl_TTL info > 0 \<and> (expiredByTTL \<or> exceededRetries)
        then handleTrackedPacketTTLExpiry now (ctl_PacketType info)
          (if exceededRetries then ''Control packet max retransmissions exceeded'' else ''Control packet expired'') (drop a)
        else if \<not> ctl_Dispatched info \<or> time_sub now (ctl_LastSentAt info) < ctl_CurrentRTO info then controlLoop rnd now rest a
        else
          let (ok, a) = PushTXPacket
            \<lparr>tx_priority = ctl_Priority info, tx_packetType = ctl_PacketType info, tx_sequenceNum = ctl_SequenceNum info,
             tx_fragmentID = ctl_FragmentID info, tx_totalFragments = ctl_TotalFragments info, tx_compressionType = 0,
             tx_ttl = ctl_TTL info, tx_payload = ctl_Payload info\<rparr> a
          in
            if \<not> ok then controlLoop rnd now rest a
            else
              let growth = (if setup then setupControlRTOGrowthFactor else controlRetransmitRTOGrowthFactor);
                  floorRto = (if setup \<and> 350 * millisecond < currentControlBaseRTO a then 350 * millisecond
                              else currentControlBaseRTO a);
                  grownRTO = growDuration rnd (ctl_CurrentRTO info) growth;
                  info = info\<lparr>ctl_LastSentAt := now, ctl_Dispatched := False, ctl_Retries := ctl_Retries info + 1,
                              ctl_SampleEligible := False, ctl_CurrentRTO := clampDuration grownRTO floorRto (a_controlMaxRto a)\<rparr>
              in controlLoop rnd now rest (a\<lparr>a_controlSndBuf := AList.update key info (a_controlSndBuf a)\<rparr>))"

definition checkControlRetransmits ::
  "(real \<Rightarrow> real) \<Rightarrow> ((u32 \<times> arqControlItem) list \<Rightarrow> (u32 \<times> arqControlItem) list) \<Rightarrow> time \<Rightarrow> arq \<Rightarrow> arq" where
  "checkControlRetransmits rnd ordC now a = controlLoop rnd now (ordC (a_controlSndBuf a)) a"

section \<open>The periodic check\<close>

text \<open>What the check does after the watchdogs when the terminal states do not end it.\<close>

definition retransmitPart ::
  "(real \<Rightarrow> real) \<Rightarrow> ((u16 \<times> arqDataItem) list \<Rightarrow> (u16 \<times> arqDataItem) list) \<Rightarrow>
   ((u32 \<times> arqControlItem) list \<Rightarrow> (u32 \<times> arqControlItem) list) \<Rightarrow> time \<Rightarrow> arq \<Rightarrow> arq" where
  "retransmitPart rnd ord ordC now a =
     (let draining = (a_deferredClose a \<or> a_state a = StateDraining);
          drainRTOCap = clampDuration (2 * second) (a_rto a) (a_maxRTO a)
      in case scanRetransmits now draining drainRTOCap a (ord (a_sndBuf a)) [] of
           TTLExpired \<Rightarrow> handleTrackedPacketTTLExpiry now PACKET_STREAM_DATA ''Packet TTL expired'' a
         | RetryExceeded \<Rightarrow> Close now ''Max retransmissions exceeded'' (no_options\<lparr>opt_SendRST := True\<rparr>) a
         | Jobs jobs \<Rightarrow>
             let a = foldl (\<lambda>a jk. resendJob rnd now draining drainRTOCap jk a) a (zip jobs (retransmitPriorityKinds jobs a))
             in if a_enableControlReliability a then checkControlRetransmits rnd ordC now a else a)"

definition checkRetransmits ::
  "(real \<Rightarrow> real) \<Rightarrow> ((u16 \<times> arqDataItem) list \<Rightarrow> (u16 \<times> arqDataItem) list) \<Rightarrow>
   ((u32 \<times> arqControlItem) list \<Rightarrow> (u32 \<times> arqControlItem) list) \<Rightarrow> time \<Rightarrow> arq \<Rightarrow> arq" where
  "checkRetransmits rnd ord ordC now a =
     (if a_closed a then a
      else
        let a = runGapRecoveryWatchdog now a;
            a = runFinalAckWatchdog now a;
            (handled, a) = handleTerminalRetransmitState now a
        in if handled then a else retransmitPart rnd ord ordC now a)"

text \<open>How long \<open>retransmitLoop\<close> sleeps before the next check.\<close>

definition retransmitInterval :: "'b arq_buffers_scheme \<Rightarrow> duration" where
  "retransmitInterval a =
     (let rtoFactor = (if a_enableControlReliability a \<and> a_controlRto a < a_rto a then a_controlRto a else a_rto a);
          baseInterval = max (go_div rtoFactor 3) (50 * millisecond);
          hasPending = (length (a_sndBuf a) > 0 \<or> (a_enableControlReliability a \<and> length (a_controlSndBuf a) > 0))
      in if \<not> hasPending then max (baseInterval * 4) (100 * millisecond) else baseInterval)"

section \<open>Workers\<close>

definition startStreamWorkers :: "arq \<Rightarrow> arq" where
  "startStreamWorkers a =
     (if a_streamWorkersStarted a then a
      else if a_localConn a = None then a
      else signalFlushReady (a\<lparr>a_streamWorkersStarted := True\<rparr>))"

definition SetLocalConn :: "bool \<Rightarrow> arq \<Rightarrow> arq" where
  "SetLocalConn conn a =
     (if a_localConn a \<noteq> None then a
      else
        let a = a\<lparr>a_localConn := Some conn\<rparr>
        in if \<not> a_cancelled a \<and> a_ioReady a then signalFlushReady (startStreamWorkers a) else a)"

definition SetIOReady :: "bool \<Rightarrow> arq \<Rightarrow> arq" where
  "SetIOReady ready a =
     (let changed = (a_ioReady a \<noteq> ready);
          a = a\<lparr>a_ioReady := ready\<rparr>
      in if \<not> changed then a
         else if ready then signalFlushReady (startStreamWorkers a) else a)"

section \<open>Construction\<close>

record arq_config =
  cfg_WindowSize :: int
  cfg_RTO :: real
  cfg_MaxRTO :: real
  cfg_IsVirtual :: bool
  cfg_StartPaused :: bool
  cfg_EnableControlReliability :: bool
  cfg_ControlRTO :: real
  cfg_ControlMaxRTO :: real
  cfg_ControlMaxRetries :: int
  cfg_InactivityTimeout :: real
  cfg_DataPacketTTL :: real
  cfg_MaxDataRetries :: int
  cfg_ControlPacketTTL :: real
  cfg_DataNackMaxGap :: int
  cfg_DataNackInitialDelaySeconds :: real
  cfg_DataNackRepeatSeconds :: real
  cfg_TerminalDrainTimeout :: real
  cfg_TerminalAckWaitTimeout :: real
  cfg_CompressionType :: u8
  cfg_IsClient :: bool
  cfg_InboundQueueSize :: int

definition minF :: "real \<Rightarrow> real \<Rightarrow> real" where
  "minF x y = (if x < y then x else y)"

definition maxF :: "real \<Rightarrow> real \<Rightarrow> real" where
  "maxF x y = (if x > y then x else y)"

definition maxI :: "int \<Rightarrow> int \<Rightarrow> int" where
  "maxI x y = (if x > y then x else y)"

text \<open>\<open>time.Duration(v * float64(time.Second))\<close>.\<close>

definition seconds :: "(real \<Rightarrow> real) \<Rightarrow> real \<Rightarrow> duration" where
  "seconds rnd v = (let x = rnd (v * 1000000000) in if x < 0 then \<lceil>x\<rceil> else \<lfloor>x\<rfloor>)"

definition zero_rto :: adaptiveRTOState where
  "zero_rto = \<lparr>srtt = 0, rttvar = 0, currentBase = 0, initialized = False\<rparr>"

definition NewARQ :: "(real \<Rightarrow> real) \<Rightarrow> time \<Rightarrow> enqueuer \<Rightarrow> bool option \<Rightarrow> int \<Rightarrow> arq_config \<Rightarrow> arq" where
  "NewARQ rnd now enq localConn mtu cfg =
     (let windowSize = max (cfg_WindowSize cfg) 300;
          receiveWindowSize = max windowSize (windowSize * 2);
          lim = max (let x = rnd (rnd (real_of_int windowSize) * rnd (8 / 10)) in \<lfloor>x\<rfloor>) 50;
          userMaxRto = maxF (rnd (5 / 100)) (cfg_MaxRTO cfg);
          userControlMaxRto = maxF (rnd (5 / 100)) (cfg_ControlMaxRTO cfg);
          rto = seconds rnd (minF (maxF (rnd (5 / 100)) (cfg_RTO cfg)) userMaxRto);
          controlRto = seconds rnd (minF (maxF (rnd (5 / 100)) (cfg_ControlRTO cfg)) userControlMaxRto)
      in \<lparr>a_enqueuer = enq, a_mtu = mtu, a_compressionType = cfg_CompressionType cfg, a_IsClient = cfg_IsClient cfg,
          a_windowSize = windowSize, a_receiveWindowSize = receiveWindowSize, a_limit = lim,
          a_rto = rto, a_maxRTO = seconds rnd userMaxRto,
          a_inactivityTimeout = seconds rnd (maxF 120 (cfg_InactivityTimeout cfg)),
          a_dataPacketTTL = seconds rnd (maxF 120 (cfg_DataPacketTTL cfg)),
          a_maxDataRetries = maxI 60 (cfg_MaxDataRetries cfg),
          a_terminalDrainTimeout = seconds rnd (maxF 60 (cfg_TerminalDrainTimeout cfg)),
          a_terminalAckWait = seconds rnd (maxF 30 (cfg_TerminalAckWaitTimeout cfg)),
          a_enableControlReliability = cfg_EnableControlReliability cfg,
          a_controlRto = controlRto, a_controlMaxRto = seconds rnd userControlMaxRto,
          a_controlMaxRetries = maxI 5 (cfg_ControlMaxRetries cfg),
          a_controlPacketTTL = seconds rnd (maxF 120 (cfg_ControlPacketTTL cfg)),
          a_dataNackMaxGap = maxI 0 (cfg_DataNackMaxGap cfg),
          a_dataNackInitialDelay = seconds rnd (maxF 0 (cfg_DataNackInitialDelaySeconds cfg)),
          a_dataNackRepeatInterval = seconds rnd (maxF (rnd (1 / 10)) (cfg_DataNackRepeatSeconds cfg)),
          a_rxCap = (if cfg_InboundQueueSize cfg > 0 then nat (cfg_InboundQueueSize cfg)
                     else if windowSize \<le> 512 then nat (windowSize * 4)
                     else if windowSize \<le> 2048 then nat (windowSize * 2)
                     else nat (windowSize + windowSize div 2)),
          a_isVirtual = cfg_IsVirtual cfg,
          a_sndNxt = 0, a_rcvNxt = 0, a_sndBuf = [], a_rcvBuf = [], a_controlSndBuf = [],
          a_dataAdaptiveRTO = zero_rto\<lparr>currentBase := rto\<rparr>, a_controlAdaptiveRTO = zero_rto\<lparr>currentBase := controlRto\<rparr>,
          a_firstDataNackSeen = [], a_lastDataNackSent = [], a_rxChan = [], a_pendingInbound = 0,
          a_windowNotFull = True, a_flushSignal = False, a_out = [],
          a_ioReady = (\<not> cfg_StartPaused cfg), a_streamWorkersStarted = False, a_localConn = localConn, a_cancelled = False,
          a_state = StateOpen, a_closed = False, a_closeReason = '''', a_lastActivity = now,
          a_closeReadSent = False, a_closeReadReceived = False, a_closeReadAcked = False, a_closeReadSeqSent = None,
          a_closeWriteSent = False, a_closeWriteReceived = False, a_closeWriteAcked = False, a_closeWriteSeqSent = None,
          a_rstReceived = False, a_rstSent = False, a_rstAcked = False, a_rstSeqSent = None,
          a_localWriteClosed = False, a_localWriterBroken = False, a_localWritePending = False, a_stopLocalRead = False,
          a_deferredClose = False, a_deferredReason = '''', a_deferredDeadline = 0, a_deferredPacket = 0,
          a_clientEOFAt = 0, a_closeReadAckedAt = 0, a_lastDuplicateAckAt = 0, a_waitingAck = False, a_waitingAckFor = 0,
          a_ackWaitDeadline = 0, a_drainProgressAt = 0, a_drainQueueFailAt = 0, a_drainQueueFails = 0,
          a_drainStallLogged = False\<rparr>)"

end
