(* ===== verification/ArqContract.thy ===== *)
theory ArqContract
  imports ArqTimer
begin

text \<open>
  What the operations of a stream share. A property \<open>P\<close> of streams that only looks at the buffers, the trace
  and the few flags of \<open>same_core\<close>, and that obeys the laws of the locale below, is kept by every operation: the
  lemmas of the locale say so, one per operation. The laws allow what operations do to the core: hand over
  packets, forget or confirm buffered data, discard what was received, break the writer, end the stream.
  A packet handed over is a control packet (\<open>okctl\<close> of its type) or carries data that may be sent (\<open>okdata\<close>).
\<close>

named_theorems keeps

definition data_type :: "u8 \<Rightarrow> bool" where
  "data_type t \<longleftrightarrow> t = PACKET_STREAM_DATA \<or> t = PACKET_STREAM_RESEND"

definition same_core :: "arq \<Rightarrow> arq \<Rightarrow> bool" where
  "same_core a b \<longleftrightarrow>
     a_enqueuer b = a_enqueuer a \<and> a_sndNxt b = a_sndNxt a \<and> a_rcvNxt b = a_rcvNxt a \<and> a_receiveWindowSize b = a_receiveWindowSize a \<and>
     a_rcvBuf b = a_rcvBuf a \<and> a_sndBuf b = a_sndBuf a \<and> a_controlSndBuf b = a_controlSndBuf a \<and> a_out b = a_out a \<and>
     a_closed b = a_closed a \<and> a_localWriterBroken b = a_localWriterBroken a"

fun quiet :: "effect \<Rightarrow> bool" where
  "quiet (RemovedData _) = True"
| "quiet (RemovedNack _) = True"
| "quiet ConnClosed = True"
| "quiet ConnWriteClosed = True"
| "quiet _ = False"

lemmas core_helpers = signalWindowNotFull_def signalFlushReady_def setState_def clearDataNackStateLocked_def
  clearAllQueues_def clearOutboundStateLocked_def noteSuccessfulDataSample_def noteSuccessfulControlSample_def

lemma set_update_alist: "set (AList.update k v al) \<subseteq> insert (k, v) (set al)"
  by (induction al) auto

lemma set_delete_alist: "set (AList.delete k al) \<subseteq> set al"
  by (auto simp: AList.delete_eq)

lemma scanRetransmits_jobs:
  "scanRetransmits now dr cap a items jobs = Jobs js \<Longrightarrow> (sn, d, c) \<in> set js \<Longrightarrow>
   (sn, d, c) \<in> set jobs \<or> (\<exists>info. (sn, info) \<in> set items \<and> d = itm_Data info)"
proof (induction items arbitrary: jobs)
  case (Cons e items)
  obtain k i where e: "e = (k, i)" by (cases e)
  show ?case
    using Cons.prems Cons.IH [of jobs] Cons.IH [of "jobs @ [(k, itm_Data i, itm_CompressionType i)]"]
    by (fastforce simp: e Let_def split: if_splits)
qed simp

text \<open>When a received packet is added to the buffer.\<close>

definition inserts :: "u16 \<Rightarrow> arq \<Rightarrow> bool" where
  "inserts sn a \<longleftrightarrow>
     \<not> (a_localWriterBroken a \<or> a_closeWriteSent a \<or> a_closeWriteAcked a) \<and> sn - a_rcvNxt a < 32768 \<and>
     uint (sn - a_rcvNxt a) \<le> a_receiveWindowSize a \<and> \<not> buffered sn a \<and>
     (int (length (a_rcvBuf a)) < a_receiveWindowSize a \<or> sn = a_rcvNxt a)"

section \<open>The contract\<close>

locale stream_contract =
  fixes P :: "arq \<Rightarrow> bool" and okdata :: "u16 \<Rightarrow> bytes \<Rightarrow> bool" and okctl :: "u8 \<Rightarrow> bool"
  assumes core: "P a \<Longrightarrow> same_core a b \<Longrightarrow> P b"
    and discard [keeps]: "P a \<Longrightarrow> P (a\<lparr>a_rcvBuf := []\<rparr>)"
    and breaks [keeps]: "P a \<Longrightarrow> P (a\<lparr>a_localWriterBroken := True\<rparr>)"
    and push: "P a \<Longrightarrow> okctl (tx_packetType p) \<or> okdata (tx_sequenceNum p) (tx_payload p) \<Longrightarrow>
      P (a\<lparr>a_out := a_out a @ [Pushed p ok]\<rparr>)"
    and silent: "P a \<Longrightarrow> list_all quiet es \<Longrightarrow> P (a\<lparr>a_out := a_out a @ es\<rparr>)"
    and ending [keeps]: "P a \<Longrightarrow> P (finalizeClose reason a)"
    and sending: "P a \<Longrightarrow> (\<And>sn info. (sn, info) \<in> set buf \<Longrightarrow> okdata sn (itm_Data info)) \<Longrightarrow> P (a\<lparr>a_sndBuf := buf\<rparr>)"
    and sent: "P a \<Longrightarrow> (sn, info) \<in> set (a_sndBuf a) \<Longrightarrow> okdata sn (itm_Data info)"
    and tracking: "P a \<Longrightarrow> (\<And>k ctl. (k, ctl) \<in> set cbuf \<Longrightarrow> okctl (ctl_PacketType ctl)) \<Longrightarrow> P (a\<lparr>a_controlSndBuf := cbuf\<rparr>)"
    and tracked: "P a \<Longrightarrow> (k, ctl) \<in> set (a_controlSndBuf a) \<Longrightarrow> okctl (ctl_PacketType ctl)"
    and control: "\<not> data_type t \<Longrightarrow> okctl t"
begin

text \<open>The syntax of the definitions.\<close>

lemma P_if [keeps]: "P b \<Longrightarrow> P c \<Longrightarrow> P (if Q then b else c)" "P (snd r) \<Longrightarrow> P (snd s) \<Longrightarrow> P (snd (if Q then r else s))"
  by simp_all

lemma P_option [keeps]:
  "P b \<Longrightarrow> (\<And>y. x = Some y \<Longrightarrow> P (f y)) \<Longrightarrow> P (case x of None \<Rightarrow> b | Some y \<Rightarrow> f y)"
  "P (snd r) \<Longrightarrow> (\<And>y. x = Some y \<Longrightarrow> P (snd (g y))) \<Longrightarrow> P (snd (case x of None \<Rightarrow> r | Some y \<Rightarrow> g y))"
  by (simp_all split: option.splits)

lemma P_pair [keeps]:
  "P (snd r) \<Longrightarrow> (\<And>x b. P b \<Longrightarrow> P (f x b)) \<Longrightarrow> P (case r of (x, b) \<Rightarrow> f x b)"
  "P (snd r) \<Longrightarrow> (\<And>x b. P b \<Longrightarrow> P (snd (g x b))) \<Longrightarrow> P (snd (case r of (x, b) \<Rightarrow> g x b))"
  "P b \<Longrightarrow> P (snd (y, b))"
  by (cases r; simp)+

lemma P_foldl: "P b \<Longrightarrow> (\<And>c x. x \<in> set xs \<Longrightarrow> P c \<Longrightarrow> P (f c x)) \<Longrightarrow> P (foldl f b xs)"
  by (induction xs arbitrary: b) simp_all

text \<open>The bound stream of a \<open>let\<close> keeps the property; what else is bound does not matter.\<close>

lemma P_let_state: "P b \<Longrightarrow> (\<And>c. P c \<Longrightarrow> P (f c)) \<Longrightarrow> P (Let b f)"
  "P b \<Longrightarrow> (\<And>c. P c \<Longrightarrow> P (snd (g c))) \<Longrightarrow> P (snd (Let b g))"
  by (simp_all add: Let_def)

lemma P_let_pair:
  "P (snd r) \<Longrightarrow> (\<And>x b. P b \<Longrightarrow> P (f x b)) \<Longrightarrow> P (Let r (\<lambda>(x, b). f x b))"
  "P (snd r) \<Longrightarrow> (\<And>x b. P b \<Longrightarrow> P (snd (g x b))) \<Longrightarrow> P (snd (Let r (\<lambda>(x, b). g x b)))"
  by (cases r; simp add: Let_def)+

lemma P_let_other: "(\<And>y. P (f y)) \<Longrightarrow> P (Let x f)" "(\<And>y. P (snd (g y))) \<Longrightarrow> P (snd (Let x g))"
  by (simp_all add: Let_def)

lemmas lets = P_let_pair P_let_state P_let_other

text \<open>Fields outside the core.\<close>

lemma P_update [keeps]:
  "P b \<Longrightarrow> P (b\<lparr>a_state := x_a_state\<rparr>)"
  "P b \<Longrightarrow> P (b\<lparr>a_closeReason := x_a_closeReason\<rparr>)"
  "P b \<Longrightarrow> P (b\<lparr>a_lastActivity := x_a_lastActivity\<rparr>)"
  "P b \<Longrightarrow> P (b\<lparr>a_closeReadSent := x_a_closeReadSent\<rparr>)"
  "P b \<Longrightarrow> P (b\<lparr>a_closeReadReceived := x_a_closeReadReceived\<rparr>)"
  "P b \<Longrightarrow> P (b\<lparr>a_closeReadAcked := x_a_closeReadAcked\<rparr>)"
  "P b \<Longrightarrow> P (b\<lparr>a_closeReadSeqSent := x_a_closeReadSeqSent\<rparr>)"
  "P b \<Longrightarrow> P (b\<lparr>a_closeWriteSent := x_a_closeWriteSent\<rparr>)"
  "P b \<Longrightarrow> P (b\<lparr>a_closeWriteReceived := x_a_closeWriteReceived\<rparr>)"
  "P b \<Longrightarrow> P (b\<lparr>a_closeWriteAcked := x_a_closeWriteAcked\<rparr>)"
  "P b \<Longrightarrow> P (b\<lparr>a_closeWriteSeqSent := x_a_closeWriteSeqSent\<rparr>)"
  "P b \<Longrightarrow> P (b\<lparr>a_rstReceived := x_a_rstReceived\<rparr>)"
  "P b \<Longrightarrow> P (b\<lparr>a_rstSent := x_a_rstSent\<rparr>)"
  "P b \<Longrightarrow> P (b\<lparr>a_rstAcked := x_a_rstAcked\<rparr>)"
  "P b \<Longrightarrow> P (b\<lparr>a_rstSeqSent := x_a_rstSeqSent\<rparr>)"
  "P b \<Longrightarrow> P (b\<lparr>a_localWriteClosed := x_a_localWriteClosed\<rparr>)"
  "P b \<Longrightarrow> P (b\<lparr>a_localWritePending := x_a_localWritePending\<rparr>)"
  "P b \<Longrightarrow> P (b\<lparr>a_stopLocalRead := x_a_stopLocalRead\<rparr>)"
  "P b \<Longrightarrow> P (b\<lparr>a_deferredClose := x_a_deferredClose\<rparr>)"
  "P b \<Longrightarrow> P (b\<lparr>a_deferredReason := x_a_deferredReason\<rparr>)"
  "P b \<Longrightarrow> P (b\<lparr>a_deferredDeadline := x_a_deferredDeadline\<rparr>)"
  "P b \<Longrightarrow> P (b\<lparr>a_deferredPacket := x_a_deferredPacket\<rparr>)"
  "P b \<Longrightarrow> P (b\<lparr>a_clientEOFAt := x_a_clientEOFAt\<rparr>)"
  "P b \<Longrightarrow> P (b\<lparr>a_closeReadAckedAt := x_a_closeReadAckedAt\<rparr>)"
  "P b \<Longrightarrow> P (b\<lparr>a_lastDuplicateAckAt := x_a_lastDuplicateAckAt\<rparr>)"
  "P b \<Longrightarrow> P (b\<lparr>a_waitingAck := x_a_waitingAck\<rparr>)"
  "P b \<Longrightarrow> P (b\<lparr>a_waitingAckFor := x_a_waitingAckFor\<rparr>)"
  "P b \<Longrightarrow> P (b\<lparr>a_ackWaitDeadline := x_a_ackWaitDeadline\<rparr>)"
  "P b \<Longrightarrow> P (b\<lparr>a_drainProgressAt := x_a_drainProgressAt\<rparr>)"
  "P b \<Longrightarrow> P (b\<lparr>a_drainQueueFailAt := x_a_drainQueueFailAt\<rparr>)"
  "P b \<Longrightarrow> P (b\<lparr>a_drainQueueFails := x_a_drainQueueFails\<rparr>)"
  "P b \<Longrightarrow> P (b\<lparr>a_drainStallLogged := x_a_drainStallLogged\<rparr>)"
  "P b \<Longrightarrow> P (b\<lparr>a_ioReady := x_a_ioReady\<rparr>)"
  "P b \<Longrightarrow> P (b\<lparr>a_streamWorkersStarted := x_a_streamWorkersStarted\<rparr>)"
  "P b \<Longrightarrow> P (b\<lparr>a_localConn := x_a_localConn\<rparr>)"
  "P b \<Longrightarrow> P (b\<lparr>a_cancelled := x_a_cancelled\<rparr>)"
  "P b \<Longrightarrow> P (b\<lparr>a_isVirtual := x_a_isVirtual\<rparr>)"
  "P b \<Longrightarrow> P (b\<lparr>a_dataAdaptiveRTO := x_a_dataAdaptiveRTO\<rparr>)"
  "P b \<Longrightarrow> P (b\<lparr>a_controlAdaptiveRTO := x_a_controlAdaptiveRTO\<rparr>)"
  "P b \<Longrightarrow> P (b\<lparr>a_firstDataNackSeen := x_a_firstDataNackSeen\<rparr>)"
  "P b \<Longrightarrow> P (b\<lparr>a_lastDataNackSent := x_a_lastDataNackSent\<rparr>)"
  "P b \<Longrightarrow> P (b\<lparr>a_rxChan := x_a_rxChan\<rparr>)"
  "P b \<Longrightarrow> P (b\<lparr>a_pendingInbound := x_a_pendingInbound\<rparr>)"
  "P b \<Longrightarrow> P (b\<lparr>a_windowNotFull := x_a_windowNotFull\<rparr>)"
  "P b \<Longrightarrow> P (b\<lparr>a_flushSignal := x_a_flushSignal\<rparr>)"
  by (rule core; simp add: same_core_def)+

text \<open>Fields of the core.\<close>

lemma P_sndBuf [keeps]: "P b \<Longrightarrow> P (b\<lparr>a_sndBuf := []\<rparr>)" "P b \<Longrightarrow> P (b\<lparr>a_sndBuf := AList.delete sn (a_sndBuf b)\<rparr>)"
  "P b \<Longrightarrow> okdata sn (itm_Data info) \<Longrightarrow> P (b\<lparr>a_sndBuf := AList.update sn info (a_sndBuf b)\<rparr>)"
  using sent set_delete_alist [of sn "a_sndBuf b"] set_update_alist [of sn info "a_sndBuf b"]
  by (intro sending; fastforce)+

lemma P_controlSndBuf [keeps]: "P b \<Longrightarrow> P (b\<lparr>a_controlSndBuf := []\<rparr>)"
  "P b \<Longrightarrow> P (b\<lparr>a_controlSndBuf := AList.delete k (a_controlSndBuf b)\<rparr>)"
  "P b \<Longrightarrow> P (b\<lparr>a_controlSndBuf := filter Q (a_controlSndBuf b)\<rparr>)"
  "P b \<Longrightarrow> okctl (ctl_PacketType i) \<Longrightarrow> P (b\<lparr>a_controlSndBuf := AList.update k i (a_controlSndBuf b)\<rparr>)"
  using tracked set_delete_alist [of k "a_controlSndBuf b"] set_update_alist [of k i "a_controlSndBuf b"]
  by (intro tracking; fastforce)+

lemma P_lookup: "map_of (a_sndBuf b) sn = Some info \<Longrightarrow> P b \<Longrightarrow> okdata sn (itm_Data info)"
  "map_of (a_controlSndBuf b) k = Some i \<Longrightarrow> P b \<Longrightarrow> okctl (ctl_PacketType i)"
  by (auto intro: sent tracked dest: map_of_SomeD)

lemma okdata_update [keeps]:
  "okdata sn (itm_Data info) \<Longrightarrow> okdata sn (itm_Data (info\<lparr>itm_LastSentAt := v1\<rparr>))"
  "okdata sn (itm_Data info) \<Longrightarrow> okdata sn (itm_Data (info\<lparr>itm_Dispatched := v2\<rparr>))"
  "okdata sn (itm_Data info) \<Longrightarrow> okdata sn (itm_Data (info\<lparr>itm_LastNackSentAt := v3\<rparr>))"
  "okdata sn (itm_Data info) \<Longrightarrow> okdata sn (itm_Data (info\<lparr>itm_Retries := v4\<rparr>))"
  "okdata sn (itm_Data info) \<Longrightarrow> okdata sn (itm_Data (info\<lparr>itm_CurrentRTO := v5\<rparr>))"
  "okdata sn (itm_Data info) \<Longrightarrow> okdata sn (itm_Data (info\<lparr>itm_SampleEligible := v6\<rparr>))"
  by simp_all

lemma okctl_update [keeps]:
  "okctl (ctl_PacketType i) \<Longrightarrow> okctl (ctl_PacketType (i\<lparr>ctl_LastSentAt := v1\<rparr>))"
  "okctl (ctl_PacketType i) \<Longrightarrow> okctl (ctl_PacketType (i\<lparr>ctl_Dispatched := v2\<rparr>))"
  "okctl (ctl_PacketType i) \<Longrightarrow> okctl (ctl_PacketType (i\<lparr>ctl_Retries := v3\<rparr>))"
  "okctl (ctl_PacketType i) \<Longrightarrow> okctl (ctl_PacketType (i\<lparr>ctl_CurrentRTO := v4\<rparr>))"
  "okctl (ctl_PacketType i) \<Longrightarrow> okctl (ctl_PacketType (i\<lparr>ctl_SampleEligible := v5\<rparr>))"
  by simp_all

lemma okctl_types [keeps]: "okctl PACKET_STREAM_DATA_ACK" "okctl PACKET_STREAM_DATA_NACK" "okctl PACKET_STREAM_CLOSE_READ"
  "okctl PACKET_STREAM_CLOSE_WRITE" "okctl PACKET_STREAM_RST"
  by (rule control; simp add: data_type_def)+

lemma P_push: "P b \<Longrightarrow> okctl (tx_packetType p) \<Longrightarrow> P (snd (PushTXPacket p b))"
  "P b \<Longrightarrow> okdata (tx_sequenceNum p) (tx_payload p) \<Longrightarrow> P (snd (PushTXPacket p b))"
  by (simp_all add: PushTXPacket_def Let_def push)

lemma P_push_bare [keeps]: "P b \<Longrightarrow> okctl t \<Longrightarrow> P (snd (PushTXPacket (bareTX t sn) b))"
  by (rule P_push) (simp_all add: bareTX_def)

lemma P_push_control:
  "P b \<Longrightarrow> okctl t \<Longrightarrow> P (snd (PushTXPacket \<lparr>tx_priority = pr, tx_packetType = t, tx_sequenceNum = sn, tx_fragmentID = fid,
     tx_totalFragments = tot, tx_compressionType = c, tx_ttl = ttl, tx_payload = d\<rparr> b))"
  by (rule P_push) simp_all

lemma P_push_data:
  "P b \<Longrightarrow> okdata sn d \<Longrightarrow> P (snd (PushTXPacket \<lparr>tx_priority = pr, tx_packetType = t, tx_sequenceNum = sn, tx_fragmentID = fid,
     tx_totalFragments = tot, tx_compressionType = c, tx_ttl = ttl, tx_payload = d\<rparr> b))"
  by (rule P_push(2)) simp_all

lemma P_quiet [keeps]:
  "P b \<Longrightarrow> P (removeQueued RemovedData sns b)" "P b \<Longrightarrow> P (removeQueued RemovedNack sns b)"
  "P b \<Longrightarrow> P (b\<lparr>a_out := a_out b @ [ConnClosed]\<rparr>)" "P b \<Longrightarrow> P (b\<lparr>a_out := a_out b @ [ConnWriteClosed]\<rparr>)"
  unfolding removeQueued_def by (rule silent; simp add: list_all_iff)+

lemma P_helpers [keeps]:
  "P b \<Longrightarrow> P (signalWindowNotFull b)" "P b \<Longrightarrow> P (signalFlushReady b)"
  "P b \<Longrightarrow> P (setState s b)" "P b \<Longrightarrow> P (clearAllQueues c b)"
  "P b \<Longrightarrow> P (clearOutboundStateLocked c b)" "P b \<Longrightarrow> P (noteSuccessfulDataSample x b)"
  "P b \<Longrightarrow> P (noteSuccessfulControlSample x b)"
  unfolding core_helpers by (rule lets | intro keeps | assumption)+

lemma P_tryFinalize [keeps]:
  "P b \<Longrightarrow> P (tryFinalizeClientLocalDisconnect b)"
  "P b \<Longrightarrow> P (tryFinalizeRemoteEOF b)"
  "P b \<Longrightarrow> P (snd (tryFinalizePeerResetDrain b))"
  unfolding tryFinalizeClientLocalDisconnect_def tryFinalizeRemoteEOF_def tryFinalizePeerResetDrain_def by (rule lets | intro keeps | assumption)+

lemma P_marks [keeps]:
  "P b \<Longrightarrow> P (MarkCloseReadSent b)"
  "P b \<Longrightarrow> P (MarkCloseReadReceived b)"
  "P b \<Longrightarrow> P (markCloseReadAcked now b)"
  "P b \<Longrightarrow> P (MarkCloseWriteSent b)"
  "P b \<Longrightarrow> P (markCloseWriteAcked b)"
  "P b \<Longrightarrow> P (markLocalWriterBroken b)"
  "P b \<Longrightarrow> P (noteClientEOF now b)"
  "P b \<Longrightarrow> P (halfCloseLocalWriter b)"
  "P b \<Longrightarrow> P (clearWaitingAck pt b)"
  "P b \<Longrightarrow> P (resetDrainTrackingLocked now b)"
  "P b \<Longrightarrow> P (noteDrainProgressLocked now b)"
  "P b \<Longrightarrow> P (noteDrainQueueFailure now b)"
  "P b \<Longrightarrow> P (clearTrackedControlPacket pt sn fid b)"
  "P b \<Longrightarrow> P (MarkRstSent b)"
  "P b \<Longrightarrow> P (MarkRstReceived b)"
  "P b \<Longrightarrow> P (markRstAcked b)"
  unfolding MarkCloseReadSent_def MarkCloseReadReceived_def markCloseReadAcked_def MarkCloseWriteSent_def
    markCloseWriteAcked_def markLocalWriterBroken_def noteClientEOF_def halfCloseLocalWriter_def clearWaitingAck_def
    resetDrainTrackingLocked_def noteDrainProgressLocked_def noteDrainQueueFailure_def clearTrackedControlPacket_def
    MarkRstSent_def MarkRstReceived_def markRstAcked_def by (rule lets | intro keeps | assumption)+

lemma P_SendControlPacketWithTTL [keeps]:
  "P b \<Longrightarrow> okctl pt \<Longrightarrow> P (snd (SendControlPacketWithTTL now pt sn fid tot pay prio track ack ttl b))"
  unfolding SendControlPacketWithTTL_def Let_def
  by (intro keeps P_push_control | simp only: arqControlItem.simps | assumption)+

lemma P_emitTerminalPacketWithTTL [keeps]: "P b \<Longrightarrow> P (emitTerminalPacketWithTTL now pt reason ttl b)"
  unfolding emitTerminalPacketWithTTL_def Let_def by (intro keeps | assumption)+

lemma P_closeBody:
  "P b \<Longrightarrow> (\<And>r p c. P c \<Longrightarrow> P (dfr r p c)) \<Longrightarrow> P (closeBody dfr now reason opts b)"
  unfolding closeBody_def by (rule lets | intro keeps | assumption)+

lemma P_settleTerminalDrain [keeps]: "P b \<Longrightarrow> P (settleTerminalDrain now b)"
  unfolding settleTerminalDrain_def Let_def by (intro P_closeBody keeps | assumption)+

lemma P_deferTerminalPacket [keeps]:
  "P b \<Longrightarrow> P (deferTerminalPacket now reason pt b)"
  unfolding deferTerminalPacket_def by (rule lets | intro keeps | assumption)+

lemma P_Close [keeps]: "P b \<Longrightarrow> P (Close now reason opts b)"
  unfolding Close_def by (intro P_closeBody keeps | assumption)+

lemma P_acks [keeps]:
  "P b \<Longrightarrow> P (MarkCloseWriteReceived now b)"
  "P b \<Longrightarrow> P (maybeInitiateClientCloseReadAfterWriterBreak now b)"
  "P b \<Longrightarrow> P (handleTrackedPacketTTLExpiry now pt reason b)"
  "P b \<Longrightarrow> P (snd (handleTrackedTerminalAck pt b))"
  "P b \<Longrightarrow> P (closeReadAcked now b)"
  "P b \<Longrightarrow> P (closeWriteAcked now b)"
  "P b \<Longrightarrow> P (rstAcked b)"
  "P b \<Longrightarrow> P (snd (handleWaitingTerminalAck now pt r w x b))"
  "P b \<Longrightarrow> P (snd (handleTrackedCloseOrResetAck now pt b))"
  unfolding MarkCloseWriteReceived_def maybeInitiateClientCloseReadAfterWriterBreak_def handleTrackedPacketTTLExpiry_def
    handleTrackedTerminalAck_def closeReadAcked_def closeWriteAcked_def rstAcked_def handleWaitingTerminalAck_def
    handleTrackedCloseOrResetAck_def by (rule lets | intro keeps | assumption)+

lemma P_ReceiveControlAck [keeps]:
  "P b \<Longrightarrow> P (snd (ReceiveControlAck now pt sn fid b))"
  unfolding ReceiveControlAck_def by (rule lets | intro keeps | assumption)+

text \<open>Data.\<close>

lemma P_ioRead:
  assumes "P (b\<lparr>a_sndNxt := a_sndNxt b + 1\<rparr>)" "okdata (a_sndNxt b) raw"
  shows "P (ioRead now raw b)"
proof -
  have sn: "a_sndNxt (b\<lparr>a_lastActivity := now\<rparr>) = a_sndNxt b" by simp
  have start: "P (b\<lparr>a_lastActivity := now, a_sndNxt := a_sndNxt b + 1\<rparr>)"
    by (rule core [OF assms(1)]) (simp add: same_core_def)
  show ?thesis
    unfolding ioRead_def Let_def sn
    by (intro keeps P_push_data | simp only: arqDataItem.simps | rule start assms P_lookup | assumption)+
qed

lemma P_ioEnd [keeps]: "P b \<Longrightarrow> P (ioEnd now outcome b)"
  unfolding ioEnd_def by (cases outcome) (simp_all add: P_Close)

lemma P_ioError [keeps]: "P b \<Longrightarrow> P (snd (ioError now since n err b))"
  unfolding ioError_def by (cases "classifyIOError (Some err)") (simp_all add: keeps)

lemma P_ReceiveData [keeps]:
  "P b \<Longrightarrow> P (snd (ReceiveData now sn data b))"
  unfolding ReceiveData_def by (rule lets | intro keeps | assumption)+

lemma P_nacks [keeps]:
  "P b \<Longrightarrow> P (pruneDataNackStateLocked sn b)"
  "P b \<Longrightarrow> P (clearSentDataNack sn b)"
  "P b \<Longrightarrow> P (snd (shouldSendDataNack sn now b))"
  "P b \<Longrightarrow> P (noteDataNackSent sn now b)"
  unfolding pruneDataNackStateLocked_def clearSentDataNack_def shouldSendDataNack_def noteDataNackSent_def by (rule lets | intro keeps | assumption)+

lemma P_sendNacks [keeps]: "P b \<Longrightarrow> P (sendNacks fails now sns b)"
proof (induction sns arbitrary: b)
  case (Cons sn sns)
  show ?case
    unfolding sendNacks.simps
    by (rule lets | intro keeps Cons.IH | rule Cons.prems | assumption)+
qed simp

lemma P_maybeSendDataNacks [keeps]:
  "P b \<Longrightarrow> P (maybeSendDataNacks now sn b)"
  "P b \<Longrightarrow> P (rxDrain b)"
  unfolding maybeSendDataNacks_def rxDrain_def by (rule lets | intro keeps | assumption)+

text \<open>Timers.\<close>

lemma P_ReceiveAck [keeps]: "P b \<Longrightarrow> P (snd (ReceiveAck now sn b))"
  unfolding ReceiveAck_def by (rule lets | intro keeps | assumption)+

lemma P_HandleDataNack [keeps]: "P b \<Longrightarrow> P (snd (HandleDataNack now sn b))"
  unfolding HandleDataNack_def by (rule lets | intro keeps P_push_data | rule P_lookup | assumption)+

lemma P_HandleAckPacket [keeps]:
  "P b \<Longrightarrow> P (snd (HandleAckPacket now pt sn fid b))"
  unfolding HandleAckPacket_def by (rule lets | intro keeps | assumption)+

lemma P_watchdogs [keeps]:
  "P b \<Longrightarrow> P (runGapRecoveryWatchdog now b)"
  "P b \<Longrightarrow> P (runFinalAckWatchdog now b)"
  unfolding runGapRecoveryWatchdog_def runFinalAckWatchdog_def by (rule lets | intro keeps | assumption)+

lemma P_handleTerminalRetransmitState [keeps]:
  "P b \<Longrightarrow> P (snd (handleTerminalRetransmitState now b))"
  unfolding handleTerminalRetransmitState_def by (rule lets | intro keeps | assumption)+

lemma P_resendJob:
  assumes "P b" "okdata sn data"
  shows "P (resendJob rnd now dr cap ((sn, data, c), kind) b)"
  unfolding resendJob_def prod.case
  by (rule lets | intro keeps P_push_data | rule assms P_lookup | assumption)+

lemma P_controlLoop:
  "P b \<Longrightarrow> (\<And>k i. (k, i) \<in> set items \<Longrightarrow> okctl (ctl_PacketType i)) \<Longrightarrow> P (controlLoop rnd now items b)"
proof (induction items arbitrary: b)
  case (Cons item items)
  obtain key info where item: "item = (key, info)" by (cases item)
  have ctl: "okctl (ctl_PacketType info)" by (rule Cons.prems(2) [of key]) (simp add: item)
  have IH: "P (controlLoop rnd now items c)" if "P c" for c
    by (rule Cons.IH [OF that]) (meson Cons.prems(2) list.set_intros(2))
  show ?case
    unfolding item controlLoop.simps Let_def
    by (intro keeps P_push_control IH | rule ctl Cons.prems(1) | assumption)+
qed simp

lemma P_rtx_scan [keeps]:
  "P b \<Longrightarrow> P c \<Longrightarrow> (\<And>jobs. r = Jobs jobs \<Longrightarrow> P (f jobs)) \<Longrightarrow> P (case r of TTLExpired \<Rightarrow> b | RetryExceeded \<Rightarrow> c | Jobs jobs \<Rightarrow> f jobs)"
  by (cases r) simp_all

lemma P_resendJobs:
  assumes "P b" "set (ord (a_sndBuf b)) \<subseteq> set (a_sndBuf b)"
    and "scanRetransmits now dr cap b (ord (a_sndBuf b)) [] = Jobs jobs"
  shows "P (foldl (\<lambda>a jk. resendJob rnd now dr cap jk a) b (zip jobs kinds))"
proof (rule P_foldl [OF assms(1)])
  fix c jk assume "jk \<in> set (zip jobs kinds)" "P c"
  obtain sn d cc kind where jk: "jk = ((sn, d, cc), kind)" by (cases jk) auto
  have "(sn, d, cc) \<in> set jobs" using \<open>jk \<in> set (zip jobs kinds)\<close> unfolding jk by (rule set_zip_leftD)
  then obtain info where "(sn, info) \<in> set (a_sndBuf b)" "d = itm_Data info"
    using scanRetransmits_jobs [OF assms(3)] assms(2) by fastforce
  then have "okdata sn d" using sent [OF assms(1)] by blast
  then show "P (resendJob rnd now dr cap jk c)" unfolding jk using \<open>P c\<close> by (rule P_resendJob [rotated])
qed

lemma P_retransmitPart:
  assumes "\<And>xs. set (ord xs) \<subseteq> set xs" "\<And>xs. set (ordC xs) \<subseteq> set xs" "P b"
  shows "P (retransmitPart rnd ord ordC now b)"
proof -
  have ctl: "P (checkControlRetransmits rnd ordC now c)" if "P c" for c
    unfolding checkControlRetransmits_def using assms(2) [of "a_controlSndBuf c"] tracked [OF that]
    by (intro P_controlLoop [OF that]) blast
  show ?thesis
    unfolding retransmitPart_def
    by (simp only: Let_def)
      (intro keeps ctl P_resendJobs [where ord = ord, OF assms(3) assms(1)] | rule assms(3) | assumption)+
qed

lemma P_checkRetransmits:
  "(\<And>xs. set (ord xs) \<subseteq> set xs) \<Longrightarrow> (\<And>xs. set (ordC xs) \<subseteq> set xs) \<Longrightarrow> P b \<Longrightarrow> P (checkRetransmits rnd ord ordC now b)"
  unfolding checkRetransmits_def by (rule lets | intro keeps P_retransmitPart | assumption)+

lemma P_workers [keeps]:
  "P b \<Longrightarrow> P (startStreamWorkers b)"
  "P b \<Longrightarrow> P (SetLocalConn conn b)"
  "P b \<Longrightarrow> P (SetIOReady ready b)"
  unfolding startStreamWorkers_def SetLocalConn_def SetIOReady_def by (rule lets | intro keeps | assumption)+

lemma P_NoteTXPacketDequeued [keeps]: "P b \<Longrightarrow> P (NoteTXPacketDequeued now pt sn fid b)"
  unfolding NoteTXPacketDequeued_def by (rule lets | intro keeps | rule P_lookup | assumption)+

text \<open>The receiver and the writer, up to what they add to the buffer or take from it.\<close>

lemma P_process_other:
  assumes "P a" "\<not> inserts sn a"
  shows "P (processReceivedData now sn data a)"
proof -
  define a1 where "a1 = (if a_pendingInbound a > 0 then a\<lparr>a_pendingInbound := a_pendingInbound a - 1\<rparr> else a)"
  define a2 where "a2 = a1\<lparr>a_lastActivity := now\<rparr>"
  have same: "inserts sn a = inserts sn a2" by (simp add: a1_def a2_def inserts_def buffered_def)
  have flags: "a_localWriterBroken a2 = a_localWriterBroken a1" "a_closeWriteSent a2 = a_closeWriteSent a1"
    "a_closeWriteAcked a2 = a_closeWriteAcked a1" by (simp_all add: a2_def)
  have a1: "P a1" and a2: "P a2" unfolding a2_def a1_def by (intro keeps assms)+
  show ?thesis
    using assms(2) [unfolded same] unfolding inserts_def processReceivedData_def Let_def a1_def [symmetric] a2_def [symmetric]
    by (auto simp: flags not_le [symmetric] intro!: keeps a1 a2)
qed

lemma P_process_inserts:
  assumes "P (a\<lparr>a_rcvBuf := AList.update sn data (a_rcvBuf a)\<rparr>)" "inserts sn a"
  shows "P (processReceivedData now sn data a)"
proof -
  define a1 where "a1 = (if a_pendingInbound a > 0 then a\<lparr>a_pendingInbound := a_pendingInbound a - 1\<rparr> else a)"
  define a2 where "a2 = a1\<lparr>a_lastActivity := now\<rparr>"
  have same: "inserts sn a = inserts sn a2" by (simp add: a1_def a2_def inserts_def buffered_def)
  have flags: "a_localWriterBroken a2 = a_localWriterBroken a1" "a_closeWriteSent a2 = a_closeWriteSent a1"
    "a_closeWriteAcked a2 = a_closeWriteAcked a1" by (simp_all add: a2_def)
  have buf: "a_rcvBuf a2 = a_rcvBuf a" by (simp add: a1_def a2_def)
  have a2: "P (a2\<lparr>a_rcvBuf := AList.update x data (a_rcvBuf a2)\<rparr>)" if "x = sn" for x
    unfolding buf that by (rule core [OF assms(1)]) (simp add: a1_def a2_def same_core_def)
  show ?thesis
    using assms(2) [unfolded same] unfolding inserts_def processReceivedData_def Let_def a1_def [symmetric] a2_def [symmetric]
    by (auto simp: flags not_le [symmetric] intro!: keeps a2)
qed

lemma P_writeTake_idle: "writeTake now a = (Inl nxt, b) \<Longrightarrow> P a \<Longrightarrow> P b"
proof -
  assume take: "writeTake now a = (Inl nxt, b)" and a: "P a"
  obtain ds n buf where ready: "takeReady (a_rcvNxt a) (a_rcvBuf a) = (ds, n, buf)" by (metis surj_pair)
  have none: "n = a_rcvNxt a \<and> buf = a_rcvBuf a" if "ds = []"
    using ready that by (auto simp: takeReady.simps [of "a_rcvNxt a"] split: option.splits prod.splits)
  have same: "P (a\<lparr>a_rcvNxt := a_rcvNxt a, a_rcvBuf := a_rcvBuf a, a_localWritePending := p\<rparr>)" for p
    by (rule core [OF a]) (simp add: same_core_def)
  have "P (snd (writeTake now a))" if "\<not> (\<exists>ds b. writeTake now a = (Inr ds, b))"
    using that unfolding writeTake_def ready Let_def prod.case
    by (auto simp: none split: if_splits intro!: keeps same a)
  with take show "P b" by simp
qed

lemma P_writeFinish:
  assumes "writeChunk (concat ds) 0 results = (w, e)" "P (a\<lparr>a_out := a_out a @ [Wrote w]\<rparr>)"
  shows "P (snd (writeFinish now ds results a))"
proof -
  define a1 where "a1 = a\<lparr>a_out := a_out a @ [Wrote w]\<rparr>"
  have a1: "P a1" using assms(2) by (simp add: a1_def)
  show ?thesis
    unfolding writeFinish_def assms(1) Let_def prod.case a1_def [symmetric] brokenWriter_def
    by (cases e; simp only: write_end.case) (intro keeps a1 | assumption)+
qed

end

section \<open>The operations\<close>

text \<open>
  The operations a stream's owner, its timer and the packets from the peer may call, apart from reading, receiving and writing.
  Maps are read in some order; what is sent with \<open>SendControlPacketWithTTL\<close> is a control packet.
\<close>

inductive op_step :: "arq \<Rightarrow> arq \<Rightarrow> bool" where
  "op_step a (ioEnd now outcome a)"
| "op_step a (snd (ioError now since n err a))"
| "op_step a (snd (ReceiveData now sn data a))"
| "op_step a (rxDrain a)"
| "op_step a (snd (HandleAckPacket now pt sn fid a))"
| "op_step a (snd (ReceiveAck now sn a))"
| "op_step a (snd (ReceiveControlAck now pt sn fid a))"
| "op_step a (snd (HandleDataNack now sn a))"
| check: "(\<And>xs. set (ord xs) \<subseteq> set xs) \<Longrightarrow> (\<And>xs. set (ordC xs) \<subseteq> set xs) \<Longrightarrow>
    op_step a (checkRetransmits rnd ord ordC now a)"
| "op_step a (Close now reason opts a)"
| "op_step a (MarkCloseReadSent a)"
| "op_step a (MarkCloseReadReceived a)"
| "op_step a (MarkCloseWriteSent a)"
| "op_step a (MarkCloseWriteReceived now a)"
| "op_step a (MarkRstSent a)"
| "op_step a (MarkRstReceived a)"
| send: "\<not> data_type pt \<Longrightarrow> op_step a (snd (SendControlPacketWithTTL now pt sn fid tot pay prio track ack ttl a))"
| "op_step a (NoteTXPacketDequeued now pt sn fid a)"
| "op_step a (clearTrackedControlPacket pt sn fid a)"
| "op_step a (SetLocalConn conn a)"
| "op_step a (SetIOReady ready a)"

context stream_contract
begin

lemma P_op_step: "op_step a b \<Longrightarrow> P a \<Longrightarrow> P b"
  by (induction rule: op_step.induct) (intro keeps P_checkRetransmits control; assumption)+

end

end
