(* ===== verification/ArqSteps.thy ===== *)
theory ArqSteps
  imports ArqContract
begin

text \<open>
  Two instances of the contract of the operations. \<open>settles a b\<close> says that going from \<open>a\<close> to \<open>b\<close> writes
  nothing to the local connection, neither moves the receive window nor adds to the receive buffer, does
  not repair a broken writer, and ends the stream at most once, telling its owner when it does. \<open>genuine\<close> says that
  the data a stream keeps for sending and the data packets it has handed over come from a given
  set. All operations but the reader, the receiver and the writer settle; all but the reader are genuine.
\<close>

section \<open>Settling\<close>

fun written_by :: "effect \<Rightarrow> bytes" where
  "written_by (Wrote bs) = bs"
| "written_by _ = []"

definition written :: "effect list \<Rightarrow> bytes" where
  "written out = concat (map written_by out)"

fun is_OwnerClosed :: "effect \<Rightarrow> bool" where
  "is_OwnerClosed (OwnerClosed _) = True"
| "is_OwnerClosed _ = False"

definition notices :: "arq \<Rightarrow> nat" where
  "notices a = length (filter is_OwnerClosed (a_out a))"

definition settles :: "arq \<Rightarrow> arq \<Rightarrow> bool" where
  "settles a b \<longleftrightarrow>
     a_enqueuer b = a_enqueuer a \<and> a_rcvNxt b = a_rcvNxt a \<and> a_receiveWindowSize b = a_receiveWindowSize a \<and>
     (a_rcvBuf b = a_rcvBuf a \<or> a_rcvBuf b = []) \<and> written (a_out b) = written (a_out a) \<and>
     (a_localWriterBroken a \<longrightarrow> a_localWriterBroken b) \<and>
     (a_closed b = a_closed a \<and> notices b = notices a \<or>
      \<not> a_closed a \<and> a_closed b \<and> notices b = notices a + (if enq_terminalOwner (a_enqueuer a) then 1 else 0))"

lemma settles_refl: "settles a a"
  by (simp add: settles_def)

lemma settles_trans: "settles a b \<Longrightarrow> settles b c \<Longrightarrow> settles a c"
  by (auto simp: settles_def)

lemma written_simps [simp]:
  "written [] = []" "written (out @ out') = written out @ written out'" "written (e # out) = written_by e @ written out"
  by (simp_all add: written_def)

lemma written_removed [simp]: "written (map RemovedData sns) = []" "written (map RemovedNack sns) = []"
  by (induction sns) simp_all

lemma filter_removed [simp]:
  "filter is_OwnerClosed (map RemovedData sns) = []" "filter is_OwnerClosed (map RemovedNack sns) = []"
  by (induction sns) simp_all

lemma written_quiet [simp]: "list_all quiet es \<Longrightarrow> written es = []"
proof (induction es)
  case (Cons e es) then show ?case by (cases e) simp_all
qed simp

lemma filter_quiet [simp]: "list_all quiet es \<Longrightarrow> filter is_OwnerClosed es = []"
proof (induction es)
  case (Cons e es) then show ?case by (cases e) simp_all
qed simp

text \<open>Only \<open>finalizeClose\<close> ends a stream, and it does nothing to one that has ended.\<close>

lemma finalizeClose_settles: "settles a (finalizeClose reason a)"
  by (simp add: settles_def notices_def finalizeClose_def Let_def core_helpers)

interpretation settle: stream_contract "settles a" "\<lambda>_ _. True" "\<lambda>_. True" for a
proof (unfold_locales, goal_cases)
  case (1 b c) then show ?case by (simp add: settles_def same_core_def notices_def)
next
  case (2 b) then show ?case by (auto simp: settles_def notices_def)
next
  case (3 b) then show ?case by (simp add: settles_def notices_def)
next
  case (4 b p ok) then show ?case by (simp add: settles_def notices_def)
next
  case (5 b es) then show ?case by (simp add: settles_def notices_def)
next
  case (6 b reason) then show ?case by (rule settles_trans [OF _ finalizeClose_settles])
next
  case (7 b buf) then show ?case by (simp add: settles_def notices_def)
next
  case (9 b buf) then show ?case by (simp add: settles_def notices_def)
qed simp_all

section \<open>Sending nothing but what was read\<close>

definition genuine :: "(u16 \<times> bytes) set \<Rightarrow> u16 \<Rightarrow> arq \<Rightarrow> bool" where
  "genuine R nxt a \<longleftrightarrow> a_sndNxt a = nxt \<and>
     (\<forall>(sn, info) \<in> set (a_sndBuf a). (sn, itm_Data info) \<in> R) \<and>
     (\<forall>(k, i) \<in> set (a_controlSndBuf a). \<not> data_type (ctl_PacketType i)) \<and>
     (\<forall>p ok. Pushed p ok \<in> set (a_out a) \<longrightarrow> data_type (tx_packetType p) \<longrightarrow> (tx_sequenceNum p, tx_payload p) \<in> R)"

lemma quiet_not_pushed: "list_all quiet es \<Longrightarrow> Pushed p ok \<notin> set es"
  by (auto simp: list_all_iff)

lemma genuine_finalizeClose: "genuine R nxt a \<Longrightarrow> genuine R nxt (finalizeClose reason a)"
  by (simp add: genuine_def finalizeClose_def Let_def core_helpers)

interpretation gen: stream_contract "genuine R nxt" "\<lambda>sn bs. (sn, bs) \<in> R" "\<lambda>t. \<not> data_type t" for R nxt
proof (unfold_locales, goal_cases)
  case (5 a es) then show ?case using quiet_not_pushed by (auto simp: genuine_def)
next
  case (6 a reason) then show ?case by (rule genuine_finalizeClose)
qed (auto simp: genuine_def same_core_def)

end
