(* ===== verification/ArqStream.thy ===== *)
theory ArqStream
  imports ArqSteps "HOL-Library.Sublist"
begin

text \<open>
  A stream as its peer sees it. The peer numbers its chunks \<open>d 0\<close>, \<open>d 1\<close>, \dots and sends chunk \<open>i\<close> under the
  sequence number \<open>i\<close> modulo 65536. A run interleaves the operations of the stream, the goroutine that takes
  packets off the inbound queue and the goroutine that writes to the local connection; the latter holds
  chunks between taking and writing them. A run remembers how many chunks have been taken.
\<close>

lemma ioRead_settles: "settles a (ioRead now raw a)"
  by (rule settle.P_ioRead) (simp_all add: settles_def notices_def)

lemma op_step_settles: "op_step a b \<Longrightarrow> settles a b"
  using settle.P_op_step settles_refl by blast

section \<open>The receive buffer\<close>

definition inWindow :: "(nat \<Rightarrow> bytes) \<Rightarrow> nat \<Rightarrow> (u16 \<times> bytes) list \<Rightarrow> bool" where
  "inWindow d n buf \<longleftrightarrow> distinct (map fst buf) \<and>
     (\<forall>(sn, bs) \<in> set buf. \<exists>i. n \<le> i \<and> i < n + 32768 \<and> sn = of_nat i \<and> bs = d i)"

lemma inWindow_Nil [simp]: "inWindow d n []"
  by (simp add: inWindow_def)

lemma of_nat_u16_eq:
  assumes "(of_nat i :: u16) = of_nat j" "i < j + 65536" "j < i + 65536"
  shows "i = j"
proof -
  have "i mod 65536 = j mod 65536"
    using arg_cong [OF assms(1), of unat] by (simp add: unat_of_nat)
  then have "65536 dvd j - i" "65536 dvd i - j"
    by (cases "i \<le> j"; simp add: mod_eq_dvd_iff_nat [symmetric] eq_commute)+
  then show ?thesis using assms(2,3) by (auto dest!: dvd_imp_le)
qed

lemma inWindow_lookup:
  assumes "inWindow d n buf" "map_of buf (of_nat i) = Some bs" "n \<le> i" "i < n + 32768"
  shows "bs = d i"
proof -
  from assms(2) have "(of_nat i, bs) \<in> set buf" by (rule map_of_SomeD)
  then obtain j where j: "n \<le> j" "j < n + 32768" "(of_nat i :: u16) = of_nat j" "bs = d j"
    using assms(1) by (auto simp: inWindow_def)
  then have "i = j" using assms(3,4) by (intro of_nat_u16_eq) auto
  then show ?thesis using j by simp
qed

lemma inWindow_delete:
  assumes "inWindow d n buf"
  shows "inWindow d (Suc n) (AList.delete (of_nat n) buf)"
  unfolding inWindow_def
proof (intro conjI ballI)
  show "distinct (map fst (AList.delete (of_nat n) buf))"
    using assms by (simp add: inWindow_def distinct_delete)
next
  fix e assume e: "e \<in> set (AList.delete (of_nat n) buf)"
  obtain sn bs where [simp]: "e = (sn, bs)" by (cases e)
  from e have sn: "sn \<noteq> of_nat n" "(sn, bs) \<in> set buf" by (auto simp: AList.delete_eq)
  then obtain i where i: "n \<le> i" "i < n + 32768" "sn = of_nat i" "bs = d i"
    using assms by (auto simp: inWindow_def)
  with sn have "i \<noteq> n" by auto
  with i show "case e of (sn, bs) \<Rightarrow> \<exists>i. Suc n \<le> i \<and> i < Suc n + 32768 \<and> sn = of_nat i \<and> bs = d i"
    by (auto intro!: exI [of _ i])
qed

lemma alist_update_new: "map_of al k = None \<Longrightarrow> AList.update k v al = al @ [(k, v)]"
  by (induction al) (auto split: if_splits)

lemma inWindow_update:
  assumes "inWindow d n buf" "n \<le> i" "i < n + 32768" "map_of buf (of_nat i) = None"
  shows "inWindow d n (AList.update (of_nat i) (d i) buf)"
  using assms unfolding inWindow_def alist_update_new [OF assms(4)] by (auto simp: map_of_eq_None_iff)

lemma takeReady_length:
  "takeReady nxt buf = (ds, nxt', buf') \<Longrightarrow> distinct (map fst buf) \<Longrightarrow> length buf' + length ds = length buf"
proof (induction nxt buf arbitrary: ds nxt' buf' rule: takeReady.induct)
  case (1 nxt buf)
  show ?case
  proof (cases "map_of buf nxt")
    case (Some bs)
    obtain es n' b' where rec: "takeReady (nxt + 1) (AList.delete nxt buf) = (es, n', b')" by (metis surj_pair)
    have "length b' + length es = length (AList.delete nxt buf)"
      using "1.IH" [OF Some rec] "1.prems"(2) by (simp add: distinct_delete)
    moreover have "length buf = Suc (length (AList.delete nxt buf))"
      using Some "1.prems"(2) length_delete_present [of buf nxt bs] by (simp add: keys_distinct_def)
    ultimately show ?thesis
      using "1.prems"(1) Some rec by (auto simp: takeReady.simps [of nxt buf])
  qed (use "1.prems" in \<open>simp add: takeReady.simps [of nxt buf]\<close>)
qed

text \<open>What is taken are the chunks from \<open>n\<close> up to the first that is missing.\<close>

lemma takeReady_ok:
  "takeReady (of_nat n) buf = (ds, nxt, buf') \<Longrightarrow> inWindow d n buf \<Longrightarrow>
   ds = map d [n..<n + length ds] \<and> nxt = of_nat (n + length ds) \<and> inWindow d (n + length ds) buf' \<and> map_of buf' nxt = None"
proof (induction "of_nat n :: u16" buf arbitrary: n ds nxt buf' rule: takeReady.induct)
  case (1 buf)
  show ?case
  proof (cases "map_of buf (of_nat n)")
    case (Some bs)
    obtain es n' b' where rec: "takeReady (of_nat n + 1) (AList.delete (of_nat n) buf) = (es, n', b')" by (metis surj_pair)
    have "bs = d n" using inWindow_lookup [OF "1.prems"(2) Some] by simp
    moreover have "es = map d [Suc n..<Suc n + length es] \<and> n' = of_nat (Suc n + length es) \<and>
        inWindow d (Suc n + length es) b' \<and> map_of b' n' = None"
      by (rule "1.hyps" [OF Some _ _ inWindow_delete [OF "1.prems"(2)]]) (simp_all add: rec [symmetric] add.commute)
    ultimately show ?thesis
      using "1.prems"(1) Some rec by (auto simp: takeReady.simps [of "of_nat n" buf] upt_conv_Cons simp del: upt_Suc)
  qed (use "1.prems" in \<open>auto simp: takeReady.simps [of "of_nat n" buf]\<close>)
qed

lemma writeChunk_prefix:
  "writeChunk remaining retries results = (w, e) \<Longrightarrow> prefix w remaining \<and> (e = WriteDone \<longrightarrow> w = remaining)"
proof (induction results arbitrary: remaining retries w e)
  case Nil
  then show ?case by (auto simp: writeChunk.simps [of remaining] split: if_splits)
next
  case (Cons r results)
  obtain n err where [simp]: "r = (n, err)" by (cases r)
  have more: "prefix w remaining \<and> (e = WriteDone \<longrightarrow> w = remaining)"
    if rec: "map_prod ((@) (take n remaining)) id (writeChunk (drop n remaining) k results) = (w, e)" for k
  proof -
    obtain v where v: "writeChunk (drop n remaining) k results = (v, e)" "w = take n remaining @ v"
      using rec by (cases "writeChunk (drop n remaining) k results") auto
    show ?thesis
      using Cons.IH [OF v(1)] v(2) append_take_drop_id [of n remaining] by (metis same_prefix_prefix)
  qed
  show ?case
  proof (cases "remaining = []")
    case False
    then show ?thesis
      using Cons.prems more take_is_prefix [of n remaining]
      by (auto simp: writeChunk.simps [of remaining] Let_def split: option.splits if_splits)
  qed (use Cons.prems in \<open>simp add: writeChunk.simps\<close>)
qed

text \<open>A number within half the space behind the expected one is not taken for one ahead of it.\<close>

lemma ahead_of:
  assumes "(of_nat i :: u16) - of_nat n < 32768" "n \<le> i + 32768"
  shows "n \<le> i"
proof (rule ccontr)
  assume "\<not> n \<le> i"
  define k where "k = n - i"
  have k: "n = i + k" "0 < k" "k \<le> 32768" using \<open>\<not> n \<le> i\<close> assms(2) by (auto simp: k_def)
  have "(of_nat i :: u16) - of_nat n = - of_nat k" by (simp add: k(1))
  also have "\<dots> = of_nat (65536 - k)" using k by (simp add: of_nat_diff)
  finally have eq: "(of_nat i :: u16) - of_nat n = of_nat (65536 - k)" .
  have "unat ((of_nat i :: u16) - of_nat n) = 65536 - k"
    unfolding eq using k by (subst unat_of_nat) simp
  then show False using assms(1) k by (simp add: word_less_nat_alt)
qed

section \<open>Receiving and writing\<close>

lemma process_cases:
  "settles a (processReceivedData now sn data a) \<or>
   inserts sn a \<and> settles (a\<lparr>a_rcvBuf := AList.update sn data (a_rcvBuf a)\<rparr>) (processReceivedData now sn data a)"
  using settle.P_process_other settle.P_process_inserts settles_refl by blast

lemma writeTake_idle: "writeTake now a = (Inl nxt, b) \<Longrightarrow> settles a b"
  using settle.P_writeTake_idle settles_refl by blast

section \<open>Runs\<close>

text \<open>
  A packet that is processed is one the peer has sent, and no older or newer than half the number space
  around the next expected chunk: a packet does not stay in the network while 32768 others pass it.
\<close>

type_synonym run = "nat \<times> bytes list option \<times> arq"

inductive stream_step :: "(nat \<Rightarrow> bytes) \<Rightarrow> run \<Rightarrow> run \<Rightarrow> bool" for d where
  operation: "op_step a b \<Longrightarrow> stream_step d (n, p, a) (n, p, b)"
| read: "stream_step d (n, p, a) (n, p, ioRead now raw a)"
| process: "a_rxChan a = (of_nat i, d i) # rest \<Longrightarrow> n \<le> i + 32768 \<Longrightarrow> i < n + 32768 \<Longrightarrow>
    stream_step d (n, p, a) (n, p, rxStep now a)"
| idle: "writeTake now a = (Inl nxt, b) \<Longrightarrow> stream_step d (n, None, a) (n, None, b)"
| take: "writeTake now a = (Inr ds, b) \<Longrightarrow> stream_step d (n, None, a) (n + length ds, Some ds, b)"
| finish: "writeFinish now ds results a = (nxt, b) \<Longrightarrow> nxt \<noteq> WriterBlocked \<Longrightarrow>
    stream_step d (n, Some ds, a) (n, None, b)"

definition stream_prefix :: "(nat \<Rightarrow> bytes) \<Rightarrow> nat \<Rightarrow> bytes" where
  "stream_prefix d n = concat (map d [0..<n])"

fun held :: "bytes list option \<Rightarrow> bytes" where
  "held None = []"
| "held (Some ds) = concat ds"

text \<open>
  The bytes written and the bytes held by the writer are the chunks taken so far; once the local writer is
  broken and the buffer discarded, nothing more is taken and a prefix has been written.
\<close>

fun delivers :: "(nat \<Rightarrow> bytes) \<Rightarrow> run \<Rightarrow> bool" where
  "delivers d (n, p, a) \<longleftrightarrow>
     a_rcvNxt a = of_nat n \<and> inWindow d n (a_rcvBuf a) \<and>
     int (length (a_rcvBuf a)) \<le> a_receiveWindowSize a + (if buffered (a_rcvNxt a) a then 1 else 0) \<and>
     0 \<le> a_receiveWindowSize a \<and>
     (written (a_out a) @ held p = stream_prefix d n \<or>
      p = None \<and> a_localWriterBroken a \<and> a_rcvBuf a = [] \<and> prefix (written (a_out a)) (stream_prefix d n))"

lemma delivers_settles: "settles a b \<Longrightarrow> delivers d (n, p, a) \<Longrightarrow> delivers d (n, p, b)"
  by (auto simp: settles_def buffered_def)

lemma delivers_take:
  assumes "writeTake now a = (Inr ds, b)" "delivers d (n, None, a)"
  shows "delivers d (n + length ds, Some ds, b)"
proof -
  obtain m buf where ready: "takeReady (a_rcvNxt a) (a_rcvBuf a) = (ds, m, buf)" and "ds \<noteq> []"
      and b: "b = a\<lparr>a_rcvNxt := m, a_rcvBuf := buf, a_localWritePending := True\<rparr>"
    using assms(1) by (auto simp: writeTake_def Let_def split: if_splits prod.splits)
  have win: "inWindow d n (a_rcvBuf a)" and nxt: "a_rcvNxt a = of_nat n"
    using assms(2) by simp_all
  note ok = takeReady_ok [OF ready [unfolded nxt] win]
  have len: "length buf + length ds = length (a_rcvBuf a)"
    using takeReady_length [OF ready] win by (simp add: inWindow_def)
  have "a_rcvBuf a \<noteq> []" using len \<open>ds \<noteq> []\<close> by auto
  then have "written (a_out a) = stream_prefix d n" using assms(2) by auto
  moreover have "stream_prefix d n @ concat ds = stream_prefix d (n + length ds)"
  proof -
    have "concat ds = concat (map d [n..<n + length ds])" using ok by (intro arg_cong [of _ _ concat]) simp
    then show ?thesis by (simp only: stream_prefix_def upt_add_eq_append [of 0 n] map_append concat_append)
  qed
  moreover have "int (length buf) \<le> a_receiveWindowSize a"
    using assms(2) len \<open>ds \<noteq> []\<close> by (cases ds) (auto split: if_splits)
  moreover have "m = of_nat (n + length ds)" "inWindow d (n + length ds) buf" "map_of buf m = None"
    using ok by blast+
  ultimately show ?thesis using assms(2) b by (simp add: buffered_def)
qed

lemma delivers_finish:
  assumes "writeFinish now ds results a = (nxt, b)" "nxt \<noteq> WriterBlocked" "delivers d (n, Some ds, a)"
  shows "delivers d (n, None, b)"
proof -
  obtain w e where w: "writeChunk (concat ds) 0 results = (w, e)" by (metis surj_pair)
  note pre = writeChunk_prefix [OF w]
  define a1 where "a1 = a\<lparr>a_out := a_out a @ [Wrote w]\<rparr>"
  have out: "written (a_out a1) = written (a_out a) @ w" by (simp add: a1_def)
  show ?thesis
  proof (cases e)
    case WriteDone
    have "delivers d (n, None, a1)"
      using assms(3) pre WriteDone by (auto simp: a1_def buffered_def split: if_splits)
    moreover have "settles a1 (snd (writeFinish now ds results a))"
      using w settles_refl unfolding a1_def by (rule settle.P_writeFinish)
    ultimately show ?thesis using delivers_settles assms(1) by (metis snd_conv)
  next
    case (WriteBroken cls err)
    have broken: "delivers d (n, None, markLocalWriterBroken a1)"
    proof -
      have all: "written (a_out a) @ concat ds = stream_prefix d n" using assms(3) by simp
      have "prefix (written (a_out a) @ w) (stream_prefix d n)"
        using pre unfolding all [symmetric] by (simp add: same_prefix_prefix)
      then show ?thesis
        using assms(3) by (simp add: a1_def markLocalWriterBroken_def buffered_def)
    qed
    have "settles (markLocalWriterBroken a1) b"
      using assms(1) unfolding writeFinish_def w Let_def prod.case a1_def [symmetric] WriteBroken write_end.case brokenWriter_def
      by (auto intro!: keeps settles_refl)
    then show ?thesis using broken by (rule delivers_settles)
  next
    case WriteMore
    then show ?thesis using assms(1,2) w by (simp add: writeFinish_def Let_def)
  qed
qed

lemma delivers_process:
  assumes "a_rxChan a = (of_nat i, d i) # rest" "n \<le> i + 32768" "i < n + 32768" "delivers d (n, p, a)"
  shows "delivers d (n, p, rxStep now a)"
proof -
  define a1 where "a1 = a\<lparr>a_rxChan := rest\<rparr>"
  have step: "rxStep now a = processReceivedData now (of_nat i) (d i) a1"
    using assms(1) by (simp add: rxStep_def a1_def)
  have a1: "delivers d (n, p, a1)"
    using assms(4) by (rule delivers_settles [rotated]) (unfold a1_def, intro keeps settles_refl)
  from process_cases [of a1 now "of_nat i" "d i"] consider "settles a1 (rxStep now a)"
    | (new) "\<not> a_localWriterBroken a1" "of_nat i - a_rcvNxt a1 < 32768" "\<not> buffered (of_nat i) a1"
      "int (length (a_rcvBuf a1)) < a_receiveWindowSize a1 \<or> of_nat i = a_rcvNxt a1"
      "settles (a1\<lparr>a_rcvBuf := AList.update (of_nat i) (d i) (a_rcvBuf a1)\<rparr>) (rxStep now a)"
    unfolding step inserts_def by blast
  then show ?thesis
  proof cases
    case new
    have "n \<le> i"
      using new(2) a1 assms(2) ahead_of [of i n] by simp
    then have "delivers d (n, p, a1\<lparr>a_rcvBuf := AList.update (of_nat i) (d i) (a_rcvBuf a1)\<rparr>)"
    proof -
      have none: "map_of (a_rcvBuf a1) (of_nat i) = None" using new(3) by (simp add: buffered_def)
      have inv: "a_rcvNxt a1 = of_nat n" "inWindow d n (a_rcvBuf a1)" "0 \<le> a_receiveWindowSize a1"
        "written (a_out a1) @ held p = stream_prefix d n"
        "int (length (a_rcvBuf a1)) \<le> a_receiveWindowSize a1 + (if buffered (a_rcvNxt a1) a1 then 1 else 0)"
        using a1 new(1) by auto
      have "inWindow d n (AList.update (of_nat i) (d i) (a_rcvBuf a1))"
        using inv(2) \<open>n \<le> i\<close> assms(3) none by (rule inWindow_update)
      moreover have "int (length (a_rcvBuf a1) + 1) \<le> a_receiveWindowSize a1 +
          (if map_of (AList.update (of_nat i) (d i) (a_rcvBuf a1)) (of_nat n) \<noteq> None then 1 else 0)"
        using new(4) inv(5) none unfolding inv(1) alist_update_new [OF none] by (elim disjE) (simp_all add: buffered_def)
      ultimately show ?thesis
        using inv by (simp add: buffered_def alist_update_new [OF none])
    qed
    with new(5) show ?thesis by (rule delivers_settles)
  qed (use a1 delivers_settles in blast)
qed

lemma delivers_step: "stream_step d r s \<Longrightarrow> delivers d r \<Longrightarrow> delivers d s"
proof (induction rule: stream_step.induct)
  case operation then show ?case using delivers_settles op_step_settles by blast
next
  case read then show ?case using delivers_settles ioRead_settles by blast
next
  case process then show ?case by (rule delivers_process)
next
  case idle then show ?case using delivers_settles writeTake_idle by blast
next
  case take then show ?case by (rule delivers_take)
next
  case finish then show ?case by (rule delivers_finish)
qed

lemma delivers_NewARQ: "delivers d (0, None, NewARQ rnd now enq conn mtu cfg)"
  by (simp add: NewARQ_def Let_def stream_prefix_def)

lemma delivers_reachable:
  "(stream_step d)\<^sup>*\<^sup>* (0, None, NewARQ rnd now enq conn mtu cfg) r \<Longrightarrow> delivers d r"
  by (induction rule: rtranclp_induct) (rule delivers_NewARQ, rule delivers_step)

section \<open>In-order delivery\<close>

text \<open>
  C6: however the operations of a stream, the processing of inbound packets in any order and
  number, and the rounds of its writer interleave, the bytes written to the local connection are a prefix
  of what the peer sent, each chunk once and in order; unless the local writer is broken they are, with
  those the writer still holds, exactly the chunks taken; the next expected sequence number is the
  count of taken chunks modulo 65536, and the receive buffer never exceeds its window by more than the one chunk that
  is due.
\<close>

theorem arq_in_order:
  assumes "(stream_step d)\<^sup>*\<^sup>* (0, None, NewARQ rnd now enq conn mtu cfg) (n, p, a)"
  shows "prefix (written (a_out a)) (stream_prefix d n) \<and>
    (\<not> a_localWriterBroken a \<longrightarrow> written (a_out a) @ held p = stream_prefix d n) \<and>
    a_rcvNxt a = of_nat n \<and> int (length (a_rcvBuf a)) \<le> a_receiveWindowSize a + 1"
proof -
  have inv: "delivers d (n, p, a)" using assms by (rule delivers_reachable)
  then have "prefix (written (a_out a)) (stream_prefix d n)"
    by (metis delivers.simps prefixI)
  moreover have "int (length (a_rcvBuf a)) \<le> a_receiveWindowSize a + 1"
    using inv by (simp split: if_splits)
  ultimately show ?thesis using inv by auto
qed

definition demo_config :: arq_config where
  "demo_config = \<lparr>cfg_WindowSize = 300, cfg_RTO = 1, cfg_MaxRTO = 2, cfg_IsVirtual = False, cfg_StartPaused = False,
     cfg_EnableControlReliability = True, cfg_ControlRTO = 1, cfg_ControlMaxRTO = 2, cfg_ControlMaxRetries = 5,
     cfg_InactivityTimeout = 120, cfg_DataPacketTTL = 120, cfg_MaxDataRetries = 60, cfg_ControlPacketTTL = 120,
     cfg_DataNackMaxGap = 0, cfg_DataNackInitialDelaySeconds = 0, cfg_DataNackRepeatSeconds = 1,
     cfg_TerminalDrainTimeout = 60, cfg_TerminalAckWaitTimeout = 30, cfg_CompressionType = 0, cfg_IsClient = True,
     cfg_InboundQueueSize = 8\<rparr>"

definition demo_enqueuer :: enqueuer where
  "demo_enqueuer = \<lparr>enq_PushTXPacket = (\<lambda>_ _. True), enq_removesData = True, enq_removesNack = True, enq_terminalOwner = True\<rparr>"

abbreviation demo_arq :: arq where
  "demo_arq \<equiv> NewARQ (\<lambda>x. x) 7 demo_enqueuer (Some True) 100 demo_config"

lemma demo_fields:
  "a_closed demo_arq = False" "a_rstReceived demo_arq = False" "a_rstSent demo_arq = False" "a_localWriterBroken demo_arq = False"
  "a_closeWriteSent demo_arq = False" "a_closeWriteAcked demo_arq = False" "a_closeReadReceived demo_arq = False"
  "a_rxChan demo_arq = []" "a_rxCap demo_arq = 8" "a_pendingInbound demo_arq = 0" "a_rcvNxt demo_arq = 0"
  "a_rcvBuf demo_arq = []" "a_receiveWindowSize demo_arq = 600" "a_dataNackMaxGap demo_arq = 0" "a_ioReady demo_arq = True"
  "a_localConn demo_arq = Some True" "a_enqueuer demo_arq = demo_enqueuer" "a_out demo_arq = []"
  "a_firstDataNackSeen demo_arq = []" "a_lastDataNackSent demo_arq = []" "a_IsClient demo_arq = True" "a_isVirtual demo_arq = False"
  by (simp_all add: NewARQ_def Let_def demo_config_def maxI_def)

theorem arq_in_order_witness:
  "\<exists>a. (stream_step (\<lambda>i. [of_nat i + 5]))\<^sup>*\<^sup>* (0, None, demo_arq) (2, None, a) \<and> written (a_out a) = [5, 6]"
proof -
  let ?d = "\<lambda>i. [of_nat i + 5 :: u8]"
  define a1 where "a1 = snd (ReceiveData 8 1 [6] demo_arq)"
  define a2 where "a2 = snd (ReceiveData 8 0 [5] a1)"
  define a3 where "a3 = rxStep 9 a2"
  define a4 where "a4 = rxStep 9 a3"
  have a2: "a2 = demo_arq\<lparr>a_pendingInbound := 2, a_rxChan := [(1, [6]), (0, [5])]\<rparr>"
    by (simp add: a2_def a1_def ReceiveData_def Let_def demo_fields)
  note defs = rxStep_def processReceivedData_def Let_def PushTXPacket_def signalFlushReady_def maybeSendDataNacks_def
    clearSentDataNack_def removeQueued_def buffered_def demo_fields word_le_nat_alt
  have a3: "a_rxChan a3 = [(0, [5])]" by (simp add: a3_def a2 defs)
  have a4: "a_rcvBuf a4 = [(1, [6]), (0, [5])]" "a_rcvNxt a4 = 0" "a_closed a4 = False" "a_ioReady a4 = True"
    "a_localConn a4 = Some True" "a_localWriterBroken a4 = False" "a_rstReceived a4 = False" "a_closeReadReceived a4 = False"
    "a_IsClient a4 = True" "a_isVirtual a4 = False"
    by (simp_all add: a4_def a3_def a2 defs)
  have ready: "takeReady 0 [(1, [6]), (0, [5])] = ([[5], [6]], 2 :: u16, [])"
    by (simp add: takeReady.simps)
  define a5 where "a5 = a4\<lparr>a_rcvNxt := 2, a_rcvBuf := [], a_localWritePending := True\<rparr>"
  have take: "writeTake 9 a4 = (Inr [[5], [6]], a5)"
    by (simp add: writeTake_def a4 ready a5_def)
  define a6 where "a6 = a5\<lparr>a_out := a_out a5 @ [Wrote [5, 6]], a_localWritePending := False\<rparr>"
  have finish: "writeFinish 9 [[5], [6]] [(2, None)] a5 = (NextRound, a6)"
    by (simp add: writeFinish_def writeChunk.simps Let_def a6_def a5_def a4 tryFinalizePeerResetDrain_def
        tryFinalizeRemoteEOF_def tryFinalizeClientLocalDisconnect_def)
  have "stream_step ?d (0, None, demo_arq) (0, None, a1)" "stream_step ?d (0, None, a1) (0, None, a2)"
    unfolding a1_def a2_def by (intro stream_step.operation op_step.intros)+
  moreover have "stream_step ?d (0, None, a2) (0, None, a3)"
    unfolding a3_def by (rule stream_step.process [of _ 1]) (simp_all add: a2)
  moreover have "stream_step ?d (0, None, a3) (0, None, a4)"
    unfolding a4_def by (rule stream_step.process [of _ 0]) (simp_all add: a3)
  moreover have "stream_step ?d (0, None, a4) (2, Some [[5], [6]], a5)"
    using stream_step.take [OF take, of ?d 0] by (simp add: numeral_2_eq_2)
  moreover have "stream_step ?d (2, Some [[5], [6]], a5) (2, None, a6)"
    by (rule stream_step.finish [OF finish]) simp
  ultimately have run: "(stream_step ?d)\<^sup>*\<^sup>* (0, None, demo_arq) (2, None, a6)"
    by (meson converse_rtranclp_into_rtranclp rtranclp.rtrancl_refl)
  have "written (a_out a6) = [5, 6]"
    using arq_in_order [OF run] by (simp add: a6_def a5_def a4 stream_prefix_def upt_conv_Cons)
  with run show ?thesis by blast
qed

section \<open>The end of a stream\<close>

definition ends :: "arq \<Rightarrow> arq \<Rightarrow> bool" where
  "ends a b \<longleftrightarrow> a_enqueuer b = a_enqueuer a \<and>
     (a_closed b = a_closed a \<and> notices b = notices a \<or>
      \<not> a_closed a \<and> a_closed b \<and> notices b = notices a + (if enq_terminalOwner (a_enqueuer a) then 1 else 0))"

lemma settles_ends: "settles a b \<Longrightarrow> ends a b"
  by (auto simp: settles_def ends_def)

lemma ends_trans: "ends a b \<Longrightarrow> ends b c \<Longrightarrow> ends a c"
  by (auto simp: ends_def)

lemma ends_update:
  "ends a (a\<lparr>a_rcvBuf := buf\<rparr>)" "ends a (a\<lparr>a_rcvNxt := nxt, a_rcvBuf := buf, a_localWritePending := w\<rparr>)"
  "ends a (a\<lparr>a_rxChan := ch\<rparr>)" "ends a (a\<lparr>a_out := a_out a @ [Wrote bs]\<rparr>)"
  by (simp_all add: ends_def notices_def)

lemma writeTake_ends:
  assumes "writeTake now a = (Inr ds, b)"
  shows "ends a b"
  using assms ends_update(2) by (auto simp: writeTake_def Let_def split: if_splits prod.splits)

lemma writeFinish_ends: "ends a (snd (writeFinish now ds results a))"
proof -
  obtain w e where w: "writeChunk (concat ds) 0 results = (w, e)" by (metis surj_pair)
  define a1 where "a1 = a\<lparr>a_out := a_out a @ [Wrote w]\<rparr>"
  have "settles a1 (snd (writeFinish now ds results a))"
    using w settles_refl unfolding a1_def by (rule settle.P_writeFinish)
  then show ?thesis using ends_update(4) ends_trans settles_ends a1_def by blast
qed

lemma rxStep_ends: "ends a (rxStep now a)"
proof (cases "a_rxChan a")
  case (Cons e rest)
  obtain sn data where e: "e = (sn, data)" by (cases e)
  have "ends (a\<lparr>a_rxChan := rest\<rparr>) (processReceivedData now sn data (a\<lparr>a_rxChan := rest\<rparr>))"
    using process_cases ends_update(1) ends_trans settles_ends by blast
  then have "ends a (processReceivedData now sn data (a\<lparr>a_rxChan := rest\<rparr>))"
    by (rule ends_trans [OF ends_update(3)])
  then show ?thesis by (simp add: rxStep_def Cons e)
qed (simp add: rxStep_def ends_def)

abbreviation run_arq :: "run \<Rightarrow> arq" where
  "run_arq r \<equiv> snd (snd r)"

lemma stream_step_ends: "stream_step d r s \<Longrightarrow> ends (run_arq r) (run_arq s)"
proof (induction rule: stream_step.induct)
  case operation then show ?case by (simp add: op_step_settles settles_ends)
next
  case read show ?case by (simp add: settles_ends ioRead_settles)
next
  case process show ?case by (simp add: rxStep_ends)
next
  case idle then show ?case by (simp add: writeTake_idle settles_ends)
next
  case take then show ?case by (simp add: writeTake_ends)
next
  case (finish now ds results a nxt b n)
  then show ?case using writeFinish_ends [of a now ds results] by simp
qed

lemma run_ends: "(stream_step d)\<^sup>*\<^sup>* r s \<Longrightarrow> ends (run_arq r) (run_arq s)"
proof (induction rule: rtranclp_induct)
  case base then show ?case by (simp add: ends_def)
next
  case (step s t) then show ?case by (intro ends_trans [OF step.IH] stream_step_ends)
qed

text \<open>
  C22: over any run, the owner of a stream is told of its end exactly when the stream is closed and
  exactly once, and a closed stream stays closed without telling again.
\<close>

theorem arq_ends_once:
  assumes "(stream_step d)\<^sup>*\<^sup>* (0, None, NewARQ rnd now enq conn mtu cfg) (n, p, a)"
    and "(stream_step d)\<^sup>*\<^sup>* (n, p, a) (m, q, b)"
  shows "notices a = (if a_closed a \<and> enq_terminalOwner enq then 1 else 0) \<and>
    (a_closed a \<longrightarrow> a_closed b \<and> notices b = notices a)"
  using run_ends [OF assms(1)] run_ends [OF assms(2)]
  by (auto simp: ends_def NewARQ_def Let_def notices_def)

theorem arq_ends_once_witness:
  "\<exists>a. (stream_step (\<lambda>_. []))\<^sup>*\<^sup>* (0, None, demo_arq) (0, None, a) \<and> a_closed a \<and> notices a = 1"
proof -
  define a where "a = Close 8 ''gone'' (no_options\<lparr>opt_Force := True\<rparr>) demo_arq"
  have run: "(stream_step (\<lambda>_. []))\<^sup>*\<^sup>* (0, None, demo_arq) (0, None, a)"
    unfolding a_def by (intro r_into_rtranclp stream_step.operation op_step.intros)
  have closed: "a_closed a"
    by (simp add: a_def Close_def closeBody_def no_options_def finalizeClose_def Let_def core_helpers demo_fields)
  have "notices a = 1"
    using arq_ends_once [OF run rtranclp.rtrancl_refl] closed by (simp add: demo_enqueuer_def)
  then show ?thesis using run closed by blast
qed

end
