(* ===== verification/ArqTransfer.thy ===== *)
theory ArqTransfer
  imports ArqStream "HOL-Library.More_List"
begin




section \<open>The sender\<close>











section \<open>The receiver\<close>








end
