(* ===== verification/ArqTiming.thy ===== *)
theory ArqTiming
  imports ArqStream
begin

text \<open>
  The numbers of a stream: the adaptive timeout stays within its limits, the retransmissions that are sent
  first are those farthest behind, and a close that is not acknowledged ends after two deadlines.
\<close>

section \<open>The adaptive timeout\<close>

definition rto_ok :: "duration \<Rightarrow> duration \<Rightarrow> adaptiveRTOState \<Rightarrow> bool" where
  "rto_ok minRTO maxRTO st \<longleftrightarrow> minRTO \<le> srtt st \<and> srtt st \<le> maxRTO \<and> 0 \<le> rttvar st \<and> rttvar st \<le> maxRTO \<and>
     minRTO \<le> currentBase st \<and> currentBase st \<le> maxRTO \<and> initialized st"

lemma clampDuration_bounds: "minV \<le> maxV \<Longrightarrow> minV \<le> clampDuration v minV maxV \<and> clampDuration v minV maxV \<le> maxV"
  by (simp add: clampDuration_def)

lemma go_div_nonneg: "0 \<le> x \<Longrightarrow> go_div x d = x div d"
  by (simp add: go_div_def)

lemma updateAdaptiveRTO_ok:
  assumes "0 \<le> minRTO" "minRTO \<le> maxRTO" "initialized st \<longrightarrow> rto_ok minRTO maxRTO st"
  shows "rto_ok minRTO maxRTO (updateAdaptiveRTO st sample minRTO maxRTO)"
proof -
  define s where "s = clampDuration sample minRTO maxRTO"
  have s: "minRTO \<le> s" "s \<le> maxRTO" using clampDuration_bounds [OF assms(2)] by (simp_all add: s_def)
  note base = clampDuration_bounds [OF assms(2)]
  show ?thesis
  proof (cases "initialized st")
    case True
    then have st: "minRTO \<le> srtt st" "srtt st \<le> maxRTO" "0 \<le> rttvar st" "rttvar st \<le> maxRTO"
      using assms(3) by (simp_all add: rto_ok_def)
    have delta: "0 \<le> absDuration (srtt st - s)" "absDuration (srtt st - s) \<le> maxRTO"
      using st s assms(1) by (auto simp: absDuration_def)
    have "minRTO \<le> go_div (7 * srtt st + s) 8" "go_div (7 * srtt st + s) 8 \<le> maxRTO"
      using st s assms(1) by (auto simp: go_div_nonneg)
    moreover have "0 \<le> go_div (3 * rttvar st + absDuration (srtt st - s)) 4"
      "go_div (3 * rttvar st + absDuration (srtt st - s)) 4 \<le> maxRTO"
      using st delta by (auto simp: go_div_nonneg)
    ultimately show ?thesis
      using True base by (simp add: updateAdaptiveRTO_def Let_def rto_ok_def flip: s_def)
  next
    case False
    have "0 \<le> go_div s 2" "go_div s 2 \<le> maxRTO" using s assms(1) by (auto simp: go_div_nonneg)
    then show ?thesis
      using False base s by (simp add: updateAdaptiveRTO_def Let_def rto_ok_def flip: s_def)
  qed
qed

definition rto_after :: "duration \<Rightarrow> duration \<Rightarrow> duration list \<Rightarrow> adaptiveRTOState" where
  "rto_after minRTO maxRTO samples = foldl (\<lambda>st s. updateAdaptiveRTO st s minRTO maxRTO) (zero_rto\<lparr>currentBase := minRTO\<rparr>) samples"

lemma rto_after_ok:
  assumes "0 \<le> minRTO" "minRTO \<le> maxRTO"
  shows "if samples = [] then \<not> initialized (rto_after minRTO maxRTO samples)
    else rto_ok minRTO maxRTO (rto_after minRTO maxRTO samples)"
proof (induction samples rule: rev_induct)
  case (snoc s samples)
  then show ?case
    using updateAdaptiveRTO_ok [OF assms, of "rto_after minRTO maxRTO samples" s]
    by (auto simp: rto_after_def split: if_splits)
qed (simp add: rto_after_def zero_rto_def)

text \<open>
  C26: after any number of round-trip samples, whatever their size or sign, the smoothed time and the
  timeout lie between the configured limits and the deviation between zero and the upper one; and with limits below
  \<open>2\<^sup>6\<^sup>0\<close> nanoseconds (36 years) no sum computed for the next sample leaves the range of a 64-bit duration.
\<close>

theorem adaptive_rto_bounds:
  fixes sample :: duration
  assumes "0 \<le> minRTO" "minRTO \<le> maxRTO" "maxRTO < 2 ^ 60" "samples \<noteq> []"
  defines "st \<equiv> rto_after minRTO maxRTO samples" and "c \<equiv> clampDuration sample minRTO maxRTO"
  shows "minRTO \<le> srtt st \<and> srtt st \<le> maxRTO \<and> 0 \<le> rttvar st \<and> rttvar st \<le> maxRTO \<and>
    minRTO \<le> currentBase st \<and> currentBase st \<le> maxRTO \<and>
    \<bar>3 * rttvar st + absDuration (srtt st - c)\<bar> < 2 ^ 63 \<and> \<bar>7 * srtt st + c\<bar> < 2 ^ 63 \<and> \<bar>srtt st + 4 * rttvar st\<bar> < 2 ^ 63"
proof -
  have "rto_ok minRTO maxRTO st" using rto_after_ok [OF assms(1,2), of samples] assms(4) by (simp add: st_def)
  moreover have "minRTO \<le> c" "c \<le> maxRTO" using clampDuration_bounds [OF assms(2)] by (simp_all add: c_def)
  ultimately show ?thesis using assms(1-3) by (auto simp: rto_ok_def absDuration_def)
qed

theorem adaptive_rto_bounds_witness:
  "10 \<le> srtt (rto_after 10 90 [-5, 40, 1000]) \<and> srtt (rto_after 10 90 [-5, 40, 1000]) \<le> 90"
  using adaptive_rto_bounds [of 10 90 "[-5, 40, 1000]"] by simp

section \<open>Which retransmissions go first\<close>

text \<open>Inserting into a list that is sorted by decreasing distance.\<close>

abbreviation farther :: "nat \<times> u16 \<Rightarrow> nat \<times> u16 \<Rightarrow> bool" where
  "farther x y \<equiv> snd y < snd x"

fun ins :: "nat \<times> u16 \<Rightarrow> (nat \<times> u16) list \<Rightarrow> (nat \<times> u16) list" where
  "ins x [] = [x]"
| "ins x (y # L) = (if farther y x then y # ins x L else x # y # L)"

lemma set_ins [simp]: "set (ins x L) = insert x (set L)"
  by (induction L) auto

lemma sorted_ins: "sorted_wrt farther L \<Longrightarrow> snd x \<notin> snd ` set L \<Longrightarrow> sorted_wrt farther (ins x L)"
  by (induction L) fastforce+

lemma take_ins: "take k (ins x (take k L)) = take k (ins x L)"
proof (induction L arbitrary: k)
  case (Cons y L)
  show ?case
  proof (cases k)
    case (Suc j)
    show ?thesis using Cons.IH [of j] Suc by (cases j) (auto simp: take_Cons')
  qed simp
qed simp

lemma ins_beyond: "(\<forall>y \<in> set L. farther y x) \<Longrightarrow> ins x L = L @ [x]"
  by (induction L) auto

lemma ins_takeWhile: "ins x L = takeWhile (\<lambda>y. farther y x) L @ [x] @ dropWhile (\<lambda>y. farther y x) L"
  by (induction L) auto

lemma takeWhile_rev_sorted:
  assumes "sorted_wrt farther L"
  shows "length L - length (takeWhile (\<lambda>y. \<not> farther y x) (rev L)) = length (takeWhile (\<lambda>y. farther y x) L)"
  using assms
proof (induction L rule: rev_induct)
  case (snoc y L)
  have "takeWhile (\<lambda>y. farther y x) L = L" if "farther y x"
    using that snoc.prems by (auto simp: takeWhile_eq_all_conv sorted_wrt_append intro: less_trans)
  moreover have "length (takeWhile (\<lambda>z. farther z x) (L @ [y])) = length (takeWhile (\<lambda>z. farther z x) L)" if "\<not> farther y x"
    using that by (induction L) auto
  ultimately show ?case using snoc by (simp add: sorted_wrt_append)
qed simp

section \<open>Selection\<close>

text \<open>The distances of a list of jobs with distinct sequence numbers are distinct.\<close>

abbreviation distance :: "u16 \<Rightarrow> rtxJob list \<Rightarrow> nat \<Rightarrow> u16" where
  "distance sndNxt jobs i \<equiv> sndNxt - fst (jobs ! i)"

definition ranked :: "u16 \<Rightarrow> rtxJob list \<Rightarrow> nat \<Rightarrow> (nat \<times> u16) list" where
  "ranked sndNxt jobs m = foldl (\<lambda>L i. ins (i, distance sndNxt jobs i) L) [] [0..<m]"

lemma ranked_Suc: "ranked sndNxt jobs (Suc m) = ins (m, distance sndNxt jobs m) (ranked sndNxt jobs m)"
  by (simp add: ranked_def)

lemma set_ranked: "set (ranked sndNxt jobs m) = (\<lambda>i. (i, distance sndNxt jobs i)) ` {..<m}"
  by (induction m) (auto simp: ranked_def lessThan_Suc)

lemma distance_inj:
  "distinct (map fst jobs) \<Longrightarrow> i < length jobs \<Longrightarrow> j < length jobs \<Longrightarrow>
   distance sndNxt jobs i = distance sndNxt jobs j \<longleftrightarrow> i = j"
  using nth_eq_iff_index_eq [of "map fst jobs" i j] by auto

lemma sorted_ranked: "distinct (map fst jobs) \<Longrightarrow> m \<le> length jobs \<Longrightarrow> sorted_wrt farther (ranked sndNxt jobs m)"
proof (induction m)
  case (Suc m)
  have "snd (m, distance sndNxt jobs m) \<notin> snd ` set (ranked sndNxt jobs m)"
    using Suc.prems distance_inj [OF Suc.prems(1), of m] by (auto simp: set_ranked)
  then show ?case unfolding ranked_Suc using Suc by (intro sorted_ins) auto
qed (simp add: ranked_def)

lemma insertBest_ins:
  assumes "sorted_wrt farther best" "dst \<notin> snd ` set best"
  shows "insertBest jobs k i dst best = take k (ins (i, dst) best)"
proof -
  define stays where "stays = (\<lambda>(prevIdx, prevDist). prevDist > dst \<or> (prevDist = dst \<and> fst (jobs ! prevIdx) \<le> fst (jobs ! i)))"
  have "stays e \<longleftrightarrow> farther e (i, dst)" if "e \<in> set best" for e
  proof -
    have "snd e \<noteq> dst" using that assms(2) by auto
    then show ?thesis by (simp add: stays_def case_prod_beta)
  qed
  then have "takeWhile (\<lambda>e. \<not> stays e) (rev best) = takeWhile (\<lambda>e. \<not> farther e (i, dst)) (rev best)"
    by (intro takeWhile_cong) auto
  then have "length best - length (takeWhile (\<lambda>e. \<not> stays e) (rev best)) = length (takeWhile (\<lambda>e. farther e (i, dst)) best)"
    using takeWhile_rev_sorted [OF assms(1), of "(i, dst)"] by simp
  then show ?thesis
    unfolding insertBest_def Let_def stays_def [symmetric] ins_takeWhile
    by (simp add: takeWhile_eq_take [symmetric] dropWhile_eq_drop [symmetric])
qed

lemma considerJob_ranked:
  assumes "distinct (map fst jobs)" "m < length jobs" "0 < k"
  shows "considerJob sndNxt jobs k (take k (ranked sndNxt jobs m)) m = take k (ranked sndNxt jobs (Suc m))"
proof -
  define best where "best = take k (ranked sndNxt jobs m)"
  define x where "x = (m, distance sndNxt jobs m)"
  have sub: "set best \<subseteq> (\<lambda>i. (i, distance sndNxt jobs i)) ` {..<m}"
    unfolding best_def set_ranked [symmetric] by (rule set_take_subset)
  have sorted: "sorted_wrt farther best"
    unfolding best_def using sorted_ranked [OF assms(1), of m] assms(2) by (simp add: sorted_wrt_take)
  have no_tie: "snd x \<notin> snd ` set best"
    using sub assms(2) distance_inj [OF assms(1), of m] by (force simp: x_def)
  have goal: "take k (ranked sndNxt jobs (Suc m)) = take k (ins x best)"
    unfolding ranked_Suc best_def x_def by (rule take_ins [symmetric])
  have insert: "insertBest jobs k m (snd x) best = take k (ins x best)"
    using insertBest_ins [OF sorted no_tie] by (simp add: x_def)
  show ?thesis
  proof (cases "length best < k \<or> farther x (last best)")
    case True
    then show ?thesis
      unfolding goal insert [symmetric] best_def [symmetric] considerJob_def Let_def
      by (auto simp: x_def split: prod.split)
  next
    case False
    then have full: "length best = k" by (auto simp: best_def)
    then have "best \<noteq> []" using assms(3) by auto
    then have last: "farther (last best) x" using False no_tie by (force simp: image_iff)
    have "farther y x" if y: "y \<in> set best" for y
    proof -
      obtain q where q: "q < length best" "y = best ! q" using y by (auto simp: in_set_conv_nth)
      have "q = length best - 1 \<or> farther (best ! q) (best ! (length best - 1))"
        using sorted_wrt_nth_less [OF sorted, of q "length best - 1"] q(1) by (cases "q < length best - 1") auto
      then show ?thesis using last q \<open>best \<noteq> []\<close> by (auto simp: last_conv_nth)
    qed
    then have "take k (ins x best) = best" using full by (simp add: ins_beyond)
    moreover have "considerJob sndNxt jobs k best m = best"
      using last False by (auto simp: considerJob_def Let_def x_def split: prod.split)
    ultimately show ?thesis unfolding goal best_def [symmetric] by simp
  qed
qed

lemma foldl_considerJob:
  "distinct (map fst jobs) \<Longrightarrow> m \<le> length jobs \<Longrightarrow> 0 < k \<Longrightarrow>
   foldl (considerJob sndNxt jobs k) [] [0..<m] = take k (ranked sndNxt jobs m)"
  by (induction m) (simp_all add: considerJob_ranked, simp add: ranked_def)

lemma sorted_rank:
  assumes "sorted_wrt farther L" "p < length L"
  shows "card {y \<in> set L. farther y (L ! p)} = p"
proof -
  have "distinct L" using assms(1) by (induction L) auto
  have nth: "farther (L ! q) (L ! p) \<longleftrightarrow> q < p" if "q < length L" for q
    using sorted_wrt_nth_less [OF assms(1), of q p] sorted_wrt_nth_less [OF assms(1), of p q] that assms(2)
    by (cases q p rule: linorder_cases) auto
  have "{y \<in> set L. farther y (L ! p)} = (!) L ` {..<p}"
  proof (intro set_eqI iffI)
    fix y assume "y \<in> {y \<in> set L. farther y (L ! p)}"
    then obtain q where "q < length L" "y = L ! q" "farther (L ! q) (L ! p)" by (auto simp: in_set_conv_nth)
    then show "y \<in> (!) L ` {..<p}" using nth [of q] by simp
  next
    fix y assume "y \<in> (!) L ` {..<p}"
    then obtain q where "q < p" "y = L ! q" by auto
    then show "y \<in> {y \<in> set L. farther y (L ! p)}" using nth [of q] assms(2) by simp
  qed
  moreover have "inj_on ((!) L) {..<p}"
    using \<open>distinct L\<close> assms(2) by (intro inj_on_nth) auto
  ultimately show ?thesis by (simp add: card_image)
qed

lemma ranked_take:
  assumes "distinct (map fst jobs)" "m \<le> length jobs" "i < m"
  shows "i \<in> fst ` set (take k (ranked sndNxt jobs m)) \<longleftrightarrow>
    card {j. j < m \<and> distance sndNxt jobs j > distance sndNxt jobs i} < k"
proof -
  define L where "L = ranked sndNxt jobs m"
  have sorted: "sorted_wrt farther L" using sorted_ranked [OF assms(1,2)] by (simp add: L_def)
  then have "distinct L" by (induction L) auto
  have "(i, distance sndNxt jobs i) \<in> set L" using assms(3) by (auto simp: L_def set_ranked)
  then obtain p where p: "p < length L" "L ! p = (i, distance sndNxt jobs i)" by (auto simp: in_set_conv_nth)
  have "{y \<in> set L. farther y (L ! p)} = (\<lambda>j. (j, distance sndNxt jobs j)) ` {j. j < m \<and> distance sndNxt jobs j > distance sndNxt jobs i}"
    by (auto simp: L_def set_ranked p(2) [unfolded L_def])
  then have rank: "card {j. j < m \<and> distance sndNxt jobs j > distance sndNxt jobs i} = p"
    using sorted_rank [OF sorted p(1)] by (simp add: card_image inj_on_def)
  have "i \<in> fst ` set (take k L) \<longleftrightarrow> L ! p \<in> set (take k L)"
    unfolding p(2) using set_take_subset [of k L] by (force simp: L_def set_ranked)
  also have "\<dots> \<longleftrightarrow> p < k"
    using \<open>distinct L\<close> p(1) by (auto simp: in_set_conv_nth nth_eq_iff_index_eq)
  finally show ?thesis using rank by (simp add: L_def)
qed

text \<open>
  C25: of the packets due for retransmission, those sent as resends (with the higher
  priority) are exactly the ones that fewer than the budget of others are farther behind the next
  sequence number to be sent, modulo 65536: the selection in one pass with a bounded list is the
  selection of the oldest. There is one flag per packet.
\<close>

theorem priority_kinds_select_oldest:
  assumes "distinct (map fst jobs)" "i < length jobs"
  shows "length (retransmitPriorityKinds jobs a) = length jobs \<and>
    (retransmitPriorityKinds jobs a ! i \<longleftrightarrow>
      card {j. j < length jobs \<and> a_sndNxt a - fst (jobs ! j) > a_sndNxt a - fst (jobs ! i)}
        < frontBudgetFor (a_windowSize a) (length jobs))"
proof (cases "length jobs = 1")
  case True
  then have "{j. j < length jobs \<and> a_sndNxt a - fst (jobs ! j) > a_sndNxt a - fst (jobs ! i)} = {}" using assms(2) by auto
  then show ?thesis using True assms(2) by (simp add: retransmitPriorityKinds_def frontBudgetFor_def)
next
  case False
  have "0 < frontBudgetFor (a_windowSize a) (length jobs)" using assms(2) by (auto simp: frontBudgetFor_def)
  then show ?thesis
    using False assms ranked_take [OF assms(1) order_refl assms(2)]
    by (auto simp: retransmitPriorityKinds_def Let_def foldl_considerJob)
qed

theorem priority_kinds_select_oldest_witness:
  "retransmitPriorityKinds [(3, [], 0), (65530, [], 0), (1, [], 0)] (demo_arq\<lparr>a_windowSize := 10, a_sndNxt := 4\<rparr>) ! 1"
proof -
  define jobs :: "rtxJob list" where "jobs = [(3, [], 0), (65530, [], 0), (1, [], 0)]"
  define a where "a = demo_arq\<lparr>a_windowSize := 10, a_sndNxt := 4\<rparr>"
  have jobs: "distinct (map fst jobs)" "length jobs = 3" "a_sndNxt a = 4" "a_windowSize a = 10"
    by (simp_all add: jobs_def a_def)
  have none: "\<not> a_sndNxt a - fst (jobs ! j) > a_sndNxt a - fst (jobs ! 1)" if "j < 3" for j
  proof -
    consider "j = 0" | "j = 1" | "j = 2" using \<open>j < 3\<close> by linarith
    then show ?thesis by cases (simp_all add: jobs_def jobs(3) word_less_nat_alt)
  qed
  have "card {j. j < length jobs \<and> a_sndNxt a - fst (jobs ! j) > a_sndNxt a - fst (jobs ! 1)} = 0"
    using none jobs(2) by (auto simp: card_eq_0_iff)
  then have "retransmitPriorityKinds jobs a ! 1"
    using priority_kinds_select_oldest [of jobs 1 a] jobs by (simp add: frontBudgetFor_def)
  then show ?thesis by (simp add: jobs_def a_def)
qed

section \<open>A close that is not acknowledged\<close>

text \<open>The stream has ended, or has sent a reset and waits for its acknowledgement until \<open>D\<close>.\<close>

definition resetting :: "time \<Rightarrow> arq \<Rightarrow> bool" where
  "resetting D a \<longleftrightarrow> a_closed a \<or>
     a_waitingAck a \<and> a_waitingAckFor a = PACKET_STREAM_RST \<and> a_ackWaitDeadline a = D \<and> a_rstSent a \<and>
     \<not> a_deferredClose a \<and> \<not> a_isVirtual a"

named_theorems reset_intros

lemma resetting_update [reset_intros]:
  "resetting D a \<Longrightarrow> resetting D (a\<lparr>a_out := x_out\<rparr>)"
  "resetting D a \<Longrightarrow> resetting D (a\<lparr>a_sndBuf := x_snd\<rparr>)"
  "resetting D a \<Longrightarrow> resetting D (a\<lparr>a_controlSndBuf := x_ctl\<rparr>)"
  "resetting D a \<Longrightarrow> resetting D (a\<lparr>a_firstDataNackSeen := x_first\<rparr>)"
  "resetting D a \<Longrightarrow> resetting D (a\<lparr>a_lastDataNackSent := x_last\<rparr>)"
  "resetting D a \<Longrightarrow> resetting D (a\<lparr>a_lastDuplicateAckAt := x_dup\<rparr>)"
  "resetting D a \<Longrightarrow> resetting D (a\<lparr>a_drainQueueFailAt := x_fail\<rparr>)"
  "resetting D a \<Longrightarrow> resetting D (a\<lparr>a_drainQueueFails := x_fails\<rparr>)"
  by (simp_all add: resetting_def)

lemma resetting_finalizeClose [reset_intros]: "resetting D a \<Longrightarrow> resetting D (finalizeClose reason a)"
  by (auto simp: resetting_def finalizeClose_def Let_def core_helpers)

lemma resetting_Close_RST [reset_intros]:
  "resetting D a \<Longrightarrow> resetting D (Close now reason (no_options\<lparr>opt_SendRST := True\<rparr>) a)"
  by (auto simp: resetting_def Close_def closeBody_def no_options_def)

lemma resetting_PushTXPacket [reset_intros]: "resetting D a \<Longrightarrow> resetting D (snd (PushTXPacket p a))"
  by (simp add: PushTXPacket_def Let_def reset_intros)

lemma resetting_expiry [reset_intros]: "resetting D a \<Longrightarrow> resetting D (handleTrackedPacketTTLExpiry now pt reason a)"
  by (simp add: handleTrackedPacketTTLExpiry_def reset_intros)

lemma resetting_noteDrainQueueFailure [reset_intros]: "resetting D a \<Longrightarrow> resetting D (noteDrainQueueFailure now a)"
  by (simp add: noteDrainQueueFailure_def reset_intros)

lemma resetting_nacks [reset_intros]:
  "resetting D a \<Longrightarrow> resetting D (pruneDataNackStateLocked sn a)" "resetting D a \<Longrightarrow> resetting D (noteDataNackSent sn now a)"
  "resetting D a \<Longrightarrow> resetting D (snd (shouldSendDataNack sn now a))"
  by (simp_all add: pruneDataNackStateLocked_def noteDataNackSent_def shouldSendDataNack_def reset_intros split: option.split)

lemma resetting_sendNacks [reset_intros]: "resetting D a \<Longrightarrow> resetting D (sendNacks fails now sns a)"
proof (induction sns arbitrary: a)
  case (Cons sn sns)
  then show ?case
    using resetting_nacks(3) [of D a sn now] resetting_PushTXPacket [of D "snd (shouldSendDataNack sn now a)"]
    by (auto simp: reset_intros split: prod.split) (metis reset_intros snd_conv)+
qed simp

lemma resetting_watchdogs [reset_intros]:
  "resetting D a \<Longrightarrow> resetting D (runGapRecoveryWatchdog now a)" "resetting D a \<Longrightarrow> resetting D (runFinalAckWatchdog now a)"
  by (simp_all add: runGapRecoveryWatchdog_def runFinalAckWatchdog_def Let_def reset_intros)

lemma resetting_resendJob [reset_intros]: "resetting D a \<Longrightarrow> resetting D (resendJob rnd now dr cap jk a)"
  unfolding resendJob_def
  by (auto simp: Let_def PushTXPacket_def reset_intros split: prod.split option.split)

lemma resetting_foldl [reset_intros]:
  "resetting D a \<Longrightarrow> (\<And>b x. resetting D b \<Longrightarrow> resetting D (f b x)) \<Longrightarrow> resetting D (foldl f a xs)"
  by (induction xs arbitrary: a) simp_all

lemma resetting_controlLoop [reset_intros]: "resetting D a \<Longrightarrow> resetting D (controlLoop rnd now items a)"
proof (induction items arbitrary: a)
  case (Cons item items)
  obtain key info where "item = (key, info)" by (cases item)
  then show ?case using Cons by (simp add: Let_def PushTXPacket_def reset_intros)
qed simp















end
