(* ===== verification/GoNet.thy ===== *)
theory GoNet
  imports GoStrings
begin

text \<open>
  Textual IP addresses as Go's \<open>net.ParseIP\<close> reads them (with \<open>netip.ParseAddr\<close> behind it): an address is its sixteen
  bytes, an IPv4 address the one mapped into IPv6. Zones are refused.
\<close>

abbreviation dotByte :: u8 where "dotByte \<equiv> 0x2E"
abbreviation colon :: u8 where "colon \<equiv> 0x3A"
abbreviation percent :: u8 where "percent \<equiv> 0x25"

definition is_digit :: "u8 \<Rightarrow> bool" where
  "is_digit c \<longleftrightarrow> 0x30 \<le> c \<and> c \<le> 0x39"

definition hex_value :: "u8 \<Rightarrow> nat option" where
  "hex_value c =
     (if is_digit c then Some (unat c - 48)
      else if 0x61 \<le> c \<and> c \<le> 0x66 then Some (unat c - 97 + 10)
      else if 0x41 \<le> c \<and> c \<le> 0x46 then Some (unat c - 65 + 10)
      else None)"

section \<open>IPv4\<close>

text \<open>The loop of \<open>parseIPv4Fields\<close>: the previous character, the field being read, its digits, the fields read.\<close>

fun v4Fields :: "u8 option \<Rightarrow> nat \<Rightarrow> nat \<Rightarrow> u8 list \<Rightarrow> gostring \<Rightarrow> u8 list option" where
  "v4Fields prev val digLen fields [] = (if length fields < 3 then None else Some (fields @ [of_nat val]))"
| "v4Fields prev val digLen fields (c # s) =
     (if is_digit c then
        if digLen = 1 \<and> val = 0 then None
        else
          let val = val * 10 + (unat c - 48) in
          if val > 255 then None else v4Fields (Some c) val (digLen + 1) fields s
      else if c = dotByte then
        if prev = None \<or> s = [] \<or> prev = Some dotByte then None
        else if length fields = 3 then None
        else v4Fields (Some c) 0 0 (fields @ [of_nat val]) s
      else None)"

definition parseIPv4Fields :: "gostring \<Rightarrow> u8 list option" where
  "parseIPv4Fields s = v4Fields None 0 0 [] s"

definition v4mapped :: "u8 list \<Rightarrow> u8 list" where
  "v4mapped fields = replicate 10 0 @ [0xFF, 0xFF] @ fields"

section \<open>IPv6\<close>

text \<open>The digits of one group: how many there are and their value, or an error for a fifth digit.\<close>

fun v6Group :: "nat \<Rightarrow> nat \<Rightarrow> gostring \<Rightarrow> (nat \<times> nat) option" where
  "v6Group off acc [] = Some (off, acc)"
| "v6Group off acc (c # s) =
     (case hex_value c of
        None \<Rightarrow> Some (off, acc)
      | Some h \<Rightarrow> if off > 3 then None else if acc * 16 + h > 65535 then None else v6Group (off + 1) (acc * 16 + h) s)"

text \<open>
  The loop over groups. \<open>ip\<close> holds the bytes so far and \<open>ellipsis\<close> where the double colon was; the result has them as
  well as the rest of the text. The recursion ends when sixteen bytes are read.
\<close>

function v6Groups :: "nat option \<Rightarrow> u8 list \<Rightarrow> gostring \<Rightarrow> (u8 list \<times> nat option \<times> gostring) option" where
  "v6Groups ellipsis ip s =
     (if length ip \<ge> 16 then Some (ip, ellipsis, s)
      else case v6Group 0 0 s of
          None \<Rightarrow> None
        | Some (off, acc) \<Rightarrow>
            if off = 0 then None
            else if off < length s \<and> s ! off = dotByte then
              if ellipsis = None \<and> length ip \<noteq> 12 then None
              else if length ip + 4 > 16 then None
              else (case parseIPv4Fields s of None \<Rightarrow> None | Some fields \<Rightarrow> Some (ip @ fields, ellipsis, []))
            else
              let ip = ip @ [of_nat (acc div 256), of_nat (acc mod 256)];
                  s = drop off s
              in
                if s = [] then Some (ip, ellipsis, [])
                else if hd s \<noteq> colon then None
                else if length s = 1 then None
                else
                  let s = tl s in
                  if hd s = colon then
                    if ellipsis \<noteq> None then None
                    else if tl s = [] then Some (ip, Some (length ip), [])
                    else v6Groups (Some (length ip)) ip (tl s)
                  else v6Groups ellipsis ip s)"
  by pat_completeness auto
termination
  by (relation "measure (\<lambda>(_, ip, _). 16 - length ip)") auto

declare v6Groups.simps [simp del]

definition v6Expand :: "u8 list \<Rightarrow> nat option \<Rightarrow> u8 list option" where
  "v6Expand ip ellipsis =
     (case ellipsis of
        None \<Rightarrow> if length ip < 16 then None else Some ip
      | Some e \<Rightarrow> if length ip < 16 then Some (take e ip @ replicate (16 - length ip) 0 @ drop e ip) else None)"

text \<open>The address and the zone.\<close>

definition parseIPv6 :: "gostring \<Rightarrow> (u8 list \<times> gostring) option" where
  "parseIPv6 inp =
     (let s = takeWhile (\<lambda>c. c \<noteq> percent) inp;
          rest = dropWhile (\<lambda>c. c \<noteq> percent) inp;
          zone = drop 1 rest
      in
        if rest \<noteq> [] \<and> zone = [] then None
        else
          let colons = (length s \<ge> 2 \<and> s ! 0 = colon \<and> s ! 1 = colon) in
          if colons \<and> length s = 2 then Some (replicate 16 0, zone)
          else case v6Groups (if colons then Some 0 else None) [] (if colons then drop 2 s else s) of
              None \<Rightarrow> None
            | Some (ip, ellipsis, left) \<Rightarrow>
                if left \<noteq> [] then None
                else (case v6Expand ip ellipsis of None \<Rightarrow> None | Some ip \<Rightarrow> Some (ip, zone)))"

definition ParseIP :: "gostring \<Rightarrow> u8 list option" where
  "ParseIP s =
     (case find (\<lambda>c. c = dotByte \<or> c = colon \<or> c = percent) s of
        None \<Rightarrow> None
      | Some c \<Rightarrow>
          if c = dotByte then map_option v4mapped (parseIPv4Fields s)
          else if c = colon then
            (case parseIPv6 s of Some (ip, []) \<Rightarrow> Some ip | _ \<Rightarrow> None)
          else None)"

section \<open>Addresses\<close>

definition To4 :: "u8 list \<Rightarrow> u8 list option" where
  "To4 ip =
     (if length ip = 4 then Some ip
      else if length ip = 16 \<and> take 12 ip = replicate 10 0 @ [0xFF, 0xFF] then Some (drop 12 ip)
      else None)"

definition IsLoopback :: "u8 list \<Rightarrow> bool" where
  "IsLoopback ip = (case To4 ip of Some ip4 \<Rightarrow> ip4 ! 0 = 127 | None \<Rightarrow> ip = replicate 15 0 @ [1])"

text \<open>A parsed address has sixteen bytes.\<close>

lemma v4Fields_length: "v4Fields prev val digLen fields s = Some fs \<Longrightarrow> length fields \<le> 3 \<Longrightarrow> length fs = 4"
  by (induction prev val digLen fields s rule: v4Fields.induct) (auto simp: Let_def split: if_splits)

lemma v6Expand_length: "v6Expand ip e = Some ip' \<Longrightarrow> length ip \<le> 16 \<Longrightarrow> length ip' = 16"
  by (auto simp: v6Expand_def min_def split: option.splits if_splits)

lemma v6Groups_length: "v6Groups e ip s = Some (ip', e', s') \<Longrightarrow> even (length ip) \<Longrightarrow> length ip \<le> 16 \<Longrightarrow> length ip' \<le> 16"
proof (induction e ip s rule: v6Groups.induct)
  case (1 e ip s)
  show ?case
  proof (cases "length ip \<ge> 16")
    case True
    then show ?thesis using "1.prems" by (simp add: v6Groups.simps [of e ip s])
  next
    case False
    then have room: "Suc (Suc (length ip)) \<le> 16" using "1.prems"(2) by presburger
    obtain off acc where g: "v6Group 0 0 s = Some (off, acc)"
      using "1.prems"(1) False by (cases "v6Group 0 0 s") (auto simp: v6Groups.simps [of e ip s])
    define ip2 where "ip2 = ip @ [of_nat (acc div 256) :: u8, of_nat (acc mod 256)]"
    have ip2: "even (length ip2)" "length ip2 \<le> 16" using "1.prems"(2) room by (simp_all add: ip2_def)
    show ?thesis
    proof (cases "off < length s \<and> s ! off = dotByte")
      case True
      then show ?thesis
        using "1.prems"(1) False g
        by (auto simp: v6Groups.simps [of e ip s] parseIPv4Fields_def dest: v4Fields_length split: if_splits option.splits)
    next
      case nodot: False
      have off: "off \<noteq> 0"
        using "1.prems"(1) False g by (cases "off = 0") (simp_all add: v6Groups.simps [of e ip s])
      have eq: "v6Groups e ip s = (let s = drop off s in
          if s = [] then Some (ip2, e, []) else if hd s \<noteq> colon then None else if length s = 1 then None
          else let s = tl s in if hd s = colon then if e \<noteq> None then None
            else if tl s = [] then Some (ip2, Some (length ip2), []) else v6Groups (Some (length ip2)) ip2 (tl s)
          else v6Groups e ip2 s)"
        using False g nodot off by (subst v6Groups.simps) (simp add: ip2_def Let_def)
      note IH = "1.IH" [OF False g refl off nodot refl refl, folded ip2_def]
      show ?thesis
        using "1.prems"(1) IH ip2 unfolding eq Let_def by (auto split: if_splits)
    qed
  qed
qed

lemma ParseIP_length: "ParseIP s = Some ip \<Longrightarrow> length ip = 16"
  by (auto simp: ParseIP_def parseIPv6_def parseIPv4Fields_def v4mapped_def Let_def
      dest!: v4Fields_length v6Expand_length dest: v6Groups_length split: option.splits if_splits prod.splits list.splits)

end
