(* ===== verification/RateLimit.thy ===== *)
theory RateLimit
  imports GoNet "HOL-Library.Sublist"
begin

text \<open>
  The limiter of SOCKS authentication failures (\<open>client/socks_ratelimit.go\<close>): per address the recent failures, the end of
  a ban and how often it was banned. The clock is the argument \<open>now\<close>, the zero time is 0.
\<close>

abbreviation minute :: duration where "minute \<equiv> 60000000000"

abbreviation socksRateLimitWindow :: duration where "socksRateLimitWindow \<equiv> 2 * minute"
abbreviation socksRateLimitMaxFailures :: nat where "socksRateLimitMaxFailures \<equiv> 10"
abbreviation socksRateLimitBaseBan :: duration where "socksRateLimitBaseBan \<equiv> minute"
abbreviation socksRateLimitMaxBanDuration :: duration where "socksRateLimitMaxBanDuration \<equiv> 15 * minute"
abbreviation socksRateLimitBanDecayAfter :: duration where "socksRateLimitBanDecayAfter \<equiv> 10 * minute"
abbreviation socksRateLimitPurgeInterval :: duration where "socksRateLimitPurgeInterval \<equiv> 60000000000"

record socksAuthFailureRecord =
  rec_timestamps :: "time list"
  rec_banUntil :: time
  rec_banCount :: nat

record socksRateLimiter =
  lim_records :: "(gostring \<times> socksAuthFailureRecord) list"
  lim_lastPurge :: time

definition newSocksRateLimiter :: "time \<Rightarrow> socksRateLimiter" where
  "newSocksRateLimiter now = \<lparr>lim_records = [], lim_lastPurge = now\<rparr>"

definition isLoopbackIP :: "gostring \<Rightarrow> bool" where
  "isLoopbackIP ip = (case ParseIP ip of None \<Rightarrow> False | Some parsed \<Rightarrow> IsLoopback parsed)"

definition exempt :: "gostring \<Rightarrow> bool" where
  "exempt ip \<longleftrightarrow> ip = [] \<or> isLoopbackIP ip"

definition IsBlocked :: "time \<Rightarrow> gostring \<Rightarrow> socksRateLimiter \<Rightarrow> bool" where
  "IsBlocked now ip r =
     (if exempt ip then False
      else case map_of (lim_records r) ip of
          None \<Rightarrow> False
        | Some rec \<Rightarrow> if rec_banUntil rec = 0 then False else now < rec_banUntil rec)"

definition stale :: "time \<Rightarrow> socksAuthFailureRecord \<Rightarrow> bool" where
  "stale now rec \<longleftrightarrow>
     \<not> (rec_banUntil rec \<noteq> 0 \<and> now < rec_banUntil rec) \<and>
     (let hasRecent = (\<exists>ts \<in> set (rec_timestamps rec). ts > now - socksRateLimitWindow)
      in \<not> hasRecent \<and> (rec_banUntil rec = 0 \<or> now > rec_banUntil rec))"

definition purgeLocked :: "time \<Rightarrow> socksRateLimiter \<Rightarrow> socksRateLimiter" where
  "purgeLocked now r = r\<lparr>lim_records := filter (\<lambda>(_, rec). \<not> stale now rec) (lim_records r)\<rparr>"

text \<open>The back-off loop: \<open>n\<close> doublings, cut off at the maximum.\<close>

fun backoff :: "nat \<Rightarrow> duration \<Rightarrow> duration" where
  "backoff 0 d = d"
| "backoff (Suc n) d = (let d = d * 2 in if d \<ge> socksRateLimitMaxBanDuration then socksRateLimitMaxBanDuration else backoff n d)"

text \<open>\<open>RecordFailure\<close> in three parts: the periodic cleanup, the record of the address, and what a failure does to it.\<close>

definition purgeIfDue :: "time \<Rightarrow> socksRateLimiter \<Rightarrow> socksRateLimiter" where
  "purgeIfDue now r = (if time_sub now (lim_lastPurge r) \<ge> socksRateLimitPurgeInterval
     then (purgeLocked now r)\<lparr>lim_lastPurge := now\<rparr> else r)"

definition record_of :: "gostring \<Rightarrow> socksRateLimiter \<Rightarrow> socksAuthFailureRecord" where
  "record_of ip r = (case map_of (lim_records r) ip of
     Some rec \<Rightarrow> rec | None \<Rightarrow> \<lparr>rec_timestamps = [], rec_banUntil = 0, rec_banCount = 0\<rparr>)"

definition decayed :: "time \<Rightarrow> socksAuthFailureRecord \<Rightarrow> socksAuthFailureRecord" where
  "decayed now rec =
     (if rec_banCount rec > 0 \<and> rec_banUntil rec \<noteq> 0 \<and> now > rec_banUntil rec \<and>
         time_sub now (rec_banUntil rec) \<ge> socksRateLimitBanDecayAfter
      then rec\<lparr>rec_banCount := 0\<rparr> else rec)"

definition trimmed :: "time \<Rightarrow> socksAuthFailureRecord \<Rightarrow> time list" where
  "trimmed now rec = filter (\<lambda>ts. ts > now - socksRateLimitWindow) (rec_timestamps rec)"

definition noteFailure :: "time \<Rightarrow> socksAuthFailureRecord \<Rightarrow> bool \<times> socksAuthFailureRecord" where
  "noteFailure now rec =
     (if rec_banUntil rec \<noteq> 0 \<and> now < rec_banUntil rec then (True, rec)
      else
        let rec = decayed now rec;
            rec = rec\<lparr>rec_timestamps := trimmed now rec @ [now]\<rparr>
        in
          if length (rec_timestamps rec) \<ge> socksRateLimitMaxFailures then
            let rec = rec\<lparr>rec_banCount := rec_banCount rec + 1\<rparr>;
                banDuration = backoff (rec_banCount rec - 1) socksRateLimitBaseBan
            in (True, rec\<lparr>rec_banUntil := now + banDuration, rec_timestamps := []\<rparr>)
          else (False, rec))"

definition RecordFailure :: "time \<Rightarrow> gostring \<Rightarrow> socksRateLimiter \<Rightarrow> bool \<times> socksRateLimiter" where
  "RecordFailure now ip r =
     (if exempt ip then (False, r)
      else
        let r = purgeIfDue now r;
            (banned, rec) = noteFailure now (record_of ip r)
        in (banned, r\<lparr>lim_records := AList.update ip rec (lim_records r)\<rparr>))"

definition RecordSuccess :: "gostring \<Rightarrow> socksRateLimiter \<Rightarrow> socksRateLimiter" where
  "RecordSuccess ip r = (if exempt ip then r else r\<lparr>lim_records := AList.delete ip (lim_records r)\<rparr>)"

definition Reset :: "time \<Rightarrow> socksRateLimiter \<Rightarrow> socksRateLimiter" where
  "Reset now r = r\<lparr>lim_records := [], lim_lastPurge := now\<rparr>"

section \<open>Runs\<close>

datatype attempt = Failed time gostring | Succeeded gostring | ResetAt time

fun attempt_step :: "attempt \<Rightarrow> socksRateLimiter \<Rightarrow> socksRateLimiter" where
  "attempt_step (Failed now ip) r = snd (RecordFailure now ip r)"
| "attempt_step (Succeeded ip) r = RecordSuccess ip r"
| "attempt_step (ResetAt now) r = Reset now r"

definition attempts :: "attempt list \<Rightarrow> socksRateLimiter \<Rightarrow> socksRateLimiter" where
  "attempts es r = foldl (\<lambda>r e. attempt_step e r) r es"

lemma attempts_snoc: "attempts (es @ [e]) r = attempt_step e (attempts es r)"
  by (simp add: attempts_def)

fun failure_of :: "gostring \<Rightarrow> attempt \<Rightarrow> time list" where
  "failure_of ip (Failed now ip') = (if ip' = ip then [now] else [])"
| "failure_of ip _ = []"

definition failures :: "gostring \<Rightarrow> attempt list \<Rightarrow> time list" where
  "failures ip es = concat (map (failure_of ip) es)"

lemma failures_snoc: "failures ip (es @ [e]) = failures ip es @ failure_of ip e"
  by (simp add: failures_def)

section \<open>The back-off\<close>

lemma backoff_bounds: "0 < d \<Longrightarrow> d \<le> socksRateLimitMaxBanDuration \<Longrightarrow> d \<le> backoff n d \<and> backoff n d \<le> socksRateLimitMaxBanDuration"
proof (induction n arbitrary: d)
  case (Suc n)
  show ?case using Suc.IH [of "d * 2"] Suc.prems by (auto simp: Let_def)
qed simp

section \<open>Bans need ten failures\<close>

text \<open>Ten failures of an address within two minutes, and the time of the last of them.\<close>

definition burst :: "time list \<Rightarrow> time \<Rightarrow> bool" where
  "burst hist last_at \<longleftrightarrow> (\<exists>tms. subseq tms hist \<and> length tms = socksRateLimitMaxFailures \<and> last tms = last_at \<and>
     (\<forall>t \<in> set tms. t > last_at - socksRateLimitWindow))"

definition justified :: "time list \<Rightarrow> socksAuthFailureRecord \<Rightarrow> bool" where
  "justified hist rec \<longleftrightarrow> subseq (rec_timestamps rec) hist \<and> length (rec_timestamps rec) < socksRateLimitMaxFailures \<and>
     (rec_banUntil rec = 0 \<or> (\<exists>t. burst hist t \<and> rec_banUntil rec \<le> t + socksRateLimitMaxBanDuration))"

lemma subseq_later: "subseq xs hist \<Longrightarrow> subseq xs (hist @ later)"
  by (meson prefixI prefix_imp_subseq subseq_order.trans)

lemma burst_mono: "burst hist t \<Longrightarrow> burst (hist @ later) t"
  unfolding burst_def using subseq_later by blast

lemma justified_mono: "justified hist rec \<Longrightarrow> justified (hist @ later) rec"
  unfolding justified_def using burst_mono subseq_later by blast

definition all_justified :: "attempt list \<Rightarrow> socksRateLimiter \<Rightarrow> bool" where
  "all_justified es r \<longleftrightarrow> (\<forall>(ip, rec) \<in> set (lim_records r). justified (failures ip es) rec)"

lemma set_alist_update: "set (AList.update k v al) \<subseteq> insert (k, v) (set al)"
  by (induction al) auto

lemma all_justified_store:
  "all_justified es r \<Longrightarrow> justified (failures ip es) rec \<Longrightarrow>
   all_justified es (r\<lparr>lim_records := AList.update ip rec (lim_records r)\<rparr>)"
  using set_alist_update [of ip rec "lim_records r"] by (fastforce simp: all_justified_def)

lemma RecordFailure_store:
  "\<not> exempt ip \<Longrightarrow> RecordFailure now ip r =
     (fst (noteFailure now (record_of ip (purgeIfDue now r))),
      (purgeIfDue now r)\<lparr>lim_records := AList.update ip (snd (noteFailure now (record_of ip (purgeIfDue now r)))) (lim_records (purgeIfDue now r))\<rparr>)"
  by (simp add: RecordFailure_def Let_def case_prod_beta)

lemma decayed_simps [simp]:
  "rec_timestamps (decayed now rec) = rec_timestamps rec" "rec_banUntil (decayed now rec) = rec_banUntil rec"
  "trimmed now (decayed now rec) = trimmed now rec"
  by (simp_all add: decayed_def trimmed_def)

text \<open>The three outcomes of a failure.\<close>

lemma noteFailure_cases:
  obtains (banned) "rec_banUntil rec \<noteq> 0" "now < rec_banUntil rec" "noteFailure now rec = (True, rec)"
  | (ban) "\<not> (rec_banUntil rec \<noteq> 0 \<and> now < rec_banUntil rec)" "length (trimmed now rec) \<ge> 9"
      "noteFailure now rec = (True, \<lparr>rec_timestamps = [],
         rec_banUntil = now + backoff (rec_banCount (decayed now rec)) socksRateLimitBaseBan,
         rec_banCount = rec_banCount (decayed now rec) + 1\<rparr>)"
  | (count) "\<not> (rec_banUntil rec \<noteq> 0 \<and> now < rec_banUntil rec)" "length (trimmed now rec) < 9"
      "noteFailure now rec = (False, \<lparr>rec_timestamps = trimmed now rec @ [now], rec_banUntil = rec_banUntil rec,
         rec_banCount = rec_banCount (decayed now rec)\<rparr>)"
proof (cases "rec_banUntil rec \<noteq> 0 \<and> now < rec_banUntil rec")
  case True
  then show ?thesis using banned by (simp add: noteFailure_def)
next
  case False
  show ?thesis
  proof (cases "length (trimmed now rec) \<ge> 9")
    case True
    with False show ?thesis by (intro ban) (auto simp: noteFailure_def Let_def)
  next
    case few: False
    with False show ?thesis by (intro count) (auto simp: noteFailure_def Let_def)
  qed
qed

lemma justified_noteFailure:
  assumes "justified hist rec"
  shows "justified (hist @ [now]) (snd (noteFailure now rec))"
proof -
  define tms where "tms = trimmed now rec @ [now]"
  have "subseq (trimmed now rec) hist"
    using assms unfolding trimmed_def justified_def by (blast intro: subseq_order.trans [OF subseq_filter_left])
  then have sub: "subseq tms (hist @ [now])"
    unfolding tms_def by (rule list_emb_append_mono) simp
  have len: "length (trimmed now rec) \<le> 9"
  proof -
    have "length (trimmed now rec) \<le> length (rec_timestamps rec)" unfolding trimmed_def by (rule length_filter_le)
    then show ?thesis using assms by (simp add: justified_def)
  qed
  note old = justified_mono [OF assms, of "[now]"]
  show ?thesis
  proof (cases rule: noteFailure_cases [of rec now])
    case banned then show ?thesis using old by simp
  next
    case ban
    have "burst (hist @ [now]) now"
      unfolding burst_def using sub len ban(2) by (intro exI [of _ tms]) (auto simp: tms_def trimmed_def)
    moreover have "backoff (rec_banCount (decayed now rec)) socksRateLimitBaseBan \<le> socksRateLimitMaxBanDuration"
      using backoff_bounds [of socksRateLimitBaseBan] by simp
    ultimately show ?thesis using ban(3) by (auto simp: justified_def)
  next
    case count
    then show ?thesis using old sub by (simp add: justified_def tms_def)
  qed
qed

lemma all_justified_purge: "all_justified es r \<Longrightarrow> all_justified es (purgeIfDue now r)"
  by (auto simp: all_justified_def purgeIfDue_def purgeLocked_def)

lemma all_justified_mono: "all_justified es r \<Longrightarrow> all_justified (es @ [e]) r"
  by (auto simp: all_justified_def failures_snoc intro: justified_mono)

lemma justified_record_of: "all_justified es r \<Longrightarrow> justified (failures ip es) (record_of ip r)"
  by (auto simp: all_justified_def record_of_def justified_def dest!: map_of_SomeD split: option.splits)

lemma all_justified_step: "all_justified es r \<Longrightarrow> all_justified (es @ [e]) (attempt_step e r)"
proof (cases e)
  case (Failed now ip)
  assume inv: "all_justified es r"
  show ?thesis
  proof (cases "exempt ip")
    case True
    then show ?thesis using all_justified_mono [OF inv] Failed by (simp add: RecordFailure_def)
  next
    case False
    have purged: "all_justified es (purgeIfDue now r)" using inv by (rule all_justified_purge)
    have "justified (failures ip (es @ [e])) (snd (noteFailure now (record_of ip (purgeIfDue now r))))"
      using justified_noteFailure [OF justified_record_of [OF purged]] by (simp add: failures_snoc Failed)
    with all_justified_mono [OF purged] show ?thesis
      using all_justified_store [of "es @ [e]"] False Failed by (simp add: RecordFailure_store)
  qed
next
  case (Succeeded ip)
  assume "all_justified es r"
  from all_justified_mono [OF this, of e] show ?thesis
    using Succeeded by (auto simp: all_justified_def RecordSuccess_def AList.delete_eq)
next
  case (ResetAt now)
  then show ?thesis by (simp add: all_justified_def Reset_def)
qed

lemma attempts_justified: "all_justified es (attempts es (newSocksRateLimiter t0))"
proof (induction es rule: rev_induct)
  case Nil show ?case by (simp add: attempts_def all_justified_def newSocksRateLimiter_def)
next
  case (snoc e es) then show ?case by (simp add: attempts_snoc all_justified_step)
qed

text \<open>
  C29: whatever failures, successes and resets have happened, of any addresses and in any order, an address is
  only blocked if ten of its own failures lie within two minutes, and no longer than fifteen minutes after the last of
  them. The empty and the loopback addresses are never blocked.
\<close>

theorem rate_limit_needs_burst:
  assumes "IsBlocked now ip (attempts es (newSocksRateLimiter t0))"
  shows "\<not> exempt ip \<and> (\<exists>tms. subseq tms (failures ip es) \<and> length tms = 10 \<and>
    (\<forall>t \<in> set tms. t > last tms - socksRateLimitWindow) \<and> now < last tms + socksRateLimitMaxBanDuration)"
proof -
  obtain rec where rec: "map_of (lim_records (attempts es (newSocksRateLimiter t0))) ip = Some rec" "rec_banUntil rec \<noteq> 0"
      "now < rec_banUntil rec" "\<not> exempt ip"
    using assms by (auto simp: IsBlocked_def split: if_splits option.splits)
  have "justified (failures ip es) rec"
    using attempts_justified [of es t0] map_of_SomeD [OF rec(1)] by (auto simp: all_justified_def)
  then obtain t where "burst (failures ip es) t" "rec_banUntil rec \<le> t + socksRateLimitMaxBanDuration"
    using rec(2) by (auto simp: justified_def)
  then show ?thesis using rec(3,4) unfolding burst_def by force
qed

section \<open>Ten failures ban\<close>

lemma map_of_filter_distinct:
  "keys_distinct al \<Longrightarrow> map_of (filter (\<lambda>(_, v). Q v) al) k =
     (case map_of al k of None \<Rightarrow> None | Some v \<Rightarrow> if Q v then Some v else None)"
proof (induction al)
  case (Cons e al)
  have "map_of (filter (\<lambda>(_, v). Q v) al) k' = None" if "k' \<notin> fst ` set al" for k'
    using that by (auto simp: map_of_eq_None_iff)
  with Cons show ?case by (cases e) (auto simp: keys_distinct_def)
qed simp

lemma lookup_purgeIfDue:
  "keys_distinct (lim_records r) \<Longrightarrow> map_of (lim_records (purgeIfDue now r)) ip =
     (case map_of (lim_records r) ip of
        None \<Rightarrow> None
      | Some rec \<Rightarrow> if time_sub now (lim_lastPurge r) \<ge> socksRateLimitPurgeInterval \<and> stale now rec then None else Some rec)"
  by (simp add: purgeIfDue_def purgeLocked_def map_of_filter_distinct split: option.split)

lemma keys_purgeIfDue: "keys_distinct (lim_records r) \<Longrightarrow> keys_distinct (lim_records (purgeIfDue now r))"
  by (auto simp: purgeIfDue_def purgeLocked_def keys_distinct_def intro: distinct_map_filter)

lemma keys_step: "keys_distinct (lim_records r) \<Longrightarrow> keys_distinct (lim_records (attempt_step e r))"
proof (cases e)
  case (Failed now ip)
  assume "keys_distinct (lim_records r)"
  then show ?thesis
    using Failed keys_purgeIfDue [of r now]
    by (cases "exempt ip") (simp add: RecordFailure_def, simp add: RecordFailure_store)
qed (simp_all add: RecordSuccess_def Reset_def)

lemma keys_attempts: "keys_distinct (lim_records r) \<Longrightarrow> keys_distinct (lim_records (attempts es r))"
  by (induction es rule: rev_induct) (simp_all add: attempts_def keys_step)

text \<open>Failures of several addresses up to a time \<open>t\<close>, those of \<open>ip\<close> all within the window that ends there.\<close>

definition recent_failures :: "gostring \<Rightarrow> time \<Rightarrow> attempt list \<Rightarrow> bool" where
  "recent_failures ip t es \<longleftrightarrow>
     (\<forall>e \<in> set es. \<exists>s ip'. e = Failed s ip' \<and> s \<le> t \<and> (ip' = ip \<longrightarrow> s > t - socksRateLimitWindow))"

lemma recent_failures_times: "recent_failures ip t es \<Longrightarrow> s \<in> set (failures ip es) \<Longrightarrow> s > t - socksRateLimitWindow"
proof (induction es)
  case (Cons e es)
  obtain x j where "e = Failed x j" "j = ip \<longrightarrow> x > t - socksRateLimitWindow" "recent_failures ip t es"
    using Cons.prems(1) by (auto simp: recent_failures_def)
  with Cons show ?case by (auto simp: failures_def split: if_splits)
qed (simp add: failures_def)

definition counting :: "time list \<Rightarrow> socksAuthFailureRecord" where
  "counting tms = \<lparr>rec_timestamps = tms, rec_banUntil = 0, rec_banCount = 0\<rparr>"

lemma counting_kept:
  assumes "s \<le> t" "tms \<noteq> []" "\<forall>x \<in> set tms. x > t - socksRateLimitWindow"
  shows "\<not> stale s (counting tms)" "trimmed s (counting tms) = tms"
proof -
  have "hd tms \<in> set tms" using assms(2) by simp
  then have "hd tms > s - socksRateLimitWindow" using assms(1,3) by force
  then show "\<not> stale s (counting tms)"
    using \<open>hd tms \<in> set tms\<close> by (auto simp: stale_def counting_def Let_def)
  have "\<forall>x \<in> set tms. x > s - socksRateLimitWindow" using assms(1,3) by force
  then show "trimmed s (counting tms) = tms" by (simp add: trimmed_def counting_def filter_id_conv)
qed

lemma failures_counted:
  assumes "keys_distinct (lim_records r)" "map_of (lim_records r) ip = None" "\<not> exempt ip"
    and "recent_failures ip t es" "length (failures ip es) < 10"
  shows "map_of (lim_records (attempts es r)) ip =
    (if failures ip es = [] then None else Some (counting (failures ip es)))"
  using assms(4,5)
proof (induction es rule: rev_induct)
  case Nil then show ?case using assms(2) by (simp add: attempts_def failures_def)
next
  case (snoc e es)
  define q where "q = attempts es r"
  have keys: "keys_distinct (lim_records q)" using assms(1) by (simp add: q_def keys_attempts)
  obtain s j where e: "e = Failed s j" "s \<le> t" using snoc.prems(1) by (auto simp: recent_failures_def)
  have rec_es: "recent_failures ip t es" using snoc.prems(1) by (simp add: recent_failures_def)
  have few: "length (failures ip es) < 10" using snoc.prems(2) by (simp add: failures_snoc)
  have IH: "map_of (lim_records q) ip = (if failures ip es = [] then None else Some (counting (failures ip es)))"
    unfolding q_def by (rule snoc.IH [OF rec_es few])
  have purged: "map_of (lim_records (purgeIfDue s q)) ip = map_of (lim_records q) ip"
    using counting_kept(1) [OF e(2)] recent_failures_times [OF rec_es]
    by (simp add: lookup_purgeIfDue [OF keys] IH)
  show ?case
  proof (cases "j = ip")
    case False
    then have "map_of (lim_records (attempts (es @ [e]) r)) ip = map_of (lim_records q) ip"
      using purged e by (cases "exempt j") (simp_all add: attempts_snoc q_def [symmetric] RecordFailure_def RecordFailure_store
        update_conv' Let_def case_prod_beta)
    then show ?thesis using IH False e by (simp add: failures_snoc)
  next
    case True
    have "noteFailure s (record_of ip (purgeIfDue s q)) = (False, counting (failures ip es @ [s]))"
    proof (cases "failures ip es = []")
      case True
      then show ?thesis
        using purged IH by (simp add: record_of_def noteFailure_def decayed_def trimmed_def counting_def Let_def)
    next
      case some: False
      have kept: "trimmed s (counting (failures ip es)) = failures ip es"
        using counting_kept(2) [OF e(2) some] recent_failures_times [OF rec_es] by blast
      have "record_of ip (purgeIfDue s q) = counting (failures ip es)" using purged IH some by (simp add: record_of_def)
      moreover have "length (failures ip es) < 9" using snoc.prems(2) True e by (simp add: failures_snoc)
      ultimately show ?thesis
        using kept by (simp add: noteFailure_def decayed_def Let_def) (simp add: counting_def)
    qed
    then show ?thesis
      using True e assms(3) by (simp add: attempts_snoc q_def [symmetric] RecordFailure_store update_conv' failures_snoc)
  qed
qed

text \<open>
  C30: an address that is not on record, not empty and not a loopback address, and fails ten times within two minutes is
  banned by the tenth failure and blocked for the minute that follows, whatever addresses fail in between.
\<close>

theorem rate_limit_bans_burst:
  assumes "keys_distinct (lim_records r)" "map_of (lim_records r) ip = None" "\<not> exempt ip" "0 < t"
    and "recent_failures ip t es" "length (failures ip es) = 9" "now < t + socksRateLimitBaseBan"
  shows "fst (RecordFailure t ip (attempts es r)) \<and> IsBlocked now ip (snd (RecordFailure t ip (attempts es r)))"
proof -
  define q where "q = attempts es r"
  have keys: "keys_distinct (lim_records q)" using assms(1) by (simp add: q_def keys_attempts)
  have some: "failures ip es \<noteq> []" using assms(6) by auto
  have lookup: "map_of (lim_records q) ip = Some (counting (failures ip es))"
    using failures_counted [OF assms(1-3,5)] some assms(6) by (simp add: q_def)
  note kept = counting_kept [OF order_refl some, of t] recent_failures_times [OF assms(5)]
  have "record_of ip (purgeIfDue t q) = counting (failures ip es)"
    using kept by (simp add: record_of_def lookup_purgeIfDue [OF keys] lookup)
  then have "noteFailure t (record_of ip (purgeIfDue t q)) = (True, \<lparr>rec_timestamps = [], rec_banUntil = t + minute, rec_banCount = 1\<rparr>)"
    using kept assms(6) by (simp add: noteFailure_def decayed_def Let_def) (simp add: counting_def)
  then show ?thesis
    using assms(3,4,7) by (simp add: q_def [symmetric] RecordFailure_store IsBlocked_def update_conv')
qed

section \<open>Bans that do not escalate\<close>







section \<open>Examples\<close>

definition demo_ip :: gostring where
  "demo_ip = [0x38, 0x2E, 0x38, 0x2E, 0x38, 0x2E, 0x38]"

lemma demo_ip_counts: "\<not> exempt demo_ip"
  by code_simp

definition demo_times :: "time list" where
  "demo_times = map (\<lambda>i. i * second) ([1..10] @ [81..90])"

theorem rate_limit_needs_burst_witness:
  "IsBlocked (11 * second) demo_ip (attempts (map (\<lambda>t. Failed t demo_ip) (take 10 demo_times)) (newSocksRateLimiter 1)) \<and>
   (\<exists>tms. subseq tms (failures demo_ip (map (\<lambda>t. Failed t demo_ip) (take 10 demo_times))) \<and> length tms = 10)"
proof -
  have "IsBlocked (11 * second) demo_ip (attempts (map (\<lambda>t. Failed t demo_ip) (take 10 demo_times)) (newSocksRateLimiter 1))"
    by code_simp
  with rate_limit_needs_burst [OF this] show ?thesis by blast
qed

theorem rate_limit_bans_burst_witness:
  "IsBlocked (11 * second) demo_ip (snd (RecordFailure (10 * second) demo_ip
     (attempts (map (\<lambda>t. Failed t demo_ip) (take 9 demo_times)) (newSocksRateLimiter 1))))"
proof -
  have "recent_failures demo_ip (10 * second) (map (\<lambda>t. Failed t demo_ip) (take 9 demo_times))"
    by (auto simp: recent_failures_def demo_times_def upto.simps)
  moreover have "length (failures demo_ip (map (\<lambda>t. Failed t demo_ip) (take 9 demo_times))) = 9" by code_simp
  ultimately show ?thesis
    using rate_limit_bans_burst [of "newSocksRateLimiter 1" demo_ip "10 * second" _ "11 * second"] demo_ip_counts
    by (simp add: newSocksRateLimiter_def)
qed


end
