(* ===== verification/CookieTracker.thy ===== *)
theory CookieTracker
  imports Prelude
begin

text \<open>
  The tracker of packets with a wrong session cookie (\<open>udpserver/invalid_cookie_tracker.go\<close>): it answers whether a
  packet is to be answered with an error, at most once per window and only after enough attempts. Times are Unix nanoseconds.
\<close>

datatype sessionLookupState = sessionLookupUnknown | sessionLookupActive | sessionLookupClosed

record sessionLookupResult =
  lk_Cookie :: u8
  lk_ResponseMode :: u8
  lk_State :: sessionLookupState

record invalidCookieTrackerKey =
  ck_sessionID :: u8
  ck_expectedCookie :: u16
  ck_packetCookie :: u8
  ck_state :: sessionLookupState

record invalidCookieTrackerRecord =
  cr_attempts :: "time list"
  cr_lastEmitAt :: time

type_synonym cookieTracker = "(invalidCookieTrackerKey \<times> invalidCookieTrackerRecord) list"

definition newInvalidCookieTracker :: cookieTracker where
  "newInvalidCookieTracker = []"

abbreviation unknownExpectedCookieMarker :: u16 where "unknownExpectedCookieMarker \<equiv> 256"

definition pruneAttemptTimes :: "time list \<Rightarrow> time \<Rightarrow> time list" where
  "pruneAttemptTimes vals cutoff = dropWhile (\<lambda>v. v < cutoff) vals"

definition appendBoundedAttempt :: "time list \<Rightarrow> time \<Rightarrow> int \<Rightarrow> time list" where
  "appendBoundedAttempt vals nowUnix bound =
     (if bound \<le> 0 then []
      else if int (length vals) < bound then vals @ [nowUnix]
      else tl vals @ [nowUnix])"

definition trackerKey :: "u8 \<Rightarrow> sessionLookupResult \<Rightarrow> bool \<Rightarrow> u8 \<Rightarrow> invalidCookieTrackerKey" where
  "trackerKey sessionID look known packetCookie =
     \<lparr>ck_sessionID = sessionID, ck_expectedCookie = (if known then ucast (lk_Cookie look) else unknownExpectedCookieMarker),
      ck_packetCookie = packetCookie, ck_state = lk_State look\<rparr>"

definition noteKey :: "invalidCookieTrackerKey \<Rightarrow> time \<Rightarrow> duration \<Rightarrow> int \<Rightarrow> cookieTracker \<Rightarrow> bool \<times> cookieTracker" where
  "noteKey key nowUnix windowNanos threshold t =
     (let cutoff = nowUnix - windowNanos;
          rec = (case map_of t key of Some r \<Rightarrow> r | None \<Rightarrow> \<lparr>cr_attempts = [], cr_lastEmitAt = 0\<rparr>);
          rec = rec\<lparr>cr_attempts := pruneAttemptTimes (cr_attempts rec) cutoff\<rparr>;
          rec = rec\<lparr>cr_attempts := appendBoundedAttempt (cr_attempts rec) nowUnix threshold\<rparr>
      in
        if int (length (cr_attempts rec)) < threshold then (False, AList.update key rec t)
        else if cr_lastEmitAt rec \<noteq> 0 \<and> nowUnix - cr_lastEmitAt rec < windowNanos then (False, AList.update key rec t)
        else (True, AList.update key (rec\<lparr>cr_lastEmitAt := nowUnix\<rparr>) t))"

definition Note ::
  "u8 \<Rightarrow> sessionLookupResult \<Rightarrow> bool \<Rightarrow> u8 \<Rightarrow> time \<Rightarrow> duration \<Rightarrow> int \<Rightarrow> cookieTracker \<Rightarrow> bool \<times> cookieTracker" where
  "Note sessionID look known packetCookie nowUnix windowNanos threshold t =
     (if windowNanos \<le> 0 \<or> threshold \<le> 0 then (False, t)
      else noteKey (trackerKey sessionID look known packetCookie) nowUnix windowNanos threshold t)"

definition cleanRecord :: "time \<Rightarrow> invalidCookieTrackerRecord \<Rightarrow> invalidCookieTrackerRecord option" where
  "cleanRecord cutoff rec =
     (let rec = rec\<lparr>cr_attempts := pruneAttemptTimes (cr_attempts rec) cutoff\<rparr>
      in if length (cr_attempts rec) = 0 \<and> (cr_lastEmitAt rec = 0 \<or> cr_lastEmitAt rec < cutoff) then None else Some rec)"

definition Cleanup :: "time \<Rightarrow> duration \<Rightarrow> cookieTracker \<Rightarrow> cookieTracker" where
  "Cleanup now window t =
     (if window \<le> 0 then t
      else List.map_filter (\<lambda>(key, rec). map_option (Pair key) (cleanRecord (now - window) rec)) t)"

section \<open>Runs and their specification\<close>

text \<open>
  The calls with the window and threshold of a server, and the packets that were answered. The specification keeps every attempt
  there ever was: a packet is answered when the attempts with its key in the window reach the threshold and no packet with
  its key has been answered in the window.
\<close>

datatype cookie_call = Noted invalidCookieTrackerKey time | Cleaned time

fun call_time :: "cookie_call \<Rightarrow> time" where
  "call_time (Noted key now) = now"
| "call_time (Cleaned now) = now"

type_synonym answers = "(invalidCookieTrackerKey \<times> time) list"

fun cookie_step :: "duration \<Rightarrow> int \<Rightarrow> cookieTracker \<times> answers \<Rightarrow> cookie_call \<Rightarrow> cookieTracker \<times> answers" where
  "cookie_step win thr (t, answered) (Noted key now) =
     (let (emit, t) = noteKey key now win thr t in (t, if emit then answered @ [(key, now)] else answered))"
| "cookie_step win thr (t, answered) (Cleaned now) = (Cleanup now win t, answered)"

definition cookie_run :: "duration \<Rightarrow> int \<Rightarrow> cookie_call list \<Rightarrow> cookieTracker \<times> answers" where
  "cookie_run win thr calls = foldl (cookie_step win thr) (newInvalidCookieTracker, []) calls"

definition alarm_due :: "duration \<Rightarrow> int \<Rightarrow> answers \<Rightarrow> answers \<Rightarrow> invalidCookieTrackerKey \<Rightarrow> time \<Rightarrow> bool" where
  "alarm_due win thr attempts answered key now \<longleftrightarrow>
     thr \<le> int (length (filter (\<lambda>(k, x). k = key \<and> now - win \<le> x) attempts)) \<and>
     filter (\<lambda>(k, e). k = key \<and> now - e < win) answered = []"

fun alarm_step :: "duration \<Rightarrow> int \<Rightarrow> answers \<times> answers \<Rightarrow> cookie_call \<Rightarrow> answers \<times> answers" where
  "alarm_step win thr (attempts, answered) (Noted key now) =
     (let attempts = attempts @ [(key, now)]
      in (attempts, if alarm_due win thr attempts answered key now then answered @ [(key, now)] else answered))"
| "alarm_step win thr (attempts, answered) (Cleaned now) = (attempts, answered)"

definition alarm_run :: "duration \<Rightarrow> int \<Rightarrow> cookie_call list \<Rightarrow> answers \<times> answers" where
  "alarm_run win thr calls = foldl (alarm_step win thr) ([], []) calls"

section \<open>The simulation\<close>

definition of_key :: "invalidCookieTrackerKey \<Rightarrow> answers \<Rightarrow> time list" where
  "of_key key hist = map snd (filter (\<lambda>(k, x). k = key) hist)"

lemma of_key_snoc: "of_key key (hist @ [(k, x)]) = of_key key hist @ (if k = key then [x] else [])"
  by (simp add: of_key_def)

lemma set_of_key: "set (of_key key hist) = {x. (key, x) \<in> set hist}"
  by (force simp: of_key_def)

lemma alarm_due_of_key:
  "alarm_due win thr attempts answered key now \<longleftrightarrow>
     thr \<le> int (length (filter (\<lambda>x. now - win \<le> x) (of_key key attempts))) \<and> (\<forall>e \<in> set (of_key key answered). win \<le> now - e)"
proof -
  have "length (filter (\<lambda>(k, x). k = key \<and> now - win \<le> x) attempts) = length (filter (\<lambda>x. now - win \<le> x) (of_key key attempts))"
    by (induction attempts) (auto simp: of_key_def)
  moreover have "filter (\<lambda>(k, e). k = key \<and> now - e < win) answered = [] \<longleftrightarrow> (\<forall>e \<in> set (of_key key answered). win \<le> now - e)"
    by (auto simp: filter_empty_conv set_of_key not_less)
  ultimately show ?thesis by (simp add: alarm_due_def)
qed

definition tracked :: "invalidCookieTrackerKey \<Rightarrow> cookieTracker \<Rightarrow> invalidCookieTrackerRecord" where
  "tracked key t = (case map_of t key of Some r \<Rightarrow> r | None \<Rightarrow> \<lparr>cr_attempts = [], cr_lastEmitAt = 0\<rparr>)"

definition recent :: "duration \<Rightarrow> int \<Rightarrow> time \<Rightarrow> time list \<Rightarrow> time list \<Rightarrow> bool" where
  "recent win thr now hist kept \<longleftrightarrow>
     (\<exists>old. hist = old @ kept \<and> int (length kept) \<le> thr \<and> (int (length kept) = thr \<or> (\<forall>x \<in> set old. x < now - win)))"

definition last_emit :: "duration \<Rightarrow> time \<Rightarrow> time list \<Rightarrow> time \<Rightarrow> bool" where
  "last_emit win now ans l \<longleftrightarrow> (l = 0 \<or> l \<in> set ans) \<and> (\<forall>e \<in> set ans. 0 < e \<and> (e \<le> l \<or> e < now - win))"

definition tracks :: "duration \<Rightarrow> int \<Rightarrow> time \<Rightarrow> answers \<times> answers \<Rightarrow> cookieTracker \<times> answers \<Rightarrow> bool" where
  "tracks win thr now a c \<longleftrightarrow> (case (a, c) of ((attempts, answered), (t, answered')) \<Rightarrow>
     answered' = answered \<and> keys_distinct t \<and> sorted (map snd attempts) \<and> (\<forall>x \<in> set (map snd attempts). 0 < x \<and> x \<le> now) \<and>
     (\<forall>key. recent win thr now (of_key key attempts) (cr_attempts (tracked key t)) \<and>
            last_emit win now (of_key key answered) (cr_lastEmitAt (tracked key t))))"

lemma sorted_of_key: "sorted (map snd hist) \<Longrightarrow> sorted (of_key key hist)"
  unfolding of_key_def by (rule sorted_filter)

lemma recent_later: "recent win thr now hist kept \<Longrightarrow> now \<le> later \<Longrightarrow> recent win thr later hist kept"
  by (force simp: recent_def)

lemma last_emit_later: "last_emit win now ans l \<Longrightarrow> now \<le> later \<Longrightarrow> last_emit win later ans l"
  by (force simp: last_emit_def)

lemma prune_sorted: "sorted vals \<Longrightarrow> x \<in> set (pruneAttemptTimes vals cutoff) \<Longrightarrow> cutoff \<le> x"
proof (induction vals)
  case (Cons v vals)
  then show ?case by (cases "v < cutoff") (auto simp: pruneAttemptTimes_def)
qed (simp add: pruneAttemptTimes_def)

lemma recent_prune:
  assumes "recent win thr now hist kept" "sorted hist"
  shows "recent win thr now hist (pruneAttemptTimes kept (now - win))"
proof -
  obtain old where old: "hist = old @ kept" "int (length kept) \<le> thr" "int (length kept) = thr \<or> (\<forall>x \<in> set old. x < now - win)"
    using assms(1) by (auto simp: recent_def)
  have split: "hist = (old @ takeWhile (\<lambda>v. v < now - win) kept) @ pruneAttemptTimes kept (now - win)"
    by (simp add: old(1) pruneAttemptTimes_def)
  have len: "int (length (pruneAttemptTimes kept (now - win))) \<le> thr"
    using length_dropWhile_le [of "\<lambda>v. v < now - win" kept] old(2) by (simp add: pruneAttemptTimes_def)
  have "int (length (pruneAttemptTimes kept (now - win))) = thr \<or>
      (\<forall>x \<in> set (old @ takeWhile (\<lambda>v. v < now - win) kept). x < now - win)"
  proof (cases "\<forall>x \<in> set old. x < now - win")
    case True
    then show ?thesis by (auto dest: set_takeWhileD)
  next
    case False
    then have "\<forall>x \<in> set kept. \<not> x < now - win" using assms(2) unfolding old(1) by (force simp: sorted_append)
    then have "dropWhile (\<lambda>v. v < now - win) kept = kept" by (cases kept) auto
    then show ?thesis using old(3) False by (auto simp: pruneAttemptTimes_def)
  qed
  with split len show ?thesis unfolding recent_def by blast
qed

lemma recent_append:
  assumes "recent win thr now hist kept" "0 < thr"
  shows "recent win thr now (hist @ [now]) (appendBoundedAttempt kept now thr)"
proof -
  obtain old where old: "hist = old @ kept" "int (length kept) \<le> thr" "int (length kept) = thr \<or> (\<forall>x \<in> set old. x < now - win)"
    using assms(1) by (auto simp: recent_def)
  show ?thesis
  proof (cases "int (length kept) < thr")
    case True
    then show ?thesis using old assms(2) by (auto simp: recent_def appendBoundedAttempt_def intro!: exI [of _ old])
  next
    case False
    then obtain x rest where "kept = x # rest" using assms(2) by (cases kept) auto
    then show ?thesis using old False assms(2) by (auto simp: recent_def appendBoundedAttempt_def intro!: exI [of _ "old @ [x]"])
  qed
qed

lemma recent_count:
  assumes "recent win thr now hist kept" "\<forall>x \<in> set kept. now - win \<le> x"
  shows "thr \<le> int (length kept) \<longleftrightarrow> thr \<le> int (length (filter (\<lambda>x. now - win \<le> x) hist))"
proof -
  obtain old where old: "hist = old @ kept" "int (length kept) \<le> thr" "int (length kept) = thr \<or> (\<forall>x \<in> set old. x < now - win)"
    using assms(1) by (auto simp: recent_def)
  have kept: "filter (\<lambda>x. now - win \<le> x) kept = kept" using assms(2) by simp
  show ?thesis
  proof (cases "\<forall>x \<in> set old. x < now - win")
    case True
    then have "filter (\<lambda>x. now - win \<le> x) old = []" by (auto simp: filter_empty_conv)
    then show ?thesis by (simp add: old(1) kept)
  next
    case False
    then show ?thesis using old(3) by (auto simp: old(1) kept)
  qed
qed

lemma map_of_map_filter:
  assumes "keys_distinct t"
  shows "map_of (List.map_filter (\<lambda>(k, r). map_option (Pair k) (f r)) t) key = Option.bind (map_of t key) f"
    and "keys_distinct (List.map_filter (\<lambda>(k, r). map_option (Pair k) (f r)) t)"
proof -
  have sub: "fst ` set (List.map_filter (\<lambda>(k, r). map_option (Pair k) (f r)) t) \<subseteq> fst ` set t" for t
    by (force simp: List.map_filter_def split: option.splits)
  show "map_of (List.map_filter (\<lambda>(k, r). map_option (Pair k) (f r)) t) key = Option.bind (map_of t key) f"
    using assms
  proof (induction t)
    case (Cons kr t)
    then have "map_of t (fst kr) = None" by (auto simp: keys_distinct_def map_of_eq_None_iff)
    with Cons show ?case by (cases kr) (auto simp: keys_distinct_def List.map_filter_simps split: option.splits)
  qed (simp add: List.map_filter_simps)
  show "keys_distinct (List.map_filter (\<lambda>(k, r). map_option (Pair k) (f r)) t)"
    using assms
  proof (induction t)
    case (Cons kr t)
    then show ?case using sub [of t] by (cases kr) (auto simp: keys_distinct_def List.map_filter_simps split: option.splits)
  qed (simp add: List.map_filter_simps keys_distinct_def)
qed


section \<open>The steps simulate\<close>

lemma noteKey_eq:
  assumes "tracked key t = \<lparr>cr_attempts = att, cr_lastEmitAt = l\<rparr>"
  shows "noteKey key now win thr t =
     (let new = appendBoundedAttempt (pruneAttemptTimes att (now - win)) now thr;
          emit = (thr \<le> int (length new) \<and> \<not> (l \<noteq> 0 \<and> now - l < win))
      in (emit, AList.update key \<lparr>cr_attempts = new, cr_lastEmitAt = (if emit then now else l)\<rparr> t))"
  unfolding noteKey_def tracked_def [symmetric] assms Let_def by (auto simp: not_less)

lemma tracked_update: "tracked k (AList.update key r t) = (if k = key then r else tracked k t)"
  by (simp add: tracked_def update_conv')

lemma last_emit_silent:
  assumes "last_emit win now ans l"
  shows "\<not> (l \<noteq> 0 \<and> now - l < win) \<longleftrightarrow> (\<forall>e \<in> set ans. win \<le> now - e)"
  using assms by (force simp: last_emit_def)

lemma last_emit_now: "last_emit win now ans l \<Longrightarrow> (\<forall>e \<in> set ans. win \<le> now - e) \<Longrightarrow> 0 < win \<Longrightarrow> 0 < now \<Longrightarrow> last_emit win now (ans @ [now]) now"
  by (force simp: last_emit_def)

lemma tracks_note:
  assumes sim: "tracks win thr earlier a c" and later: "0 < now" "earlier \<le> now" and par: "0 < thr" "0 < win"
  shows "tracks win thr now (alarm_step win thr a (Noted key now)) (cookie_step win thr c (Noted key now))"
proof -
  obtain attempts answered t where ac: "a = (attempts, answered)" "c = (t, answered)"
    and sim: "keys_distinct t" "sorted (map snd attempts)" "\<forall>x \<in> set (map snd attempts). 0 < x \<and> x \<le> now"
      "\<And>k. recent win thr now (of_key k attempts) (cr_attempts (tracked k t))"
      "\<And>k. last_emit win now (of_key k answered) (cr_lastEmitAt (tracked k t))"
    using sim later(2) by (fastforce simp: tracks_def intro: recent_later last_emit_later)
  obtain att l where tr: "tracked key t = \<lparr>cr_attempts = att, cr_lastEmitAt = l\<rparr>" by (cases "tracked key t")
  define old where "old = pruneAttemptTimes att (now - win)"
  define new where "new = appendBoundedAttempt old now thr"
  define hist where "hist = of_key key attempts @ [now]"
  define emit where "emit \<longleftrightarrow> thr \<le> int (length new) \<and> \<not> (l \<noteq> 0 \<and> now - l < win)"
  note le = sim(5) [of key, unfolded tr, simplified]
  have srt: "sorted (of_key key attempts)" by (rule sorted_of_key [OF sim(2)])
  have kept: "recent win thr now (of_key key attempts) old"
    using recent_prune [OF sim(4) srt] by (simp add: old_def tr)
  then have rec: "recent win thr now hist new" unfolding new_def hist_def by (rule recent_append [OF _ par(1)])
  have "sorted att" using sim(4) [of key] srt by (auto simp: tr recent_def sorted_append)
  then have inwin: "\<forall>x \<in> set old. now - win \<le> x" using prune_sorted unfolding old_def by blast
  have "set (tl old) \<subseteq> set old" by (cases old) auto
  with inwin have "\<forall>x \<in> set new. now - win \<le> x" using par by (auto simp: new_def appendBoundedAttempt_def)
  note count = recent_count [OF rec this]
  have emit: "emit \<longleftrightarrow> alarm_due win thr (attempts @ [(key, now)]) answered key now"
    unfolding emit_def count last_emit_silent [OF le] alarm_due_of_key of_key_snoc hist_def by simp
  have steps: "alarm_step win thr a (Noted key now) = (attempts @ [(key, now)], if emit then answered @ [(key, now)] else answered)"
    "cookie_step win thr c (Noted key now) =
       (AList.update key \<lparr>cr_attempts = new, cr_lastEmitAt = (if emit then now else l)\<rparr> t, if emit then answered @ [(key, now)] else answered)"
    unfolding emit_def [symmetric] old_def [symmetric] new_def [symmetric] ac cookie_step.simps alarm_step.simps
      noteKey_eq [OF tr] Let_def emit [symmetric] prod.case by (rule refl)+
  have last: "last_emit win now (of_key key (if emit then answered @ [(key, now)] else answered)) (if emit then now else l)"
    using le last_emit_now [OF le _ par(2) later(1)] last_emit_silent [OF le] by (auto simp: of_key_snoc emit_def)
  show ?thesis
    unfolding steps tracks_def prod.case tracked_update
    using sim rec last later(1)
    by (auto simp: of_key_snoc hist_def sorted_append keys_distinct_def distinct_update)
qed

lemma last_emit_forget: "last_emit win now ans l \<Longrightarrow> l < now - win \<Longrightarrow> last_emit win now ans 0"
  by (force simp: last_emit_def)

lemma tracks_clean:
  assumes sim: "tracks win thr earlier a c" and later: "earlier \<le> now" and par: "0 < thr" "0 < win"
  shows "tracks win thr now (alarm_step win thr a (Cleaned now)) (cookie_step win thr c (Cleaned now))"
proof -
  obtain attempts answered t where ac: "a = (attempts, answered)" "c = (t, answered)"
    and sim: "keys_distinct t" "sorted (map snd attempts)" "\<forall>x \<in> set (map snd attempts). 0 < x \<and> x \<le> now"
      "\<And>k. recent win thr now (of_key k attempts) (cr_attempts (tracked k t))"
      "\<And>k. last_emit win now (of_key k answered) (cr_lastEmitAt (tracked k t))"
    using sim later by (fastforce simp: tracks_def intro: recent_later last_emit_later)
  define t' where "t' = Cleanup now win t"
  have t': "keys_distinct t'" "map_of t' k = Option.bind (map_of t k) (cleanRecord (now - win))" for k
    using map_of_map_filter [OF sim(1), of "cleanRecord (now - win)"] par(2) by (simp_all add: t'_def Cleanup_def)
  have att: "cr_attempts (tracked k t') = pruneAttemptTimes (cr_attempts (tracked k t)) (now - win)" for k
    by (simp add: tracked_def t'(2) cleanRecord_def Let_def pruneAttemptTimes_def eq_commute [of "[]"] split: option.split)
  have l: "cr_lastEmitAt (tracked k t') = cr_lastEmitAt (tracked k t) \<or>
      (cr_lastEmitAt (tracked k t') = 0 \<and> cr_lastEmitAt (tracked k t) < now - win)" for k
    by (auto simp: tracked_def t'(2) cleanRecord_def Let_def split: option.splits if_splits)
  have "last_emit win now (of_key k answered) (cr_lastEmitAt (tracked k t'))" for k
    using l [of k] sim(5) [of k] last_emit_forget by metis
  moreover have "recent win thr now (of_key k attempts) (cr_attempts (tracked k t'))" for k
    unfolding att by (rule recent_prune [OF sim(4) sorted_of_key [OF sim(2)]])
  ultimately show ?thesis using sim(2,3) t'(1) by (simp add: ac tracks_def t'_def)
qed

lemma tracks_run:
  assumes "0 < thr" "0 < win"
  shows "0 \<le> earlier \<Longrightarrow> tracks win thr earlier a c \<Longrightarrow> sorted (earlier # map call_time calls) \<Longrightarrow> \<forall>u \<in> set calls. 0 < call_time u \<Longrightarrow>
    \<exists>now. tracks win thr now (foldl (alarm_step win thr) a calls) (foldl (cookie_step win thr) c calls)"
proof (induction calls arbitrary: earlier a c)
  case (Cons u calls)
  have "tracks win thr (call_time u) (alarm_step win thr a u) (cookie_step win thr c u)"
    using Cons.prems tracks_note [OF Cons.prems(2) _ _ assms] tracks_clean [OF Cons.prems(2) _ assms] by (cases u) auto
  then show ?case using Cons.IH [of "call_time u"] Cons.prems by (simp add: less_imp_le)
qed auto

lemma tracks_init: "0 < thr \<Longrightarrow> tracks win thr now ([], []) (newInvalidCookieTracker, [])"
  by (simp add: tracks_def newInvalidCookieTracker_def keys_distinct_def tracked_def recent_def last_emit_def of_key_def)

section \<open>Properties\<close>

text \<open>
  C28. The tracker keeps a bounded list of attempt times and one time of answer per key, prunes
  both, and drops whole records on clean-up. For every sequence of calls at non-decreasing positive times, with any
  clean-ups in between, the packets it has answered are exactly those of the specification that remembers every attempt:
  a packet is answered when the attempts with its key in the window have reached the threshold and no packet of its key
  has been answered in the window. No record ever holds more attempts than the threshold.
\<close>

theorem cookie_tracker_refines:
  assumes "0 < win" "0 < thr" "sorted (map call_time calls)" "\<forall>u \<in> set calls. 0 < call_time u"
  shows "snd (cookie_run win thr calls) = snd (alarm_run win thr calls) \<and>
    (\<forall>(key, rec) \<in> set (fst (cookie_run win thr calls)). int (length (cr_attempts rec)) \<le> thr)"
proof -
  have "sorted (0 # map call_time calls)" using assms(3,4) by (auto simp: less_imp_le)
  then obtain now where t: "tracks win thr now (alarm_run win thr calls) (cookie_run win thr calls)"
    using tracks_run [OF assms(2,1) _ tracks_init [OF assms(2)], of 0 calls] assms(4) unfolding alarm_run_def cookie_run_def by auto
  have "int (length (cr_attempts r)) \<le> thr" if r: "(k, r) \<in> set (fst (cookie_run win thr calls))" for k r
  proof -
    have "recent win thr now (of_key k (fst (alarm_run win thr calls))) (cr_attempts (tracked k (fst (cookie_run win thr calls))))"
      and "map_of (fst (cookie_run win thr calls)) k = Some r"
      using t r by (auto simp: tracks_def keys_distinct_def split_beta)
    then show ?thesis by (auto simp: tracked_def recent_def)
  qed
  then show ?thesis using t by (auto simp: tracks_def split_beta)
qed

definition demo_key :: invalidCookieTrackerKey where
  "demo_key = trackerKey 7 \<lparr>lk_Cookie = 3, lk_ResponseMode = 0, lk_State = sessionLookupActive\<rparr> True 9"

definition demo_calls :: "cookie_call list" where
  "demo_calls = [Noted demo_key 10, Noted demo_key 11, Noted demo_key 12, Noted demo_key 13, Cleaned 14,
                 Noted demo_key 22, Noted demo_key 23, Cleaned 40, Noted demo_key 41]"

theorem cookie_tracker_refines_witness:
  "snd (cookie_run 10 3 demo_calls) = [(demo_key, 12), (demo_key, 22)] \<and> snd (alarm_run 10 3 demo_calls) = [(demo_key, 12), (demo_key, 22)]"
proof -
  have "snd (alarm_run 10 3 demo_calls) = [(demo_key, 12), (demo_key, 22)]" by code_simp
  moreover have "sorted (map call_time demo_calls)" "\<forall>u \<in> set demo_calls. 0 < call_time u" by (simp_all add: demo_calls_def)
  ultimately show ?thesis using cookie_tracker_refines [of 10 3 demo_calls] by simp
qed

end
