(* ===== verification/DnsCache.thy ===== *)
theory DnsCache
  imports Prelude
begin

text \<open>
  The cache of DNS answers (\<open>dnscache/store.go\<close>): 32 shards, each a map from keys to elements of a doubly linked list in the
  order of last use, a counter of pending questions and a counter of changes. An element of \<open>container/list\<close> is an address;
  \<open>sh_order\<close> lists the addresses with the nodes they hold, \<open>sh_items\<close> maps a key to an address and \<open>sh_heap\<close> is the next
  fresh address, so that an element the map no longer knows stays in the list, as in the code. A method runs under the lock
  of one shard; it takes the shard and the store whose counters it changes. The operations on a nil store return at once and
  are left out.
\<close>

section \<open>Data\<close>

datatype Status = StatusZero | StatusPending | StatusReady

abbreviation shardCount :: nat where "shardCount \<equiv> 32"

record Entry =
  ce_Domain :: gostring
  ce_QuestionType :: u16
  ce_QuestionClass :: u16
  ce_Status :: Status
  ce_CreatedAt :: time
  ce_LastUsedAt :: time
  ce_LastDispatchAt :: time
  ce_Response :: bytes

record LookupResult =
  lr_Status :: Status
  lr_Response :: bytes
  lr_DispatchNeeded :: bool

record cacheNode =
  cn_key :: gostring
  cn_entry :: Entry

record shard =
  sh_items :: "(gostring \<times> nat) list"
  sh_order :: "(nat \<times> cacheNode) list"
  sh_heap :: nat

record Store =
  st_maxRecords :: int
  st_cacheTTL :: duration
  st_pendingTimeout :: duration
  st_shards :: "shard list"
  st_pendingTotal :: u64
  st_dirty :: u64

definition emptyShard :: shard where
  "emptyShard = \<lparr>sh_items = [], sh_order = [], sh_heap = 0\<rparr>"

definition newStore :: "int \<Rightarrow> duration \<Rightarrow> duration \<Rightarrow> Store" where
  "newStore maxRecords cacheTTL pendingTimeout =
     \<lparr>st_maxRecords = (if maxRecords < 1 then 1 else maxRecords),
      st_cacheTTL = (if cacheTTL \<le> 0 then 3600 * second else cacheTTL),
      st_pendingTimeout = (if pendingTimeout \<le> 0 then 30 * second else pendingTimeout),
      st_shards = replicate shardCount emptyShard, st_pendingTotal = 0, st_dirty = 0\<rparr>"

section \<open>Keys, shards and patched answers\<close>

definition BuildKey :: "gostring \<Rightarrow> u16 \<Rightarrow> u16 \<Rightarrow> gostring" where
  "BuildKey domain qType qClass = put16 qType @ put16 qClass @ domain"

text \<open>FNV-1a with 32 bits, as \<open>hash/fnv\<close> computes it.\<close>

definition fnv32a :: "bytes \<Rightarrow> u32" where
  "fnv32a bs = foldl (\<lambda>h b. (h XOR ucast b) * 16777619) 2166136261 bs"

definition getShardIndex :: "gostring \<Rightarrow> nat" where
  "getShardIndex key = unat (fnv32a key AND 31)"

definition PatchResponseForQuery :: "bytes \<Rightarrow> bytes \<Rightarrow> bytes" where
  "PatchResponseForQuery rawResponse rawQuery =
     (if length rawResponse < 2 then rawResponse
      else if length rawQuery < 2 then rawResponse
      else
        let patched = copy_at rawResponse 0 (take 2 rawQuery)
        in if 4 \<le> length rawQuery \<and> 4 \<le> length patched
           then
             let queryFlags = get16 rawQuery 2;
                 responseFlags = get16 patched 2;
                 responseFlags = (responseFlags AND NOT 0x0110) OR (queryFlags AND 0x0110)
             in copy_at patched 2 (put16 responseFlags)
           else patched)"

section \<open>Lists of elements\<close>

text \<open>\<open>PushBack\<close>, \<open>MoveToBack\<close> and the change of a node in place.\<close>

definition pushBack :: "gostring \<Rightarrow> Entry \<Rightarrow> shard \<Rightarrow> shard" where
  "pushBack key entry sh =
     sh\<lparr>sh_order := sh_order sh @ [(sh_heap sh, \<lparr>cn_key = key, cn_entry = entry\<rparr>)],
        sh_items := AList.update key (sh_heap sh) (sh_items sh), sh_heap := Suc (sh_heap sh)\<rparr>"

definition moveToBack :: "nat \<Rightarrow> shard \<Rightarrow> shard" where
  "moveToBack el sh = (case map_of (sh_order sh) el of
       None \<Rightarrow> sh
     | Some node \<Rightarrow> sh\<lparr>sh_order := AList.delete el (sh_order sh) @ [(el, node)]\<rparr>)"

definition setEntry :: "nat \<Rightarrow> Entry \<Rightarrow> shard \<Rightarrow> shard" where
  "setEntry el entry sh = sh\<lparr>sh_order := AList.map_entry el (\<lambda>node. node\<lparr>cn_entry := entry\<rparr>) (sh_order sh)\<rparr>"

definition entryOf :: "nat \<Rightarrow> shard \<Rightarrow> cacheNode" where
  "entryOf el sh = the (map_of (sh_order sh) el)"

section \<open>The locked helpers\<close>

definition dirtyAdd :: "Store \<Rightarrow> Store" where
  "dirtyAdd s = s\<lparr>st_dirty := st_dirty s + 1\<rparr>"

definition pendingDec :: "Store \<Rightarrow> Store" where
  "pendingDec s = (if st_pendingTotal s > 0 then s\<lparr>st_pendingTotal := st_pendingTotal s + NOT 0\<rparr> else s)"

definition isExpired :: "Store \<Rightarrow> Entry \<Rightarrow> time \<Rightarrow> bool" where
  "isExpired s entry now = (if ce_Status entry = StatusPending then False else time_sub now (ce_LastUsedAt entry) \<ge> st_cacheTTL s)"

definition touchEntryLocked :: "Entry \<Rightarrow> time \<Rightarrow> Store \<Rightarrow> Entry \<times> Store" where
  "touchEntryLocked entry now s =
     (if ce_LastUsedAt entry = 0 \<or> time_sub now (ce_LastUsedAt entry) \<ge> second
      then (entry\<lparr>ce_LastUsedAt := now\<rparr>, dirtyAdd s)
      else (entry\<lparr>ce_LastUsedAt := now\<rparr>, s))"

definition removeElementLocked :: "nat \<Rightarrow> shard \<times> Store \<Rightarrow> shard \<times> Store" where
  "removeElementLocked el = (\<lambda>(sh, s).
     let node = entryOf el sh;
         s = (if ce_Status (cn_entry node) = StatusPending then pendingDec s else s)
     in (sh\<lparr>sh_items := AList.delete (cn_key node) (sh_items sh), sh_order := AList.delete el (sh_order sh)\<rparr>, dirtyAdd s))"

definition shardLimit :: "Store \<Rightarrow> int" where
  "shardLimit s = (let limit = st_maxRecords s div 32 in if limit < 1 then 1 else limit)"

function evictIfNeededLocked :: "shard \<times> Store \<Rightarrow> shard \<times> Store" where
  "evictIfNeededLocked (sh, s) =
     (if int (length (sh_items sh)) > shardLimit s
      then (case sh_order sh of
              [] \<Rightarrow> (sh, s)
            | front # _ \<Rightarrow> evictIfNeededLocked (removeElementLocked (fst front) (sh, s)))
      else (sh, s))"
  by pat_completeness auto
termination
  by (relation "measure (\<lambda>(sh, s). length (sh_order sh))")
    (auto simp: removeElementLocked_def Let_def less_Suc_eq_le split: prod.splits intro: order.trans [OF length_delete_le])

declare evictIfNeededLocked.simps [simp del]

section \<open>Operations\<close>

text \<open>A method that locks the shard of its key.\<close>

definition locked :: "gostring \<Rightarrow> (shard \<times> Store \<Rightarrow> 'a \<times> shard \<times> Store) \<Rightarrow> Store \<Rightarrow> 'a \<times> Store" where
  "locked key body s =
     (let i = getShardIndex key;
          (res, sh, s) = body (st_shards s ! i, s)
      in (res, s\<lparr>st_shards := (st_shards s)[i := sh]\<rparr>))"

definition insertPending :: "gostring \<Rightarrow> gostring \<Rightarrow> u16 \<Rightarrow> u16 \<Rightarrow> time \<Rightarrow> shard \<times> Store \<Rightarrow> LookupResult \<times> shard \<times> Store" where
  "insertPending key domain qType qClass now = (\<lambda>(sh, s).
     let entry = \<lparr>ce_Domain = domain, ce_QuestionType = qType, ce_QuestionClass = qClass, ce_Status = StatusPending,
                  ce_CreatedAt = now, ce_LastUsedAt = now, ce_LastDispatchAt = now, ce_Response = []\<rparr>;
         sh = pushBack key entry sh;
         s = dirtyAdd (s\<lparr>st_pendingTotal := st_pendingTotal s + 1\<rparr>)
     in (\<lparr>lr_Status = StatusPending, lr_Response = [], lr_DispatchNeeded = True\<rparr>, evictIfNeededLocked (sh, s)))"

definition lookupBody :: "gostring \<Rightarrow> gostring \<Rightarrow> u16 \<Rightarrow> u16 \<Rightarrow> time \<Rightarrow> shard \<times> Store \<Rightarrow> LookupResult \<times> shard \<times> Store" where
  "lookupBody key domain qType qClass now = (\<lambda>(sh, s).
     case map_of (sh_items sh) key of
       None \<Rightarrow> insertPending key domain qType qClass now (sh, s)
     | Some el \<Rightarrow>
         let entry = cn_entry (entryOf el sh)
         in if \<not> isExpired s entry now
            then
              let (entry, s) = touchEntryLocked entry now s
              in if ce_Status entry = StatusReady
                 then (\<lparr>lr_Status = StatusReady, lr_Response = PatchResponseForQuery (ce_Response entry) [], lr_DispatchNeeded = False\<rparr>,
                       moveToBack el (setEntry el entry sh), s)
                 else if time_sub now (ce_LastDispatchAt entry) \<ge> st_pendingTimeout s
                 then (\<lparr>lr_Status = StatusPending, lr_Response = [], lr_DispatchNeeded = True\<rparr>,
                       moveToBack el (setEntry el (entry\<lparr>ce_LastDispatchAt := now\<rparr>) sh), dirtyAdd s)
                 else (\<lparr>lr_Status = StatusPending, lr_Response = [], lr_DispatchNeeded = False\<rparr>,
                       moveToBack el (setEntry el entry sh), s)
            else insertPending key domain qType qClass now (removeElementLocked el (sh, s)))"

definition LookupOrCreatePending :: "gostring \<Rightarrow> gostring \<Rightarrow> u16 \<Rightarrow> u16 \<Rightarrow> time \<Rightarrow> Store \<Rightarrow> LookupResult \<times> Store" where
  "LookupOrCreatePending key domain qType qClass now s =
     (if key = [] then (\<lparr>lr_Status = StatusZero, lr_Response = [], lr_DispatchNeeded = False\<rparr>, s)
      else locked key (lookupBody key domain qType qClass now) s)"

definition getBody :: "gostring \<Rightarrow> bytes \<Rightarrow> time \<Rightarrow> shard \<times> Store \<Rightarrow> bytes option \<times> shard \<times> Store" where
  "getBody key rawQuery now = (\<lambda>(sh, s).
     case map_of (sh_items sh) key of
       None \<Rightarrow> (None, sh, s)
     | Some el \<Rightarrow>
         let entry = cn_entry (entryOf el sh)
         in if isExpired s entry now then (None, removeElementLocked el (sh, s))
            else
              let (touched, s) = touchEntryLocked entry now s;
                  sh = moveToBack el (setEntry el touched sh)
              in if ce_Status entry \<noteq> StatusReady \<or> length (ce_Response entry) = 0 then (None, sh, s)
                 else (Some (PatchResponseForQuery (ce_Response touched) rawQuery), sh, s))"

definition GetReady :: "gostring \<Rightarrow> bytes \<Rightarrow> time \<Rightarrow> Store \<Rightarrow> bytes option \<times> Store" where
  "GetReady key rawQuery now s = (if key = [] then (None, s) else locked key (getBody key rawQuery now) s)"

definition normalized :: "bytes \<Rightarrow> bytes" where
  "normalized rawResponse = rawResponse[0 := 0, 1 := 0]"

definition setBody :: "gostring \<Rightarrow> gostring \<Rightarrow> u16 \<Rightarrow> u16 \<Rightarrow> bytes \<Rightarrow> time \<Rightarrow> shard \<times> Store \<Rightarrow> unit \<times> shard \<times> Store" where
  "setBody key domain qType qClass rawResponse now = (\<lambda>(sh, s).
     case map_of (sh_items sh) key of
       Some el \<Rightarrow>
         let entry = cn_entry (entryOf el sh);
             s = (if ce_Status entry = StatusPending then pendingDec s else s);
             entry = entry\<lparr>ce_Domain := domain, ce_QuestionType := qType, ce_QuestionClass := qClass, ce_Status := StatusReady,
                           ce_CreatedAt := (if ce_CreatedAt entry = 0 then now else ce_CreatedAt entry),
                           ce_LastUsedAt := now, ce_Response := normalized rawResponse\<rparr>
         in ((), moveToBack el (setEntry el entry sh), dirtyAdd s)
     | None \<Rightarrow>
         let entry = \<lparr>ce_Domain = domain, ce_QuestionType = qType, ce_QuestionClass = qClass, ce_Status = StatusReady,
                      ce_CreatedAt = now, ce_LastUsedAt = now, ce_LastDispatchAt = 0, ce_Response = normalized rawResponse\<rparr>
         in ((), evictIfNeededLocked (pushBack key entry sh, dirtyAdd s)))"

definition SetReady :: "gostring \<Rightarrow> gostring \<Rightarrow> u16 \<Rightarrow> u16 \<Rightarrow> bytes \<Rightarrow> time \<Rightarrow> Store \<Rightarrow> Store" where
  "SetReady key domain qType qClass rawResponse now s =
     (if key = [] \<or> length rawResponse < 2 then s
      else snd (locked key (setBody key domain qType qClass rawResponse now) s))"

definition Snapshot :: "gostring \<Rightarrow> Store \<Rightarrow> Entry option" where
  "Snapshot key s =
     (if key = [] then None
      else
        let sh = st_shards s ! getShardIndex key
        in map_option (\<lambda>el. cn_entry (entryOf el sh)) (map_of (sh_items sh) key))"

definition HasPending :: "Store \<Rightarrow> bool" where
  "HasPending s \<longleftrightarrow> st_pendingTotal s > 0"

fun clearShard :: "(nat \<times> cacheNode) list \<Rightarrow> shard \<times> Store \<Rightarrow> shard \<times> Store" where
  "clearShard [] st = st"
| "clearShard ((el, node) # rest) st =
     (if ce_Status (cn_entry node) = StatusPending then clearShard rest (removeElementLocked el st) else clearShard rest st)"

fun clearFrom :: "nat \<Rightarrow> nat \<Rightarrow> Store \<Rightarrow> Store" where
  "clearFrom i 0 s = s"
| "clearFrom i (Suc n) s =
     (let (sh, s) = clearShard (sh_order (st_shards s ! i)) (st_shards s ! i, s)
      in clearFrom (Suc i) n (s\<lparr>st_shards := (st_shards s)[i := sh]\<rparr>))"

definition ClearPending :: "Store \<Rightarrow> Store" where
  "ClearPending s = clearFrom 0 shardCount s"

end
