(* ===== verification/DnsCacheSpec.thy ===== *)
theory DnsCacheSpec
  imports DnsCache
begin

text \<open>
  The cache refines 32 plain lists of keys and entries in the order of last use, with no addresses, no map beside the list
  and no counter: the specification \<open>spec_op\<close> of each operation, the invariant of a shard and of the store, the simulation
  per operation, and the refinement for every sequence of operations.
\<close>

section \<open>Specification\<close>

type_synonym lru = "(gostring \<times> Entry) list"

definition use :: "gostring \<Rightarrow> Entry \<Rightarrow> lru \<Rightarrow> lru" where
  "use key e l = AList.delete key l @ [(key, e)]"

definition trim :: "nat \<Rightarrow> lru \<Rightarrow> lru" where
  "trim n l = drop (length l - n) l"

definition pending :: "gostring \<times> Entry \<Rightarrow> bool" where
  "pending p \<longleftrightarrow> ce_Status (snd p) = StatusPending"

record cache_config =
  cc_limit :: nat
  cc_ttl :: duration
  cc_timeout :: duration

definition expired :: "cache_config \<Rightarrow> Entry \<Rightarrow> time \<Rightarrow> bool" where
  "expired c e now \<longleftrightarrow> ce_Status e \<noteq> StatusPending \<and> cc_ttl c \<le> time_sub now (ce_LastUsedAt e)"

definition question :: "gostring \<Rightarrow> u16 \<Rightarrow> u16 \<Rightarrow> time \<Rightarrow> Entry" where
  "question domain qType qClass now =
     \<lparr>ce_Domain = domain, ce_QuestionType = qType, ce_QuestionClass = qClass, ce_Status = StatusPending,
      ce_CreatedAt = now, ce_LastUsedAt = now, ce_LastDispatchAt = now, ce_Response = []\<rparr>"

definition answer :: "gostring \<Rightarrow> u16 \<Rightarrow> u16 \<Rightarrow> bytes \<Rightarrow> time \<Rightarrow> Entry option \<Rightarrow> Entry" where
  "answer domain qType qClass rawResponse now old =
     \<lparr>ce_Domain = domain, ce_QuestionType = qType, ce_QuestionClass = qClass, ce_Status = StatusReady,
      ce_CreatedAt = (case old of Some e \<Rightarrow> if ce_CreatedAt e = 0 then now else ce_CreatedAt e | None \<Rightarrow> now),
      ce_LastUsedAt = now, ce_LastDispatchAt = (case old of Some e \<Rightarrow> ce_LastDispatchAt e | None \<Rightarrow> 0),
      ce_Response = normalized rawResponse\<rparr>"

definition dispatch :: "bool \<Rightarrow> LookupResult" where
  "dispatch needed = \<lparr>lr_Status = StatusPending, lr_Response = [], lr_DispatchNeeded = needed\<rparr>"

definition spec_lookup :: "cache_config \<Rightarrow> gostring \<Rightarrow> gostring \<Rightarrow> u16 \<Rightarrow> u16 \<Rightarrow> time \<Rightarrow> lru \<Rightarrow> LookupResult \<times> lru" where
  "spec_lookup c key domain qType qClass now l =
     (let missing = (dispatch True, trim (cc_limit c) (use key (question domain qType qClass now) l))
      in case map_of l key of
           None \<Rightarrow> missing
         | Some e \<Rightarrow>
             if expired c e now then missing
             else if ce_Status e = StatusReady
             then (\<lparr>lr_Status = StatusReady, lr_Response = ce_Response e, lr_DispatchNeeded = False\<rparr>, use key (e\<lparr>ce_LastUsedAt := now\<rparr>) l)
             else if cc_timeout c \<le> time_sub now (ce_LastDispatchAt e)
             then (dispatch True, use key (e\<lparr>ce_LastUsedAt := now, ce_LastDispatchAt := now\<rparr>) l)
             else (dispatch False, use key (e\<lparr>ce_LastUsedAt := now\<rparr>) l))"

definition spec_get :: "cache_config \<Rightarrow> gostring \<Rightarrow> bytes \<Rightarrow> time \<Rightarrow> lru \<Rightarrow> bytes option \<times> lru" where
  "spec_get c key rawQuery now l = (case map_of l key of
       None \<Rightarrow> (None, l)
     | Some e \<Rightarrow>
         if expired c e now then (None, AList.delete key l)
         else (if ce_Status e = StatusReady \<and> ce_Response e \<noteq> [] then Some (PatchResponseForQuery (ce_Response e) rawQuery) else None,
               use key (e\<lparr>ce_LastUsedAt := now\<rparr>) l))"

definition spec_set :: "cache_config \<Rightarrow> gostring \<Rightarrow> gostring \<Rightarrow> u16 \<Rightarrow> u16 \<Rightarrow> bytes \<Rightarrow> time \<Rightarrow> lru \<Rightarrow> unit \<times> lru" where
  "spec_set c key domain qType qClass rawResponse now l =
     ((), trim (cc_limit c) (use key (answer domain qType qClass rawResponse now (map_of l key)) l))"

section \<open>Abstraction and invariant\<close>

definition keyed :: "(nat \<times> cacheNode) list \<Rightarrow> (gostring \<times> nat) list" where
  "keyed order = map (\<lambda>(el, n). (cn_key n, el)) order"

definition entries :: "(nat \<times> cacheNode) list \<Rightarrow> lru" where
  "entries order = map (\<lambda>(el, n). (cn_key n, cn_entry n)) order"

abbreviation absShard :: "shard \<Rightarrow> lru" where
  "absShard sh \<equiv> entries (sh_order sh)"

definition sh_ok :: "shard \<Rightarrow> bool" where
  "sh_ok sh \<longleftrightarrow> keys_distinct (sh_items sh) \<and> map_of (sh_items sh) = map_of (keyed (sh_order sh)) \<and>
     keys_distinct (sh_order sh) \<and> keys_distinct (absShard sh) \<and> (\<forall>p \<in> set (sh_order sh). fst p < sh_heap sh)"

lemma map_fst_keyed: "map fst (keyed order) = map fst (entries order)"
  by (simp add: keyed_def entries_def split_beta comp_def)

lemma entries_snoc [simp]: "entries (order @ [(el, n)]) = entries order @ [(cn_key n, cn_entry n)]"
  by (simp add: entries_def)

lemma keyed_snoc [simp]: "keyed (order @ [(el, n)]) = keyed order @ [(cn_key n, el)]"
  by (simp add: keyed_def)

lemma sh_ok_length: "sh_ok sh \<Longrightarrow> length (sh_items sh) = length (absShard sh)"
proof -
  assume ok: "sh_ok sh"
  then have "keys_distinct (keyed (sh_order sh))" by (simp add: sh_ok_def keys_distinct_def map_fst_keyed)
  with ok have "length (sh_items sh) = length (keyed (sh_order sh))" unfolding sh_ok_def by (metis keys_distinct_dom)
  then show ?thesis by (simp add: keyed_def entries_def)
qed

lemma sh_ok_lookup:
  assumes "sh_ok sh" "map_of (sh_items sh) key = Some el"
  obtains e where "map_of (sh_order sh) el = Some \<lparr>cn_key = key, cn_entry = e\<rparr>" "map_of (absShard sh) key = Some e"
    "entryOf el sh = \<lparr>cn_key = key, cn_entry = e\<rparr>"
proof -
  have "(key, el) \<in> set (keyed (sh_order sh))" using assms by (simp add: sh_ok_def map_of_SomeD)
  then obtain n where n: "(el, n) \<in> set (sh_order sh)" "cn_key n = key" by (auto simp: keyed_def)
  obtain e where e: "n = \<lparr>cn_key = key, cn_entry = e\<rparr>" using n(2) by (cases n) auto
  have el: "map_of (sh_order sh) el = Some n" using assms(1) n(1) by (simp add: sh_ok_def keys_distinct_def)
  have "(key, e) \<in> set (absShard sh)" using n(1) e by (force simp: entries_def)
  then have "map_of (absShard sh) key = Some e" using assms(1) by (simp add: sh_ok_def keys_distinct_def)
  with el e that show ?thesis by (simp add: entryOf_def)
qed

lemma sh_ok_missing:
  assumes "sh_ok sh"
  shows "map_of (sh_items sh) key = None \<longleftrightarrow> map_of (absShard sh) key = None"
proof -
  have "fst ` set (keyed (sh_order sh)) = fst ` set (absShard sh)" by (metis map_fst_keyed set_map)
  with assms show ?thesis by (simp add: sh_ok_def map_of_eq_None_iff)
qed

text \<open>Taking an element out of the list.\<close>

lemma delete_element:
  assumes "keys_distinct order" "keys_distinct (entries order)" "map_of order el = Some n"
  shows "entries (AList.delete el order) = AList.delete (cn_key n) (entries order)"
    and "keyed (AList.delete el order) = AList.delete (cn_key n) (keyed order)"
proof -
  have same: "el \<noteq> fst p \<longleftrightarrow> cn_key n \<noteq> cn_key (snd p)" if p: "p \<in> set order" for p
  proof -
    have n: "(el, n) \<in> set order" using assms(3) by (rule map_of_SomeD)
    have "inj_on (\<lambda>p. cn_key (snd p)) (set order)" "inj_on fst (set order)"
      using assms(1,2) by (auto simp: keys_distinct_def entries_def distinct_map comp_def split_beta)
    then show ?thesis using p n by (metis fst_conv snd_conv inj_onD)
  qed
  show "entries (AList.delete el order) = AList.delete (cn_key n) (entries order)"
    unfolding entries_def AList.delete_eq filter_map
    by (rule arg_cong [of _ _ "map _"], rule filter_cong [OF refl]) (use same in \<open>auto simp: split_beta\<close>)
  show "keyed (AList.delete el order) = AList.delete (cn_key n) (keyed order)"
    unfolding keyed_def AList.delete_eq filter_map
    by (rule arg_cong [of _ _ "map _"], rule filter_cong [OF refl]) (use same in \<open>auto simp: split_beta\<close>)
qed

lemma set_delete: "set (AList.delete k al) = {p \<in> set al. fst p \<noteq> k}"
  by (auto simp: AList.delete_eq)

lemma delete_append: "AList.delete k (xs @ ys) = AList.delete k xs @ AList.delete k ys"
  by (simp add: AList.delete_eq)

lemma delete_map_entry: "AList.delete k (AList.map_entry k f al) = AList.delete k al"
  by (induction al) auto

lemma map_of_map_entry: "map_of (AList.map_entry k f al) k = map_option f (map_of al k)"
  by (induction al) auto

lemma absShard_use:
  assumes ok: "sh_ok sh" and el: "map_of (sh_items sh) key = Some el"
  shows "absShard (moveToBack el (setEntry el e sh)) = use key e (absShard sh)" "sh_ok (moveToBack el (setEntry el e sh))"
proof -
  obtain e0 where e0: "map_of (sh_order sh) el = Some \<lparr>cn_key = key, cn_entry = e0\<rparr>" using sh_ok_lookup [OF ok el] .
  have order: "moveToBack el (setEntry el e sh) =
      sh\<lparr>sh_order := AList.delete el (sh_order sh) @ [(el, \<lparr>cn_key = key, cn_entry = e\<rparr>)]\<rparr>"
    by (simp add: moveToBack_def setEntry_def map_of_map_entry e0 delete_map_entry)
  have d: "keys_distinct (sh_order sh)" "keys_distinct (absShard sh)" using ok by (auto simp: sh_ok_def)
  note del = delete_element [OF d e0]
  show "absShard (moveToBack el (setEntry el e sh)) = use key e (absShard sh)" by (simp add: order del use_def)
  have "fst p < sh_heap sh" if "p \<in> set (AList.delete el (sh_order sh))" for p
    using that ok by (auto simp: sh_ok_def set_delete)
  moreover have "el < sh_heap sh" using ok map_of_SomeD [OF e0] by (auto simp: sh_ok_def)
  moreover have "map_of (sh_items sh) = map_of (AList.delete key (keyed (sh_order sh)) @ [(key, el)])"
    using ok el by (auto simp: sh_ok_def fun_eq_iff delete_conv' map_add_def split: option.split)
  ultimately show "sh_ok (moveToBack el (setEntry el e sh))"
    using ok d by (auto simp: sh_ok_def order del keys_distinct_def distinct_delete set_delete)
qed

lemma absShard_push:
  assumes ok: "sh_ok sh" and new: "map_of (absShard sh) key = None"
  shows "absShard (pushBack key e sh) = use key e (absShard sh)" "sh_ok (pushBack key e sh)"
proof -
  have k: "key \<notin> fst ` set (absShard sh)" using new by (simp add: map_of_eq_None_iff)
  then show "absShard (pushBack key e sh) = use key e (absShard sh)" by (simp add: pushBack_def use_def AList.delete_id)
  have "map_of (keyed (sh_order sh)) key = None"
    using ok new sh_ok_missing [OF ok, of key] by (simp add: sh_ok_def)
  then have "map_of (AList.update key (sh_heap sh) (sh_items sh)) = map_of (keyed (sh_order sh) @ [(key, sh_heap sh)])"
    using ok by (auto simp: sh_ok_def fun_eq_iff update_conv' map_add_def split: option.splits)
  moreover have "sh_heap sh \<notin> fst ` set (sh_order sh)" using ok by (auto simp: sh_ok_def)
  ultimately show "sh_ok (pushBack key e sh)" using ok k by (auto simp: sh_ok_def pushBack_def keys_distinct_def less_Suc_eq distinct_update)
qed

section \<open>The locked helpers\<close>

definition pend :: "lru \<Rightarrow> nat" where
  "pend l = length (filter pending l)"

definition frame_of :: "Store \<Rightarrow> int \<times> duration \<times> duration \<times> shard list" where
  "frame_of s = (st_maxRecords s, st_cacheTTL s, st_pendingTimeout s, st_shards s)"

definition config :: "Store \<Rightarrow> cache_config" where
  "config s = \<lparr>cc_limit = nat (shardLimit s), cc_ttl = st_cacheTTL s, cc_timeout = st_pendingTimeout s\<rparr>"

text \<open>A shard under its lock represents the list \<open>l\<close>, and the counter is right when the other shards hold \<open>rest\<close> pending entries.\<close>

definition represents :: "nat \<Rightarrow> Store \<Rightarrow> lru \<Rightarrow> shard \<times> Store \<Rightarrow> bool" where
  "represents rest s0 l st \<longleftrightarrow> (case st of (sh, s) \<Rightarrow>
     sh_ok sh \<and> absShard sh = l \<and> frame_of s = frame_of s0 \<and> unat (st_pendingTotal s) = rest + pend l)"

lemma representsD:
  assumes "represents rest s0 l (sh, s)"
  shows "sh_ok sh" "absShard sh = l" "frame_of s = frame_of s0" "unat (st_pendingTotal s) = rest + pend l" "config s = config s0"
    "keys_distinct l"
  using assms by (auto simp: represents_def frame_of_def config_def shardLimit_def sh_ok_def)

lemma shardLimit_pos: "0 < shardLimit s"
  by (simp add: shardLimit_def Let_def)

lemma frame_of_counters [simp]:
  "frame_of (dirtyAdd s) = frame_of s" "frame_of (pendingDec s) = frame_of s" "frame_of (s\<lparr>st_pendingTotal := n\<rparr>) = frame_of s"
  by (simp_all add: frame_of_def dirtyAdd_def pendingDec_def)

lemma pending_dirtyAdd [simp]: "st_pendingTotal (dirtyAdd s) = st_pendingTotal s"
  by (simp add: dirtyAdd_def)

lemma pendingDec_unat: "0 < unat (st_pendingTotal s) \<Longrightarrow> unat (st_pendingTotal (pendingDec s)) = unat (st_pendingTotal s) - 1"
proof -
  assume a: "0 < unat (st_pendingTotal s)"
  then have pos: "0 < st_pendingTotal s" by (simp add: word_greater_zero_iff unat_gt_0)
  then have "st_pendingTotal (pendingDec s) = st_pendingTotal s - 1" by (simp add: pendingDec_def)
  then show ?thesis using a by (simp add: unat_minus_one unat_gt_0)
qed

lemma pend_delete:
  "keys_distinct l \<Longrightarrow> map_of l key = Some e \<Longrightarrow>
     pend l = pend (AList.delete key l) + (if ce_Status e = StatusPending then 1 else 0)"
proof (induction l)
  case (Cons p l)
  show ?case
  proof (cases "fst p = key")
    case True
    then have "AList.delete key l = l" using Cons.prems(1) by (auto simp: keys_distinct_def AList.delete_id)
    then show ?thesis using True Cons.prems(2) by (auto simp: pend_def pending_def)
  next
    case False
    then show ?thesis using Cons by (cases p) (auto simp: keys_distinct_def pend_def)
  qed
qed simp

lemma pend_use: "pend (use key e l) = pend (AList.delete key l) + (if ce_Status e = StatusPending then 1 else 0)"
  by (simp add: use_def pend_def pending_def)

lemma represents_remove:
  assumes r: "represents rest s0 l (sh, s)" and el: "map_of (sh_items sh) key = Some el"
  shows "represents rest s0 (AList.delete key l) (removeElementLocked el (sh, s))"
proof -
  note ok = representsD [OF r]
  obtain e where e: "map_of (sh_order sh) el = Some \<lparr>cn_key = key, cn_entry = e\<rparr>" "map_of (absShard sh) key = Some e"
    "entryOf el sh = \<lparr>cn_key = key, cn_entry = e\<rparr>"
    using sh_ok_lookup [OF ok(1) el] .
  define sh' where "sh' = sh\<lparr>sh_items := AList.delete key (sh_items sh), sh_order := AList.delete el (sh_order sh)\<rparr>"
  have d: "keys_distinct (sh_order sh)" "keys_distinct (absShard sh)" using ok(1) by (auto simp: sh_ok_def)
  note del = delete_element [OF d e(1), unfolded cacheNode.simps]
  have abs: "absShard sh' = AList.delete key l" using del(1) ok(2) by (simp add: sh'_def)
  have "map_of (AList.delete key (sh_items sh)) = map_of (AList.delete key (keyed (sh_order sh)))"
    using ok(1) by (simp add: sh_ok_def delete_conv')
  then have "sh_ok sh'" using ok(1) del by (auto simp: sh_ok_def sh'_def set_delete)
  moreover have "unat (st_pendingTotal (if ce_Status e = StatusPending then pendingDec s else s)) = rest + pend (AList.delete key l)"
    using ok(4) pend_delete [OF ok(6), of key e] e(2) ok(2) by (simp add: pendingDec_unat)
  ultimately show ?thesis
    using abs ok(3) by (simp add: removeElementLocked_def e(3) represents_def sh'_def Let_def)
qed

lemma trim_step: "n < length l \<Longrightarrow> trim n l = trim n (tl l)"
  by (cases l) (auto simp: trim_def Suc_diff_le)

lemma trim_all: "length l \<le> n \<Longrightarrow> trim n l = l"
  by (simp add: trim_def)

lemma represents_evict: "represents rest s0 l st \<Longrightarrow> represents rest s0 (trim (cc_limit (config s0)) l) (evictIfNeededLocked st)"
proof (induction st arbitrary: l rule: evictIfNeededLocked.induct)
  case (1 sh s)
  note ok = representsD [OF "1.prems"]
  have lim: "shardLimit s < int (length (sh_items sh)) \<longleftrightarrow> cc_limit (config s0) < length l"
    using sh_ok_length [OF ok(1)] ok(2,5) shardLimit_pos [of s] by (auto simp: config_def)
  show ?case
  proof (cases "cc_limit (config s0) < length l")
    case False
    then show ?thesis using "1.prems" lim by (simp add: evictIfNeededLocked.simps [of sh s] trim_all)
  next
    case True
    then obtain el n order where o: "sh_order sh = (el, n) # order" using ok(2) by (cases "sh_order sh") (auto simp: entries_def)
    have items: "map_of (sh_items sh) (cn_key n) = Some el" using ok(1) by (simp add: sh_ok_def o keyed_def)
    have l: "l = (cn_key n, cn_entry n) # entries order" using ok(2) by (simp add: o entries_def)
    have "AList.delete (cn_key n) l = tl l" using ok(6) by (auto simp: l keys_distinct_def AList.delete_id)
    then have "represents rest s0 (tl l) (removeElementLocked el (sh, s))" using represents_remove [OF "1.prems" items] by simp
    then show ?thesis using "1.IH" [of "(el, n)" order "tl l"] True lim by (simp add: evictIfNeededLocked.simps [of sh s] o trim_step)
  qed
qed

lemma represents_use:
  assumes r: "represents rest s0 l (sh, s)" and el: "map_of (sh_items sh) key = Some el"
    and s': "frame_of s' = frame_of s" "unat (st_pendingTotal s') = rest + pend (use key e l)"
  shows "represents rest s0 (use key e l) (moveToBack el (setEntry el e sh), s')"
  using absShard_use [OF representsD(1) [OF r] el] representsD [OF r] s' by (simp add: represents_def)

lemma represents_push:
  assumes r: "represents rest s0 l (sh, s)" and new: "map_of l key = None"
    and s': "frame_of s' = frame_of s" "unat (st_pendingTotal s') = rest + pend (use key e l)"
  shows "represents rest s0 (use key e l) (pushBack key e sh, s')"
  using absShard_push [of sh key] representsD [OF r] new s' by (simp add: represents_def)

lemma isExpired_config: "config s = config s0 \<Longrightarrow> isExpired s e now = expired (config s0) e now"
  by (simp add: isExpired_def expired_def config_def)

lemma touchEntryLocked_eq:
  obtains s' where "touchEntryLocked e now s = (e\<lparr>ce_LastUsedAt := now\<rparr>, s')" "frame_of s' = frame_of s"
    "st_pendingTotal s' = st_pendingTotal s" "st_pendingTimeout s' = st_pendingTimeout s"
  by (rule that [of "if ce_LastUsedAt e = 0 \<or> time_sub now (ce_LastUsedAt e) \<ge> second then dirtyAdd s else s"])
    (auto simp: touchEntryLocked_def dirtyAdd_def frame_of_def)

section \<open>The bodies under the lock\<close>

lemma Patch_none [simp]: "PatchResponseForQuery r [] = r"
  by (simp add: PatchResponseForQuery_def)

definition simulates :: "nat \<Rightarrow> Store \<Rightarrow> 'a \<times> lru \<Rightarrow> 'a \<times> shard \<times> Store \<Rightarrow> bool" where
  "simulates rest s0 a c \<longleftrightarrow> fst c = fst a \<and> represents rest s0 (snd a) (snd c)"

lemma simulates_pair [simp]: "simulates rest s0 (r, l) (r', st) \<longleftrightarrow> r' = r \<and> represents rest s0 l st"
  by (simp add: simulates_def)

lemma pend_delete_le: "pend (AList.delete key l) \<le> pend l"
  by (induction l) (auto simp: pend_def)

lemma unat_inc: "unat (w :: u64) + 1 < 2 ^ 64 \<Longrightarrow> unat (w + 1) = unat w + 1"
  by (simp add: unat_word_ariths)

lemma use_deleted [simp]: "use key e (AList.delete key l) = use key e l"
  by (simp add: use_def delete_idem)

lemma simulates_insert:
  assumes r: "represents rest s0 l st" and new: "map_of l key = None" and room: "rest + pend l + 1 < 2 ^ 64"
  shows "simulates rest s0 (dispatch True, trim (cc_limit (config s0)) (use key (question domain qType qClass now) l))
           (insertPending key domain qType qClass now st)"
proof -
  obtain sh s where st: "st = (sh, s)" by (cases st)
  note ok = representsD [OF r [unfolded st]]
  have "AList.delete key l = l" using new by (simp add: map_of_eq_None_iff)
  then have "unat (st_pendingTotal s + 1) = rest + pend (use key (question domain qType qClass now) l)"
    using room ok(4) by (simp add: pend_use question_def unat_inc)
  then have "represents rest s0 (use key (question domain qType qClass now) l)
      (pushBack key (question domain qType qClass now) sh, dirtyAdd (s\<lparr>st_pendingTotal := st_pendingTotal s + 1\<rparr>))"
    by (intro represents_push [OF r [unfolded st] new]) simp_all
  from represents_evict [OF this] show ?thesis
    by (simp add: st insertPending_def Let_def question_def dispatch_def)
qed

lemma simulates_lookup:
  assumes r: "represents rest s0 l st" and room: "rest + pend l + 1 < 2 ^ 64"
  shows "simulates rest s0 (spec_lookup (config s0) key domain qType qClass now l) (lookupBody key domain qType qClass now st)"
proof -
  obtain sh s where st: "st = (sh, s)" by (cases st)
  note r = r [unfolded st]
  note ok = representsD [OF r]
  show ?thesis
  proof (cases "map_of (sh_items sh) key")
    case None
    then have "map_of l key = None" using sh_ok_missing [OF ok(1)] ok(2) by simp
    with simulates_insert [OF r this room] None show ?thesis by (simp add: st lookupBody_def spec_lookup_def Let_def)
  next
    case (Some el)
    obtain e where e: "map_of l key = Some e" "entryOf el sh = \<lparr>cn_key = key, cn_entry = e\<rparr>"
      using sh_ok_lookup [OF ok(1) Some] ok(2) by metis
    obtain s' where s': "touchEntryLocked e now s = (e\<lparr>ce_LastUsedAt := now\<rparr>, s')" "frame_of s' = frame_of s"
      "st_pendingTotal s' = st_pendingTotal s" "st_pendingTimeout s' = st_pendingTimeout s"
      using touchEntryLocked_eq .
    have timeout: "st_pendingTimeout s = cc_timeout (config s0)" using ok(5) by (auto simp: config_def)
    have keep: "unat (st_pendingTotal s) = rest + pend (use key e' l)" if "ce_Status e' = ce_Status e" for e'
      using ok(4) pend_delete [OF ok(6) e(1)] that by (simp add: pend_use)
    have moved: "represents rest s0 (use key e' l) (moveToBack el (setEntry el e' sh), s'')"
      if "ce_Status e' = ce_Status e" "frame_of s'' = frame_of s" "st_pendingTotal s'' = st_pendingTotal s" for e' s''
      using represents_use [OF r Some that(2)] keep [OF that(1)] that(3) by simp
    show ?thesis
    proof (cases "expired (config s0) e now")
      case True
      have "represents rest s0 (AList.delete key l) (removeElementLocked el (sh, s))" by (rule represents_remove [OF r Some])
      moreover have "map_of (AList.delete key l) key = None" by (simp add: delete_conv')
      moreover have "rest + pend (AList.delete key l) + 1 < 2 ^ 64" using room pend_delete_le [of key l] by linarith
      ultimately have "simulates rest s0 (dispatch True, trim (cc_limit (config s0)) (use key (question domain qType qClass now) l))
          (insertPending key domain qType qClass now (removeElementLocked el (sh, s)))"
        using simulates_insert [of rest s0 "AList.delete key l" "removeElementLocked el (sh, s)" key domain qType qClass now] by simp
      then show ?thesis using True by (simp add: st lookupBody_def spec_lookup_def Some e isExpired_config [OF ok(5)] Let_def)
    next
      case False
      then show ?thesis
        by (simp add: st lookupBody_def spec_lookup_def Some e isExpired_config [OF ok(5)] s' dispatch_def timeout moved)
    qed
  qed
qed

lemma simulates_get:
  assumes r: "represents rest s0 l st"
  shows "simulates rest s0 (spec_get (config s0) key rawQuery now l) (getBody key rawQuery now st)"
proof -
  obtain sh s where st: "st = (sh, s)" by (cases st)
  note r = r [unfolded st]
  note ok = representsD [OF r]
  show ?thesis
  proof (cases "map_of (sh_items sh) key")
    case None
    then have "map_of l key = None" using sh_ok_missing [OF ok(1)] ok(2) by simp
    with None r show ?thesis by (simp add: st getBody_def spec_get_def)
  next
    case (Some el)
    obtain e where e: "map_of l key = Some e" "entryOf el sh = \<lparr>cn_key = key, cn_entry = e\<rparr>"
      using sh_ok_lookup [OF ok(1) Some] ok(2) by metis
    obtain s' where s': "touchEntryLocked e now s = (e\<lparr>ce_LastUsedAt := now\<rparr>, s')" "frame_of s' = frame_of s"
      "st_pendingTotal s' = st_pendingTotal s" "st_pendingTimeout s' = st_pendingTimeout s"
      using touchEntryLocked_eq .
    have "unat (st_pendingTotal s') = rest + pend (use key (e\<lparr>ce_LastUsedAt := now\<rparr>) l)"
      using ok(4) pend_delete [OF ok(6) e(1)] s'(3) by (simp add: pend_use)
    note moved = represents_use [OF r Some s'(2) this]
    show ?thesis
      using moved represents_remove [OF r Some]
      by (simp add: st getBody_def spec_get_def Some e isExpired_config [OF ok(5)] s' Let_def)
  qed
qed

lemma simulates_set:
  assumes r: "represents rest s0 l st" and small: "length l \<le> cc_limit (config s0)"
  shows "simulates rest s0 (spec_set (config s0) key domain qType qClass rawResponse now l)
           (setBody key domain qType qClass rawResponse now st)"
proof -
  obtain sh s where st: "st = (sh, s)" by (cases st)
  note r = r [unfolded st]
  note ok = representsD [OF r]
  show ?thesis
  proof (cases "map_of (sh_items sh) key")
    case None
    then have new: "map_of l key = None" using sh_ok_missing [OF ok(1)] ok(2) by simp
    then have "AList.delete key l = l" by (simp add: map_of_eq_None_iff)
    then have "represents rest s0 (use key (answer domain qType qClass rawResponse now None) l)
        (pushBack key (answer domain qType qClass rawResponse now None) sh, dirtyAdd s)"
      using ok(4) by (intro represents_push [OF r new]) (simp_all add: pend_use answer_def)
    from represents_evict [OF this] None new show ?thesis by (simp add: st setBody_def spec_set_def answer_def)
  next
    case (Some el)
    obtain e where e: "map_of l key = Some e" "entryOf el sh = \<lparr>cn_key = key, cn_entry = e\<rparr>"
      using sh_ok_lookup [OF ok(1) Some] ok(2) by metis
    define s' where "s' = dirtyAdd (if ce_Status e = StatusPending then pendingDec s else s)"
    have "unat (st_pendingTotal s') = rest + pend (use key (answer domain qType qClass rawResponse now (Some e)) l)"
      using ok(4) pend_delete [OF ok(6) e(1)] by (simp add: s'_def pend_use answer_def pendingDec_unat)
    moreover have "frame_of s' = frame_of s" by (simp add: s'_def)
    ultimately have moved: "represents rest s0 (use key (answer domain qType qClass rawResponse now (Some e)) l)
        (moveToBack el (setEntry el (answer domain qType qClass rawResponse now (Some e)) sh), s')"
      using represents_use [OF r Some] by blast
    have "Suc (length (AList.delete key l)) = length l" by (rule length_delete_present [OF ok(6) e(1)])
    then have "trim (cc_limit (config s0)) (use key e' l) = use key e' l" for e' using small by (simp add: use_def trim_all)
    with moved show ?thesis
      by (cases e) (simp add: st setBody_def spec_set_def Some e s'_def answer_def Let_def)
  qed
qed

section \<open>The store\<close>

definition absStore :: "Store \<Rightarrow> lru list" where
  "absStore s = map absShard (st_shards s)"

definition in_place :: "nat \<Rightarrow> lru list \<Rightarrow> bool" where
  "in_place n ls \<longleftrightarrow> length ls = shardCount \<and>
     (\<forall>i < shardCount. length (ls ! i) \<le> n \<and> (\<forall>key \<in> fst ` set (ls ! i). getShardIndex key = i))"

definition store_ok :: "Store \<Rightarrow> bool" where
  "store_ok s \<longleftrightarrow> st_maxRecords s < 2 ^ 63 \<and> (\<forall>sh \<in> set (st_shards s). sh_ok sh) \<and>
     in_place (cc_limit (config s)) (absStore s) \<and> unat (st_pendingTotal s) = sum_list (map pend (absStore s))"

definition spec_locked :: "gostring \<Rightarrow> (lru \<Rightarrow> 'a \<times> lru) \<Rightarrow> lru list \<Rightarrow> 'a \<times> lru list" where
  "spec_locked key body ls = (let i = getShardIndex key; (r, l) = body (ls ! i) in (r, ls[i := l]))"

lemma getShardIndex_less [simp]: "getShardIndex key < shardCount"
proof -
  have "fnv32a key AND 31 \<le> 31" by (rule word_and_le1)
  then show ?thesis by (simp add: getShardIndex_def word_le_nat_alt)
qed

lemma pend_le: "pend l \<le> length l"
  by (simp add: pend_def)

lemma store_ok_room:
  assumes "store_ok s"
  shows "sum_list (map pend (absStore s)) + 1 < 2 ^ 64"
proof -
  have "sum_list (map pend (absStore s)) \<le> sum_list (map (\<lambda>l. cc_limit (config s)) (absStore s))"
  proof (rule sum_list_mono)
    fix l assume "l \<in> set (absStore s)"
    then obtain i where "i < length (absStore s)" "l = absStore s ! i" by (auto simp: in_set_conv_nth)
    then show "pend l \<le> cc_limit (config s)" using assms pend_le [of l] by (force simp: store_ok_def in_place_def)
  qed
  also have "\<dots> = 32 * cc_limit (config s)" using assms by (simp add: sum_list_triv store_ok_def in_place_def)
  also have "\<dots> \<le> 2 ^ 63" using assms by (auto simp: store_ok_def config_def shardLimit_def Let_def)
  finally show ?thesis by simp
qed

lemma in_place_update:
  assumes "in_place n ls" "length l \<le> n" "\<forall>key \<in> fst ` set l. getShardIndex key = i"
  shows "in_place n (ls[i := l])"
  using assms by (cases "i < length ls") (auto simp: in_place_def nth_list_update)

lemma config_frame: "frame_of s' = frame_of s \<Longrightarrow> config s' = config s \<and> st_maxRecords s' = st_maxRecords s \<and> st_shards s' = st_shards s"
  by (simp add: frame_of_def config_def shardLimit_def)

lemma nth_le_sum_list: "i < length xs \<Longrightarrow> f (xs ! i) \<le> (sum_list (map f xs) :: nat)"
  using elem_le_sum_list [of i "map f xs"] by simp

lemma sum_list_replace:
  "i < length xs \<Longrightarrow> sum_list (map f (xs[i := x])) = sum_list (map f xs) - f (xs ! i) + (f x :: nat)"
proof -
  assume i: "i < length xs"
  then have "sum_list ((map f xs)[i := f x]) = sum_list (map f xs) + f x - f (xs ! i)" by (simp add: sum_list_update)
  moreover have "f (xs ! i) \<le> sum_list (map f xs)" using i by (rule nth_le_sum_list)
  ultimately show ?thesis by (simp add: map_update)
qed

definition others :: "Store \<Rightarrow> nat \<Rightarrow> nat" where
  "others s i = sum_list (map pend (absStore s)) - pend (absStore s ! i)"

lemma length_shards: "store_ok s \<Longrightarrow> length (st_shards s) = shardCount"
  by (simp add: store_ok_def in_place_def absStore_def)

lemma others_pend: "store_ok s \<Longrightarrow> i < shardCount \<Longrightarrow> others s i + pend (absStore s ! i) = sum_list (map pend (absStore s))"
  using nth_le_sum_list [of i "absStore s" pend] length_shards [of s] by (simp add: others_def absStore_def)

lemma store_ok_represents:
  "store_ok s \<Longrightarrow> i < shardCount \<Longrightarrow> represents (others s i) s (absStore s ! i) (st_shards s ! i, s)"
  using others_pend [of s i] length_shards [of s] by (simp add: represents_def store_ok_def absStore_def)

lemma store_ok_write_back:
  assumes ok: "store_ok s" and i: "i < shardCount" and rep: "represents (others s i) s l (sh', s')"
    and l: "length l \<le> cc_limit (config s)" "\<forall>key \<in> fst ` set l. getShardIndex key = i"
  defines "s2 \<equiv> s'\<lparr>st_shards := (st_shards s')[i := sh']\<rparr>"
  shows "store_ok s2" "absStore s2 = (absStore s)[i := l]" "config s2 = config s"
proof -
  note rep = representsD [OF rep]
  have s2: "st_shards s2 = (st_shards s)[i := sh']" "st_maxRecords s2 = st_maxRecords s" "st_pendingTotal s2 = st_pendingTotal s'"
    using config_frame [OF rep(3)] by (simp_all add: s2_def)
  show abs: "absStore s2 = (absStore s)[i := l]" using rep(2) by (simp add: absStore_def map_update s2)
  show cfg: "config s2 = config s" using config_frame [OF rep(3)] by (simp add: config_def shardLimit_def s2_def)
  have "in_place (cc_limit (config s)) ((absStore s)[i := l])" using ok l by (simp add: in_place_update store_ok_def)
  moreover have "unat (st_pendingTotal s') = sum_list (map pend ((absStore s)[i := l]))"
    using rep(4) length_shards [OF ok] i by (simp add: sum_list_replace others_def absStore_def)
  moreover have "\<forall>sh \<in> set ((st_shards s)[i := sh']). sh_ok sh"
    using ok rep(1) by (auto simp: store_ok_def dest: set_update_subset_insert [THEN subsetD])
  ultimately show "store_ok s2" using ok by (simp add: store_ok_def abs cfg s2)
qed

text \<open>One method on the shard of its key.\<close>

lemma locked_simulates:
  assumes ok: "store_ok s" and i: "i = getShardIndex key" and l: "l = absStore s ! i"
    and sim: "\<And>rest st. rest + pend l + 1 < 2 ^ 64 \<Longrightarrow> represents rest s l st \<Longrightarrow> simulates rest s (spec l) (body st)"
    and spec: "length (snd (spec l)) \<le> cc_limit (config s) \<and> fst ` set (snd (spec l)) \<subseteq> insert key (fst ` set l)"
  shows "fst (locked key body s) = fst (spec_locked key spec (absStore s)) \<and>
    absStore (snd (locked key body s)) = snd (spec_locked key spec (absStore s)) \<and>
    store_ok (snd (locked key body s)) \<and> config (snd (locked key body s)) = config s"
proof -
  have i32: "i < shardCount" by (simp add: i)
  obtain r l' where sp: "spec l = (r, l')" by (cases "spec l")
  obtain r' sh' s' where bd: "body (st_shards s ! i, s) = (r', sh', s')" by (cases "body (st_shards s ! i, s)") auto
  have "simulates (others s i) s (spec l) (body (st_shards s ! i, s))"
    using store_ok_represents [OF ok i32] store_ok_room [OF ok] others_pend [OF ok i32] by (intro sim) (simp_all add: l)
  then have res: "r' = r" and rep: "represents (others s i) s l' (sh', s')" by (simp_all add: sp bd)
  have "\<forall>k \<in> fst ` set l. getShardIndex k = i" using ok i32 unfolding store_ok_def in_place_def l by blast
  then have keys: "\<forall>k \<in> fst ` set l'. getShardIndex k = i" using spec i by (simp only: sp snd_conv) blast
  have "length l' \<le> cc_limit (config s)" using spec sp by simp
  from store_ok_write_back [OF ok i32 rep this keys] show ?thesis
    by (simp add: locked_def spec_locked_def Let_def i [symmetric] l [symmetric] bd sp res)
qed

text \<open>What the specification keeps.\<close>

lemma length_trim: "length (trim n l) \<le> n"
  by (simp add: trim_def)

lemma set_trim: "set (trim n l) \<subseteq> set l"
  by (simp add: trim_def set_drop_subset)

lemma keys_use: "fst ` set (use key e l) \<subseteq> insert key (fst ` set l)"
  by (auto simp: use_def set_delete)

lemma keys_trim_use: "fst ` set (trim n (use key e l)) \<subseteq> insert key (fst ` set l)"
  using set_trim [of n "use key e l"] keys_use [of key e l] by blast

lemma length_use: "keys_distinct l \<Longrightarrow> map_of l key = Some e' \<Longrightarrow> length (use key e l) = length l"
  by (simp add: use_def length_delete_present)

lemmas spec_shape = length_trim keys_use keys_trim_use length_use length_delete_le set_delete

lemma spec_lookup_shape:
  assumes "keys_distinct l" "length l \<le> cc_limit c"
  shows "length (snd (spec_lookup c key domain qType qClass now l)) \<le> cc_limit c \<and>
    fst ` set (snd (spec_lookup c key domain qType qClass now l)) \<subseteq> insert key (fst ` set l)"
proof (cases "map_of l key")
  case None
  then show ?thesis by (simp add: spec_lookup_def spec_shape)
next
  case (Some e)
  then show ?thesis using assms by (simp add: spec_lookup_def spec_shape)
qed

lemma spec_get_shape:
  assumes "keys_distinct l" "length l \<le> cc_limit c"
  shows "length (snd (spec_get c key q now l)) \<le> cc_limit c \<and> fst ` set (snd (spec_get c key q now l)) \<subseteq> insert key (fst ` set l)"
proof (cases "map_of l key")
  case (Some e)
  moreover have "length (AList.delete key l) \<le> cc_limit c" using assms(2) length_delete_le [of key l] by linarith
  moreover have "fst ` set (AList.delete key l) \<subseteq> insert key (fst ` set l)" using dom_delete_subset [of key l] by blast
  ultimately show ?thesis using assms by (simp add: spec_get_def length_use keys_use)
qed (use assms in \<open>auto simp: spec_get_def\<close>)

lemma spec_set_shape:
  "length (snd (spec_set c key domain qType qClass r now l)) \<le> cc_limit c \<and>
    fst ` set (snd (spec_set c key domain qType qClass r now l)) \<subseteq> insert key (fst ` set l)"
  by (simp add: spec_set_def spec_shape)

lemma store_ok_list:
  assumes "store_ok s" "i < shardCount"
  shows "keys_distinct (absStore s ! i)" "length (absStore s ! i) \<le> cc_limit (config s)"
proof -
  have "length (st_shards s) = shardCount" using assms(1) by (simp add: store_ok_def in_place_def absStore_def)
  then show "keys_distinct (absStore s ! i)" using assms by (simp add: absStore_def store_ok_def sh_ok_def)
  show "length (absStore s ! i) \<le> cc_limit (config s)" using assms by (simp add: store_ok_def in_place_def)
qed

text \<open>Dropping the pending entries.\<close>

lemma represents_clear:
  "represents rest s0 l (sh, s) \<Longrightarrow> sh_order sh = kept @ todo \<Longrightarrow>
     represents rest s0 (entries kept @ filter (\<lambda>p. \<not> pending p) (entries todo)) (clearShard todo (sh, s))"
proof (induction todo arbitrary: kept l sh s)
  case Nil
  then show ?case by (simp add: represents_def entries_def)
next
  case (Cons p todo)
  obtain el n where p: "p = (el, n)" by (cases p)
  note ok = representsD [OF Cons.prems(1)]
  show ?case
  proof (cases "ce_Status (cn_entry n) = StatusPending")
    case False
    then have "entries (kept @ [(el, n)]) @ filter (\<lambda>p. \<not> pending p) (entries todo) =
        entries kept @ filter (\<lambda>p. \<not> pending p) (entries (p # todo))"
      by (simp add: entries_def p pending_def)
    with Cons.IH [of l sh s "kept @ [(el, n)]"] Cons.prems False show ?thesis by (simp add: p)
  next
    case True
    have "(cn_key n, el) \<in> set (keyed (sh_order sh))" using Cons.prems(2) by (auto simp: p keyed_def)
    then have "map_of (keyed (sh_order sh)) (cn_key n) = Some el"
      using ok(1) by (simp add: sh_ok_def keys_distinct_def map_fst_keyed)
    then have items: "map_of (sh_items sh) (cn_key n) = Some el" using ok(1) by (simp add: sh_ok_def)
    have "el \<notin> fst ` set kept" "el \<notin> fst ` set todo" using ok(1) Cons.prems(2) by (auto simp: sh_ok_def keys_distinct_def p)
    then have "AList.delete el (sh_order sh) = kept @ todo" using Cons.prems(2) by (simp add: p delete_append)
    moreover obtain sh' s' where r: "removeElementLocked el (sh, s) = (sh', s')" by (cases "removeElementLocked el (sh, s)")
    ultimately have "sh_order sh' = kept @ todo" by (auto simp: removeElementLocked_def Let_def)
    moreover have "represents rest s0 (AList.delete (cn_key n) l) (sh', s')"
      using represents_remove [OF Cons.prems(1) items] r by simp
    ultimately have "represents rest s0 (entries kept @ filter (\<lambda>p. \<not> pending p) (entries todo)) (clearShard todo (sh', s'))"
      by (rule Cons.IH [rotated])
    moreover have "filter (\<lambda>p. \<not> pending p) (entries (p # todo)) = filter (\<lambda>p. \<not> pending p) (entries todo)"
      using True by (simp add: entries_def p pending_def)
    ultimately show ?thesis using True r by (simp add: p)
  qed
qed

lemma clearFrom_simulates:
  "store_ok s \<Longrightarrow> i + n = shardCount \<Longrightarrow>
     store_ok (clearFrom i n s) \<and> config (clearFrom i n s) = config s \<and>
     absStore (clearFrom i n s) = take i (absStore s) @ map (filter (\<lambda>p. \<not> pending p)) (drop i (absStore s))"
proof (induction n arbitrary: i s)
  case 0
  then show ?case by (simp add: length_shards absStore_def)
next
  case (Suc n)
  then have i: "i < shardCount" and len: "length (absStore s) = shardCount" by (simp_all add: length_shards absStore_def)
  define l where "l = filter (\<lambda>p. \<not> pending p) (absStore s ! i)"
  obtain sh' s' where cl: "clearShard (sh_order (st_shards s ! i)) (st_shards s ! i, s) = (sh', s')" by fastforce
  have abs: "absStore s ! i = absShard (st_shards s ! i)" using i len by (simp add: absStore_def)
  have rep: "represents (others s i) s l (sh', s')"
    using represents_clear [OF store_ok_represents [OF Suc.prems(1) i], of "[]"] cl abs by (simp add: l_def entries_def [of "[]"])
  have len_l: "length l \<le> cc_limit (config s)"
    using store_ok_list(2) [OF Suc.prems(1) i] length_filter_le [of "\<lambda>p. \<not> pending p" "absStore s ! i"] unfolding l_def by linarith
  have keys_l: "\<forall>key \<in> fst ` set l. getShardIndex key = i"
    using Suc.prems(1) i unfolding store_ok_def in_place_def l_def by auto
  note wb = store_ok_write_back [OF Suc.prems(1) i rep len_l keys_l]
  have "drop i (absStore s) = absStore s ! i # drop (Suc i) (absStore s)" using i len by (simp add: Cons_nth_drop_Suc)
  moreover have "take (Suc i) ((absStore s)[i := l]) = take i (absStore s) @ [l]"
    using i len by (subst take_Suc_conv_app_nth) simp_all
  ultimately have "take (Suc i) ((absStore s)[i := l]) @ map (filter (\<lambda>p. \<not> pending p)) (drop (Suc i) ((absStore s)[i := l])) =
      take i (absStore s) @ map (filter (\<lambda>p. \<not> pending p)) (drop i (absStore s))"
    by (simp add: l_def)
  then show ?case using Suc.IH [OF wb(1), of "Suc i"] wb Suc.prems(2) by (simp add: cl)
qed

section \<open>Sequences of operations\<close>

datatype cache_op =
    OpLookup gostring gostring u16 u16 time
  | OpGet gostring bytes time
  | OpSet gostring gostring u16 u16 bytes time
  | OpSnapshot gostring
  | OpHasPending
  | OpClearPending

datatype cache_res = ResLookup LookupResult | ResGet "bytes option" | ResSnapshot "Entry option" | ResPending bool | ResDone

fun do_op :: "cache_op \<Rightarrow> Store \<Rightarrow> cache_res \<times> Store" where
  "do_op (OpLookup key domain qType qClass now) s = map_prod ResLookup (\<lambda>s. s) (LookupOrCreatePending key domain qType qClass now s)"
| "do_op (OpGet key rawQuery now) s = map_prod ResGet (\<lambda>s. s) (GetReady key rawQuery now s)"
| "do_op (OpSet key domain qType qClass rawResponse now) s = (ResDone, SetReady key domain qType qClass rawResponse now s)"
| "do_op (OpSnapshot key) s = (ResSnapshot (Snapshot key s), s)"
| "do_op OpHasPending s = (ResPending (HasPending s), s)"
| "do_op OpClearPending s = (ResDone, ClearPending s)"

fun spec_op :: "cache_config \<Rightarrow> cache_op \<Rightarrow> lru list \<Rightarrow> cache_res \<times> lru list" where
  "spec_op c (OpLookup key domain qType qClass now) ls =
     (if key = [] then (ResLookup \<lparr>lr_Status = StatusZero, lr_Response = [], lr_DispatchNeeded = False\<rparr>, ls)
      else map_prod ResLookup (\<lambda>ls. ls) (spec_locked key (spec_lookup c key domain qType qClass now) ls))"
| "spec_op c (OpGet key rawQuery now) ls =
     (if key = [] then (ResGet None, ls) else map_prod ResGet (\<lambda>ls. ls) (spec_locked key (spec_get c key rawQuery now) ls))"
| "spec_op c (OpSet key domain qType qClass rawResponse now) ls =
     (ResDone, if key = [] \<or> length rawResponse < 2 then ls
               else snd (spec_locked key (spec_set c key domain qType qClass rawResponse now) ls))"
| "spec_op c (OpSnapshot key) ls = (ResSnapshot (if key = [] then None else map_of (ls ! getShardIndex key) key), ls)"
| "spec_op c OpHasPending ls = (ResPending (filter pending (concat ls) \<noteq> []), ls)"
| "spec_op c OpClearPending ls = (ResDone, map (filter (\<lambda>p. \<not> pending p)) ls)"

fun run_ops :: "('op \<Rightarrow> 's \<Rightarrow> 'r \<times> 's) \<Rightarrow> 'op list \<Rightarrow> 's \<Rightarrow> 'r list \<times> 's" where
  "run_ops step [] s = ([], s)"
| "run_ops step (c # cs) s = (let (r, s) = step c s; (rs, s) = run_ops step cs s in (r # rs, s))"

definition refines :: "Store \<Rightarrow> cache_res \<times> lru list \<Rightarrow> cache_res \<times> Store \<Rightarrow> bool" where
  "refines s0 a c \<longleftrightarrow> fst c = fst a \<and> absStore (snd c) = snd a \<and> store_ok (snd c) \<and> config (snd c) = config s0"

lemma Snapshot_spec:
  assumes ok: "store_ok s" and key: "key \<noteq> []"
  shows "Snapshot key s = map_of (absStore s ! getShardIndex key) key"
proof -
  define sh where "sh = st_shards s ! getShardIndex key"
  have len: "length (st_shards s) = shardCount" using ok by (rule length_shards)
  then have abs: "absStore s ! getShardIndex key = absShard sh" and sh: "sh_ok sh"
    using ok getShardIndex_less [of key] by (auto simp: absStore_def sh_def store_ok_def)
  show ?thesis
  proof (cases "map_of (sh_items sh) key")
    case None
    then show ?thesis using key sh_ok_missing [OF sh] abs by (simp add: Snapshot_def sh_def [symmetric])
  next
    case (Some el)
    obtain e where "map_of (absShard sh) key = Some e" "entryOf el sh = \<lparr>cn_key = key, cn_entry = e\<rparr>"
      using sh_ok_lookup [OF sh Some] .
    then show ?thesis using key Some abs by (simp add: Snapshot_def sh_def [symmetric])
  qed
qed

lemma HasPending_spec: "store_ok s \<Longrightarrow> HasPending s \<longleftrightarrow> filter pending (concat (absStore s)) \<noteq> []"
proof -
  assume "store_ok s"
  then have "unat (st_pendingTotal s) = length (filter pending (concat (absStore s)))"
    by (simp add: store_ok_def filter_concat length_concat pend_def [abs_def] comp_def)
  then show ?thesis by (metis HasPending_def length_0_conv unat_eq_zero word_greater_zero_iff)
qed

lemma do_op_refines:
  assumes ok: "store_ok s"
  shows "refines s (spec_op (config s) op (absStore s)) (do_op op s)"
proof (cases op)
  case (OpLookup key domain qType qClass now)
  note lst = store_ok_list [OF ok getShardIndex_less [of key]]
  have "fst (locked key (lookupBody key domain qType qClass now) s) =
      fst (spec_locked key (spec_lookup (config s) key domain qType qClass now) (absStore s)) \<and>
    absStore (snd (locked key (lookupBody key domain qType qClass now) s)) =
      snd (spec_locked key (spec_lookup (config s) key domain qType qClass now) (absStore s)) \<and>
    store_ok (snd (locked key (lookupBody key domain qType qClass now) s)) \<and>
    config (snd (locked key (lookupBody key domain qType qClass now) s)) = config s"
    by (rule locked_simulates [OF ok refl refl], rule simulates_lookup, assumption, assumption, rule spec_lookup_shape [OF lst])
  then show ?thesis using ok by (auto simp: OpLookup refines_def LookupOrCreatePending_def)
next
  case (OpGet key q now)
  note lst = store_ok_list [OF ok getShardIndex_less [of key]]
  have "fst (locked key (getBody key q now) s) = fst (spec_locked key (spec_get (config s) key q now) (absStore s)) \<and>
    absStore (snd (locked key (getBody key q now) s)) = snd (spec_locked key (spec_get (config s) key q now) (absStore s)) \<and>
    store_ok (snd (locked key (getBody key q now) s)) \<and> config (snd (locked key (getBody key q now) s)) = config s"
    by (rule locked_simulates [OF ok refl refl], rule simulates_get, assumption, rule spec_get_shape [OF lst])
  then show ?thesis using ok by (auto simp: OpGet refines_def GetReady_def)
next
  case (OpSet key domain qType qClass r now)
  note lst = store_ok_list [OF ok getShardIndex_less [of key]]
  have "fst (locked key (setBody key domain qType qClass r now) s) =
      fst (spec_locked key (spec_set (config s) key domain qType qClass r now) (absStore s)) \<and>
    absStore (snd (locked key (setBody key domain qType qClass r now) s)) =
      snd (spec_locked key (spec_set (config s) key domain qType qClass r now) (absStore s)) \<and>
    store_ok (snd (locked key (setBody key domain qType qClass r now) s)) \<and>
    config (snd (locked key (setBody key domain qType qClass r now) s)) = config s"
    by (rule locked_simulates [OF ok refl refl], rule simulates_set [OF _ lst(2)], assumption, rule spec_set_shape)
  then show ?thesis using ok by (auto simp: OpSet refines_def SetReady_def)
next
  case (OpSnapshot key)
  then show ?thesis using ok Snapshot_spec [OF ok, of key] by (auto simp: refines_def Snapshot_def)
next
  case OpHasPending
  then show ?thesis using ok HasPending_spec [OF ok] by (simp add: refines_def)
next
  case OpClearPending
  then show ?thesis using clearFrom_simulates [OF ok, of 0 shardCount] by (simp add: refines_def ClearPending_def)
qed

lemma run_ops_refines:
  "store_ok s \<Longrightarrow> config s = c \<Longrightarrow>
     fst (run_ops do_op ops s) = fst (run_ops (spec_op c) ops (absStore s)) \<and>
     absStore (snd (run_ops do_op ops s)) = snd (run_ops (spec_op c) ops (absStore s)) \<and> store_ok (snd (run_ops do_op ops s))"
proof (induction ops arbitrary: s)
  case (Cons op ops)
  have "refines s (spec_op c op (absStore s)) (do_op op s)" using do_op_refines [OF Cons.prems(1)] Cons.prems(2) by simp
  with Cons.IH [of "snd (do_op op s)"] Cons.prems(2) show ?case by (simp add: refines_def split_beta Let_def)
qed simp

lemma run_ops_config:
  "store_ok s \<Longrightarrow> config (snd (run_ops do_op ops s)) = config s"
proof (induction ops arbitrary: s)
  case (Cons op ops)
  have "refines s (spec_op (config s) op (absStore s)) (do_op op s)" by (rule do_op_refines [OF Cons.prems])
  with Cons.IH [of "snd (do_op op s)"] show ?case by (simp add: refines_def split_beta Let_def)
qed simp

lemma newStore_ok: "maxRecords < 2 ^ 63 \<Longrightarrow> store_ok (newStore maxRecords ttl timeout)"
  by (simp add: store_ok_def newStore_def in_place_def absStore_def emptyShard_def sh_ok_def entries_def keyed_def pend_def)

section \<open>Properties\<close>

text \<open>
  C5. A new store, driven by any sequence of look-ups, reads, writes, snapshots, pending checks and
  clear-outs, answers every call as 32 plain lists in the order of last use do: the hash maps, the linked lists of elements,
  the eviction loop and the pending counter (a 64-bit word that is decremented by adding its complement) never disagree
  with the lists. At the end every shard holds at most its share of the records, keys are distinct and lie in the
  shard of their hash, and the counter is the number of pending entries.
\<close>

theorem dns_cache_refines:
  fixes maxRecords :: int and ttl timeout :: duration
  assumes "maxRecords < 2 ^ 63"
  defines "s0 \<equiv> newStore maxRecords ttl timeout"
  shows "fst (run_ops do_op ops s0) = fst (run_ops (spec_op (config s0)) ops (replicate shardCount [])) \<and>
    absStore (snd (run_ops do_op ops s0)) = snd (run_ops (spec_op (config s0)) ops (replicate shardCount [])) \<and>
    store_ok (snd (run_ops do_op ops s0))"
proof -
  have "store_ok s0" using newStore_ok [OF assms(1)] by (simp add: s0_def)
  moreover have "absStore s0 = replicate shardCount []"
    by (simp add: s0_def absStore_def newStore_def emptyShard_def entries_def)
  ultimately show ?thesis using run_ops_refines [of s0 "config s0" ops] by simp
qed

definition demo_ops :: "cache_op list" where
  "demo_ops = (let a = BuildKey (ascii ''a'') 1 1; b = BuildKey (ascii ''b'') 1 1
     in [OpLookup a (ascii ''a'') 1 1 second, OpHasPending, OpSet a (ascii ''a'') 1 1 [9, 9, 1, 0, 7] (2 * second), OpHasPending,
         OpGet a [5, 6, 1, 16] (3 * second), OpLookup b (ascii ''b'') 1 1 (3 * second), OpClearPending, OpSnapshot b])"

lemma demo_ops_spec:
  "fst (run_ops (spec_op \<lparr>cc_limit = 1, cc_ttl = 3600 * second, cc_timeout = 30 * second\<rparr>) demo_ops (replicate shardCount [])) =
     [ResLookup (dispatch True), ResPending True, ResDone, ResPending False, ResGet (Some [5, 6, 1, 16, 7]), ResLookup (dispatch True), ResDone,
      ResSnapshot None]"
  by code_simp

theorem dns_cache_refines_witness:
  "fst (run_ops do_op demo_ops (newStore 10 0 0)) =
     [ResLookup (dispatch True), ResPending True, ResDone, ResPending False, ResGet (Some [5, 6, 1, 16, 7]), ResLookup (dispatch True), ResDone,
      ResSnapshot None]"
proof -
  have "config (newStore 10 0 0) = \<lparr>cc_limit = 1, cc_ttl = 3600 * second, cc_timeout = 30 * second\<rparr>" by code_simp
  then show ?thesis using dns_cache_refines [where maxRecords = 10 and ttl = 0 and timeout = 0 and ops = demo_ops] demo_ops_spec by simp
qed


section \<open>A written answer is read\<close>

lemma map_of_trim_use: "0 < n \<Longrightarrow> map_of (trim n (use key e l)) key = Some e"
proof -
  assume "0 < n"
  then have "trim n (use key e l) = drop (Suc (length (AList.delete key l)) - n) (AList.delete key l) @ [(key, e)]"
    by (simp add: trim_def use_def)
  moreover have "key \<notin> fst ` set (drop k (AList.delete key l))" for k
    using set_drop_subset [of k "AList.delete key l"] by (auto simp: set_delete dest!: subsetD)
  then have "map_of (drop k (AList.delete key l)) key = None" for k by (simp add: map_of_eq_None_iff)
  ultimately show ?thesis by (simp add: map_of_append map_add_def)
qed

lemma get_after_set:
  assumes ok: "store_ok s" and key: "key \<noteq> []" "2 \<le> length resp" and fresh: "time_sub now' now < cc_ttl (config s)"
  shows "fst (GetReady key q now' (SetReady key domain qType qClass resp now s)) = Some (PatchResponseForQuery (normalized resp) q)"
proof -
  define i where "i = getShardIndex key"
  define s1 where "s1 = SetReady key domain qType qClass resp now s"
  define l where "l = trim (cc_limit (config s)) (use key (answer domain qType qClass resp now (map_of (absStore s ! i) key)) (absStore s ! i))"
  have "refines s (spec_op (config s) (OpSet key domain qType qClass resp now) (absStore s)) (do_op (OpSet key domain qType qClass resp now) s)"
    by (rule do_op_refines [OF ok])
  then have s1: "absStore s1 = (absStore s)[i := l]" "store_ok s1" "config s1 = config s"
    using key by (simp_all add: refines_def s1_def spec_locked_def spec_set_def i_def l_def Let_def)
  have "length (absStore s) = shardCount" using length_shards [OF ok] by (simp add: absStore_def)
  then have li: "absStore s1 ! i = l" by (simp add: s1(1) i_def)
  have "map_of l key = Some (answer domain qType qClass resp now (map_of (absStore s ! i) key))"
    unfolding l_def using shardLimit_pos [of s] by (intro map_of_trim_use) (simp add: config_def)
  then obtain e where e: "map_of l key = Some e" "ce_Status e = StatusReady" "ce_LastUsedAt e = now" "ce_Response e = normalized resp"
    by (auto simp: answer_def)
  have "normalized resp \<noteq> []" using key(2) by (auto simp: normalized_def)
  then have "fst (spec_get (config s1) key q now' l) = Some (PatchResponseForQuery (normalized resp) q)"
    using e fresh by (simp add: spec_get_def expired_def s1(3))
  moreover have "refines s1 (spec_op (config s1) (OpGet key q now') (absStore s1)) (do_op (OpGet key q now') s1)"
    by (rule do_op_refines [OF s1(2)])
  ultimately show ?thesis
    using key by (simp add: refines_def s1_def [symmetric] spec_locked_def i_def [symmetric] li Let_def split_beta)
qed

lemma patch_normalized:
  assumes "2 \<le> length resp" "2 \<le> length q"
  defines "r \<equiv> PatchResponseForQuery (normalized resp) q"
  shows "length r = length resp \<and> take 2 r = take 2 q \<and> drop 4 r = drop 4 resp \<and>
    (4 \<le> length resp \<longrightarrow> 4 \<le> length q \<longrightarrow> get16 r 2 = (get16 resp 2 AND NOT 0x0110) OR (get16 q 2 AND 0x0110)) \<and>
    (length q < 4 \<longrightarrow> drop 2 r = drop 2 resp)"
proof -
  obtain a b rest where resp: "resp = a # b # rest" using assms(1) by (cases resp; cases "tl resp") auto
  obtain c d qs where q: "q = c # d # qs" using assms(2) by (cases q; cases "tl q") auto
  show ?thesis
  proof (cases "4 \<le> length q \<and> 4 \<le> length resp")
    case True
    then obtain c3 c4 qs' r3 r4 rs' where "qs = c3 # c4 # qs'" "rest = r3 # r4 # rs'"
      by (cases qs; cases "tl qs"; cases rest; cases "tl rest") (auto simp: q resp)
    then show ?thesis
      unfolding r_def PatchResponseForQuery_def normalized_def copy_at_def q resp by (simp add: get16_def put16_def Let_def)
  next
    case False
    then show ?thesis
      unfolding r_def PatchResponseForQuery_def normalized_def copy_at_def q resp by (auto simp: numeral_eq_Suc)
  qed
qed

text \<open>
  C31. After any use of the cache, an answer that is written is given to a query of its key that comes
  before the time to live has passed, whatever the shard was full of: with the identifier of the query, the recursion-desired
  and checking-disabled flags of the query, and otherwise the bytes of the answer.
\<close>

theorem cached_answer_served:
  fixes maxRecords :: int and ttl timeout :: duration and ops :: "cache_op list"
  assumes "maxRecords < 2 ^ 63" "key \<noteq> []" "2 \<le> length resp" "2 \<le> length q"
  defines "s \<equiv> snd (run_ops do_op ops (newStore maxRecords ttl timeout))"
  assumes "time_sub now' now < cc_ttl (config s)"
  shows "\<exists>r. fst (GetReady key q now' (SetReady key domain qType qClass resp now s)) = Some r \<and>
    length r = length resp \<and> take 2 r = take 2 q \<and> drop 4 r = drop 4 resp \<and>
    (4 \<le> length resp \<longrightarrow> 4 \<le> length q \<longrightarrow> get16 r 2 = (get16 resp 2 AND NOT 0x0110) OR (get16 q 2 AND 0x0110)) \<and>
    (length q < 4 \<longrightarrow> drop 2 r = drop 2 resp)"
proof -
  have "store_ok s" using run_ops_refines [OF newStore_ok [OF assms(1)] refl] by (simp add: s_def)
  from get_after_set [OF this assms(2,3,6)] patch_normalized [OF assms(3,4)] show ?thesis by auto
qed

theorem cached_answer_served_witness:
  "\<exists>r. fst (GetReady [1] [7, 8, 1, 16] (5 * second) (SetReady [1] [1] 1 1 [9, 9, 0x81, 0x80, 3] (4 * second)
      (snd (run_ops do_op demo_ops (newStore 10 0 0))))) = Some r \<and> take 2 r = [7, 8] \<and> drop 4 r = [3]"
proof -
  have "cc_ttl (config (snd (run_ops do_op demo_ops (newStore 10 0 0)))) = 3600 * second"
    unfolding run_ops_config [OF newStore_ok [of 10, simplified]] by (simp add: config_def newStore_def)
  then have "time_sub (5 * second) (4 * second) < cc_ttl (config (snd (run_ops do_op demo_ops (newStore 10 0 0))))"
    by (simp add: time_sub_def)
  from cached_answer_served [where maxRecords = 10 and ttl = 0 and timeout = 0 and key = "[1]" and q = "[7, 8, 1, 16]"
      and resp = "[9, 9, 0x81, 0x80, 3]", OF _ _ _ _ this]
  show ?thesis by force
qed

end
