(* ===== verification/DnsCacheFile.thy ===== *)
theory DnsCacheFile
  imports DnsCacheSpec
begin

text \<open>
  The cache file: \<open>SaveToFile\<close>, \<open>LoadFromFile\<close> and the encoding of an entry (\<open>dnscache/store.go\<close>). A file is its bytes; the
  outcomes of the file system calls are the fields of \<open>save_env\<close> and the cases of \<open>open_result\<close>. Loading what was saved
  gives the answers that had not expired, in their order of use, with their times cut to whole seconds.
\<close>

section \<open>Reading and writing fields\<close>

datatype io_error = EOF | UnexpectedEOF

type_synonym 'a reader = "bytes \<Rightarrow> io_error + ('a \<times> bytes)"

definition bindR :: "'a reader \<Rightarrow> ('a \<Rightarrow> 'b reader) \<Rightarrow> 'b reader" where
  "bindR r f bs = (case r bs of Inl e \<Rightarrow> Inl e | Inr (x, rest) \<Rightarrow> f x rest)"

definition returnR :: "'a \<Rightarrow> 'a reader" where
  "returnR x bs = Inr (x, bs)"

text \<open>\<open>io.ReadFull\<close>: \<open>EOF\<close> only when nothing was read of a non-empty buffer.\<close>

definition readFull :: "nat \<Rightarrow> bytes reader" where
  "readFull n bs = (if n \<le> length bs then Inr (take n bs, drop n bs) else if bs = [] then Inl EOF else Inl UnexpectedEOF)"

definition readU16 :: "u16 reader" where
  "readU16 = bindR (readFull 2) (\<lambda>b. returnR (get16 b 0))"

definition readU32 :: "u32 reader" where
  "readU32 = bindR (readFull 4) (\<lambda>b. returnR (get32 b 0))"

definition put64 :: "u64 \<Rightarrow> bytes" where
  "put64 w = put32 (ucast (drop_bit 32 w)) @ put32 (ucast w)"

definition get64 :: "bytes \<Rightarrow> u64" where
  "get64 b = push_bit 32 (ucast (get32 b 0)) OR ucast (get32 b 4)"

definition readI64 :: "u64 reader" where
  "readI64 = bindR (readFull 8) (\<lambda>b. returnR (get64 b))"

text \<open>
  \<open>Time.Unix\<close> and \<open>time.Unix\<close>: whole seconds since 1970 against seconds since the zero time, in 64-bit arithmetic.
\<close>

abbreviation unixToInternal :: u64 where "unixToInternal \<equiv> 62135596800"

definition toUnix :: "time \<Rightarrow> u64" where
  "toUnix t = word_of_int (t div second) - unixToInternal"

definition fromUnix :: "u64 \<Rightarrow> time" where
  "fromUnix w = sint (w + unixToInternal) * second"

section \<open>Entries\<close>

definition writeBinaryEntry :: "gostring \<Rightarrow> Entry \<Rightarrow> bytes" where
  "writeBinaryEntry key entry =
     put16 (of_nat (length key)) @ key @
     put16 (of_nat (length (ce_Domain entry))) @ ce_Domain entry @
     put16 (ce_QuestionType entry) @ put16 (ce_QuestionClass entry) @
     put16 (of_nat (length (ce_Response entry))) @ ce_Response entry @
     put64 (toUnix (ce_CreatedAt entry)) @ put64 (toUnix (ce_LastUsedAt entry))"

definition readBinaryEntry :: "(Entry \<times> gostring) reader" where
  "readBinaryEntry =
     bindR readU16 (\<lambda>keyLen. bindR (readFull (unat keyLen)) (\<lambda>keyBuf.
     bindR readU16 (\<lambda>domainLen. bindR (readFull (unat domainLen)) (\<lambda>domainBuf.
     bindR readU16 (\<lambda>qType. bindR readU16 (\<lambda>qClass.
     bindR readU16 (\<lambda>resLen. bindR (readFull (unat resLen)) (\<lambda>resBuf.
     bindR readI64 (\<lambda>createdAt. bindR readI64 (\<lambda>lastUsedAt.
       returnR (\<lparr>ce_Domain = domainBuf, ce_QuestionType = qType, ce_QuestionClass = qClass, ce_Status = StatusReady,
                 ce_CreatedAt = fromUnix createdAt, ce_LastUsedAt = fromUnix lastUsedAt, ce_LastDispatchAt = 0,
                 ce_Response = resBuf\<rparr>, keyBuf)))))))))))"

section \<open>Saving\<close>

abbreviation binaryMagic :: u32 where "binaryMagic \<equiv> 0x444E5343"
abbreviation binaryVersion :: u16 where "binaryVersion \<equiv> 1"

record save_env =
  se_create :: bool
  se_header :: bool
  se_entry :: "nat \<Rightarrow> bool"
  se_flush :: bool
  se_close :: bool
  se_mkdir :: bool
  se_rename :: bool

record save_outcome =
  so_saved :: nat
  so_ok :: bool
  so_file :: "bytes option"

definition savable :: "Store \<Rightarrow> time \<Rightarrow> shard \<Rightarrow> (gostring \<times> Entry) list" where
  "savable s now sh =
     map (\<lambda>(el, node). (cn_key node, cn_entry node))
       (filter (\<lambda>(el, node). ce_Status (cn_entry node) = StatusReady \<and> \<not> isExpired s (cn_entry node) now) (sh_order sh))"

fun writeEntries :: "(nat \<Rightarrow> bool) \<Rightarrow> (gostring \<times> Entry) list \<Rightarrow> nat \<Rightarrow> bytes \<Rightarrow> nat \<times> bytes option" where
  "writeEntries ok [] saved out = (saved, Some out)"
| "writeEntries ok ((key, entry) # rest) saved out =
     (if ok saved then writeEntries ok rest (Suc saved) (out @ writeBinaryEntry key entry) else (saved, None))"

text \<open>The second component is the store, the file at the path (if it was replaced) is in the outcome.\<close>

definition SaveToFile :: "save_env \<Rightarrow> gostring \<Rightarrow> time \<Rightarrow> Store \<Rightarrow> save_outcome \<times> Store" where
  "SaveToFile env path now s =
     (if path = [] then (\<lparr>so_saved = 0, so_ok = True, so_file = None\<rparr>, s)
      else if st_dirty s = 0 then (\<lparr>so_saved = 0, so_ok = True, so_file = None\<rparr>, s)
      else if \<not> se_create env then (\<lparr>so_saved = 0, so_ok = False, so_file = None\<rparr>, s)
      else if \<not> se_header env then (\<lparr>so_saved = 0, so_ok = False, so_file = None\<rparr>, s)
      else
        let todo = concat (map (savable s now) (st_shards s));
            total = of_nat (length todo)
        in case writeEntries (se_entry env) todo 0 (put32 binaryMagic @ put16 binaryVersion @ put32 total) of
             (saved, None) \<Rightarrow> (\<lparr>so_saved = saved, so_ok = False, so_file = None\<rparr>, s)
           | (saved, Some out) \<Rightarrow>
               if \<not> se_flush env \<or> \<not> se_close env \<or> \<not> se_mkdir env \<or> \<not> se_rename env
               then (\<lparr>so_saved = saved, so_ok = False, so_file = None\<rparr>, s)
               else (\<lparr>so_saved = saved, so_ok = True, so_file = Some out\<rparr>, s\<lparr>st_dirty := 0\<rparr>))"

section \<open>Loading\<close>

datatype open_result = NotExist | OpenError | Opened bytes

datatype load_error = ErrOpen | ErrHeader io_error | ErrMagic | ErrVersion | ErrEntry nat

definition resetShards :: "Store \<Rightarrow> Store" where
  "resetShards s = s\<lparr>st_pendingTotal := 0, st_shards := map (\<lambda>sh. sh\<lparr>sh_items := [], sh_order := []\<rparr>) (st_shards s)\<rparr>"

definition pushLoaded :: "gostring \<Rightarrow> Entry \<Rightarrow> Store \<Rightarrow> Store" where
  "pushLoaded key entry s =
     (let i = getShardIndex key in s\<lparr>st_shards := (st_shards s)[i := pushBack key entry (st_shards s ! i)]\<rparr>)"

fun loadEntries :: "nat \<Rightarrow> nat \<Rightarrow> bytes \<Rightarrow> time \<Rightarrow> nat \<Rightarrow> Store \<Rightarrow> (load_error + nat) \<times> Store" where
  "loadEntries i 0 bs now loaded s = (Inr loaded, s)"
| "loadEntries i (Suc n) bs now loaded s = (case readBinaryEntry bs of
       Inl EOF \<Rightarrow> (Inr loaded, s)
     | Inl UnexpectedEOF \<Rightarrow> (Inl (ErrEntry i), s)
     | Inr ((entry, key), bs) \<Rightarrow>
         if isExpired s entry now then loadEntries (Suc i) n bs now loaded s
         else loadEntries (Suc i) n bs now (Suc loaded) (pushLoaded key entry s))"

fun evictFrom :: "nat \<Rightarrow> nat \<Rightarrow> Store \<Rightarrow> Store" where
  "evictFrom i 0 s = s"
| "evictFrom i (Suc n) s =
     (let (sh, s) = evictIfNeededLocked (st_shards s ! i, s)
      in evictFrom (Suc i) n (s\<lparr>st_shards := (st_shards s)[i := sh]\<rparr>))"

definition readHeader :: "bytes \<Rightarrow> load_error + (u32 \<times> bytes)" where
  "readHeader bs = (case readU32 bs of
       Inl e \<Rightarrow> Inl (ErrHeader e)
     | Inr (magic, bs) \<Rightarrow>
         if magic \<noteq> binaryMagic then Inl ErrMagic
         else (case readU16 bs of
                 Inl e \<Rightarrow> Inl (ErrHeader e)
               | Inr (version, bs) \<Rightarrow>
                   if version \<noteq> binaryVersion then Inl ErrVersion
                   else (case readU32 bs of Inl e \<Rightarrow> Inl (ErrHeader e) | Inr r \<Rightarrow> Inr r)))"

definition LoadFromFile :: "open_result \<Rightarrow> gostring \<Rightarrow> time \<Rightarrow> Store \<Rightarrow> (load_error + nat) \<times> Store" where
  "LoadFromFile opened path now s =
     (if path = [] then (Inr 0, s)
      else case opened of
        NotExist \<Rightarrow> (Inr 0, s)
      | OpenError \<Rightarrow> (Inl ErrOpen, s)
      | Opened file \<Rightarrow> (case readHeader file of
            Inl e \<Rightarrow> (Inl e, s)
          | Inr (count, bs) \<Rightarrow> (case loadEntries 0 (unat count) bs now 0 (resetShards s) of
                (Inl e, s) \<Rightarrow> (Inl e, s)
              | (Inr loaded, s) \<Rightarrow> (Inr loaded, (evictFrom 0 shardCount s)\<lparr>st_dirty := 0\<rparr>))))"

section \<open>Fields round trip\<close>

lemma readFull_append: "readFull (length xs) (xs @ ys) = Inr (xs, ys)"
  by (simp add: readFull_def)

lemma length_put64 [simp]: "length (put64 w) = 8"
  by (simp add: put64_def)

lemma get64_put64: "get64 (put64 w) = w"
proof -
  have "get32 (put64 w) 0 = ucast (drop_bit 32 w)" using get32_put32 [of "[]"] by (simp add: put64_def)
  moreover have "get32 (put64 w) 4 = ucast w"
    using get32_put32 [of "put32 (ucast (drop_bit 32 w))" "ucast w" "[]"] by (simp add: put64_def)
  moreover have "push_bit 32 (ucast (ucast (drop_bit 32 w) :: u32)) OR ucast (ucast w :: u32) = w"
    by (rule bit_word_eqI) (auto simp: bit_simps)
  ultimately show ?thesis by (simp add: get64_def)
qed

lemma readU16_put16: "readU16 (put16 w @ rest) = Inr (w, rest)"
  using readFull_append [of "put16 w" rest] get16_put16 [of "[]" w "[]"] by (simp add: readU16_def bindR_def returnR_def)

lemma readU32_put32: "readU32 (put32 w @ rest) = Inr (w, rest)"
  using readFull_append [of "put32 w" rest] get32_put32 [of "[]" w "[]"] by (simp add: readU32_def bindR_def returnR_def)

lemma readI64_put64: "readI64 (put64 w @ rest) = Inr (w, rest)"
  using readFull_append [of "put64 w" rest] by (simp add: readI64_def bindR_def returnR_def get64_put64)

lemma readFull_of_nat:
  "length xs < 65536 \<Longrightarrow> readFull (unat (of_nat (length xs) :: u16)) (xs @ rest) = Inr (xs, rest)"
  by (simp add: unat_word_of_nat readFull_append)

lemma bindR_fields:
  "bindR readU16 f (put16 w @ rest) = f w rest" "bindR readI64 g (put64 v @ rest) = g v rest"
  "length xs < 65536 \<Longrightarrow> bindR (readFull (unat (of_nat (length xs) :: u16))) h (xs @ rest) = h xs rest"
  by (simp_all add: bindR_def readU16_put16 readI64_put64 readFull_of_nat)

text \<open>What a file keeps of an entry.\<close>

definition entry_fits :: "gostring \<times> Entry \<Rightarrow> bool" where
  "entry_fits p \<longleftrightarrow>
     int (length (fst p)) < 65536 \<and> int (length (ce_Domain (snd p))) < 65536 \<and> int (length (ce_Response (snd p))) < 65536 \<and>
     0 \<le> ce_CreatedAt (snd p) \<and> ce_CreatedAt (snd p) \<le> 2 ^ 80 \<and> 0 \<le> ce_LastUsedAt (snd p) \<and> ce_LastUsedAt (snd p) \<le> 2 ^ 80"

definition whole_seconds :: "time \<Rightarrow> time" where
  "whole_seconds t = t div second * second"

definition stored :: "Entry \<Rightarrow> Entry" where
  "stored e = \<lparr>ce_Domain = ce_Domain e, ce_QuestionType = ce_QuestionType e, ce_QuestionClass = ce_QuestionClass e, ce_Status = StatusReady,
     ce_CreatedAt = whole_seconds (ce_CreatedAt e), ce_LastUsedAt = whole_seconds (ce_LastUsedAt e), ce_LastDispatchAt = 0,
     ce_Response = ce_Response e\<rparr>"

lemma fromUnix_toUnix:
  assumes "0 \<le> t" "t \<le> 2 ^ 80"
  shows "fromUnix (toUnix t) = whole_seconds t"
proof -
  have "0 \<le> t div second" "t div second < 2 ^ 63" using assms by (auto simp: pos_imp_zdiv_nonneg_iff)
  then have "sint (word_of_int (t div second) :: u64) = t div second" by (simp add: sint_sbintrunc' signed_take_bit_int_eq_self)
  then show ?thesis by (simp add: fromUnix_def toUnix_def whole_seconds_def)
qed

lemma readBinaryEntry_write:
  assumes "entry_fits (key, e)"
  shows "readBinaryEntry (writeBinaryEntry key e @ rest) = Inr ((stored e, key), rest)"
  using assms by (simp add: entry_fits_def readBinaryEntry_def writeBinaryEntry_def bindR_fields returnR_def stored_def fromUnix_toUnix)

section \<open>Loading what was saved\<close>

definition encodeEntries :: "lru \<Rightarrow> bytes" where
  "encodeEntries kes = concat (map (\<lambda>(key, e). writeBinaryEntry key e) kes)"

definition reloaded :: "Store \<Rightarrow> time \<Rightarrow> lru \<Rightarrow> lru" where
  "reloaded s now kes = filter (\<lambda>(key, e). \<not> isExpired s e now) (map (apsnd stored) kes)"

fun pushAll :: "lru \<Rightarrow> Store \<Rightarrow> Store" where
  "pushAll [] s = s"
| "pushAll ((key, e) # kes) s = pushAll kes (pushLoaded key e s)"

lemma writeEntries_all: "writeEntries (\<lambda>i. True) kes n out = (n + length kes, Some (out @ encodeEntries kes))"
  by (induction kes arbitrary: n out) (auto simp: encodeEntries_def)

lemma isExpired_push [simp]: "isExpired (pushLoaded key e s) = isExpired s"
  by (simp add: isExpired_def [abs_def] pushLoaded_def Let_def)

lemma loadEntries_encode:
  "list_all entry_fits kes \<Longrightarrow>
     loadEntries i (length kes) (encodeEntries kes) now n s =
       (Inr (n + length (reloaded s now kes)), pushAll (reloaded s now kes) s)"
proof (induction kes arbitrary: i n s)
  case (Cons ke kes)
  obtain key e where ke: "ke = (key, e)" by (cases ke)
  have r: "readBinaryEntry (encodeEntries (ke # kes)) = Inr ((stored e, key), encodeEntries kes)"
    using readBinaryEntry_write [of key e "encodeEntries kes"] Cons.prems by (simp add: encodeEntries_def ke)
  have "reloaded (pushLoaded key (stored e) s) now kes = reloaded s now kes" by (simp add: reloaded_def)
  moreover have "reloaded s now (ke # kes) = (if isExpired s (stored e) now then [] else [(key, stored e)]) @ reloaded s now kes"
    by (simp add: reloaded_def ke)
  ultimately show ?case using Cons by (auto simp: r)
qed (simp add: encodeEntries_def reloaded_def)

text \<open>Pushing entries with distinct keys.\<close>

lemma pushAll_sh_ok:
  assumes "distinct (map fst kes)" "length (st_shards s) = shardCount" "\<forall>sh \<in> set (st_shards s). sh_ok sh"
    and "\<forall>ke \<in> set kes. map_of (absStore s ! getShardIndex (fst ke)) (fst ke) = None"
  shows "(\<forall>sh \<in> set (st_shards (pushAll kes s)). sh_ok sh) \<and> length (st_shards (pushAll kes s)) = shardCount \<and>
    (\<forall>i < shardCount. absStore (pushAll kes s) ! i = absStore s ! i @ filter (\<lambda>ke. getShardIndex (fst ke) = i) kes)"
  using assms
proof (induction kes arbitrary: s)
  case (Cons ke kes)
  obtain key e where ke: "ke = (key, e)" by (cases ke)
  define j where "j = getShardIndex key"
  define s' where "s' = pushLoaded key e s"
  have j: "j < shardCount" by (simp add: j_def)
  have absj: "absStore s ! i = absShard (st_shards s ! i)" if "i < shardCount" for i
    using Cons.prems(2) that by (simp add: absStore_def)
  have new: "map_of (absShard (st_shards s ! j)) key = None" using Cons.prems(4) absj [OF j] by (simp add: ke j_def)
  have okj: "sh_ok (st_shards s ! j)" using Cons.prems(2,3) j by simp
  have sh: "st_shards s' = (st_shards s)[j := pushBack key e (st_shards s ! j)]" by (simp add: s'_def pushLoaded_def j_def Let_def)
  have len: "length (st_shards s') = shardCount" using Cons.prems(2) by (simp add: sh)
  have ok: "\<forall>sh \<in> set (st_shards s'). sh_ok sh"
    using Cons.prems(3) absShard_push(2) [OF okj new] unfolding sh by (auto dest: set_update_subset_insert [THEN subsetD])
  have "use key e (absShard (st_shards s ! j)) = absShard (st_shards s ! j) @ [(key, e)]"
    using new by (simp add: use_def map_of_eq_None_iff)
  then have abs: "absStore s' ! i = absStore s ! i @ (if i = j then [(key, e)] else [])" if "i < shardCount" for i
    using that Cons.prems(2) absShard_push(1) [OF okj new, of e] by (auto simp: absStore_def sh nth_list_update)
  have "map_of (absStore s' ! getShardIndex (fst k)) (fst k) = None" if k: "k \<in> set kes" for k
  proof -
    have "fst k \<noteq> key" using Cons.prems(1) k by (auto simp: ke)
    moreover have "map_of (absStore s ! getShardIndex (fst k)) (fst k) = None" using Cons.prems(4) k by simp
    ultimately show ?thesis using abs [OF getShardIndex_less [of "fst k"]] by (simp add: map_of_append map_add_def)
  qed
  then have "\<forall>k \<in> set kes. map_of (absStore s' ! getShardIndex (fst k)) (fst k) = None" by blast
  with Cons.IH [of s'] Cons.prems(1) len ok abs show ?case by (simp add: ke s'_def [symmetric] j_def)
qed simp

lemma pushAll_frame:
  "st_maxRecords (pushAll kes s) = st_maxRecords s \<and> st_cacheTTL (pushAll kes s) = st_cacheTTL s \<and>
   st_pendingTimeout (pushAll kes s) = st_pendingTimeout s \<and> st_pendingTotal (pushAll kes s) = st_pendingTotal s"
  by (induction kes s rule: pushAll.induct) (auto simp: pushLoaded_def Let_def)

lemma evictFrom_small:
  "in_place (cc_limit (config s)) (absStore s) \<Longrightarrow> (\<forall>sh \<in> set (st_shards s). sh_ok sh) \<Longrightarrow> i + n \<le> shardCount \<Longrightarrow> evictFrom i n s = s"
proof (induction n arbitrary: i)
  case (Suc n)
  have len: "length (st_shards s) = shardCount" using Suc.prems(1) by (simp add: in_place_def absStore_def)
  with Suc.prems have "length (absShard (st_shards s ! i)) \<le> cc_limit (config s)" and "sh_ok (st_shards s ! i)"
    by (auto simp: in_place_def absStore_def)
  then have "int (length (sh_items (st_shards s ! i))) \<le> shardLimit s"
    using sh_ok_length shardLimit_pos [of s] by (simp add: config_def)
  then have "evictIfNeededLocked (st_shards s ! i, s) = (st_shards s ! i, s)" by (simp add: evictIfNeededLocked.simps)
  then show ?case using Suc.IH [of "Suc i"] Suc.prems by simp
qed simp

lemma filter_in_place:
  assumes "in_place n ls" "i < shardCount"
  shows "filter (\<lambda>ke. getShardIndex (fst ke) = i) (concat ls) = ls ! i"
proof -
  have "filter (\<lambda>ke. getShardIndex (fst ke) = i) (concat ls) = concat (map (filter (\<lambda>ke. getShardIndex (fst ke) = i)) ls)"
    by (simp add: filter_concat)
  also have "map (filter (\<lambda>ke. getShardIndex (fst ke) = i)) ls = map (\<lambda>k. if k = i then ls ! i else []) [0..<length ls]"
  proof (rule nth_equalityI)
    fix k assume "k < length (map (filter (\<lambda>ke. getShardIndex (fst ke) = i)) ls)"
    moreover from this have "\<forall>ke \<in> set (ls ! k). getShardIndex (fst ke) = k" using assms(1) by (auto simp: in_place_def)
    ultimately show "map (filter (\<lambda>ke. getShardIndex (fst ke) = i)) ls ! k = map (\<lambda>k. if k = i then ls ! i else []) [0..<length ls] ! k"
      by (auto simp: filter_id_conv filter_empty_conv)
  qed simp
  also have "concat \<dots> = ls ! i"
  proof -
    have "concat (map (\<lambda>k. if k = i then x else []) [0..<n]) = (if i < n then x else [])" for x :: lru and n
      by (induction n) auto
    then show ?thesis using assms by (simp add: in_place_def)
  qed
  finally show ?thesis .
qed

definition all_ok :: save_env where
  "all_ok = \<lparr>se_create = True, se_header = True, se_entry = (\<lambda>i. True), se_flush = True, se_close = True, se_mkdir = True, se_rename = True\<rparr>"

text \<open>The answers of one list that a save and a load keep.\<close>

definition ready :: "cache_config \<Rightarrow> time \<Rightarrow> lru \<Rightarrow> lru" where
  "ready c now l = filter (\<lambda>(key, e). ce_Status e = StatusReady \<and> \<not> expired c e now) l"

definition kept :: "cache_config \<Rightarrow> time \<Rightarrow> time \<Rightarrow> lru \<Rightarrow> lru" where
  "kept c now now' l = ready c now' (map (apsnd stored) (ready c now l))"

lemma savable_ready: "savable s now sh = ready (config s) now (absShard sh)"
  unfolding savable_def ready_def entries_def filter_map isExpired_config [OF refl]
  by (rule arg_cong [of _ _ "map _"], rule filter_cong) auto

lemma reloaded_ready: "config s = c \<Longrightarrow> reloaded s now kes = ready c now (map (apsnd stored) kes)"
  unfolding reloaded_def ready_def by (rule filter_cong) (auto simp: isExpired_config [of s s] stored_def)

lemma ready_concat: "ready c now (concat ls) = concat (map (ready c now) ls)"
  by (simp add: ready_def [abs_def] filter_concat)

lemma keys_kept: "fst ` set (kept c now now' l) \<subseteq> fst ` set l"
  by (force simp: kept_def ready_def)

lemma length_kept: "length (kept c now now' l) \<le> length l"
  unfolding kept_def ready_def filter_map length_map by (rule order.trans [OF length_filter_le length_filter_le])

lemma in_place_kept: "in_place n ls \<Longrightarrow> in_place n (map (kept c now now') ls)"
  using keys_kept length_kept by (fastforce simp: in_place_def intro: le_trans)

lemma keys_distinct_kept: "keys_distinct l \<Longrightarrow> keys_distinct (kept c now now' l)"
  by (simp add: keys_distinct_def kept_def ready_def distinct_map_filter comp_def)

lemma distinct_by_class: "(\<And>i. distinct (filter (\<lambda>x. f x = i) xs)) \<Longrightarrow> distinct xs"
proof (induction xs)
  case (Cons x xs)
  have "distinct (filter (\<lambda>y. f y = i) xs)" for i using Cons.prems [of i] by (auto split: if_splits)
  moreover have "x \<notin> set xs" using Cons.prems [of "f x"] by simp
  ultimately show ?case using Cons.IH by simp
qed simp

lemma in_place_distinct:
  assumes "in_place n ls" "\<forall>l \<in> set ls. keys_distinct l"
  shows "distinct (map fst (concat ls))"
proof (rule distinct_by_class)
  fix i
  show "distinct (filter (\<lambda>key. getShardIndex key = i) (map fst (concat ls)))"
  proof (cases "i < shardCount")
    case True
    have "filter (\<lambda>key. getShardIndex key = i) (map fst (concat ls)) = map fst (ls ! i)"
      using filter_in_place [OF assms(1) True] by (simp add: filter_map comp_def)
    then show ?thesis using assms True by (simp add: keys_distinct_def in_place_def)
  next
    case False
    then have "filter (\<lambda>key. getShardIndex key = i) (map fst (concat ls)) = []"
      using getShardIndex_less by (auto simp: filter_empty_conv)
    then show ?thesis by simp
  qed
qed

lemma load_kept:
  assumes ok: "store_ok s'" and place: "in_place (cc_limit (config s')) ls" and dist: "\<forall>l \<in> set ls. keys_distinct l"
    and ready: "\<forall>l \<in> set ls. \<forall>ke \<in> set l. ce_Status (snd ke) = StatusReady"
  defines "s2 \<equiv> pushAll (concat ls) (resetShards s')"
  shows "absStore s2 = ls" "evictFrom 0 shardCount s2 = s2" "store_ok (s2\<lparr>st_dirty := 0\<rparr>)" "absStore (s2\<lparr>st_dirty := 0\<rparr>) = ls"
proof -
  define s1 where "s1 = resetShards s'"
  have len: "length (st_shards s1) = shardCount" using length_shards [OF ok] by (simp add: s1_def resetShards_def)
  have empty: "\<forall>sh \<in> set (st_shards s1). sh_ok sh" "absStore s1 ! i = []" if "i < shardCount" for i
    using len that by (auto simp: s1_def resetShards_def sh_ok_def keyed_def entries_def absStore_def)
  have "\<forall>ke \<in> set (concat ls). map_of (absStore s1 ! getShardIndex (fst ke)) (fst ke) = None" by (simp add: empty)
  note push = pushAll_sh_ok [OF in_place_distinct [OF place dist] len empty(1) [of 0] this, folded s2_def [folded s1_def]]
  have oks: "\<forall>sh \<in> set (st_shards s2). sh_ok sh" and len2: "length (st_shards s2) = shardCount" using push by simp_all
  have "absStore s2 ! i = ls ! i" if "i < shardCount" for i using push filter_in_place [OF place that] empty(2) [OF that] that by simp
  then show abs: "absStore s2 = ls" using len2 place by (intro nth_equalityI) (simp_all add: absStore_def in_place_def)
  have frame: "config s2 = config s'" "st_maxRecords s2 = st_maxRecords s'" "st_pendingTotal s2 = 0"
    using pushAll_frame [of "concat ls" s1] by (simp_all add: s2_def s1_def config_def shardLimit_def resetShards_def)
  show "evictFrom 0 shardCount s2 = s2" using place oks by (intro evictFrom_small) (simp_all add: abs frame)
  show abs0: "absStore (s2\<lparr>st_dirty := 0\<rparr>) = ls" using abs by (simp add: absStore_def)
  have "pend l = 0" if "l \<in> set ls" for l using ready that by (auto simp: pend_def pending_def filter_empty_conv)
  then have "sum_list (map pend ls) = 0" by (auto simp: sum_list_eq_0_iff)
  moreover have "config (s2\<lparr>st_dirty := 0\<rparr>) = config s'" using frame(1) by (simp add: config_def shardLimit_def)
  ultimately show "store_ok (s2\<lparr>st_dirty := 0\<rparr>)" using ok oks place by (simp add: store_ok_def frame abs0)
qed

lemma length_concat_le: "in_place n ls \<Longrightarrow> length (concat ls) \<le> shardCount * n"
proof -
  assume p: "in_place n ls"
  have "length (concat ls) = sum_list (map length ls)" by (simp add: length_concat)
  also have "\<dots> \<le> sum_list (map (\<lambda>l. n) ls)" using p by (intro sum_list_mono) (auto simp: in_place_def in_set_conv_nth)
  finally show ?thesis using p by (simp add: sum_list_triv in_place_def)
qed

lemma readHeader_ok: "readHeader (put32 binaryMagic @ put16 binaryVersion @ put32 count @ rest) = Inr (count, rest)"
  by (simp add: readHeader_def readU32_put32 readU16_put16)

lemma save_load:
  assumes ok: "store_ok s" "store_ok s'" "config s' = config s" "cc_limit (config s) < 2 ^ 27"
    and go: "path \<noteq> []" "st_dirty s \<noteq> 0" "\<forall>l \<in> set (absStore s). list_all entry_fits l"
  obtains data s2 where "SaveToFile all_ok path now s =
      (\<lparr>so_saved = length (concat (map (ready (config s) now) (absStore s))), so_ok = True, so_file = Some data\<rparr>, s\<lparr>st_dirty := 0\<rparr>)"
    "LoadFromFile (Opened data) path now' s' = (Inr (length (concat (absStore s2))), s2)"
    "absStore s2 = map (kept (config s) now now') (absStore s)" "store_ok s2"
proof -
  define c where "c = config s"
  define todo where "todo = concat (map (ready c now) (absStore s))"
  define ls where "ls = map (kept c now now') (absStore s)"
  have todo: "concat (map (savable s now) (st_shards s)) = todo"
    by (simp add: todo_def absStore_def savable_ready [abs_def] c_def comp_def)
  have place: "in_place (cc_limit c) (absStore s)" using ok(1) by (simp add: store_ok_def c_def)
  have fits: "list_all entry_fits todo" using go(3) by (auto simp: todo_def ready_def list_all_iff)
  have "length todo \<le> length (concat (absStore s))" unfolding todo_def ready_concat [symmetric] by (simp add: ready_def)
  also have "\<dots> \<le> shardCount * cc_limit c" by (rule length_concat_le [OF place])
  also have "\<dots> < 2 ^ 32" using ok(4) by (simp add: c_def)
  finally have count: "unat (of_nat (length todo) :: u32) = length todo" by (simp add: unat_word_of_nat)
  define data where "data = put32 binaryMagic @ put16 binaryVersion @ put32 (of_nat (length todo)) @ encodeEntries todo"
  have save: "SaveToFile all_ok path now s = (\<lparr>so_saved = length todo, so_ok = True, so_file = Some data\<rparr>, s\<lparr>st_dirty := 0\<rparr>)"
    using go(1,2) by (simp add: SaveToFile_def all_ok_def todo writeEntries_all data_def)
  have "config (resetShards s') = c" using ok(3) by (simp add: config_def shardLimit_def resetShards_def c_def)
  then have "reloaded (resetShards s') now' todo = ready c now' (map (apsnd stored) todo)" by (rule reloaded_ready)
  also have "\<dots> = concat ls" by (simp add: todo_def ls_def kept_def [abs_def] map_concat ready_concat comp_def)
  finally have re: "reloaded (resetShards s') now' todo = concat ls" .
  have dist: "\<forall>l \<in> set ls. keys_distinct l"
    using ok(1) keys_distinct_kept by (auto simp: ls_def absStore_def store_ok_def sh_ok_def)
  have rdy: "\<forall>l \<in> set ls. \<forall>ke \<in> set l. ce_Status (snd ke) = StatusReady" by (auto simp: ls_def kept_def ready_def)
  have "in_place (cc_limit (config s')) ls" using in_place_kept [OF place] ok(3) by (simp add: ls_def c_def)
  note res = load_kept [OF ok(2) this dist rdy]
  have "LoadFromFile (Opened data) path now' s' = (Inr (length (concat ls)), (pushAll (concat ls) (resetShards s'))\<lparr>st_dirty := 0\<rparr>)"
    using go(1) by (simp add: LoadFromFile_def data_def readHeader_ok count loadEntries_encode [OF fits] re res(2))
  with save res that [of data] show ?thesis by (simp add: todo_def ls_def c_def)
qed

section \<open>Properties\<close>

text \<open>
  C27. After any use of the cache, a save that meets no file system error writes a file from
  which a new cache of the same configuration loads, shard by shard and in the same order of use, exactly the answers
  that were ready and not expired when saved and are not expired when loaded, with the times cut to whole seconds; the
  number it reports is the number of entries it then holds, its invariant holds, and the first cache is no longer dirty.
\<close>

theorem dns_cache_file_roundtrip:
  fixes maxRecords :: int and ttl timeout :: duration and ops :: "cache_op list"
  assumes "maxRecords < 2 ^ 32" "path \<noteq> []"
  defines "s0 \<equiv> newStore maxRecords ttl timeout"
  defines "s \<equiv> snd (run_ops do_op ops s0)"
  assumes "st_dirty s \<noteq> 0" "\<forall>l \<in> set (absStore s). list_all entry_fits l"
  shows "\<exists>data s2. so_file (fst (SaveToFile all_ok path now s)) = Some data \<and> st_dirty (snd (SaveToFile all_ok path now s)) = 0 \<and>
    LoadFromFile (Opened data) path now' s0 = (Inr (length (concat (absStore s2))), s2) \<and>
    absStore s2 = map (kept (config s0) now now') (absStore s) \<and> store_ok s2"
proof -
  have s0: "store_ok s0" using newStore_ok [of maxRecords] assms(1) by (simp add: s0_def)
  have s: "store_ok s" "config s = config s0"
    using run_ops_refines [OF s0 refl, of ops] run_ops_config [OF s0, of ops] by (simp_all add: s_def)
  have "cc_limit (config s) < 2 ^ 27" unfolding s(2) using assms(1) by (auto simp: s0_def newStore_def config_def shardLimit_def Let_def)
  then obtain data s2 where "SaveToFile all_ok path now s =
      (\<lparr>so_saved = length (concat (map (ready (config s) now) (absStore s))), so_ok = True, so_file = Some data\<rparr>, s\<lparr>st_dirty := 0\<rparr>)"
    "LoadFromFile (Opened data) path now' s0 = (Inr (length (concat (absStore s2))), s2)"
    "absStore s2 = map (kept (config s) now now') (absStore s)" "store_ok s2"
    using save_load [OF s(1) s0 s(2) [symmetric] _ assms(2,5,6)] by metis
  then show ?thesis using s(2) by simp
qed

definition demo_fill :: "cache_op list" where
  "demo_fill = [OpSet (BuildKey (ascii ''a'') 1 1) (ascii ''a'') 1 1 [9, 9, 1, 0, 7] (70000000000 * second + 5),
                OpLookup (BuildKey (ascii ''b'') 1 1) (ascii ''b'') 1 1 (70000000000 * second + 6)]"

definition demo_filled :: Store where
  "demo_filled = snd (run_ops do_op demo_fill (newStore 64 0 0))"

theorem dns_cache_file_roundtrip_witness:
  "\<exists>data s2. so_file (fst (SaveToFile all_ok (ascii ''c'') (70000000001 * second) demo_filled)) = Some data \<and>
    LoadFromFile (Opened data) (ascii ''c'') (70000000002 * second) (newStore 64 0 0) = (Inr 1, s2) \<and>
    concat (absStore s2) = [(BuildKey (ascii ''a'') 1 1, \<lparr>ce_Domain = ascii ''a'', ce_QuestionType = 1, ce_QuestionClass = 1,
      ce_Status = StatusReady, ce_CreatedAt = 70000000000 * second, ce_LastUsedAt = 70000000000 * second, ce_LastDispatchAt = 0,
      ce_Response = [0, 0, 1, 0, 7]\<rparr>)]"
proof -
  have dirty: "st_dirty demo_filled \<noteq> 0" by code_simp
  have "list_all (list_all entry_fits) (absStore demo_filled)" by code_simp
  then have fits: "\<forall>l \<in> set (absStore demo_filled). list_all entry_fits l" unfolding list_all_iff [of "list_all entry_fits"] .
  have kept: "concat (map (kept (config (newStore 64 0 0)) (70000000001 * second) (70000000002 * second)) (absStore demo_filled)) =
      [(BuildKey (ascii ''a'') 1 1, \<lparr>ce_Domain = ascii ''a'', ce_QuestionType = 1, ce_QuestionClass = 1,
        ce_Status = StatusReady, ce_CreatedAt = 70000000000 * second, ce_LastUsedAt = 70000000000 * second, ce_LastDispatchAt = 0,
        ce_Response = [0, 0, 1, 0, 7]\<rparr>)]" by code_simp
  have path: "ascii ''c'' \<noteq> []" by code_simp
  obtain data s2 where "so_file (fst (SaveToFile all_ok (ascii ''c'') (70000000001 * second) demo_filled)) = Some data"
    and load: "LoadFromFile (Opened data) (ascii ''c'') (70000000002 * second) (newStore 64 0 0) = (Inr (length (concat (absStore s2))), s2)"
    and abs: "absStore s2 = map (kept (config (newStore 64 0 0)) (70000000001 * second) (70000000002 * second)) (absStore demo_filled)"
    using dns_cache_file_roundtrip [where maxRecords = 64 and ttl = 0 and timeout = 0, OF _ path dirty [unfolded demo_filled_def]
        fits [unfolded demo_filled_def]]
    unfolding demo_filled_def [symmetric] by force
  moreover have "length (concat (absStore s2)) = 1" unfolding abs kept by simp
  ultimately show ?thesis using kept by auto
qed

end
