(* ===== verification/GoHeap.thy ===== *)
theory GoHeap
  imports Prelude "HOL-Library.Multiset"
begin

text \<open>
  The binary heap of Go's \<open>container/heap\<close> on a slice, ordered by a key: \<open>Push\<close>, \<open>Pop\<close> and their loops \<open>up\<close> and \<open>down\<close>,
  the contract \<open>min_heap\<close> their users rely on, and the proof that they satisfy it.
\<close>

section \<open>The loops\<close>

definition swap :: "nat \<Rightarrow> nat \<Rightarrow> 'a list \<Rightarrow> 'a list" where
  "swap i j h = h[i := h ! j, j := h ! i]"

fun up :: "('a \<Rightarrow> 'k::linorder) \<Rightarrow> nat \<Rightarrow> 'a list \<Rightarrow> 'a list" where
  "up key j h =
     (let i = (j - 1) div 2
      in if i = j \<or> \<not> key (h ! j) < key (h ! i) then h else up key i (swap i j h))"

function down :: "('a \<Rightarrow> 'k::linorder) \<Rightarrow> nat \<Rightarrow> nat \<Rightarrow> 'a list \<Rightarrow> 'a list" where
  "down key n i h =
     (let j1 = 2 * i + 1
      in if j1 \<ge> n then h
         else
           let j = (if j1 + 1 < n \<and> key (h ! (j1 + 1)) < key (h ! j1) then j1 + 1 else j1)
           in if \<not> key (h ! j) < key (h ! i) then h else down key n j (swap i j h))"
  by pat_completeness auto
termination by (relation "measure (\<lambda>(key, n, i, h). n - i)") (auto simp: Let_def split: if_splits)

definition heapPush :: "('a \<Rightarrow> 'k::linorder) \<Rightarrow> 'a \<Rightarrow> 'a list \<Rightarrow> 'a list" where
  "heapPush key x h = up key (length h) (h @ [x])"

definition heapPop :: "('a \<Rightarrow> 'k::linorder) \<Rightarrow> 'a list \<Rightarrow> 'a \<times> 'a list" where
  "heapPop key h =
     (let n = length h - 1;
          h = down key n 0 (swap 0 n h)
      in (h ! n, take n h))"

declare up.simps [simp del] down.simps [simp del]

section \<open>Order\<close>

text \<open>A heap, and the states in between: in order but for one element against its parent, or against its children.\<close>

definition heap_ordered :: "('a \<Rightarrow> 'k::linorder) \<Rightarrow> 'a list \<Rightarrow> bool" where
  "heap_ordered key h \<longleftrightarrow> (\<forall>k. 0 < k \<and> k < length h \<longrightarrow> key (h ! ((k - 1) div 2)) \<le> key (h ! k))"

definition rising :: "('a \<Rightarrow> 'k::linorder) \<Rightarrow> nat \<Rightarrow> 'a list \<Rightarrow> bool" where
  "rising key j h \<longleftrightarrow>
     (\<forall>k. 0 < k \<and> k < length h \<and> k \<noteq> j \<longrightarrow> key (h ! ((k - 1) div 2)) \<le> key (h ! k)) \<and>
     (\<forall>k. 0 < j \<and> 0 < k \<and> k < length h \<and> (k - 1) div 2 = j \<longrightarrow> key (h ! ((j - 1) div 2)) \<le> key (h ! k))"

definition sinking :: "('a \<Rightarrow> 'k::linorder) \<Rightarrow> nat \<Rightarrow> nat \<Rightarrow> 'a list \<Rightarrow> bool" where
  "sinking key n i h \<longleftrightarrow>
     (\<forall>k. 0 < k \<and> k < n \<and> (k - 1) div 2 \<noteq> i \<longrightarrow> key (h ! ((k - 1) div 2)) \<le> key (h ! k)) \<and>
     (\<forall>k. 0 < i \<and> 0 < k \<and> k < n \<and> (k - 1) div 2 = i \<longrightarrow> key (h ! ((i - 1) div 2)) \<le> key (h ! k))"

lemma length_swap [simp]: "length (swap i j h) = length h"
  by (simp add: swap_def)

lemma mset_swap_eq [simp]: "i < length h \<Longrightarrow> j < length h \<Longrightarrow> mset (swap i j h) = mset h"
  by (cases "i = j") (simp_all add: swap_def mset_swap)

lemma nth_swap: "i < length h \<Longrightarrow> j < length h \<Longrightarrow> k < length h \<Longrightarrow> swap i j h ! k = (if k = j then h ! i else if k = i then h ! j else h ! k)"
  by (simp add: swap_def nth_list_update)

lemma rising_swap:
  assumes r: "rising key j h" and j: "0 < j" "j < length h" and less: "key (h ! j) < key (h ! ((j - 1) div 2))"
  shows "rising key ((j - 1) div 2) (swap ((j - 1) div 2) j h)"
proof -
  define i where "i = (j - 1) div 2"
  have i: "i < j" "i < length h" using j by (auto simp: i_def)
  have up1: "key (h ! ((k - 1) div 2)) \<le> key (h ! k)" if "0 < k" "k < length h" "k \<noteq> j" for k using r that by (simp add: rising_def)
  have up2: "key (h ! i) \<le> key (h ! k)" if "0 < k" "k < length h" "(k - 1) div 2 = j" for k using r that j by (simp add: rising_def i_def)
  have le: "key (h ! j) \<le> key (h ! i)" using less by (simp add: i_def)
  have par: "(k - 1) div 2 < length h" if "k < length h" for k using that by linarith
  show ?thesis
    unfolding i_def [symmetric] rising_def length_swap
  proof (intro conjI allI impI, goal_cases)
    case (1 k)
    consider "k = j" | "k \<noteq> j" "(k - 1) div 2 = j" | "k \<noteq> j" "(k - 1) div 2 = i" | "k \<noteq> j" "(k - 1) div 2 \<noteq> j" "(k - 1) div 2 \<noteq> i" by blast
    then show ?case
    proof cases
      case 1
      moreover have "(j - Suc 0) div 2 = i" by (simp add: i_def)
      ultimately show ?thesis using le i j by (simp add: nth_swap)
    next
      case 2
      then show ?thesis using up2 [of k] "1" i j by (simp add: nth_swap)
    next
      case 3
      then have "key (h ! i) \<le> key (h ! k)" using up1 [of k] "1" by auto
      then show ?thesis using 3 "1" i j le by (simp add: nth_swap)
    next
      case 4
      then show ?thesis using up1 [of k] "1" i j par [of k] by (simp add: nth_swap)
    qed
  next
    case (2 k)
    have pi: "key (h ! ((i - 1) div 2)) \<le> key (h ! i)" using up1 [of i] 2 i by auto
    have "(i - 1) div 2 < i" using 2 by linarith
    then have "(i - 1) div 2 \<noteq> i" "(i - 1) div 2 \<noteq> j" "(i - 1) div 2 < length h" using i by linarith+
    then have p: "swap i j h ! ((i - 1) div 2) = h ! ((i - 1) div 2)" using i j by (simp add: nth_swap)
    have "key (h ! ((i - 1) div 2)) \<le> key (swap i j h ! k)"
    proof (cases "k = j")
      case True
      then show ?thesis using pi i j by (simp add: nth_swap)
    next
      case False
      have "k \<noteq> i" using 2 i by auto
      moreover have "key (h ! i) \<le> key (h ! k)" using up1 [of k] 2 False by auto
      ultimately show ?thesis using pi i j 2 False by (simp add: nth_swap)
    qed
    then show ?case unfolding p .
  qed
qed

lemma up_correct: "j < length h \<Longrightarrow> rising key j h \<Longrightarrow> heap_ordered key (up key j h) \<and> mset (up key j h) = mset h"
proof (induction key j h rule: up.induct)
  case (1 key j h)
  define i where "i = (j - 1) div 2"
  show ?case
  proof (cases "i = j \<or> \<not> key (h ! j) < key (h ! i)")
    case True
    then have "j = 0 \<or> key (h ! i) \<le> key (h ! j)" by (auto simp: i_def not_less)
    then have "heap_ordered key h" using "1.prems"(2) by (auto simp: heap_ordered_def rising_def i_def)
    moreover have "up key j h = h" using True by (simp add: up.simps [of key j h] i_def Let_def)
    ultimately show ?thesis by simp
  next
    case False
    then have "0 < j" "i < length h" using "1.prems"(1) by (auto simp: i_def)
    moreover have "rising key i (swap i j h)"
      using rising_swap [OF "1.prems"(2) _ "1.prems"(1)] False \<open>0 < j\<close> by (simp add: i_def)
    ultimately have "heap_ordered key (up key i (swap i j h)) \<and> mset (up key i (swap i j h)) = mset h"
      using "1.IH" [OF i_def] False "1.prems"(1) by simp
    moreover have "up key j h = up key i (swap i j h)" using False by (subst up.simps) (simp add: i_def Let_def)
    ultimately show ?thesis by simp
  qed
qed

lemma heapPush_correct:
  assumes "heap_ordered key h"
  shows "heap_ordered key (heapPush key x h)" "mset (heapPush key x h) = add_mset x (mset h)"
proof -
  have "rising key (length h) (h @ [x])"
    unfolding rising_def
  proof (intro conjI allI impI, goal_cases)
    case (1 k)
    then have "0 < k" "k < length h" "(k - 1) div 2 < length h" by auto
    then show ?case using assms by (simp add: heap_ordered_def nth_append)
  next
    case (2 k)
    then have "(k - 1) div 2 < length h" by simp linarith
    then show ?case using 2 by simp
  qed
  then show "heap_ordered key (heapPush key x h)" "mset (heapPush key x h) = add_mset x (mset h)"
    using up_correct [of "length h" "h @ [x]" key] by (simp_all add: heapPush_def)
qed


lemma sinking_swap:
  assumes s: "sinking key n i h" and n: "n \<le> length h" and j: "j < n" "0 < j" "(j - 1) div 2 = i" "key (h ! j) < key (h ! i)"
    and least: "\<And>k. 0 < k \<Longrightarrow> k < n \<Longrightarrow> (k - 1) div 2 = i \<Longrightarrow> key (h ! j) \<le> key (h ! k)"
  shows "sinking key n j (swap i j h)"
proof -
  have i: "i < j" using j(2,3) by linarith
  have up1: "key (h ! ((k - 1) div 2)) \<le> key (h ! k)" if "0 < k" "k < n" "(k - 1) div 2 \<noteq> i" for k using s that by (simp add: sinking_def)
  have up2: "key (h ! ((i - 1) div 2)) \<le> key (h ! k)" if "0 < i" "0 < k" "k < n" "(k - 1) div 2 = i" for k using s that by (simp add: sinking_def)
  have sw: "swap i j h ! k = (if k = j then h ! i else if k = i then h ! j else h ! k)" if "k < n" for k using that i j n by (simp add: nth_swap)
  show ?thesis
    unfolding sinking_def
  proof (intro conjI allI impI, goal_cases)
    case (1 k)
    define p where "p = (k - 1) div 2"
    have p: "p < n" "p < k" using 1 by (auto simp: p_def)
    consider "p = i" "k = j" | "p = i" "k \<noteq> j" | "p \<noteq> i" "k = i" | "p \<noteq> i" "k \<noteq> i" by blast
    then show ?case
      unfolding p_def [symmetric]
    proof cases
      case 1
      then show "key (swap i j h ! p) \<le> key (swap i j h ! k)" using j(1,4) i p by (simp add: sw less_imp_le)
    next
      case 2
      then have "key (h ! j) \<le> key (h ! k)" using least [of k] "1" by (simp add: p_def)
      then show "key (swap i j h ! p) \<le> key (swap i j h ! k)" using 2 i p "1" by (simp add: sw)
    next
      case 3
      then have "key (h ! p) \<le> key (h ! j)" using up2 [of j] j "1" by (simp add: p_def)
      then show "key (swap i j h ! p) \<le> key (swap i j h ! k)" using 3 i p "1" by (simp add: sw p_def [symmetric])
    next
      case 4
      moreover have "k \<noteq> j" "p \<noteq> j" using 4 j(3) "1" by (auto simp: p_def)
      moreover have "key (h ! p) \<le> key (h ! k)" using up1 [of k] 4 "1" by (simp add: p_def)
      ultimately show "key (swap i j h ! p) \<le> key (swap i j h ! k)" using p "1" by (simp add: sw p_def [symmetric])
    qed
  next
    case (2 k)
    have "key (h ! j) \<le> key (h ! k)" using up1 [of k] 2 i by simp
    moreover have "k \<noteq> i" "k \<noteq> j" using 2 i by auto
    ultimately show ?case using 2 i j by (simp add: sw)
  qed
qed

lemma down_correct:
  "sinking key n i h \<Longrightarrow> n \<le> length h \<Longrightarrow> i < n \<or> n = 0 \<Longrightarrow>
     length (down key n i h) = length h \<and> mset (down key n i h) = mset h \<and> drop n (down key n i h) = drop n h \<and>
     heap_ordered key (take n (down key n i h))"
proof (induction key n i h rule: down.induct)
  case (1 key n i h)
  define j1 where "j1 = 2 * i + 1"
  define j where "j = (if j1 + 1 < n \<and> key (h ! (j1 + 1)) < key (h ! j1) then j1 + 1 else j1)"
  have kids: "k = j1 \<or> k = j1 + 1" if "(k - 1) div 2 = i" "0 < k" for k using that unfolding j1_def by linarith
  show ?case
  proof (cases "n \<le> j1 \<or> \<not> key (h ! j) < key (h ! i)")
    case True
    have "down key n i h = h" using True by (subst down.simps) (auto simp: Let_def j1_def j_def)
    moreover have "key (h ! ((k - 1) div 2)) \<le> key (h ! k)" if k: "0 < k" "k < n" for k
    proof (cases "(k - 1) div 2 = i")
      case False
      then show ?thesis using "1.prems"(1) k by (simp add: sinking_def)
    next
      case eq: True
      then have "k = j1 \<or> k = j1 + 1" using kids k by simp
      moreover from this have "\<not> n \<le> j1" using k by auto
      ultimately have "key (h ! j) \<le> key (h ! k)" using k by (auto simp: j_def)
      then show ?thesis using True \<open>\<not> n \<le> j1\<close> unfolding eq by auto
    qed
    ultimately show ?thesis using "1.prems"(2) by (auto simp: heap_ordered_def)
  next
    case False
    then have j: "j < n" "0 < j" "(j - 1) div 2 = i" by (auto simp: j_def j1_def)
    have "key (h ! j) \<le> key (h ! k)" if "0 < k" "k < n" "(k - 1) div 2 = i" for k
      using kids [OF that(3,1)] that(2) by (auto simp: j_def)
    then have "sinking key n j (swap i j h)" using sinking_swap [OF "1.prems"(1,2) j] False by blast
    moreover have "down key n i h = down key n j (swap i j h)"
      unfolding down.simps [of key n i h] Let_def j1_def [symmetric] j_def [symmetric] using False by simp
    moreover have "i < n" using "1.prems"(3) False by auto
    moreover have "drop n (swap i j h) = drop n h" using j(1) \<open>i < n\<close> by (simp add: swap_def)
    ultimately show ?thesis using "1.IH" [OF j1_def _ j_def] False "1.prems"(2) j(1) by simp
  qed
qed

lemma heap_min:
  assumes "heap_ordered key h"
  shows "k < length h \<Longrightarrow> key (h ! 0) \<le> key (h ! k)"
proof (induction k rule: less_induct)
  case (less k)
  show ?case
  proof (cases "k = 0")
    case False
    then have "key (h ! 0) \<le> key (h ! ((k - 1) div 2))" using less by (intro less.IH) auto
    also have "\<dots> \<le> key (h ! k)" using assms less.prems False by (simp add: heap_ordered_def)
    finally show ?thesis .
  qed simp
qed

lemma heapPop_correct:
  assumes "heap_ordered key h" "h \<noteq> []"
  obtains rest where "heapPop key h = (hd h, rest)" "heap_ordered key rest" "mset h = add_mset (hd h) (mset rest)"
proof -
  define n where "n = length h - 1"
  have n: "n < length h" "length h = Suc n" using assms(2) by (auto simp: n_def)
  have sw: "swap 0 n h ! k = (if k = n then h ! 0 else if k = 0 then h ! n else h ! k)" if "k < length h" for k
    using that n by (simp add: nth_swap)
  have "sinking key n 0 (swap 0 n h)"
    unfolding sinking_def
  proof (intro conjI allI impI, goal_cases)
    case (1 k)
    moreover from this have "key (h ! ((k - 1) div 2)) \<le> key (h ! k)" using assms(1) n by (simp add: heap_ordered_def)
    moreover have "(k - 1) div 2 < n" using 1 by linarith
    ultimately show ?case using n by (simp add: sw)
  qed auto
  from down_correct [OF this, simplified]
  have d: "length (down key n 0 (swap 0 n h)) = length h" "mset (down key n 0 (swap 0 n h)) = mset h"
    "drop n (down key n 0 (swap 0 n h)) = drop n (swap 0 n h)" "heap_ordered key (take n (down key n 0 (swap 0 n h)))"
    using n by auto
  have "down key n 0 (swap 0 n h) ! n = swap 0 n h ! n" using d(1,3) n by (metis hd_drop_conv_nth length_swap)
  also have "\<dots> = hd h" using sw [OF n(1)] assms(2) by (simp add: hd_conv_nth)
  finally have top: "down key n 0 (swap 0 n h) ! n = hd h" .
  have "mset h = mset (take n (down key n 0 (swap 0 n h)) @ [down key n 0 (swap 0 n h) ! n])"
    using d(1,2) n by (metis lessI take_Suc_conv_app_nth take_all_iff order_refl)
  then have "mset h = add_mset (hd h) (mset (take n (down key n 0 (swap 0 n h))))" by (simp add: top)
  moreover have "heapPop key h = (hd h, take n (down key n 0 (swap 0 n h)))" by (simp only: heapPop_def n_def [symmetric] Let_def top)
  ultimately show ?thesis using that d(4) by blast
qed

section \<open>The contract\<close>

locale min_heap =
  fixes push :: "'a \<Rightarrow> 'a list \<Rightarrow> 'a list"
    and pop :: "'a list \<Rightarrow> 'a \<times> 'a list"
    and key :: "'a \<Rightarrow> 'k::linorder"
    and ok :: "'a list \<Rightarrow> bool"
  assumes ok_Nil: "ok []"
    and ok_push: "ok h \<Longrightarrow> ok (push x h)"
    and mset_push: "ok h \<Longrightarrow> mset (push x h) = add_mset x (mset h)"
    and ok_pop: "ok h \<Longrightarrow> h \<noteq> [] \<Longrightarrow> ok (snd (pop h))"
    and pop_top: "ok h \<Longrightarrow> h \<noteq> [] \<Longrightarrow> fst (pop h) = hd h"
    and mset_pop: "ok h \<Longrightarrow> h \<noteq> [] \<Longrightarrow> mset h = add_mset (hd h) (mset (snd (pop h)))"
    and top_min: "ok h \<Longrightarrow> x \<in> set h \<Longrightarrow> key (hd h) \<le> key x"
begin

lemma set_push: "ok h \<Longrightarrow> set (push x h) = insert x (set h)"
  by (metis mset_push set_mset_add_mset_insert set_mset_mset)

lemma set_pop: "ok h \<Longrightarrow> h \<noteq> [] \<Longrightarrow> set h = insert (hd h) (set (snd (pop h)))"
  by (metis mset_pop set_mset_add_mset_insert set_mset_mset)

lemma length_pop: "ok h \<Longrightarrow> h \<noteq> [] \<Longrightarrow> length h = Suc (length (snd (pop h)))"
  by (metis mset_pop size_add_mset size_mset)

end

lemma min_heap_go: "min_heap (heapPush key) (heapPop key) key (heap_ordered key)"
proof (unfold_locales, goal_cases)
  case 1
  show ?case by (simp add: heap_ordered_def)
next
  case (7 h x)
  then obtain k where "k < length h" "x = h ! k" by (auto simp: in_set_conv_nth)
  then show ?case using heap_min [OF 7(1)] by (cases h) auto
qed (auto simp: heapPush_correct intro: heapPop_correct)

end
