(* ===== verification/SessionRecord.thy ===== *)
theory SessionRecord
  imports GoHeap MLQ VpnProto
begin

text \<open>
  The record of one session on the server (\<open>udpserver/session.go\<close>): its stream table, the sorted list of active streams with
  its cached snapshot, and the memory of recently closed streams, a map with a heap of close times beside it. The streams
  themselves are a type variable: a stream enters the table as the object its constructor makes.
\<close>

section \<open>Data\<close>

record recentlyClosedStreamRecord =
  rc_ClosedAt :: time
  rc_SuppressOrphan :: bool

type_synonym recentlyClosedHeap = "(u16 \<times> time) list"

record 's sessionRecord =
  sr_ID :: u8
  sr_Cookie :: u8
  sr_ResponseMode :: u8
  sr_UploadCompression :: u8
  sr_DownloadCompression :: u8
  sr_UploadMTU :: u16
  sr_DownloadMTU :: u16
  sr_DownloadMTUBytes :: int
  sr_VerifyCode :: bytes
  sr_Signature :: bytes
  sr_MaxPackedBlocks :: int
  sr_CreatedAt :: time
  sr_ReuseUntil :: time
  sr_reuseUntilUnixNano :: int
  sr_lastActivityUnixNano :: int
  sr_lastDeferredCleanupActivityUnixNano :: int
  sr_Streams :: "(u16 \<times> 's) list"
  sr_ActiveStreams :: "u16 list"
  sr_activeStreamSetVersion :: u64
  sr_activeStreamSnapshot :: "(int \<times> 's option) list"
  sr_activeStreamSnapshotVersion :: u64
  sr_RRStreamID :: int
  sr_StreamQueueCap :: int
  sr_RecentlyClosed :: "(u16 \<times> recentlyClosedStreamRecord) list"
  sr_RecentlyClosedHeap :: recentlyClosedHeap
  sr_RecentlyClosedTTL :: duration
  sr_RecentlyClosedCap :: int
  sr_OrphanQueue :: "packet multiLevelQueue"
  sr_MaxActiveStreamsPerSession :: int
  sr_closedFlag :: bool

section \<open>Streams\<close>

definition markActiveStreamsChangedLocked :: "'s sessionRecord \<Rightarrow> 's sessionRecord" where
  "markActiveStreamsChangedLocked r = r\<lparr>sr_activeStreamSetVersion := sr_activeStreamSetVersion r + 1\<rparr>"

definition canCreateAdditionalStreamLocked :: "u16 \<Rightarrow> 's sessionRecord \<Rightarrow> bool" where
  "canCreateAdditionalStreamLocked streamID r =
     (if streamID = 0 then True
      else if map_of (sr_Streams r) streamID \<noteq> None then True
      else
        let limit = (if sr_MaxActiveStreamsPerSession r \<le> 0 then 2000 else sr_MaxActiveStreamsPerSession r);
            activeStreams = int (length (sr_Streams r));
            activeStreams = (if map_of (sr_Streams r) 0 \<noteq> None then activeStreams - 1 else activeStreams)
        in activeStreams < limit)"

definition canCreateAdditionalStream :: "u16 \<Rightarrow> 's sessionRecord \<Rightarrow> bool" where
  "canCreateAdditionalStream streamID r = (if sr_closedFlag r then False else canCreateAdditionalStreamLocked streamID r)"

text \<open>The loop that looks for the first larger identifier.\<close>

fun insertPosition :: "u16 \<Rightarrow> nat \<Rightarrow> nat \<Rightarrow> u16 list \<Rightarrow> nat" where
  "insertPosition streamID i insertAt [] = insertAt"
| "insertPosition streamID i insertAt (x # xs) =
     (if x > streamID then i else insertPosition streamID (Suc i) (Suc i) xs)"

definition insertActive :: "u16 \<Rightarrow> u16 list \<Rightarrow> u16 list" where
  "insertActive streamID active =
     (let insertAt = insertPosition streamID 0 0 active
      in if insertAt = length active then active @ [streamID]
         else (take (insertAt + 1) active @ drop insertAt active)[insertAt := streamID])"

definition getOrCreateStream ::
  "(u16 \<Rightarrow> u8 \<Rightarrow> int \<Rightarrow> int \<Rightarrow> 's) \<Rightarrow> u16 \<Rightarrow> 's sessionRecord \<Rightarrow> 's option \<times> 's sessionRecord" where
  "getOrCreateStream newStream streamID r =
     (if sr_closedFlag r then (None, r)
      else case map_of (sr_Streams r) streamID of
        Some s \<Rightarrow> (Some s, r)
      | None \<Rightarrow>
          if \<not> canCreateAdditionalStreamLocked streamID r then (None, r)
          else
            let r = r\<lparr>sr_RecentlyClosed := AList.delete streamID (sr_RecentlyClosed r)\<rparr>;
                s = newStream streamID (sr_ID r) (sr_DownloadMTUBytes r) (sr_StreamQueueCap r);
                r = r\<lparr>sr_Streams := AList.update streamID s (sr_Streams r)\<rparr>
            in if streamID \<in> set (sr_ActiveStreams r) then (Some s, r)
               else (Some s, markActiveStreamsChangedLocked (r\<lparr>sr_ActiveStreams := insertActive streamID (sr_ActiveStreams r)\<rparr>)))"

definition ensureStream0 :: "(u16 \<Rightarrow> u8 \<Rightarrow> int \<Rightarrow> int \<Rightarrow> 's) \<Rightarrow> 's sessionRecord \<Rightarrow> 's sessionRecord" where
  "ensureStream0 newStream r = (if sr_closedFlag r then r else snd (getOrCreateStream newStream 0 r))"

definition getStream :: "u16 \<Rightarrow> 's sessionRecord \<Rightarrow> 's option" where
  "getStream streamID r = (if sr_closedFlag r then None else map_of (sr_Streams r) streamID)"

definition removeActiveStreamLocked :: "u16 \<Rightarrow> 's sessionRecord \<Rightarrow> 's sessionRecord" where
  "removeActiveStreamLocked streamID r =
     (if streamID \<in> set (sr_ActiveStreams r)
      then markActiveStreamsChangedLocked (r\<lparr>sr_ActiveStreams := remove1 streamID (sr_ActiveStreams r)\<rparr>)
      else r)"

definition deactivateStream :: "u16 \<Rightarrow> 's sessionRecord \<Rightarrow> 's sessionRecord" where
  "deactivateStream streamID r = (if sr_closedFlag r \<or> streamID = 0 then r else removeActiveStreamLocked streamID r)"

definition takeSnapshot :: "'s sessionRecord \<Rightarrow> (int \<times> 's option) list" where
  "takeSnapshot r = map (\<lambda>i. (uint i, map_of (sr_Streams r) i)) (sr_ActiveStreams r)"

definition activeStreamSnapshot :: "'s sessionRecord \<Rightarrow> (int \<times> 's option) list \<times> 's sessionRecord" where
  "activeStreamSnapshot r =
     (if sr_closedFlag r then ([], r)
      else if sr_activeStreamSetVersion r = sr_activeStreamSnapshotVersion r then (sr_activeStreamSnapshot r, r)
      else
        let snapshot = takeSnapshot r
        in (snapshot, r\<lparr>sr_activeStreamSnapshot := snapshot, sr_activeStreamSnapshotVersion := sr_activeStreamSetVersion r\<rparr>))"

section \<open>Recently closed streams\<close>

definition closedStreamRecordTTL :: "'s sessionRecord \<Rightarrow> duration" where
  "closedStreamRecordTTL r = (if sr_RecentlyClosedTTL r \<le> 0 then 600 * second else sr_RecentlyClosedTTL r)"

definition closedStreamRecordCap :: "'s sessionRecord \<Rightarrow> int" where
  "closedStreamRecordCap r = (if sr_RecentlyClosedCap r < 1 then 2000 else sr_RecentlyClosedCap r)"

type_synonym closedMemory = "(u16 \<times> recentlyClosedStreamRecord) list \<times> recentlyClosedHeap"

definition current :: "u16 \<times> time \<Rightarrow> (u16 \<times> recentlyClosedStreamRecord) list \<Rightarrow> bool" where
  "current entry m = (case map_of m (fst entry) of None \<Rightarrow> False | Some rec \<Rightarrow> rc_ClosedAt rec = snd entry)"

lemma length_down [simp]: "length (down key n i h) = length h"
  by (induction key n i h rule: down.induct) (subst down.simps, simp add: Let_def)

lemma length_heapPop [simp]: "length (snd (heapPop key h)) = length h - 1"
  by (simp add: heapPop_def Let_def)

function pruneLoop :: "time \<Rightarrow> closedMemory \<Rightarrow> closedMemory" where
  "pruneLoop expiredBefore (m, h) =
     (if h = [] then (m, h)
      else
        let entry = h ! 0
        in if \<not> current entry m then pruneLoop expiredBefore (m, snd (heapPop snd h))
           else if snd entry < expiredBefore then pruneLoop expiredBefore (AList.delete (fst entry) m, snd (heapPop snd h))
           else (m, h))"
  by pat_completeness auto
termination by (relation "measure (\<lambda>(e, m, h). length h)") auto

function evictLoop :: "int \<Rightarrow> closedMemory \<Rightarrow> closedMemory" where
  "evictLoop capacity (m, h) =
     (if int (length m) > capacity \<and> h \<noteq> []
      then
        let (entry, h) = heapPop snd h
        in if \<not> current entry m then evictLoop capacity (m, h)
           else evictLoop capacity (AList.delete (fst entry) m, h)
      else (m, h))"
  by pat_completeness auto
termination
proof (relation "measure (\<lambda>(e, m, h). length h)", goal_cases)
  case (2 capacity m h x entry h')
  then have "h' = snd (heapPop snd h)" by (metis snd_conv)
  then show ?case using 2(1) by simp
next
  case (3 capacity m h x entry h')
  then have "h' = snd (heapPop snd h)" by (metis snd_conv)
  then show ?case using 3(1) by simp
qed simp

declare pruneLoop.simps [simp del] evictLoop.simps [simp del]

definition withClosed :: "(closedMemory \<Rightarrow> closedMemory) \<Rightarrow> 's sessionRecord \<Rightarrow> 's sessionRecord" where
  "withClosed f r =
     (let (m, h) = f (sr_RecentlyClosed r, sr_RecentlyClosedHeap r) in r\<lparr>sr_RecentlyClosed := m, sr_RecentlyClosedHeap := h\<rparr>)"

definition pruneRecentlyClosedLocked :: "time \<Rightarrow> 's sessionRecord \<Rightarrow> 's sessionRecord" where
  "pruneRecentlyClosedLocked now r = withClosed (pruneLoop (now - closedStreamRecordTTL r)) r"

definition pruneRecentlyClosed :: "time \<Rightarrow> 's sessionRecord \<Rightarrow> 's sessionRecord" where
  "pruneRecentlyClosed now r = (if sr_closedFlag r then r else pruneRecentlyClosedLocked now r)"

definition evictOldestRecentlyClosedLocked :: "'s sessionRecord \<Rightarrow> 's sessionRecord" where
  "evictOldestRecentlyClosedLocked r = withClosed (evictLoop (closedStreamRecordCap r)) r"

definition noteStreamClosed :: "u16 \<Rightarrow> time \<Rightarrow> bool \<Rightarrow> 's sessionRecord \<Rightarrow> 's sessionRecord" where
  "noteStreamClosed streamID now suppressOrphan r =
     (if sr_closedFlag r \<or> streamID = 0 then r
      else
        let r = pruneRecentlyClosedLocked now r;
            r = withClosed (\<lambda>(m, h). (AList.update streamID \<lparr>rc_ClosedAt = now, rc_SuppressOrphan = suppressOrphan\<rparr> m,
                                       heapPush snd (streamID, now) h)) r
        in evictOldestRecentlyClosedLocked r)"

definition isRecentlyClosed :: "u16 \<Rightarrow> time \<Rightarrow> 's sessionRecord \<Rightarrow> bool" where
  "isRecentlyClosed streamID now r =
     (if sr_closedFlag r then False
      else case map_of (sr_RecentlyClosed r) streamID of
        None \<Rightarrow> False
      | Some rec \<Rightarrow> time_sub now (rc_ClosedAt rec) \<le> closedStreamRecordTTL r)"

definition shouldSuppressOrphanForClosedStream :: "u16 \<Rightarrow> time \<Rightarrow> 's sessionRecord \<Rightarrow> bool" where
  "shouldSuppressOrphanForClosedStream streamID now r =
     (if sr_closedFlag r then False
      else case map_of (sr_RecentlyClosed r) streamID of
        None \<Rightarrow> False
      | Some rec \<Rightarrow> time_sub now (rc_ClosedAt rec) \<le> closedStreamRecordTTL r \<and> rc_SuppressOrphan rec)"

definition removeStream :: "u16 \<Rightarrow> time \<Rightarrow> bool \<Rightarrow> 's sessionRecord \<Rightarrow> 's sessionRecord" where
  "removeStream streamID now suppressOrphan r =
     (if sr_closedFlag r \<or> streamID = 0 then r
      else
        let r = r\<lparr>sr_Streams := AList.delete streamID (sr_Streams r)\<rparr>;
            r = removeActiveStreamLocked streamID r
        in noteStreamClosed streamID now suppressOrphan r)"

text \<open>
  \<open>closeAllStreams\<close> on the table: the streams are aborted one by one, and each tells the record that it closed, which a
  closed record ignores.
\<close>

definition closeAllStreams :: "'s sessionRecord \<Rightarrow> 's sessionRecord" where
  "closeAllStreams r =
     (let r = r\<lparr>sr_closedFlag := True\<rparr>;
          r = markActiveStreamsChangedLocked (r\<lparr>sr_Streams := [], sr_ActiveStreams := []\<rparr>)
      in r\<lparr>sr_OrphanQueue := snd (Clear False (sr_OrphanQueue r))\<rparr>)"

text \<open>\<open>enqueueOrphanReset\<close>: a reset for a packet of a stream the session does not have.\<close>

definition enqueueOrphanReset :: "u8 \<Rightarrow> u16 \<Rightarrow> u16 \<Rightarrow> 's sessionRecord \<Rightarrow> 's sessionRecord" where
  "enqueueOrphanReset packetType streamID sequenceNum r =
     (if sr_closedFlag r \<or> streamID = 0 then r
      else
        let p = zero_packet\<lparr>PacketType := packetType, StreamID := streamID, HasStreamID := True,
                            SequenceNum := sequenceNum, HasSequenceNum := (sequenceNum \<noteq> 0)\<rparr>
        in r\<lparr>sr_OrphanQueue := snd (Push 0 (PacketTypeStreamKey streamID packetType) p (sr_OrphanQueue r))\<rparr>)"

end
