(* ===== verification/SessionStreams.thy ===== *)
theory SessionStreams
  imports SessionRecord
begin

text \<open>
  The stream table of a session keeps its order and its caches: for every sequence of operations the active streams are sorted and
  in the table, the cached snapshot is the current one, the limits hold, and the memory of closed streams drops the
  expired and, beyond its capacity, the oldest.
\<close>

interpretation closed_heap: min_heap "heapPush snd" "heapPop snd" snd "heap_ordered (snd :: u16 \<times> time \<Rightarrow> time)"
  by (rule min_heap_go)

section \<open>The sorted list\<close>

lemma insertPosition_takeWhile: "insertPosition x i i xs = i + length (takeWhile (\<lambda>y. y \<le> x) xs)"
  by (induction xs arbitrary: i) (auto simp: not_less)

lemma insertActive_split: "insertActive x xs = takeWhile (\<lambda>y. y \<le> x) xs @ x # dropWhile (\<lambda>y. y \<le> x) xs"
proof -
  define k where "k = length (takeWhile (\<lambda>y. y \<le> x) xs)"
  have k: "insertPosition x 0 0 xs = k" by (simp add: insertPosition_takeWhile k_def)
  have split: "takeWhile (\<lambda>y. y \<le> x) xs = take k xs" "dropWhile (\<lambda>y. y \<le> x) xs = drop k xs"
    unfolding k_def by (rule takeWhile_eq_take, rule dropWhile_eq_drop)
  have "k \<le> length xs" by (simp add: k_def length_takeWhile_le)
  then have "take (Suc k) xs = take k xs @ [xs ! k]" "length (take k xs) = k" if "k \<noteq> length xs"
    using that by (simp_all add: take_Suc_conv_app_nth)
  then have "(take (k + 1) xs @ drop k xs)[k := x] = take k xs @ x # drop k xs" if "k \<noteq> length xs"
    using that by (simp add: list_update_append)
  then show ?thesis unfolding insertActive_def Let_def k split by simp
qed

lemma insertActive_sorted:
  assumes "sorted_wrt (<) xs" "x \<notin> set xs"
  shows "sorted_wrt (<) (insertActive x xs)" "set (insertActive x xs) = insert x (set xs)"
proof -
  have xs: "xs = takeWhile (\<lambda>y. y \<le> x) xs @ dropWhile (\<lambda>y. y \<le> x) xs" by simp
  have lo: "\<forall>y \<in> set (takeWhile (\<lambda>y. y \<le> x) xs). y < x"
    using assms(2) by (auto dest!: set_takeWhileD simp: order.order_iff_strict)
  have hi: "\<forall>y \<in> set (dropWhile (\<lambda>y. y \<le> x) xs). x < y"
    using assms(1)
  proof (induction xs)
    case (Cons a xs)
    then show ?case by (cases "a \<le> x") (auto simp: not_le intro: less_trans)
  qed simp
  from assms(1) have "sorted_wrt (<) (takeWhile (\<lambda>y. y \<le> x) xs) \<and> sorted_wrt (<) (dropWhile (\<lambda>y. y \<le> x) xs) \<and>
      (\<forall>a \<in> set (takeWhile (\<lambda>y. y \<le> x) xs). \<forall>b \<in> set (dropWhile (\<lambda>y. y \<le> x) xs). a < b)"
    using sorted_wrt_append [of "(<)" "takeWhile (\<lambda>y. y \<le> x) xs" "dropWhile (\<lambda>y. y \<le> x) xs"] by simp
  with lo hi show "sorted_wrt (<) (insertActive x xs)" by (auto simp: insertActive_split sorted_wrt_append)
  show "set (insertActive x xs) = insert x (set xs)" unfolding insertActive_split by (subst (3) xs) (simp only: set_append list.set, blast)
qed

lemma remove1_sorted:
  fixes xs :: "u16 list"
  assumes "sorted_wrt (<) xs"
  shows "sorted_wrt (<) (remove1 x xs)" "set (remove1 x xs) = set xs - {x}"
proof -
  have "distinct xs" using assms by (simp add: strict_sorted_iff)
  then show "set (remove1 x xs) = set xs - {x}" by simp
  show "sorted_wrt (<) (remove1 x xs)" using assms by (simp add: strict_sorted_iff sorted_remove1)
qed

section \<open>Invariant of the table\<close>

definition stream_limit :: "'s sessionRecord \<Rightarrow> int" where
  "stream_limit r = (if sr_MaxActiveStreamsPerSession r \<le> 0 then 2000 else sr_MaxActiveStreamsPerSession r)"

definition table_ok :: "'s sessionRecord \<Rightarrow> bool" where
  "table_ok r \<longleftrightarrow> keys_distinct (sr_Streams r) \<and> sorted_wrt (<) (sr_ActiveStreams r) \<and>
     set (sr_ActiveStreams r) \<subseteq> fst ` set (sr_Streams r) \<and> int (length (AList.delete 0 (sr_Streams r))) \<le> stream_limit r"

text \<open>The two versions count changes; equal counts mean that the snapshot is current.\<close>

definition snapshot_ok :: "nat \<Rightarrow> 's sessionRecord \<Rightarrow> bool" where
  "snapshot_ok n r \<longleftrightarrow> (\<exists>v w. sr_activeStreamSetVersion r = of_nat v \<and> sr_activeStreamSnapshotVersion r = of_nat w \<and> w \<le> v \<and> v \<le> n \<and>
     (w = v \<longrightarrow> sr_activeStreamSnapshot r = takeSnapshot r))"

definition closed_ok :: "closedMemory \<Rightarrow> bool" where
  "closed_ok c \<longleftrightarrow> (case c of (m, h) \<Rightarrow> keys_distinct m \<and> heap_ordered snd h \<and> (\<forall>(i, rec) \<in> set m. (i, rc_ClosedAt rec) \<in> set h))"

definition record_ok :: "nat \<Rightarrow> 's sessionRecord \<Rightarrow> bool" where
  "record_ok n r \<longleftrightarrow> table_ok r \<and> snapshot_ok n r \<and> closed_ok (sr_RecentlyClosed r, sr_RecentlyClosedHeap r) \<and>
     int (length (sr_RecentlyClosed r)) \<le> closedStreamRecordCap r"

section \<open>The memory of closed streams\<close>

lemma current_iff: "keys_distinct m \<Longrightarrow> current (i, t) m \<longleftrightarrow> (\<exists>rec. (i, rec) \<in> set m \<and> rc_ClosedAt rec = t)"
  by (auto simp: current_def keys_distinct_def split: option.splits dest: map_of_SomeD eq_key_imp_eq_value)

lemma current_time: "keys_distinct m \<Longrightarrow> current entry m \<Longrightarrow> (fst entry, rec) \<in> set m \<Longrightarrow> rc_ClosedAt rec = snd entry"
  by (auto simp: current_def keys_distinct_def dest: map_of_is_SomeI)

lemma closed_okD:
  assumes "closed_ok (m, h)"
  shows "keys_distinct m" "heap_ordered snd h" "(i, rec) \<in> set m \<Longrightarrow> (i, rc_ClosedAt rec) \<in> set h"
  using assms by (auto simp: closed_ok_def)

lemma closed_ok_pop:
  assumes ok: "closed_ok (m, h)" and h: "h \<noteq> []"
  shows "\<not> current (hd h) m \<Longrightarrow> closed_ok (m, snd (heapPop snd h))" "closed_ok (AList.delete (fst (hd h)) m, snd (heapPop snd h))"
proof -
  note okD = closed_okD [OF ok]
  obtain i0 t0 where hd: "hd h = (i0, t0)" by (cases "hd h")
  have rest: "(i, rc_ClosedAt rec) = (i0, t0) \<or> (i, rc_ClosedAt rec) \<in> set (snd (heapPop snd h))" if "(i, rec) \<in> set m" for i rec
    using okD(3) [OF that] closed_heap.set_pop [OF okD(2) h] hd by auto
  have heap: "heap_ordered snd (snd (heapPop snd h))" by (rule closed_heap.ok_pop [OF okD(2) h])
  show "closed_ok (m, snd (heapPop snd h))" if "\<not> current (hd h) m"
    using that rest heap okD(1) unfolding closed_ok_def prod.case hd current_iff [OF okD(1)] by blast
  show "closed_ok (AList.delete (fst (hd h)) m, snd (heapPop snd h))"
    using rest heap okD(1) by (fastforce simp: closed_ok_def hd AList.delete_eq keys_distinct_def distinct_map_filter)
qed

lemma closed_oldest:
  assumes "closed_ok (m, h)" "(i, rec) \<in> set m"
  shows "snd (hd h) \<le> rc_ClosedAt rec"
  using closed_heap.top_min [OF closed_okD(2) [OF assms(1)] closed_okD(3) [OF assms]] by simp

lemma pruneLoop_correct:
  "closed_ok (m, h) \<Longrightarrow>
     closed_ok (pruneLoop e (m, h)) \<and> fst (pruneLoop e (m, h)) = filter (\<lambda>(i, rec). e \<le> rc_ClosedAt rec) m"
proof (induction e "(m, h)" arbitrary: m h rule: pruneLoop.induct)
  case (1 e m h)
  note dist = "1.prems" [unfolded closed_ok_def prod.case, THEN conjunct1]
  consider "h = []" | "h \<noteq> []" "\<not> current (hd h) m" | "h \<noteq> []" "current (hd h) m" "snd (hd h) < e" | "h \<noteq> []" "e \<le> snd (hd h)" "current (hd h) m"
    by fastforce
  then show ?case
  proof cases
    case 1
    then have "m = []" using closed_okD(3) [OF "1.prems"] by (cases m) auto
    then show ?thesis using 1 "1.prems" by (simp add: pruneLoop.simps)
  next
    case 2
    then show ?thesis using "1.hyps"(1) closed_ok_pop(1) [OF "1.prems" 2] by (simp add: pruneLoop.simps [of e m h] hd_conv_nth)
  next
    case 3
    have "filter (\<lambda>(i, rec). e \<le> rc_ClosedAt rec) (AList.delete (fst (hd h)) m) = filter (\<lambda>(i, rec). e \<le> rc_ClosedAt rec) m"
      unfolding AList.delete_eq filter_filter
      by (rule filter_cong [OF refl])
        (use 3 current_time [OF dist 3(2)] in force)
    then show ?thesis
      using 3 "1.hyps"(2) closed_ok_pop(2) [OF "1.prems" 3(1)] by (simp add: pruneLoop.simps [of e m h] hd_conv_nth)
  next
    case 4
    have "e \<le> rc_ClosedAt rec" if "(i, rec) \<in> set m" for i rec using closed_oldest [OF "1.prems" that] 4(2) by simp
    then have "filter (\<lambda>(i, rec). e \<le> rc_ClosedAt rec) m = m" by (auto simp: filter_id_conv)
    then show ?thesis using 4 "1.prems" by (simp add: pruneLoop.simps [of e m h] hd_conv_nth)
  qed
qed

definition oldest_dropped :: "(u16 \<times> recentlyClosedStreamRecord) list \<Rightarrow> (u16 \<times> recentlyClosedStreamRecord) list \<Rightarrow> bool" where
  "oldest_dropped m m' \<longleftrightarrow> set m' \<subseteq> set m \<and> (\<forall>d \<in> set m - set m'. \<forall>k \<in> set m'. rc_ClosedAt (snd d) \<le> rc_ClosedAt (snd k))"

lemma oldest_dropped_step:
  assumes "oldest_dropped m1 m'" "set m1 \<subseteq> set m"
    and "\<And>d k. d \<in> set m \<Longrightarrow> d \<notin> set m1 \<Longrightarrow> k \<in> set m \<Longrightarrow> rc_ClosedAt (snd d) \<le> rc_ClosedAt (snd k)"
  shows "oldest_dropped m m'"
  unfolding oldest_dropped_def
proof (intro conjI ballI)
  show sub: "set m' \<subseteq> set m" using assms(1,2) by (auto simp: oldest_dropped_def)
  fix d k assume d: "d \<in> set m - set m'" and k: "k \<in> set m'"
  show "rc_ClosedAt (snd d) \<le> rc_ClosedAt (snd k)"
  proof (cases "d \<in> set m1")
    case True
    then show ?thesis using assms(1) d k by (simp add: oldest_dropped_def)
  next
    case False
    then show ?thesis using assms(3) d k sub by blast
  qed
qed

lemma evictLoop_correct:
  "closed_ok (m, h) \<Longrightarrow> 0 \<le> capacity \<Longrightarrow>
     closed_ok (evictLoop capacity (m, h)) \<and> int (length (fst (evictLoop capacity (m, h)))) = min (int (length m)) capacity \<and>
     oldest_dropped m (fst (evictLoop capacity (m, h)))"
proof (induction capacity "(m, h)" arbitrary: m h rule: evictLoop.induct)
  case (1 capacity m h)
  note okD = closed_okD [OF "1.prems"(1)]
  show ?case
  proof (cases "int (length m) > capacity")
    case False
    then show ?thesis using "1.prems" by (simp add: evictLoop.simps [of capacity m h] oldest_dropped_def)
  next
    case True
    have h: "h \<noteq> []"
    proof
      assume "h = []"
      then have "m = []" using okD(3) by (cases m) auto
      then show False using True "1.prems"(2) by simp
    qed
    obtain entry h' where pop: "heapPop snd h = (entry, h')" by (cases "heapPop snd h")
    then have top: "entry = hd h" using closed_heap.pop_top [OF okD(2) h] by simp
    show ?thesis
    proof (cases "current entry m")
      case False
      have "closed_ok (m, h')" using closed_ok_pop(1) [OF "1.prems"(1) h] False top pop by simp
      from "1.hyps"(1) [OF _ pop [symmetric] refl False this "1.prems"(2)] True h False pop show ?thesis
        by (simp add: evictLoop.simps [of capacity m h])
    next
      case cur: True
      define m1 where "m1 = AList.delete (fst entry) m"
      have "closed_ok (m1, h')" using closed_ok_pop(2) [OF "1.prems"(1) h] top pop by (simp add: m1_def)
      from "1.hyps"(2) [OF _ pop [symmetric] refl _ this [unfolded m1_def] "1.prems"(2)] cur True h
      have IH: "closed_ok (evictLoop capacity (m1, h'))"
        "int (length (fst (evictLoop capacity (m1, h')))) = min (int (length m1)) capacity"
        "oldest_dropped m1 (fst (evictLoop capacity (m1, h')))"
        by (simp_all add: m1_def)
      have ev: "evictLoop capacity (m, h) = evictLoop capacity (m1, h')"
        using True h cur pop by (simp add: evictLoop.simps [of capacity m h] m1_def)
      obtain rec where "map_of m (fst entry) = Some rec" using cur by (auto simp: current_def split: option.splits)
      then have "Suc (length m1) = length m" unfolding m1_def by (rule length_delete_present [OF okD(1)])
      then have len: "min (int (length m1)) capacity = min (int (length m)) capacity" using True by linarith
      have old: "rc_ClosedAt (snd d) \<le> rc_ClosedAt (snd k)" if "d \<in> set m" "d \<notin> set m1" "k \<in> set m" for d k
      proof -
        have "fst d = fst entry" using that(1,2) by (auto simp: m1_def AList.delete_eq)
        then have "(fst entry, snd d) \<in> set m" using that(1) by (metis prod.collapse)
        then have "rc_ClosedAt (snd d) = snd (hd h)" using current_time [OF okD(1) cur, of "snd d"] top by simp
        then show ?thesis using closed_oldest [OF "1.prems"(1), of "fst k" "snd k"] that(3) by simp
      qed
      have sub: "set m1 \<subseteq> set m" by (auto simp: m1_def AList.delete_eq)
      show ?thesis unfolding ev using IH(1,2) oldest_dropped_step [OF IH(3) sub old] len by simp
    qed
  qed
qed

lemma closed_ok_note:
  assumes "closed_ok (m, h)"
  shows "closed_ok (AList.update i \<lparr>rc_ClosedAt = now, rc_SuppressOrphan = quiet\<rparr> m, heapPush snd (i, now) h)"
proof -
  note okD = closed_okD [OF assms]
  have "(j, rc_ClosedAt rec) \<in> set (heapPush snd (i, now) h)"
    if "(j, rec) \<in> set (AList.update i \<lparr>rc_ClosedAt = now, rc_SuppressOrphan = quiet\<rparr> m)" for j rec
  proof -
    have "map_of (AList.update i \<lparr>rc_ClosedAt = now, rc_SuppressOrphan = quiet\<rparr> m) j = Some rec"
      using that okD(1) by (simp add: keys_distinct_def distinct_update)
    then show ?thesis
      using okD(3) closed_heap.set_push [OF okD(2)] by (auto simp: update_conv' dest!: map_of_SomeD split: if_splits)
  qed
  then show ?thesis using okD closed_heap.ok_push by (auto simp: closed_ok_def)
qed

text \<open>What a close adds to the memory.\<close>

definition noted :: "u16 \<Rightarrow> time \<Rightarrow> bool \<Rightarrow> 's sessionRecord \<Rightarrow> (u16 \<times> recentlyClosedStreamRecord) list" where
  "noted i now quiet r = AList.update i \<lparr>rc_ClosedAt = now, rc_SuppressOrphan = quiet\<rparr>
     (filter (\<lambda>(j, rec). now - closedStreamRecordTTL r \<le> rc_ClosedAt rec) (sr_RecentlyClosed r))"

abbreviation closed_memory :: "'s sessionRecord \<Rightarrow> closedMemory" where
  "closed_memory r \<equiv> (sr_RecentlyClosed r, sr_RecentlyClosedHeap r)"

lemma withClosed_simps [simp]:
  "closed_memory (withClosed f r) = f (closed_memory r)"
  "sr_Streams (withClosed f r) = sr_Streams r" "sr_ActiveStreams (withClosed f r) = sr_ActiveStreams r"
  "sr_activeStreamSetVersion (withClosed f r) = sr_activeStreamSetVersion r"
  "sr_activeStreamSnapshot (withClosed f r) = sr_activeStreamSnapshot r"
  "sr_activeStreamSnapshotVersion (withClosed f r) = sr_activeStreamSnapshotVersion r"
  "sr_MaxActiveStreamsPerSession (withClosed f r) = sr_MaxActiveStreamsPerSession r"
  "sr_closedFlag (withClosed f r) = sr_closedFlag r"
  "closedStreamRecordTTL (withClosed f r) = closedStreamRecordTTL r" "closedStreamRecordCap (withClosed f r) = closedStreamRecordCap r"
  by (simp_all add: withClosed_def split_beta closedStreamRecordTTL_def closedStreamRecordCap_def)

lemma closedStreamRecordCap_pos: "0 \<le> closedStreamRecordCap r"
  by (simp add: closedStreamRecordCap_def)

lemma noteStreamClosed_correct:
  fixes i :: u16 and now :: time and quiet :: bool
  assumes "closed_ok (closed_memory r)" "\<not> sr_closedFlag r" "i \<noteq> 0"
  defines "r' \<equiv> noteStreamClosed i now quiet r"
  shows "closed_ok (closed_memory r')"
    "int (length (sr_RecentlyClosed r')) = min (int (length (noted i now quiet r))) (closedStreamRecordCap r)"
    "oldest_dropped (noted i now quiet r) (sr_RecentlyClosed r')"
proof -
  obtain m h where pr: "pruneLoop (now - closedStreamRecordTTL r) (closed_memory r) = (m, h)" by fastforce
  have ok: "closed_ok (m, h)" and m: "m = filter (\<lambda>(j, rec). now - closedStreamRecordTTL r \<le> rc_ClosedAt rec) (sr_RecentlyClosed r)"
    using pruneLoop_correct [OF assms(1), of "now - closedStreamRecordTTL r"] unfolding pr fst_conv by blast+
  have mem: "closed_memory r' = evictLoop (closedStreamRecordCap r)
      (AList.update i \<lparr>rc_ClosedAt = now, rc_SuppressOrphan = quiet\<rparr> m, heapPush snd (i, now) h)"
    using assms(2,3) by (simp add: r'_def noteStreamClosed_def Let_def pruneRecentlyClosedLocked_def evictOldestRecentlyClosedLocked_def pr)
  have "AList.update i \<lparr>rc_ClosedAt = now, rc_SuppressOrphan = quiet\<rparr> m = noted i now quiet r" by (simp add: noted_def m)
  with evictLoop_correct [OF closed_ok_note [OF ok, of i now quiet] closedStreamRecordCap_pos [of r], folded mem]
  show "closed_ok (closed_memory r')"
    "int (length (sr_RecentlyClosed r')) = min (int (length (noted i now quiet r))) (closedStreamRecordCap r)"
    "oldest_dropped (noted i now quiet r) (sr_RecentlyClosed r')"
    by simp_all
qed

section \<open>Every operation keeps the invariant\<close>

definition newSessionRecord :: "u8 \<Rightarrow> bytes \<Rightarrow> time \<Rightarrow> duration \<Rightarrow> int \<Rightarrow> int \<Rightarrow> duration \<Rightarrow> int \<Rightarrow> 's sessionRecord" where
  "newSessionRecord slot payload now initTTL streamQueueCap maxActiveStreams closedTTL closedCap =
     \<lparr>sr_ID = slot, sr_Cookie = 0, sr_ResponseMode = payload ! 0, sr_UploadCompression = 0, sr_DownloadCompression = 0,
      sr_UploadMTU = 0, sr_DownloadMTU = 0, sr_DownloadMTUBytes = 0, sr_VerifyCode = replicate 4 0, sr_Signature = take 10 payload,
      sr_MaxPackedBlocks = 0, sr_CreatedAt = now, sr_ReuseUntil = now + initTTL, sr_reuseUntilUnixNano = 0,
      sr_lastActivityUnixNano = 0, sr_lastDeferredCleanupActivityUnixNano = 0, sr_Streams = [], sr_ActiveStreams = [],
      sr_activeStreamSetVersion = 0, sr_activeStreamSnapshot = [], sr_activeStreamSnapshotVersion = 0, sr_RRStreamID = 0,
      sr_StreamQueueCap = streamQueueCap, sr_RecentlyClosed = [], sr_RecentlyClosedHeap = [], sr_RecentlyClosedTTL = closedTTL,
      sr_RecentlyClosedCap = closedCap, sr_OrphanQueue = New, sr_MaxActiveStreamsPerSession = maxActiveStreams, sr_closedFlag = False\<rparr>"

datatype record_op =
    OpGetOrCreate u16
  | OpRemove u16 time bool
  | OpDeactivate u16
  | OpSnapshotActive
  | OpPrune time
  | OpOrphanReset u8 u16 u16
  | OpCloseAll

fun record_step :: "(u16 \<Rightarrow> u8 \<Rightarrow> int \<Rightarrow> int \<Rightarrow> 's) \<Rightarrow> record_op \<Rightarrow> 's sessionRecord \<Rightarrow> 's sessionRecord" where
  "record_step mk (OpGetOrCreate i) r = snd (getOrCreateStream mk i r)"
| "record_step mk (OpRemove i now quiet) r = removeStream i now quiet r"
| "record_step mk (OpDeactivate i) r = deactivateStream i r"
| "record_step mk OpSnapshotActive r = snd (activeStreamSnapshot r)"
| "record_step mk (OpPrune now) r = pruneRecentlyClosed now r"
| "record_step mk (OpOrphanReset t i sn) r = enqueueOrphanReset t i sn r"
| "record_step mk OpCloseAll r = closeAllStreams r"

definition record_run :: "(u16 \<Rightarrow> u8 \<Rightarrow> int \<Rightarrow> int \<Rightarrow> 's) \<Rightarrow> record_op list \<Rightarrow> 's sessionRecord \<Rightarrow> 's sessionRecord" where
  "record_run mk ops r = fold (record_step mk) ops r"

lemma snapshot_bump:
  assumes "snapshot_ok n r" "Suc n < 2 ^ 64"
    and "sr_activeStreamSetVersion r' = sr_activeStreamSetVersion r + 1" "sr_activeStreamSnapshotVersion r' = sr_activeStreamSnapshotVersion r"
  shows "snapshot_ok (Suc n) r'"
proof -
  obtain v w where "sr_activeStreamSetVersion r = of_nat v" "sr_activeStreamSnapshotVersion r = of_nat w" "w \<le> v" "v \<le> n"
    using assms(1) by (auto simp: snapshot_ok_def)
  with assms(3,4) show ?thesis unfolding snapshot_ok_def by (intro exI [of _ "Suc v"] exI [of _ w]) simp
qed

lemma snapshot_same:
  assumes "snapshot_ok n r" "sr_activeStreamSetVersion r' = sr_activeStreamSetVersion r"
    "sr_activeStreamSnapshotVersion r' = sr_activeStreamSnapshotVersion r" "sr_activeStreamSnapshot r' = sr_activeStreamSnapshot r"
    "takeSnapshot r' = takeSnapshot r"
  shows "snapshot_ok (Suc n) r'"
proof -
  obtain v w where "sr_activeStreamSetVersion r = of_nat v" "sr_activeStreamSnapshotVersion r = of_nat w" "w \<le> v" "v \<le> n"
    "w = v \<longrightarrow> sr_activeStreamSnapshot r = takeSnapshot r"
    using assms(1) by (auto simp: snapshot_ok_def)
  with assms(2-5) show ?thesis unfolding snapshot_ok_def by (intro exI [of _ v] exI [of _ w]) simp
qed

lemma snapshot_current:
  assumes "snapshot_ok n r" "n < 2 ^ 64" "\<not> sr_closedFlag r"
  shows "fst (activeStreamSnapshot r) = takeSnapshot r"
proof -
  obtain v w where v: "sr_activeStreamSetVersion r = of_nat v" "sr_activeStreamSnapshotVersion r = of_nat w" "w \<le> v" "v \<le> n"
    "w = v \<longrightarrow> sr_activeStreamSnapshot r = takeSnapshot r"
    using assms(1) by (auto simp: snapshot_ok_def)
  have "w = v" if "(of_nat v :: u64) = of_nat w"
    using arg_cong [OF that, of unat] v(3,4) assms(2) by (simp add: unat_word_of_nat)
  then show ?thesis using v assms(3) by (auto simp: activeStreamSnapshot_def Let_def)
qed

lemma length_delete_update:
  "k \<noteq> z \<Longrightarrow> map_of al k = None \<Longrightarrow> length (AList.delete z (AList.update k v al)) = Suc (length (AList.delete z al))"
  by (induction al) auto

lemma delete_update_key: "AList.delete k (AList.update k v al) = AList.delete k al"
  by (induction al) auto

lemma length_delete_zero:
  assumes "keys_distinct al"
  shows "int (length (AList.delete k al)) = int (length al) - (if map_of al k \<noteq> None then 1 else 0)"
  using length_delete_present [OF assms, of k] by (cases "map_of al k") (auto simp: map_of_eq_None_iff)

lemma table_ok_create:
  assumes ok: "table_ok r" and new: "map_of (sr_Streams r) i = None" and room: "canCreateAdditionalStreamLocked i r"
    and r': "sr_Streams r' = AList.update i s (sr_Streams r)" "sr_MaxActiveStreamsPerSession r' = sr_MaxActiveStreamsPerSession r"
      "sr_ActiveStreams r' = insertActive i (sr_ActiveStreams r)"
  shows "table_ok r'"
proof -
  have i: "i \<notin> set (sr_ActiveStreams r)" using ok new by (auto simp: table_ok_def map_of_eq_None_iff)
  note ins = insertActive_sorted [OF _ i]
  have "int (length (AList.delete 0 (AList.update i s (sr_Streams r)))) \<le> stream_limit r"
  proof (cases "i = 0")
    case True
    then show ?thesis using ok by (simp add: delete_update_key table_ok_def)
  next
    case False
    have "int (length (AList.delete 0 (sr_Streams r))) < stream_limit r"
      using room False new length_delete_zero [of "sr_Streams r" 0] ok
      by (auto simp: canCreateAdditionalStreamLocked_def Let_def stream_limit_def table_ok_def split: if_splits)
    then show ?thesis using length_delete_update [OF False new] by simp
  qed
  moreover have "stream_limit r' = stream_limit r" by (simp add: stream_limit_def r')
  moreover have "fst ` set (AList.update i s (sr_Streams r)) = insert i (fst ` set (sr_Streams r))"
    by (metis dom_map_of_conv_image_fst dom_fun_upd option.distinct(1) update_conv')
  ultimately show ?thesis using ok ins by (auto simp: table_ok_def r')
qed

lemma keys_delete: "fst ` set (AList.delete i al) = fst ` set al - {i}"
  by (force simp: AList.delete_eq)

lemma table_ok_remove:
  assumes ok: "table_ok r" and r': "sr_Streams r' = sr_Streams r \<or> sr_Streams r' = AList.delete i (sr_Streams r)"
    "sr_MaxActiveStreamsPerSession r' = sr_MaxActiveStreamsPerSession r" "sr_ActiveStreams r' = remove1 i (sr_ActiveStreams r)"
  shows "table_ok r'"
proof -
  have srt: "sorted_wrt (<) (sr_ActiveStreams r)" using ok by (simp add: table_ok_def)
  have "length (AList.delete 0 (AList.delete i (sr_Streams r))) \<le> length (AList.delete 0 (sr_Streams r))"
    by (subst delete_twist) (rule length_delete_le)
  moreover have "stream_limit r' = stream_limit r" by (simp add: stream_limit_def r')
  ultimately show ?thesis
    using ok r' remove1_sorted [OF srt, of i] by (auto simp: table_ok_def keys_delete)
qed

text \<open>What the helpers leave alone.\<close>

lemma markActive_simps [simp]:
  "sr_Streams (markActiveStreamsChangedLocked r) = sr_Streams r" "sr_ActiveStreams (markActiveStreamsChangedLocked r) = sr_ActiveStreams r"
  "sr_activeStreamSetVersion (markActiveStreamsChangedLocked r) = sr_activeStreamSetVersion r + 1"
  "sr_activeStreamSnapshot (markActiveStreamsChangedLocked r) = sr_activeStreamSnapshot r"
  "sr_activeStreamSnapshotVersion (markActiveStreamsChangedLocked r) = sr_activeStreamSnapshotVersion r"
  "sr_MaxActiveStreamsPerSession (markActiveStreamsChangedLocked r) = sr_MaxActiveStreamsPerSession r"
  "sr_RecentlyClosed (markActiveStreamsChangedLocked r) = sr_RecentlyClosed r"
  "sr_RecentlyClosedHeap (markActiveStreamsChangedLocked r) = sr_RecentlyClosedHeap r"
  "sr_RecentlyClosedTTL (markActiveStreamsChangedLocked r) = sr_RecentlyClosedTTL r"
  "sr_RecentlyClosedCap (markActiveStreamsChangedLocked r) = sr_RecentlyClosedCap r"
  "sr_closedFlag (markActiveStreamsChangedLocked r) = sr_closedFlag r"
  by (simp_all add: markActiveStreamsChangedLocked_def)

lemma closed_ok_delete:
  assumes "closed_ok (m, h)"
  shows "closed_ok (AList.delete i m, h)"
  using closed_okD [OF assms] by (auto simp: closed_ok_def AList.delete_eq keys_distinct_def distinct_map_filter)

lemma noteStreamClosed_frame [simp]:
  "sr_Streams (noteStreamClosed i now quiet r) = sr_Streams r" "sr_ActiveStreams (noteStreamClosed i now quiet r) = sr_ActiveStreams r"
  "sr_activeStreamSetVersion (noteStreamClosed i now quiet r) = sr_activeStreamSetVersion r"
  "sr_activeStreamSnapshot (noteStreamClosed i now quiet r) = sr_activeStreamSnapshot r"
  "sr_activeStreamSnapshotVersion (noteStreamClosed i now quiet r) = sr_activeStreamSnapshotVersion r"
  "sr_MaxActiveStreamsPerSession (noteStreamClosed i now quiet r) = sr_MaxActiveStreamsPerSession r"
  "closedStreamRecordCap (noteStreamClosed i now quiet r) = closedStreamRecordCap r"
  by (simp_all add: noteStreamClosed_def Let_def pruneRecentlyClosedLocked_def evictOldestRecentlyClosedLocked_def)

lemma record_ok_create:
  assumes ok: "record_ok n r" and n: "Suc n < 2 ^ 64"
  shows "record_ok (Suc n) (snd (getOrCreateStream mk i r))"
proof -
  have tb: "table_ok r" and sn: "snapshot_ok n r" and cl: "closed_ok (closed_memory r)"
    and cap: "int (length (sr_RecentlyClosed r)) \<le> closedStreamRecordCap r" using ok by (auto simp: record_ok_def)
  have same: "record_ok (Suc n) r" using ok snapshot_same [OF sn refl refl refl refl] by (simp add: record_ok_def)
  show ?thesis
  proof (cases "sr_closedFlag r \<or> map_of (sr_Streams r) i \<noteq> None \<or> \<not> canCreateAdditionalStreamLocked i r")
    case True
    then show ?thesis using same by (auto simp: getOrCreateStream_def split: option.splits)
  next
    case False
    define r1 where "r1 = r\<lparr>sr_RecentlyClosed := AList.delete i (sr_RecentlyClosed r),
      sr_Streams := AList.update i (mk i (sr_ID r) (sr_DownloadMTUBytes r) (sr_StreamQueueCap r)) (sr_Streams r),
      sr_ActiveStreams := insertActive i (sr_ActiveStreams r)\<rparr>"
    have "i \<notin> set (sr_ActiveStreams r)" using tb False by (auto simp: table_ok_def map_of_eq_None_iff)
    then have eq: "snd (getOrCreateStream mk i r) = markActiveStreamsChangedLocked r1"
      using False by (simp add: getOrCreateStream_def Let_def r1_def)
    have "table_ok (markActiveStreamsChangedLocked r1)"
      using False by (intro table_ok_create [OF tb]) (auto simp: r1_def)
    moreover have "snapshot_ok (Suc n) (markActiveStreamsChangedLocked r1)"
      by (intro snapshot_bump [OF sn n]) (simp_all add: r1_def)
    moreover have "closed_ok (closed_memory (markActiveStreamsChangedLocked r1))" using closed_ok_delete [OF cl] by (simp add: r1_def)
    moreover have "int (length (AList.delete i (sr_RecentlyClosed r))) \<le> closedStreamRecordCap r"
      using cap length_delete_le [of i "sr_RecentlyClosed r"] by linarith
    moreover have "closedStreamRecordCap (markActiveStreamsChangedLocked r1) = closedStreamRecordCap r"
      "sr_RecentlyClosed (markActiveStreamsChangedLocked r1) = AList.delete i (sr_RecentlyClosed r)"
      by (simp_all add: r1_def closedStreamRecordCap_def)
    ultimately show ?thesis unfolding eq record_ok_def by simp
  qed
qed

lemma record_ok_remove_active:
  assumes tb: "table_ok r" and sn: "snapshot_ok n r" and n: "Suc n < 2 ^ 64"
    and r1: "sr_Streams r1 = sr_Streams r \<or> sr_Streams r1 = AList.delete i (sr_Streams r)"
      "sr_MaxActiveStreamsPerSession r1 = sr_MaxActiveStreamsPerSession r" "sr_ActiveStreams r1 = sr_ActiveStreams r"
      "sr_activeStreamSetVersion r1 = sr_activeStreamSetVersion r" "sr_activeStreamSnapshot r1 = sr_activeStreamSnapshot r"
      "sr_activeStreamSnapshotVersion r1 = sr_activeStreamSnapshotVersion r"
  shows "table_ok (removeActiveStreamLocked i r1)" "snapshot_ok (Suc n) (removeActiveStreamLocked i r1)"
proof -
  show "table_ok (removeActiveStreamLocked i r1)"
    by (rule table_ok_remove [OF tb, of _ i]) (use r1 in \<open>auto simp: removeActiveStreamLocked_def remove1_idem\<close>)
  show "snapshot_ok (Suc n) (removeActiveStreamLocked i r1)"
  proof (cases "i \<in> set (sr_ActiveStreams r)")
    case True
    then show ?thesis by (intro snapshot_bump [OF sn n]) (simp_all add: removeActiveStreamLocked_def r1)
  next
    case False
    then have "takeSnapshot r1 = takeSnapshot r" using r1 by (auto simp: takeSnapshot_def delete_conv')
    then show ?thesis using False by (intro snapshot_same [OF sn]) (simp_all add: removeActiveStreamLocked_def r1)
  qed
qed

lemma takeSnapshot_cong:
  "sr_Streams r' = sr_Streams r \<Longrightarrow> sr_ActiveStreams r' = sr_ActiveStreams r \<Longrightarrow> takeSnapshot r' = takeSnapshot r"
  by (simp add: takeSnapshot_def)

lemma snapshot_cong:
  "snapshot_ok n r \<Longrightarrow> sr_activeStreamSetVersion r' = sr_activeStreamSetVersion r \<Longrightarrow>
    sr_activeStreamSnapshotVersion r' = sr_activeStreamSnapshotVersion r \<Longrightarrow> sr_activeStreamSnapshot r' = sr_activeStreamSnapshot r \<Longrightarrow>
    takeSnapshot r' = takeSnapshot r \<Longrightarrow> snapshot_ok n r'"
  by (simp add: snapshot_ok_def)

lemma stream_limit_cong: "sr_MaxActiveStreamsPerSession r' = sr_MaxActiveStreamsPerSession r \<Longrightarrow> stream_limit r' = stream_limit r"
  by (simp add: stream_limit_def)

lemma table_cong:
  "table_ok r \<Longrightarrow> sr_Streams r' = sr_Streams r \<Longrightarrow> sr_ActiveStreams r' = sr_ActiveStreams r \<Longrightarrow>
    sr_MaxActiveStreamsPerSession r' = sr_MaxActiveStreamsPerSession r \<Longrightarrow> table_ok r'"
  using stream_limit_cong [of r' r] by (simp add: table_ok_def)

lemma closedStreamRecordCap_cong: "sr_RecentlyClosedCap r' = sr_RecentlyClosedCap r \<Longrightarrow> closedStreamRecordCap r' = closedStreamRecordCap r"
  by (simp add: closedStreamRecordCap_def)

lemma record_ok_closedI:
  assumes "record_ok n r" "sr_Streams r' = sr_Streams r" "sr_ActiveStreams r' = sr_ActiveStreams r"
    "sr_MaxActiveStreamsPerSession r' = sr_MaxActiveStreamsPerSession r" "sr_activeStreamSetVersion r' = sr_activeStreamSetVersion r"
    "sr_activeStreamSnapshotVersion r' = sr_activeStreamSnapshotVersion r" "sr_activeStreamSnapshot r' = sr_activeStreamSnapshot r"
    "closed_ok (closed_memory r')" "int (length (sr_RecentlyClosed r')) \<le> closedStreamRecordCap r'"
  shows "record_ok (Suc n) r'"
  using assms table_cong [of r r'] snapshot_same [of n r r'] takeSnapshot_cong [of r' r] by (simp add: record_ok_def)

lemma record_ok_remove:
  assumes ok: "record_ok n r" and n: "Suc n < 2 ^ 64"
  shows "record_ok (Suc n) (removeStream i now quiet r)"
proof (cases "sr_closedFlag r \<or> i = 0")
  case True
  then show ?thesis using ok record_ok_closedI [OF ok refl refl refl refl refl refl] by (simp add: removeStream_def record_ok_def)
next
  case False
  define r1 where "r1 = removeActiveStreamLocked i (r\<lparr>sr_Streams := AList.delete i (sr_Streams r)\<rparr>)"
  have tb: "table_ok r1" and sn: "snapshot_ok (Suc n) r1"
    unfolding r1_def by (rule record_ok_remove_active [of r n]; use ok n in \<open>simp add: record_ok_def\<close>)+
  have cl: "closed_ok (closed_memory r1)" "\<not> sr_closedFlag r1"
    using ok False by (auto simp: r1_def removeActiveStreamLocked_def record_ok_def)
  have i: "i \<noteq> 0" using False by simp
  note memo = noteStreamClosed_correct [OF cl i, of now quiet]
  have eq: "removeStream i now quiet r = noteStreamClosed i now quiet r1" using False by (simp add: removeStream_def r1_def)
  have "table_ok (noteStreamClosed i now quiet r1)" by (rule table_cong [OF tb]) simp_all
  moreover have "snapshot_ok (Suc n) (noteStreamClosed i now quiet r1)" by (rule snapshot_cong [OF sn]) (simp_all add: takeSnapshot_def)
  ultimately show ?thesis unfolding eq record_ok_def using memo(1,2) by simp
qed

lemma record_ok_deactivate:
  assumes ok: "record_ok n r" and n: "Suc n < 2 ^ 64"
  shows "record_ok (Suc n) (deactivateStream i r)"
proof (cases "sr_closedFlag r \<or> i = 0")
  case True
  then show ?thesis using ok record_ok_closedI [OF ok refl refl refl refl refl refl] by (simp add: deactivateStream_def record_ok_def)
next
  case False
  have "table_ok (removeActiveStreamLocked i r)" "snapshot_ok (Suc n) (removeActiveStreamLocked i r)"
    by (rule record_ok_remove_active [of r n]; use ok n in \<open>simp add: record_ok_def\<close>)+
  moreover have "closed_memory (removeActiveStreamLocked i r) = closed_memory r"
    "closedStreamRecordCap (removeActiveStreamLocked i r) = closedStreamRecordCap r"
    by (simp_all add: removeActiveStreamLocked_def closedStreamRecordCap_def)
  ultimately show ?thesis using ok False by (simp add: deactivateStream_def record_ok_def)
qed

lemma record_ok_snapshot:
  assumes ok: "record_ok n r"
  shows "record_ok (Suc n) (snd (activeStreamSnapshot r))"
proof (cases "sr_closedFlag r \<or> sr_activeStreamSetVersion r = sr_activeStreamSnapshotVersion r")
  case True
  then show ?thesis using ok record_ok_closedI [OF ok refl refl refl refl refl refl] by (auto simp: activeStreamSnapshot_def record_ok_def)
next
  case False
  define r1 where "r1 = snd (activeStreamSnapshot r)"
  have r1: "r1 = r\<lparr>sr_activeStreamSnapshot := takeSnapshot r, sr_activeStreamSnapshotVersion := sr_activeStreamSetVersion r\<rparr>"
    using False by (simp add: r1_def activeStreamSnapshot_def Let_def)
  obtain v where "sr_activeStreamSetVersion r = of_nat v" "v \<le> n" using ok by (auto simp: record_ok_def snapshot_ok_def)
  then have "snapshot_ok (Suc n) r1"
    unfolding snapshot_ok_def by (intro exI [of _ v] exI [of _ v]) (simp add: r1 takeSnapshot_def)
  moreover have "table_ok r1" by (rule table_cong [of r]) (use ok in \<open>simp_all add: r1 record_ok_def\<close>)
  moreover have "closedStreamRecordCap r1 = closedStreamRecordCap r" "closed_memory r1 = closed_memory r"
    by (simp_all add: r1 closedStreamRecordCap_def)
  ultimately show ?thesis using ok unfolding r1_def [symmetric] record_ok_def by simp
qed

lemma record_ok_prune:
  assumes ok: "record_ok n r"
  shows "record_ok (Suc n) (pruneRecentlyClosed now r)"
proof (cases "sr_closedFlag r")
  case True
  then show ?thesis using ok record_ok_closedI [OF ok refl refl refl refl refl refl] by (simp add: pruneRecentlyClosed_def record_ok_def)
next
  case False
  define r1 where "r1 = pruneRecentlyClosedLocked now r"
  have mem: "closed_memory r1 = pruneLoop (now - closedStreamRecordTTL r) (closed_memory r)"
    by (simp add: r1_def pruneRecentlyClosedLocked_def)
  have cl: "closed_ok (closed_memory r)" using ok by (simp add: record_ok_def)
  note pr = pruneLoop_correct [OF cl, of "now - closedStreamRecordTTL r", folded mem]
  then have "length (sr_RecentlyClosed r1) \<le> length (sr_RecentlyClosed r)" by (simp add: length_filter_le)
  moreover have "closedStreamRecordCap r1 = closedStreamRecordCap r" by (simp add: r1_def pruneRecentlyClosedLocked_def)
  ultimately have cap: "int (length (sr_RecentlyClosed r1)) \<le> closedStreamRecordCap r1" using ok unfolding record_ok_def by linarith
  have "record_ok (Suc n) r1"
    by (rule record_ok_closedI [OF ok _ _ _ _ _ _ conjunct1 [OF pr] cap]) (simp_all add: r1_def pruneRecentlyClosedLocked_def)
  then show ?thesis using False by (simp add: pruneRecentlyClosed_def r1_def)
qed

lemma record_ok_close_all:
  assumes ok: "record_ok n r" and n: "Suc n < 2 ^ 64"
  shows "record_ok (Suc n) (closeAllStreams r)"
proof -
  define r1 where "r1 = closeAllStreams r"
  have r1: "sr_Streams r1 = []" "sr_ActiveStreams r1 = []" "sr_activeStreamSetVersion r1 = sr_activeStreamSetVersion r + 1"
    "sr_activeStreamSnapshotVersion r1 = sr_activeStreamSnapshotVersion r" "closed_memory r1 = closed_memory r"
    "closedStreamRecordCap r1 = closedStreamRecordCap r"
    by (simp_all add: r1_def closeAllStreams_def Let_def closedStreamRecordCap_def)
  have "snapshot_ok (Suc n) r1" using ok by (intro snapshot_bump [OF _ n]) (simp_all add: record_ok_def r1)
  moreover have "0 \<le> stream_limit r1" by (simp add: stream_limit_def)
  ultimately show ?thesis using ok r1(5,6) unfolding r1_def [symmetric] record_ok_def table_ok_def by (simp add: r1(1,2))
qed

lemma record_ok_step:
  assumes "record_ok n r" "Suc n < 2 ^ 64"
  shows "record_ok (Suc n) (record_step mk op r)"
proof (cases op)
  case (OpOrphanReset t i sn)
  have "record_ok (Suc n) (enqueueOrphanReset t i sn r)"
    using assms(1) by (intro record_ok_closedI [OF assms(1)]) (auto simp: enqueueOrphanReset_def Let_def record_ok_def closedStreamRecordCap_def)
  then show ?thesis by (simp add: OpOrphanReset)
qed (use assms record_ok_create record_ok_remove record_ok_deactivate record_ok_snapshot record_ok_prune record_ok_close_all in simp_all)

lemma record_ok_run: "record_ok n r \<Longrightarrow> n + length ops < 2 ^ 64 \<Longrightarrow> record_ok (n + length ops) (record_run mk ops r)"
proof (induction ops arbitrary: n r)
  case (Cons op ops)
  then show ?case using Cons.IH [OF record_ok_step [OF Cons.prems(1)], of mk op] by (simp add: record_run_def)
qed (simp add: record_run_def)

lemma record_ok_new: "record_ok 0 (newSessionRecord slot payload now initTTL queueCap maxStreams closedTTL closedCap)"
proof -
  have "snapshot_ok 0 (newSessionRecord slot payload now initTTL queueCap maxStreams closedTTL closedCap)"
    unfolding snapshot_ok_def by (intro exI [of _ 0] exI [of _ 0]) (simp add: newSessionRecord_def takeSnapshot_def)
  then show ?thesis
    by (simp add: record_ok_def table_ok_def closed_ok_def newSessionRecord_def stream_limit_def closedStreamRecordCap_def heap_ordered_def)
qed

lemma noteStreamClosed_ttl:
  "closedStreamRecordTTL (noteStreamClosed i now quiet r) = closedStreamRecordTTL r" "sr_closedFlag (noteStreamClosed i now quiet r) = sr_closedFlag r"
  by (simp_all add: noteStreamClosed_def Let_def pruneRecentlyClosedLocked_def evictOldestRecentlyClosedLocked_def)

lemma set_update_old: "(j, v) \<in> set (AList.update i w m) \<Longrightarrow> (j, v) \<noteq> (i, w) \<Longrightarrow> (j, v) \<in> set m"
  by (induction m) (auto split: if_splits)

lemma record_ok_cong:
  assumes "record_ok n r" "sr_Streams r' = sr_Streams r" "sr_ActiveStreams r' = sr_ActiveStreams r"
    "sr_MaxActiveStreamsPerSession r' = sr_MaxActiveStreamsPerSession r" "sr_activeStreamSetVersion r' = sr_activeStreamSetVersion r"
    "sr_activeStreamSnapshotVersion r' = sr_activeStreamSnapshotVersion r" "sr_activeStreamSnapshot r' = sr_activeStreamSnapshot r"
    "sr_RecentlyClosed r' = sr_RecentlyClosed r" "sr_RecentlyClosedHeap r' = sr_RecentlyClosedHeap r"
    "sr_RecentlyClosedCap r' = sr_RecentlyClosedCap r"
  shows "record_ok n r'"
proof -
  have "table_ok r'" by (rule table_cong [of r]) (use assms in \<open>simp_all add: record_ok_def\<close>)
  moreover have "snapshot_ok n r'"
    by (rule snapshot_cong [of n r]) (use assms takeSnapshot_cong [of r' r] in \<open>simp_all add: record_ok_def\<close>)
  ultimately show ?thesis using assms closedStreamRecordCap_cong [OF assms(10)] by (simp add: record_ok_def)
qed

lemma record_ok_mono: "record_ok n r \<Longrightarrow> n \<le> m \<Longrightarrow> record_ok m r"
  unfolding record_ok_def snapshot_ok_def by (meson le_trans)

section \<open>Properties\<close>

text \<open>
  C17. However streams of a session are opened, removed, deactivated, pruned and closed, the
  list of active streams stays strictly sorted and within the table, the streams beside the control stream never exceed the
  limit, the cached snapshot is what a fresh one would be, and the memory of closed streams stays within its
  capacity. The version counters are 64-bit words, hence fewer than 2^64 operations.
\<close>

theorem session_streams_consistent:
  fixes ops :: "record_op list" and mk :: "u16 \<Rightarrow> u8 \<Rightarrow> int \<Rightarrow> int \<Rightarrow> 's"
  assumes "length ops < 2 ^ 64" "r = record_run mk ops (newSessionRecord slot payload now initTTL queueCap maxStreams closedTTL closedCap)"
  shows "keys_distinct (sr_Streams r) \<and> sorted_wrt (<) (sr_ActiveStreams r) \<and> set (sr_ActiveStreams r) \<subseteq> fst ` set (sr_Streams r) \<and>
    int (length (AList.delete 0 (sr_Streams r))) \<le> stream_limit r \<and>
    (\<not> sr_closedFlag r \<longrightarrow> fst (activeStreamSnapshot r) = takeSnapshot r) \<and>
    int (length (sr_RecentlyClosed r)) \<le> closedStreamRecordCap r"
proof -
  have "record_ok (length ops) r"
    using record_ok_run [OF record_ok_new, of ops] assms by simp
  then show ?thesis using snapshot_current [of "length ops" r] assms(1) by (auto simp: record_ok_def table_ok_def)
qed

text \<open>
  C18. When a stream of an open session is removed, what is remembered afterwards is what was remembered
  before and had not expired, and the removed stream; if that is more than the capacity, exactly the surplus is dropped and
  nothing dropped was closed later than anything kept. So the removed stream is reported as recently closed until its time
  to live has passed, unless others were closed at the very same instant.
\<close>

theorem closed_streams_remembered:
  fixes ops :: "record_op list" and mk :: "u16 \<Rightarrow> u8 \<Rightarrow> int \<Rightarrow> int \<Rightarrow> 's"
  assumes "length ops < 2 ^ 64" "r = record_run mk ops (newSessionRecord slot payload start initTTL queueCap maxStreams closedTTL closedCap)"
    and "\<not> sr_closedFlag r" "i \<noteq> 0" "\<forall>(j, rec) \<in> set (sr_RecentlyClosed r). rc_ClosedAt rec < now"
    and "time_sub later now \<le> closedStreamRecordTTL r" "r' = removeStream i now quiet r"
  shows "isRecentlyClosed i later r' \<and> oldest_dropped (noted i now quiet r) (sr_RecentlyClosed r') \<and>
    int (length (sr_RecentlyClosed r')) = min (int (length (noted i now quiet r))) (closedStreamRecordCap r)"
proof -
  have ok: "record_ok (length ops) r" using record_ok_run [OF record_ok_new, of ops] assms(1,2) by simp
  define r1 where "r1 = removeActiveStreamLocked i (r\<lparr>sr_Streams := AList.delete i (sr_Streams r)\<rparr>)"
  have r1: "closed_ok (closed_memory r1)" "\<not> sr_closedFlag r1" "noted i now quiet r1 = noted i now quiet r"
    "closedStreamRecordCap r1 = closedStreamRecordCap r" "closedStreamRecordTTL r1 = closedStreamRecordTTL r"
    using ok assms(3) by (auto simp: r1_def removeActiveStreamLocked_def record_ok_def noted_def closedStreamRecordTTL_def closedStreamRecordCap_def)
  have r': "r' = noteStreamClosed i now quiet r1" using assms(3,4,7) by (simp add: removeStream_def r1_def)
  note memo = noteStreamClosed_correct [OF r1(1,2) assms(4), of now quiet, folded r', unfolded r1(3,4)]
  define m where "m = filter (\<lambda>(j, rec). now - closedStreamRecordTTL r \<le> rc_ClosedAt rec) (sr_RecentlyClosed r)"
  define new where "new = \<lparr>rc_ClosedAt = now, rc_SuppressOrphan = quiet\<rparr>"
  have nd: "noted i now quiet r = AList.update i new m" by (simp add: noted_def m_def new_def)
  have others: "rc_ClosedAt rec < now" if "(j, rec) \<in> set (AList.update i new m)" "(j, rec) \<noteq> (i, new)" for j rec
    using set_update_old [OF that] assms(5) by (auto simp: m_def)
  have i_in: "(i, new) \<in> set (AList.update i new m)" by (induction m) auto
  have "(i, new) \<in> set (sr_RecentlyClosed r')"
  proof (rule ccontr)
    assume out: "(i, new) \<notin> set (sr_RecentlyClosed r')"
    have "0 < length (AList.update i new m)" using i_in by auto
    moreover have "1 \<le> closedStreamRecordCap r" by (simp add: closedStreamRecordCap_def)
    ultimately have "0 < length (sr_RecentlyClosed r')" using memo(2) unfolding nd by linarith
    then obtain j rec where k: "(j, rec) \<in> set (sr_RecentlyClosed r')" by (cases "sr_RecentlyClosed r'") auto
    then have "(j, rec) \<in> set (AList.update i new m)" "rc_ClosedAt new \<le> rc_ClosedAt rec"
      using memo(3) i_in out unfolding oldest_dropped_def nd by force+
    then show False using others [of j rec] out k by (auto simp: new_def)
  qed
  then have "map_of (sr_RecentlyClosed r') i = Some new" using closed_okD(1) [OF memo(1)] by (simp add: keys_distinct_def)
  moreover have "closedStreamRecordTTL r' = closedStreamRecordTTL r" "\<not> sr_closedFlag r'"
    using r1(2,5) unfolding r' by (simp_all add: noteStreamClosed_ttl)
  ultimately have "isRecentlyClosed i later r'" using assms(6) by (simp add: isRecentlyClosed_def new_def)
  then show ?thesis using memo(2,3) by simp
qed

definition demo_ops :: "record_op list" where
  "demo_ops = [OpGetOrCreate 0, OpGetOrCreate 5, OpGetOrCreate 3, OpSnapshotActive, OpGetOrCreate 9, OpRemove 5 10 False, OpDeactivate 9,
     OpRemove 3 20 True]"

definition demo_record :: "u16 sessionRecord" where
  "demo_record = record_run (\<lambda>i _ _ _. i) demo_ops (newSessionRecord 1 (replicate 10 0) 1 second 32 2 600 1)"

lemma demo_record_state:
  "sr_ActiveStreams demo_record = [0]" "\<not> sr_closedFlag demo_record"
  "sr_RecentlyClosed demo_record = [(3, \<lparr>rc_ClosedAt = 20, rc_SuppressOrphan = True\<rparr>)]" "closedStreamRecordTTL demo_record = 600"
  by code_simp+

theorem session_streams_consistent_witness:
  "sorted_wrt (<) (sr_ActiveStreams demo_record) \<and> fst (activeStreamSnapshot demo_record) = [(0, Some 0)]"
proof -
  have "fst (activeStreamSnapshot demo_record) = takeSnapshot demo_record \<and> sorted_wrt (<) (sr_ActiveStreams demo_record)"
    using session_streams_consistent [OF _ demo_record_def] demo_record_state(2) by (simp add: demo_ops_def)
  moreover have "takeSnapshot demo_record = [(0, Some 0)]" by code_simp
  ultimately show ?thesis by simp
qed

theorem closed_streams_remembered_witness:
  "isRecentlyClosed 9 500 (removeStream 9 30 False demo_record) \<and> int (length (sr_RecentlyClosed (removeStream 9 30 False demo_record))) = 1"
proof -
  have "length demo_ops < 2 ^ 64" by (simp add: demo_ops_def)
  from closed_streams_remembered [OF this demo_record_def demo_record_state(2), of 9 30 500 _ False]
  have "isRecentlyClosed 9 500 (removeStream 9 30 False demo_record) \<and>
      int (length (sr_RecentlyClosed (removeStream 9 30 False demo_record))) =
        min (int (length (noted 9 30 False demo_record))) (closedStreamRecordCap demo_record)"
    by (simp add: demo_record_state time_sub_def)
  moreover have "min (int (length (noted 9 30 False demo_record))) (closedStreamRecordCap demo_record) = 1" by code_simp
  ultimately show ?thesis by simp
qed

end
