(* ===== verification/SessionStore.thy ===== *)
theory SessionStore
  imports SessionStreams CookieTracker
begin

text \<open>
  The table of sessions of the server (\<open>udpserver/session.go\<close>): 255 slots, the index of session-init payloads for
  retries, and the memory of closed sessions. Bytes from the system's random source enter as an argument, \<open>None\<close> standing for a
  failed read; the records of the two maps are association lists.
\<close>

section \<open>Data\<close>

abbreviation maxServerSessionID :: nat where "maxServerSessionID \<equiv> 255"
abbreviation maxServerSessionSlots :: int where "maxServerSessionSlots \<equiv> 255"
abbreviation sessionInitDataSize :: nat where "sessionInitDataSize \<equiv> 10"
abbreviation minSessionMTU :: int where "minSessionMTU \<equiv> 10"
abbreviation maxSessionMTU :: int where "maxSessionMTU \<equiv> 4096"
abbreviation mtuProbeModeBase64 :: u8 where "mtuProbeModeBase64 \<equiv> 1"

datatype session_error = ErrSessionTableFull

record closedSessionRecord =
  cs_Cookie :: u8
  cs_ResponseMode :: u8
  cs_ExpiresAt :: time

record sessionRuntimeView =
  rv_ID :: u8
  rv_Cookie :: u8
  rv_ResponseMode :: u8
  rv_ResponseBase64 :: bool
  rv_DownloadCompression :: u8
  rv_DownloadMTU :: u16
  rv_DownloadMTUBytes :: int
  rv_MaxPackedBlocks :: int

record sessionValidationResult =
  vr_Lookup :: sessionLookupResult
  vr_Known :: bool
  vr_Valid :: bool
  vr_Active :: "sessionRuntimeView option"

record 's sessionStore =
  ss_nextID :: u16
  ss_activeCount :: u16
  ss_nextReuseSweepUnixNano :: int
  ss_cookieBytes :: bytes
  ss_cookieIndex :: nat
  ss_byID :: "'s sessionRecord option list"
  ss_bySig :: "(bytes \<times> u8) list"
  ss_recentClosed :: "(u8 \<times> closedSessionRecord) list"
  ss_streamQueueCap :: int
  ss_orphanQueueCap :: int
  ss_maxActiveSessions :: int
  ss_maxActiveStreams :: int
  ss_sessionInitTTL :: duration
  ss_recentlyClosedTTL :: duration
  ss_recentlyClosedCap :: int

text \<open>The options of the constructor are untyped in the code; a missing one, or one of another type, is \<open>None\<close>.\<close>

definition newSessionStore :: "int \<Rightarrow> int \<Rightarrow> duration option \<Rightarrow> duration option \<Rightarrow> int option \<Rightarrow> 's sessionStore" where
  "newSessionStore orphanQueueCap streamQueueCap initTTL closedTTL closedCap =
     (let orphanQueueCap = (if orphanQueueCap < 1 then 8 else orphanQueueCap);
          streamQueueCap = (if streamQueueCap < 1 then 32 else streamQueueCap);
          positive = (\<lambda>opt d. case opt of Some v \<Rightarrow> if v > 0 then v else d | None \<Rightarrow> d)
      in \<lparr>ss_nextID = 1, ss_activeCount = 0, ss_nextReuseSweepUnixNano = 0, ss_cookieBytes = replicate 32 0, ss_cookieIndex = 32,
          ss_byID = replicate (maxServerSessionID + 1) None, ss_bySig = [], ss_recentClosed = [],
          ss_streamQueueCap = streamQueueCap, ss_orphanQueueCap = orphanQueueCap,
          ss_maxActiveSessions = maxServerSessionSlots, ss_maxActiveStreams = 1000,
          ss_sessionInitTTL = positive initTTL (600 * second), ss_recentlyClosedTTL = positive closedTTL (600 * second),
          ss_recentlyClosedCap = positive closedCap 2000\<rparr>)"

section \<open>Transfer units\<close>

definition clampMTU :: "u16 \<Rightarrow> u16" where
  "clampMTU value = (if uint value < minSessionMTU then 10 else if uint value > maxSessionMTU then 4096 else value)"

definition clampMTUToLimit :: "u16 \<Rightarrow> u16 \<Rightarrow> u16" where
  "clampMTUToLimit value maxAllowed = (let clamped = clampMTU value in if clamped > maxAllowed then maxAllowed else clamped)"

definition clampSessionInitAllowedMTU :: "int \<Rightarrow> u16" where
  "clampSessionInitAllowedMTU value = (if value < minSessionMTU then 10 else if value > maxSessionMTU then 4096 else word_of_int value)"

definition applyMTUFromSessionInit :: "u16 \<Rightarrow> u16 \<Rightarrow> int \<Rightarrow> int \<Rightarrow> int \<Rightarrow> 's sessionRecord \<Rightarrow> 's sessionRecord" where
  "applyMTUFromSessionInit uploadMTU downloadMTU maxPacketsPerBatch maxClientUploadMTU maxClientDownloadMTU r =
     (let effectiveUploadMax = clampSessionInitAllowedMTU maxClientUploadMTU;
          effectiveDownloadMax = clampSessionInitAllowedMTU maxClientDownloadMTU;
          r = r\<lparr>sr_UploadMTU := clampMTUToLimit uploadMTU effectiveUploadMax\<rparr>;
          r = r\<lparr>sr_DownloadMTU := clampMTUToLimit downloadMTU effectiveDownloadMax\<rparr>;
          r = r\<lparr>sr_DownloadMTUBytes := uint (sr_DownloadMTU r)\<rparr>
      in r\<lparr>sr_MaxPackedBlocks := CalculateMaxPackedBlocks (sr_DownloadMTUBytes r) 80 maxPacketsPerBatch\<rparr>)"

definition isValidSessionResponseMode :: "u8 \<Rightarrow> bool" where
  "isValidSessionResponseMode value \<longleftrightarrow> value \<le> mtuProbeModeBase64"

definition runtimeView :: "'s sessionRecord \<Rightarrow> sessionRuntimeView" where
  "runtimeView r =
     \<lparr>rv_ID = sr_ID r, rv_Cookie = sr_Cookie r, rv_ResponseMode = sr_ResponseMode r,
      rv_ResponseBase64 = (sr_ResponseMode r = mtuProbeModeBase64), rv_DownloadCompression = sr_DownloadCompression r,
      rv_DownloadMTU = sr_DownloadMTU r, rv_DownloadMTUBytes = sr_DownloadMTUBytes r, rv_MaxPackedBlocks = sr_MaxPackedBlocks r\<rparr>"

section \<open>Slots, cookies and the retry index\<close>

definition nextSessionID :: "u8 \<Rightarrow> u8" where
  "nextSessionID current_id = (if unat current_id \<ge> maxServerSessionID then 1 else current_id + 1)"

definition slot_free :: "'s sessionStore \<Rightarrow> nat \<Rightarrow> bool" where
  "slot_free s slot = (case ss_byID s ! slot of None \<Rightarrow> True | Some _ \<Rightarrow> False)"

definition allocateSlotLocked :: "'s sessionStore \<Rightarrow> nat option" where
  "allocateSlotLocked s =
     (let maxActiveSessions =
            (if ss_maxActiveSessions s \<le> 0 \<or> ss_maxActiveSessions s > maxServerSessionSlots then maxServerSessionSlots
             else ss_maxActiveSessions s)
      in if ss_activeCount s \<ge> word_of_int maxActiveSessions then None
         else
           let start = unat (ss_nextID s);
               start = (if start < 1 \<or> start > maxServerSessionID then 1 else start)
           in case find (slot_free s) [start..<Suc maxServerSessionID] of
                Some slot \<Rightarrow> Some slot
              | None \<Rightarrow> find (slot_free s) [1..<start])"

definition randomCookieLocked :: "bytes option \<Rightarrow> 's sessionStore \<Rightarrow> u8 \<times> 's sessionStore" where
  "randomCookieLocked entropy s =
     (let take_byte = (\<lambda>s. (ss_cookieBytes s ! ss_cookieIndex s, s\<lparr>ss_cookieIndex := ss_cookieIndex s + 1\<rparr>))
      in if ss_cookieIndex s \<ge> length (ss_cookieBytes s)
         then case entropy of
             None \<Rightarrow> (0, s\<lparr>ss_cookieIndex := length (ss_cookieBytes s)\<rparr>)
           | Some bs \<Rightarrow> take_byte (s\<lparr>ss_cookieBytes := bs, ss_cookieIndex := 0\<rparr>)
         else take_byte s)"

definition updateNextReuseSweepLocked :: "int \<Rightarrow> 's sessionStore \<Rightarrow> 's sessionStore" where
  "updateNextReuseSweepLocked reuseUntilUnixNano s =
     (if ss_nextReuseSweepUnixNano s = 0 \<or> reuseUntilUnixNano < ss_nextReuseSweepUnixNano s
      then s\<lparr>ss_nextReuseSweepUnixNano := reuseUntilUnixNano\<rparr> else s)"

text \<open>The sweep over the retry index: the entries kept and the earliest end among them.\<close>

fun sweepReuse :: "int \<Rightarrow> 's sessionRecord option list \<Rightarrow> (bytes \<times> u8) list \<Rightarrow> int \<Rightarrow> (bytes \<times> u8) list \<times> int" where
  "sweepReuse nowUnixNano byID [] next_sweep = ([], next_sweep)"
| "sweepReuse nowUnixNano byID ((signature, sessionID) # rest) next_sweep =
     (case byID ! unat sessionID of
        None \<Rightarrow> sweepReuse nowUnixNano byID rest next_sweep
      | Some r \<Rightarrow>
          if nowUnixNano > sr_reuseUntilUnixNano r then sweepReuse nowUnixNano byID rest next_sweep
          else
            let next_sweep = (if next_sweep = 0 \<or> sr_reuseUntilUnixNano r < next_sweep then sr_reuseUntilUnixNano r else next_sweep);
                (kept, next_sweep) = sweepReuse nowUnixNano byID rest next_sweep
            in ((signature, sessionID) # kept, next_sweep))"

definition expireReuseLocked :: "int \<Rightarrow> 's sessionStore \<Rightarrow> 's sessionStore" where
  "expireReuseLocked nowUnixNano s =
     (if ss_bySig s = [] then s\<lparr>ss_nextReuseSweepUnixNano := 0\<rparr>
      else if ss_nextReuseSweepUnixNano s \<noteq> 0 \<and> nowUnixNano < ss_nextReuseSweepUnixNano s then s
      else
        let (kept, next_sweep) = sweepReuse nowUnixNano (ss_byID s) (ss_bySig s) 0
        in s\<lparr>ss_bySig := kept, ss_nextReuseSweepUnixNano := next_sweep\<rparr>)"

section \<open>Creation and lookup\<close>

text \<open>The record a new session starts with; the cookie is drawn last.\<close>

definition initialRecord ::
  "(u16 \<Rightarrow> u8 \<Rightarrow> int \<Rightarrow> int \<Rightarrow> 's) \<Rightarrow> nat \<Rightarrow> bytes \<Rightarrow> u8 \<Rightarrow> u8 \<Rightarrow> int \<Rightarrow> int \<Rightarrow> int \<Rightarrow> time \<Rightarrow> 's sessionStore \<Rightarrow> 's sessionRecord" where
  "initialRecord newStream slot payload uploadCompressionType downloadCompressionType maxPacketsPerBatch maxClientUploadMTU maxClientDownloadMTU now s =
     (let r = newSessionRecord (of_nat slot) payload now (ss_sessionInitTTL s) (ss_streamQueueCap s) (ss_maxActiveStreams s)
                (ss_recentlyClosedTTL s) (ss_recentlyClosedCap s);
          r = ensureStream0 newStream r;
          r = r\<lparr>sr_reuseUntilUnixNano := sr_ReuseUntil r\<rparr>;
          r = r\<lparr>sr_lastActivityUnixNano := now\<rparr>;
          r = r\<lparr>sr_UploadCompression := uploadCompressionType\<rparr>;
          r = r\<lparr>sr_DownloadCompression := downloadCompressionType\<rparr>;
          r = applyMTUFromSessionInit (get16 payload 2) (get16 payload 4) maxPacketsPerBatch maxClientUploadMTU maxClientDownloadMTU r
      in r\<lparr>sr_VerifyCode := slice payload 6 10\<rparr>)"

text \<open>The part of \<open>findOrCreate\<close> after the retry index has no answer.\<close>

definition createSession ::
  "(u16 \<Rightarrow> u8 \<Rightarrow> int \<Rightarrow> int \<Rightarrow> 's) \<Rightarrow> bytes option \<Rightarrow> bytes \<Rightarrow> u8 \<Rightarrow> u8 \<Rightarrow> int \<Rightarrow> int \<Rightarrow> int \<Rightarrow> time \<Rightarrow> 's sessionStore \<Rightarrow>
     (session_error + ('s sessionRecord \<times> bool) option) \<times> 's sessionStore" where
  "createSession newStream entropy payload uploadCompressionType downloadCompressionType maxPacketsPerBatch maxClientUploadMTU maxClientDownloadMTU now s =
     (case allocateSlotLocked s of
        None \<Rightarrow> (Inl ErrSessionTableFull, s)
      | Some slot \<Rightarrow>
          let r = initialRecord newStream slot payload uploadCompressionType downloadCompressionType maxPacketsPerBatch
                    maxClientUploadMTU maxClientDownloadMTU now s;
              (cookie, s) = randomCookieLocked entropy s;
              r = r\<lparr>sr_Cookie := cookie\<rparr>;
              s = s\<lparr>ss_byID := (ss_byID s)[slot := Some r]\<rparr>;
              s = s\<lparr>ss_activeCount := ss_activeCount s + 1\<rparr>;
              s = s\<lparr>ss_bySig := AList.update payload (of_nat slot) (ss_bySig s)\<rparr>;
              s = updateNextReuseSweepLocked (sr_reuseUntilUnixNano r) s;
              s = s\<lparr>ss_recentClosed := AList.delete (of_nat slot) (ss_recentClosed s)\<rparr>;
              s = s\<lparr>ss_nextID := ucast (nextSessionID (of_nat slot))\<rparr>
          in (Inr (Some (r, False)), s))"

text \<open>\<open>Inr None\<close> is the answer to a payload of the wrong form; the boolean tells a retry from a new session.\<close>

definition findOrCreate ::
  "(u16 \<Rightarrow> u8 \<Rightarrow> int \<Rightarrow> int \<Rightarrow> 's) \<Rightarrow> bytes option \<Rightarrow> bytes \<Rightarrow> u8 \<Rightarrow> u8 \<Rightarrow> int \<Rightarrow> int \<Rightarrow> int \<Rightarrow> time \<Rightarrow> 's sessionStore \<Rightarrow>
     (session_error + ('s sessionRecord \<times> bool) option) \<times> 's sessionStore" where
  "findOrCreate newStream entropy payload uploadCompressionType downloadCompressionType maxPacketsPerBatch maxClientUploadMTU maxClientDownloadMTU now s =
     (if length payload \<noteq> sessionInitDataSize \<or> \<not> isValidSessionResponseMode (payload ! 0) then (Inr None, s)
      else
        let s = expireReuseLocked now s;
            create = createSession newStream entropy payload uploadCompressionType downloadCompressionType maxPacketsPerBatch
                       maxClientUploadMTU maxClientDownloadMTU now
        in case map_of (ss_bySig s) payload of
             None \<Rightarrow> create s
           | Some sessionID \<Rightarrow>
               (case ss_byID s ! unat sessionID of
                  None \<Rightarrow> create (s\<lparr>ss_bySig := AList.delete payload (ss_bySig s)\<rparr>)
                | Some existing \<Rightarrow>
                    if now \<le> sr_reuseUntilUnixNano existing
                    then let existing = existing\<lparr>sr_lastActivityUnixNano := now\<rparr>
                         in (Inr (Some (existing, True)), s\<lparr>ss_byID := (ss_byID s)[unat sessionID := Some existing]\<rparr>)
                    else create (s\<lparr>ss_bySig := AList.delete payload (ss_bySig s)\<rparr>)))"

definition Get :: "u8 \<Rightarrow> 's sessionStore \<Rightarrow> 's sessionRecord option" where
  "Get sessionID s = (case ss_byID s ! unat sessionID of None \<Rightarrow> None | Some r \<Rightarrow> if sr_closedFlag r then None else Some r)"

definition HasActive :: "u8 \<Rightarrow> 's sessionStore \<Rightarrow> bool" where
  "HasActive sessionID s =
     (if sessionID = 0 then False else case ss_byID s ! unat sessionID of None \<Rightarrow> False | Some r \<Rightarrow> \<not> sr_closedFlag r)"

definition zero_lookup :: sessionLookupResult where
  "zero_lookup = \<lparr>lk_Cookie = 0, lk_ResponseMode = 0, lk_State = sessionLookupUnknown\<rparr>"

definition Lookup :: "u8 \<Rightarrow> 's sessionStore \<Rightarrow> sessionLookupResult \<times> bool" where
  "Lookup sessionID s =
     (case ss_byID s ! unat sessionID of
        Some r \<Rightarrow> (\<lparr>lk_Cookie = sr_Cookie r, lk_ResponseMode = sr_ResponseMode r, lk_State = sessionLookupActive\<rparr>, True)
      | None \<Rightarrow>
          (case map_of (ss_recentClosed s) sessionID of
             Some c \<Rightarrow> (\<lparr>lk_Cookie = cs_Cookie c, lk_ResponseMode = cs_ResponseMode c, lk_State = sessionLookupClosed\<rparr>, True)
           | None \<Rightarrow> (zero_lookup, False)))"

definition ValidateAndTouch :: "u8 \<Rightarrow> u8 \<Rightarrow> time \<Rightarrow> 's sessionStore \<Rightarrow> sessionValidationResult \<times> 's sessionStore" where
  "ValidateAndTouch sessionID cookie now s =
     (case ss_byID s ! unat sessionID of
        Some r \<Rightarrow>
          let look = \<lparr>lk_Cookie = sr_Cookie r, lk_ResponseMode = sr_ResponseMode r, lk_State = sessionLookupActive\<rparr>
          in if sr_Cookie r = cookie
             then (\<lparr>vr_Lookup = look, vr_Known = True, vr_Valid = True, vr_Active = Some (runtimeView r)\<rparr>,
                   s\<lparr>ss_byID := (ss_byID s)[unat sessionID := Some (r\<lparr>sr_lastActivityUnixNano := now\<rparr>)]\<rparr>)
             else (\<lparr>vr_Lookup = look, vr_Known = True, vr_Valid = False, vr_Active = None\<rparr>, s)
      | None \<Rightarrow>
          (case map_of (ss_recentClosed s) sessionID of
             Some c \<Rightarrow>
               (\<lparr>vr_Lookup = \<lparr>lk_Cookie = cs_Cookie c, lk_ResponseMode = cs_ResponseMode c, lk_State = sessionLookupClosed\<rparr>,
                 vr_Known = True, vr_Valid = False, vr_Active = None\<rparr>, s)
           | None \<Rightarrow> (\<lparr>vr_Lookup = zero_lookup, vr_Known = False, vr_Valid = False, vr_Active = None\<rparr>, s)))"

section \<open>Closing and sweeping\<close>

definition markClosed :: "'s sessionRecord \<Rightarrow> 's sessionRecord" where
  "markClosed r = r\<lparr>sr_closedFlag := True\<rparr>"

definition closedEntry :: "'s sessionRecord \<Rightarrow> time \<Rightarrow> closedSessionRecord" where
  "closedEntry r expiresAt = \<lparr>cs_Cookie = sr_Cookie r, cs_ResponseMode = sr_ResponseMode r, cs_ExpiresAt = expiresAt\<rparr>"

text \<open>The part \<open>Close\<close> and \<open>Cleanup\<close> share: the record leaves the retry index and its slot.\<close>

definition releaseSlot :: "nat \<Rightarrow> 's sessionRecord \<Rightarrow> 's sessionStore \<Rightarrow> 's sessionStore" where
  "releaseSlot slot r s =
     (let s = s\<lparr>ss_bySig := AList.delete (sr_Signature r) (ss_bySig s)\<rparr>;
          s = s\<lparr>ss_byID := (ss_byID s)[slot := None]\<rparr>
      in if ss_activeCount s > 0 then s\<lparr>ss_activeCount := ss_activeCount s - 1\<rparr> else s)"

definition CloseSession :: "u8 \<Rightarrow> time \<Rightarrow> duration \<Rightarrow> 's sessionStore \<Rightarrow> 's sessionRecord option \<times> 's sessionStore" where
  "CloseSession sessionID now retention s =
     (case ss_byID s ! unat sessionID of
        None \<Rightarrow> (None, s)
      | Some r \<Rightarrow>
          let r = markClosed r;
              s = releaseSlot (unat sessionID) r s;
              s = (if retention > 0
                   then s\<lparr>ss_recentClosed := AList.update sessionID (closedEntry r (now + retention)) (ss_recentClosed s)\<rparr>
                   else s\<lparr>ss_recentClosed := AList.delete sessionID (ss_recentClosed s)\<rparr>)
          in (Some r, s))"

definition cleanupSlot ::
  "time \<Rightarrow> duration \<Rightarrow> duration \<Rightarrow> nat \<Rightarrow> (u8 \<times> 's sessionRecord) list \<times> 's sessionStore \<Rightarrow> (u8 \<times> 's sessionRecord) list \<times> 's sessionStore" where
  "cleanupSlot now idleTimeout closedRetention sessionID es =
     (case es of (expired, s) \<Rightarrow>
        case ss_byID s ! sessionID of
          None \<Rightarrow> (expired, s)
        | Some r \<Rightarrow>
            if sr_lastActivityUnixNano r \<noteq> 0 \<and> now - sr_lastActivityUnixNano r < idleTimeout then (expired, s)
            else
              let s = releaseSlot sessionID r s;
                  s = (if closedRetention > 0
                       then s\<lparr>ss_recentClosed := AList.update (of_nat sessionID) (closedEntry r (now + closedRetention)) (ss_recentClosed s)\<rparr>
                       else s)
              in (expired @ [(of_nat sessionID, markClosed r)], s))"

definition Cleanup :: "time \<Rightarrow> duration \<Rightarrow> duration \<Rightarrow> 's sessionStore \<Rightarrow> (u8 \<times> 's sessionRecord) list \<times> 's sessionStore" where
  "Cleanup now idleTimeout closedRetention s =
     (let s = expireReuseLocked now s;
          s = s\<lparr>ss_recentClosed := filter (\<lambda>(i, c). now < cs_ExpiresAt c) (ss_recentClosed s)\<rparr>
      in if idleTimeout \<le> 0 then ([], s)
         else fold (cleanupSlot now idleTimeout closedRetention) [1..<Suc maxServerSessionID] ([], s))"

definition SweepRecentlyClosedStreams :: "time \<Rightarrow> 's sessionStore \<Rightarrow> 's sessionStore" where
  "SweepRecentlyClosedStreams now s = s\<lparr>ss_byID := map (map_option (pruneRecentlyClosed now)) (ss_byID s)\<rparr>"

definition collectIdleSlot ::
  "time \<Rightarrow> duration \<Rightarrow> nat \<Rightarrow> (u8 \<times> int) list \<times> 's sessionStore \<Rightarrow> (u8 \<times> int) list \<times> 's sessionStore" where
  "collectIdleSlot now idleTimeout sessionID is =
     (case is of (idle, s) \<Rightarrow>
        case ss_byID s ! sessionID of
          None \<Rightarrow> (idle, s)
        | Some r \<Rightarrow>
            let lastActivity = sr_lastActivityUnixNano r
            in if sr_closedFlag r then (idle, s)
               else if lastActivity = 0 \<or> now - lastActivity < idleTimeout then (idle, s)
               else if sr_lastDeferredCleanupActivityUnixNano r = lastActivity then (idle, s)
               else (idle @ [(of_nat sessionID, lastActivity)],
                     s\<lparr>ss_byID := (ss_byID s)[sessionID := Some (r\<lparr>sr_lastDeferredCleanupActivityUnixNano := lastActivity\<rparr>)]\<rparr>))"

definition CollectIdleDeferredSessions :: "time \<Rightarrow> duration \<Rightarrow> 's sessionStore \<Rightarrow> (u8 \<times> int) list \<times> 's sessionStore" where
  "CollectIdleDeferredSessions now idleTimeout s =
     (if idleTimeout \<le> 0 then ([], s) else fold (collectIdleSlot now idleTimeout) [1..<Suc maxServerSessionID] ([], s))"

end
