(* ===== verification/SessionTable.thy ===== *)
theory SessionTable
  imports SessionStore
begin

text \<open>
  The session table keeps its books: for every sequence of operations the counter is the number of used slots, the retry index
  points at live sessions with that very payload, a closed session is remembered only while its slot is free, and
  every record is within the limits of the protocol.
\<close>

section \<open>Invariant\<close>

definition session_ok :: "nat \<Rightarrow> nat \<Rightarrow> 's sessionRecord \<Rightarrow> bool" where
  "session_ok n i r \<longleftrightarrow> sr_ID r = of_nat i \<and> length (sr_Signature r) = sessionInitDataSize \<and> sr_ResponseMode r \<le> mtuProbeModeBase64 \<and>
     10 \<le> sr_UploadMTU r \<and> sr_UploadMTU r \<le> 4096 \<and> 10 \<le> sr_DownloadMTU r \<and> sr_DownloadMTU r \<le> 4096 \<and>
     sr_DownloadMTUBytes r = uint (sr_DownloadMTU r) \<and> 1 \<le> sr_MaxPackedBlocks r \<and> 0 < sr_reuseUntilUnixNano r \<and> record_ok n r"

definition occupied :: "'s sessionRecord option list \<Rightarrow> nat set" where
  "occupied byID = {i. i < length byID \<and> byID ! i \<noteq> None}"

definition slots_ok :: "nat \<Rightarrow> 's sessionRecord option list \<Rightarrow> u16 \<Rightarrow> bool" where
  "slots_ok n byID used \<longleftrightarrow> length byID = 256 \<and> byID ! 0 = None \<and> (\<forall>i < 256. \<forall>r. byID ! i = Some r \<longrightarrow> session_ok n i r) \<and>
     unat used = card (occupied byID)"

definition index_ok :: "'s sessionRecord option list \<Rightarrow> (bytes \<times> u8) list \<Rightarrow> int \<Rightarrow> bool" where
  "index_ok byID bySig sweep \<longleftrightarrow> keys_distinct bySig \<and> (bySig \<noteq> [] \<longrightarrow> 0 < sweep) \<and>
     (\<forall>(sig, i) \<in> set bySig. \<exists>r. byID ! unat i = Some r \<and> sr_Signature r = sig \<and> sweep \<le> sr_reuseUntilUnixNano r)"

definition recent_ok :: "'s sessionRecord option list \<Rightarrow> (u8 \<times> closedSessionRecord) list \<Rightarrow> bool" where
  "recent_ok byID closedMap \<longleftrightarrow> keys_distinct closedMap \<and> (\<forall>(i, c) \<in> set closedMap. byID ! unat i = None)"

definition session_limit :: "'s sessionStore \<Rightarrow> int" where
  "session_limit s = (if ss_maxActiveSessions s \<le> 0 \<or> ss_maxActiveSessions s > maxServerSessionSlots then maxServerSessionSlots
     else ss_maxActiveSessions s)"

definition store_ok :: "nat \<Rightarrow> 's sessionStore \<Rightarrow> bool" where
  "store_ok n s \<longleftrightarrow> slots_ok n (ss_byID s) (ss_activeCount s) \<and> index_ok (ss_byID s) (ss_bySig s) (ss_nextReuseSweepUnixNano s) \<and>
     recent_ok (ss_byID s) (ss_recentClosed s) \<and> uint (ss_activeCount s) \<le> session_limit s \<and> 0 < ss_sessionInitTTL s \<and>
     length (ss_cookieBytes s) = 32"

lemma session_limit_range: "1 \<le> session_limit s" "session_limit s \<le> 255"
  by (simp_all add: session_limit_def)

lemma session_limit_cong: "ss_maxActiveSessions s' = ss_maxActiveSessions s \<Longrightarrow> session_limit s' = session_limit s"
  by (simp add: session_limit_def)

lemma session_ok_mono: "session_ok n i r \<Longrightarrow> n \<le> m \<Longrightarrow> session_ok m i r"
  unfolding session_ok_def by (meson record_ok_mono)

lemma store_ok_mono: "store_ok n s \<Longrightarrow> n \<le> m \<Longrightarrow> store_ok m s"
  unfolding store_ok_def slots_ok_def using session_ok_mono by meson

lemma u8_index [simp]: "unat (i :: u8) < 256"
  using unsigned_less [of i] by simp

lemma u8_of_nat [simp]: "i < 256 \<Longrightarrow> unat (of_nat i :: u8) = i"
  by (simp add: unat_of_nat)

lemma upd_nth: "xs[i := v] ! j = (if i = j \<and> i < length xs then v else xs ! j)"
  by (cases "i < length xs") (auto simp: nth_list_update list_update_beyond)

lemma occupied_some:
  "i < length byID \<Longrightarrow> occupied (byID[i := Some r]) = insert i (occupied byID)"
  by (auto simp: occupied_def nth_list_update)

lemma occupied_none:
  "i < length byID \<Longrightarrow> occupied (byID[i := None]) = occupied byID - {i}"
  by (auto simp: occupied_def nth_list_update split: if_splits)

lemma occupied_empty [simp]: "occupied (replicate n None) = {}"
  by (auto simp: occupied_def)

lemma finite_occupied [simp]: "finite (occupied byID)"
  by (simp add: occupied_def)

lemma occupied_card: "length byID = 256 \<Longrightarrow> byID ! 0 = None \<Longrightarrow> card (occupied byID) \<le> 255"
proof -
  assume "length byID = 256" "byID ! 0 = None"
  then have "occupied byID \<subseteq> {1..<256}"
    by (auto simp: occupied_def Suc_le_eq) (metis neq0_conv option.distinct(1))
  from card_mono [OF _ this] show ?thesis by simp
qed

lemma keys_distinct_filter: "keys_distinct al \<Longrightarrow> keys_distinct (filter P al)"
  by (simp add: keys_distinct_def distinct_map_filter)

section \<open>Changes of one slot\<close>

lemma slots_ok_set:
  assumes "slots_ok n byID used" "i < 256" "i \<noteq> 0" "session_ok m i r" "n \<le> m"
    and "byID ! i \<noteq> None \<and> used' = used \<or> byID ! i = None \<and> used' = used + 1"
  shows "slots_ok m (byID[i := Some r]) used'"
proof -
  note ok = assms(1) [unfolded slots_ok_def]
  have le: "card (occupied byID) \<le> 255" using ok by (intro occupied_card) auto
  have "unat used' = card (occupied (byID[i := Some r]))"
  proof (cases "byID ! i = None")
    case True
    then have "i \<notin> occupied byID" "used' = used + 1" using assms(6) by (auto simp: occupied_def)
    moreover have "unat used + unat (1 :: u16) < 2 ^ LENGTH(16)" using le ok by simp
    then have "unat (used + 1) = Suc (unat used)" by (simp add: unat_add_lem [THEN iffD1])
    ultimately show ?thesis using ok assms(2) by (simp add: occupied_some)
  next
    case False
    then have "i \<in> occupied byID" using ok assms(2) by (simp add: occupied_def)
    then show ?thesis using ok False assms(2,6) by (auto simp: occupied_some insert_absorb)
  qed
  then show ?thesis
    using ok assms(2,3,4) session_ok_mono [OF _ assms(5)] by (auto simp: slots_ok_def upd_nth)
qed

lemma slots_ok_clear:
  assumes "slots_ok n byID used" "i < 256" "byID ! i = Some r"
  shows "slots_ok n (byID[i := None]) (used - 1)" "0 < used"
proof -
  note ok = assms(1) [unfolded slots_ok_def]
  have i: "i \<in> occupied byID" using assms ok by (auto simp: occupied_def)
  then have pos: "0 < unat used" using ok by (simp add: card_gt_0_iff) blast
  then show "0 < used" by (simp add: word_less_nat_alt)
  have "unat (used - 1) = unat used - 1" using pos by (simp add: unat_minus_one unat_gt_0)
  also have "\<dots> = card (occupied (byID[i := None]))" using ok i assms(2) by (simp add: occupied_none)
  finally show "slots_ok n (byID[i := None]) (used - 1)"
    using ok by (auto simp: slots_ok_def upd_nth split: if_splits)
qed

lemma index_okD:
  assumes "index_ok byID bySig sweep" "(sig, i) \<in> set bySig"
  obtains r where "byID ! unat i = Some r" "sr_Signature r = sig" "sweep \<le> sr_reuseUntilUnixNano r"
  using assms by (auto simp: index_ok_def)

lemma index_ok_sub:
  assumes "index_ok byID bySig sweep" "keys_distinct l" "set l \<subseteq> set bySig"
  shows "index_ok byID l sweep"
  using assms by (auto simp: index_ok_def)

lemma index_ok_touch:
  assumes "index_ok byID bySig sweep" "byID ! i = Some r" "i < length byID" "sr_Signature r' = sr_Signature r"
    "sr_reuseUntilUnixNano r' = sr_reuseUntilUnixNano r"
  shows "index_ok (byID[i := Some r']) bySig sweep"
proof -
  have "\<exists>r2. byID[i := Some r'] ! unat j = Some r2 \<and> sr_Signature r2 = sig \<and> sweep \<le> sr_reuseUntilUnixNano r2" if e: "(sig, j) \<in> set bySig" for sig j
    by (rule index_okD [OF assms(1) e]) (use assms(2-) in \<open>auto simp: upd_nth\<close>)
  then show ?thesis using assms(1) by (auto simp: index_ok_def)
qed

lemma index_ok_clear:
  assumes ok: "index_ok byID bySig sweep" and i: "byID ! i = Some r"
  shows "index_ok (byID[i := None]) (AList.delete (sr_Signature r) bySig) sweep"
proof -
  have "unat j \<noteq> i" if e: "(sig, j) \<in> set (AList.delete (sr_Signature r) bySig)" for sig j
  proof -
    from e have "(sig, j) \<in> set bySig" "sig \<noteq> sr_Signature r" by (auto simp: AList.delete_eq)
    then show ?thesis using i by (elim index_okD [OF ok]) auto
  qed
  then have "byID[i := None] ! unat j = byID ! unat j" if "(sig, j) \<in> set (AList.delete (sr_Signature r) bySig)" for sig j
    using that by (auto simp: upd_nth)
  moreover have "index_ok byID (AList.delete (sr_Signature r) bySig) sweep"
    using ok by (intro index_ok_sub [OF ok]) (auto simp: index_ok_def AList.delete_eq keys_distinct_filter)
  ultimately show ?thesis unfolding index_ok_def by auto
qed

lemma recent_ok_touch:
  assumes "recent_ok byID closedMap" "byID ! i = Some r"
  shows "recent_ok (byID[i := Some r']) closedMap"
  using assms by (fastforce simp: recent_ok_def upd_nth)

lemma recent_ok_clear: "recent_ok byID closedMap \<Longrightarrow> recent_ok (byID[i := None]) closedMap"
  by (auto simp: recent_ok_def upd_nth)

lemma recent_ok_update:
  "recent_ok byID closedMap \<Longrightarrow> byID ! unat i = None \<Longrightarrow> recent_ok byID (AList.update i c closedMap)"
  unfolding recent_ok_def using set_update_old by fastforce

lemma recent_ok_sub: "recent_ok byID closedMap \<Longrightarrow> keys_distinct l \<Longrightarrow> set l \<subseteq> set closedMap \<Longrightarrow> recent_ok byID l"
  by (auto simp: recent_ok_def)


section \<open>The retry index\<close>

definition reuse_live :: "int \<Rightarrow> 's sessionRecord option list \<Rightarrow> bytes \<times> u8 \<Rightarrow> bool" where
  "reuse_live now byID e = (case byID ! unat (snd e) of None \<Rightarrow> False | Some r \<Rightarrow> now \<le> sr_reuseUntilUnixNano r)"

lemma sweepReuse_filter: "fst (sweepReuse now byID l nx) = filter (reuse_live now byID) l"
proof (induction l arbitrary: nx)
  case (Cons e l)
  then show ?case
    by (cases e; cases "byID ! unat (snd e)") (auto simp: reuse_live_def Let_def case_prod_beta)
qed simp

lemma sweepReuse_next:
  assumes "\<forall>e \<in> set l. \<forall>r. byID ! unat (snd e) = Some r \<longrightarrow> 0 < sr_reuseUntilUnixNano r" "0 \<le> nx"
  shows "0 \<le> snd (sweepReuse now byID l nx) \<and>
    (nx \<noteq> 0 \<longrightarrow> 0 < snd (sweepReuse now byID l nx) \<and> snd (sweepReuse now byID l nx) \<le> nx) \<and>
    (\<forall>e \<in> set l. \<forall>r. byID ! unat (snd e) = Some r \<longrightarrow> reuse_live now byID e \<longrightarrow>
       0 < snd (sweepReuse now byID l nx) \<and> snd (sweepReuse now byID l nx) \<le> sr_reuseUntilUnixNano r)"
  using assms
proof (induction now byID l nx rule: sweepReuse.induct)
  case (2 now byID sig i rest nx)
  show ?case
  proof (cases "reuse_live now byID (sig, i)")
    case False
    then have "sweepReuse now byID ((sig, i) # rest) nx = sweepReuse now byID rest nx"
      by (auto simp: reuse_live_def split: option.splits)
    moreover have "0 \<le> snd (sweepReuse now byID rest nx) \<and>
      (nx \<noteq> 0 \<longrightarrow> 0 < snd (sweepReuse now byID rest nx) \<and> snd (sweepReuse now byID rest nx) \<le> nx) \<and>
      (\<forall>e \<in> set rest. \<forall>r. byID ! unat (snd e) = Some r \<longrightarrow> reuse_live now byID e \<longrightarrow>
         0 < snd (sweepReuse now byID rest nx) \<and> snd (sweepReuse now byID rest nx) \<le> sr_reuseUntilUnixNano r)"
    proof (cases "byID ! unat i")
      case None
      then show ?thesis using 2(1) 2(4,5) by simp
    next
      case (Some r)
      then have "now > sr_reuseUntilUnixNano r" using False by (simp add: reuse_live_def)
      then show ?thesis using 2(2) [OF Some] 2(4,5) by simp
    qed
    ultimately show ?thesis using False by simp
  next
    case True
    then obtain r where r: "byID ! unat i = Some r" and le: "now \<le> sr_reuseUntilUnixNano r"
      by (auto simp: reuse_live_def split: option.splits)
    have pos: "0 < sr_reuseUntilUnixNano r" using 2(4) r by auto
    define nx1 where "nx1 = (if nx = 0 \<or> sr_reuseUntilUnixNano r < nx then sr_reuseUntilUnixNano r else nx)"
    have nx1: "0 < nx1" "nx1 \<le> sr_reuseUntilUnixNano r" "nx \<noteq> 0 \<longrightarrow> nx1 \<le> nx"
      using pos 2(5) by (auto simp: nx1_def)
    have eq: "snd (sweepReuse now byID ((sig, i) # rest) nx) = snd (sweepReuse now byID rest nx1)"
      using r le by (simp add: nx1_def split: prod.splits)
    have "0 < snd (sweepReuse now byID rest nx1) \<and> snd (sweepReuse now byID rest nx1) \<le> nx1 \<and>
      (\<forall>e \<in> set rest. \<forall>r. byID ! unat (snd e) = Some r \<longrightarrow> reuse_live now byID e \<longrightarrow>
         snd (sweepReuse now byID rest nx1) \<le> sr_reuseUntilUnixNano r)"
      using 2(3) [OF r _ nx1_def [unfolded atomize_eq]] le 2(4) nx1(1) by auto
    then show ?thesis unfolding eq using nx1 r by auto
  qed
qed simp

lemma sessions_okD: "slots_ok n byID used \<Longrightarrow> byID ! unat (i :: u8) = Some r \<Longrightarrow> session_ok n (unat i) r"
  by (simp add: slots_ok_def)

lemma expireReuse_filter:
  assumes "index_ok (ss_byID s) (ss_bySig s) (ss_nextReuseSweepUnixNano s)"
  shows "ss_bySig (expireReuseLocked now s) = filter (reuse_live now (ss_byID s)) (ss_bySig s)"
proof (cases "ss_bySig s \<noteq> [] \<and> ss_nextReuseSweepUnixNano s \<noteq> 0 \<and> now < ss_nextReuseSweepUnixNano s")
  case True
  have "reuse_live now (ss_byID s) (sig, i)" if "(sig, i) \<in> set (ss_bySig s)" for sig i
    by (rule index_okD [OF assms that]) (use True in \<open>simp add: reuse_live_def\<close>)
  then have "filter (reuse_live now (ss_byID s)) (ss_bySig s) = ss_bySig s" by (auto simp: filter_id_conv)
  then show ?thesis using True by (simp add: expireReuseLocked_def)
next
  case False
  then show ?thesis
    using sweepReuse_filter [of now "ss_byID s" "ss_bySig s" 0] by (auto simp: expireReuseLocked_def split: prod.splits)
qed

lemma expireReuse_simps [simp]:
  "ss_byID (expireReuseLocked now s) = ss_byID s" "ss_activeCount (expireReuseLocked now s) = ss_activeCount s"
  "ss_recentClosed (expireReuseLocked now s) = ss_recentClosed s" "ss_sessionInitTTL (expireReuseLocked now s) = ss_sessionInitTTL s"
  "ss_cookieBytes (expireReuseLocked now s) = ss_cookieBytes s" "ss_maxActiveSessions (expireReuseLocked now s) = ss_maxActiveSessions s"
  "ss_nextID (expireReuseLocked now s) = ss_nextID s" "session_limit (expireReuseLocked now s) = session_limit s"
  by (auto simp: expireReuseLocked_def session_limit_def split: prod.splits)

lemma expireReuse_index:
  assumes "slots_ok n (ss_byID s) used" "index_ok (ss_byID s) (ss_bySig s) (ss_nextReuseSweepUnixNano s)"
  shows "index_ok (ss_byID s) (ss_bySig (expireReuseLocked now s)) (ss_nextReuseSweepUnixNano (expireReuseLocked now s))"
proof (cases "ss_bySig s \<noteq> [] \<and> \<not> (ss_nextReuseSweepUnixNano s \<noteq> 0 \<and> now < ss_nextReuseSweepUnixNano s)")
  case True
  define nx where "nx = snd (sweepReuse now (ss_byID s) (ss_bySig s) 0)"
  have e: "ss_nextReuseSweepUnixNano (expireReuseLocked now s) = nx"
    using True by (auto simp: expireReuseLocked_def nx_def split: prod.splits)
  have "\<forall>e \<in> set (ss_bySig s). \<forall>r. ss_byID s ! unat (snd e) = Some r \<longrightarrow> 0 < sr_reuseUntilUnixNano r"
    using sessions_okD [OF assms(1)] by (auto simp: session_ok_def)
  from sweepReuse_next [OF this, of 0 now] have le:
    "\<forall>e \<in> set (ss_bySig s). \<forall>r. ss_byID s ! unat (snd e) = Some r \<longrightarrow> reuse_live now (ss_byID s) e \<longrightarrow> 0 < nx \<and> nx \<le> sr_reuseUntilUnixNano r"
    by (simp add: nx_def)
  have entry: "0 < nx \<and> (\<exists>r. ss_byID s ! unat i = Some r \<and> sr_Signature r = sig \<and> nx \<le> sr_reuseUntilUnixNano r)"
    if "(sig, i) \<in> set (filter (reuse_live now (ss_byID s)) (ss_bySig s))" for sig i
  proof (rule index_okD [OF assms(2), of sig i])
    show "(sig, i) \<in> set (ss_bySig s)" using that by simp
  qed (use that le in force)
  have "0 < nx" if "filter (reuse_live now (ss_byID s)) (ss_bySig s) \<noteq> []"
    using entry that by (metis list.set_intros(1) neq_Nil_conv old.prod.exhaust)
  then show ?thesis
    unfolding index_ok_def e expireReuse_filter [OF assms(2)] using entry assms(2)
    by (auto simp: index_ok_def keys_distinct_filter)
next
  case False
  then show ?thesis using assms(2) by (auto simp: expireReuseLocked_def index_ok_def)
qed

lemma store_ok_expire: "store_ok n s \<Longrightarrow> store_ok n (expireReuseLocked now s)"
  using expireReuse_index [of n s "ss_activeCount s" now] by (simp add: store_ok_def)

section \<open>Records\<close>

text \<open>What the stream operations never touch.\<close>

definition session_head :: "'s sessionRecord \<Rightarrow> u8 \<times> bytes \<times> u8 \<times> u16 \<times> u16 \<times> int \<times> int \<times> int \<times> u8 \<times> int" where
  "session_head r = (sr_ID r, sr_Signature r, sr_ResponseMode r, sr_UploadMTU r, sr_DownloadMTU r, sr_DownloadMTUBytes r,
     sr_MaxPackedBlocks r, sr_reuseUntilUnixNano r, sr_Cookie r, sr_lastActivityUnixNano r)"

lemma session_head_markActive [simp]: "session_head (markActiveStreamsChangedLocked r) = session_head r"
  by (simp add: session_head_def markActiveStreamsChangedLocked_def)

lemma session_head_withClosed [simp]: "session_head (withClosed f r) = session_head r"
  by (simp add: session_head_def withClosed_def case_prod_beta Let_def)

lemma session_head_note [simp]: "session_head (noteStreamClosed i now quiet r) = session_head r"
  by (simp add: noteStreamClosed_def Let_def pruneRecentlyClosedLocked_def evictOldestRecentlyClosedLocked_def)

lemma session_head_fields [simp]:
  "session_head (r\<lparr>sr_Streams := ss\<rparr>) = session_head r" "session_head (r\<lparr>sr_ActiveStreams := as\<rparr>) = session_head r"
  "session_head (r\<lparr>sr_RecentlyClosed := m\<rparr>) = session_head r" "session_head (r\<lparr>sr_OrphanQueue := q\<rparr>) = session_head r"
  "session_head (r\<lparr>sr_closedFlag := b\<rparr>) = session_head r" "session_head (r\<lparr>sr_activeStreamSnapshot := sn\<rparr>) = session_head r"
  "session_head (r\<lparr>sr_activeStreamSnapshotVersion := v\<rparr>) = session_head r"
  "session_head (r\<lparr>sr_lastDeferredCleanupActivityUnixNano := t\<rparr>) = session_head r"
  by (simp_all add: session_head_def)

lemma session_head_removeActive [simp]: "session_head (removeActiveStreamLocked i r) = session_head r"
  by (simp add: removeActiveStreamLocked_def)

lemma session_head_create [simp]: "session_head (snd (getOrCreateStream mk i r)) = session_head r"
  by (auto simp: getOrCreateStream_def Let_def split: option.splits)

lemma session_head_step [simp]: "session_head (record_step mk op r) = session_head r"
  by (cases op)
    (simp_all add: removeStream_def deactivateStream_def activeStreamSnapshot_def pruneRecentlyClosed_def
      pruneRecentlyClosedLocked_def enqueueOrphanReset_def closeAllStreams_def Let_def)

lemma session_ok_head: "session_ok n i r \<Longrightarrow> session_head r' = session_head r \<Longrightarrow> record_ok m r' \<Longrightarrow> session_ok m i r'"
  by (simp add: session_ok_def session_head_def)

lemma mtu_clamped:
  "10 \<le> clampSessionInitAllowedMTU v \<and> clampSessionInitAllowedMTU v \<le> 4096"
  "10 \<le> w \<Longrightarrow> w \<le> 4096 \<Longrightarrow> 10 \<le> clampMTUToLimit x w \<and> clampMTUToLimit x w \<le> w"
proof -
  show "10 \<le> clampSessionInitAllowedMTU v \<and> clampSessionInitAllowedMTU v \<le> 4096"
    by (auto simp: clampSessionInitAllowedMTU_def word_le_def uint_word_of_int_eq take_bit_int_eq_self)
  have "10 \<le> clampMTU x" by (auto simp: clampMTU_def word_le_def)
  then show "10 \<le> w \<Longrightarrow> w \<le> 4096 \<Longrightarrow> 10 \<le> clampMTUToLimit x w \<and> clampMTUToLimit x w \<le> w"
    by (auto simp: clampMTUToLimit_def Let_def)
qed

lemma initialRecord_ok:
  fixes payload :: bytes
  assumes "length payload = sessionInitDataSize" "isValidSessionResponseMode (payload ! 0)" "0 \<le> now" "0 < ss_sessionInitTTL s" "0 < n"
  shows "session_ok n slot ((initialRecord mk slot payload u d b maxU maxD now s)\<lparr>sr_Cookie := c\<rparr>)" (is "session_ok n slot ?r")
proof -
  define r0 :: "'a sessionRecord" where "r0 = newSessionRecord (of_nat slot) payload now (ss_sessionInitTTL s) (ss_streamQueueCap s)
    (ss_maxActiveStreams s) (ss_recentlyClosedTTL s) (ss_recentlyClosedCap s)"
  define r1 where "r1 = ensureStream0 mk r0"
  have "record_ok 0 r0" unfolding r0_def by (rule record_ok_new)
  then have "record_ok (Suc 0) (snd (getOrCreateStream mk 0 r0))" by (rule record_ok_create) simp
  moreover have "\<not> sr_closedFlag r0" by (simp add: r0_def newSessionRecord_def)
  ultimately have r1: "record_ok n r1"
    using record_ok_mono [of "Suc 0" _ n] assms(5) by (auto simp: r1_def ensureStream0_def Suc_le_eq)
  have h1: "session_head r1 = session_head r0" by (simp add: r1_def ensureStream0_def)
  have ru: "sr_ReuseUntil r1 = now + ss_sessionInitTTL s"
    by (simp add: r1_def ensureStream0_def r0_def newSessionRecord_def getOrCreateStream_def Let_def markActiveStreamsChangedLocked_def)
  have "record_ok n ?r"
    by (rule record_ok_cong [OF r1])
      (simp_all add: initialRecord_def Let_def applyMTUFromSessionInit_def flip: r0_def r1_def)
  moreover have "sr_ID r1 = of_nat slot" "sr_Signature r1 = payload" "sr_ResponseMode r1 = payload ! 0"
    using h1 assms(1) by (simp_all add: session_head_def r0_def newSessionRecord_def)
  moreover have mtu: "10 \<le> clampMTUToLimit x (clampSessionInitAllowedMTU v)" "clampMTUToLimit x (clampSessionInitAllowedMTU v) \<le> 4096" for x v
    using mtu_clamped(2) [of "clampSessionInitAllowedMTU v" x] mtu_clamped(1) [of v] by auto
  moreover have "?r = r1\<lparr>sr_reuseUntilUnixNano := sr_ReuseUntil r1, sr_lastActivityUnixNano := now, sr_UploadCompression := u,
      sr_DownloadCompression := d, sr_UploadMTU := clampMTUToLimit (get16 payload 2) (clampSessionInitAllowedMTU maxU),
      sr_DownloadMTU := clampMTUToLimit (get16 payload 4) (clampSessionInitAllowedMTU maxD),
      sr_DownloadMTUBytes := uint (clampMTUToLimit (get16 payload 4) (clampSessionInitAllowedMTU maxD)),
      sr_MaxPackedBlocks := CalculateMaxPackedBlocks (uint (clampMTUToLimit (get16 payload 4) (clampSessionInitAllowedMTU maxD))) 80 b,
      sr_VerifyCode := slice payload 6 10, sr_Cookie := c\<rparr>"
    by (simp add: initialRecord_def Let_def applyMTUFromSessionInit_def flip: r0_def r1_def)
  ultimately show ?thesis
    using assms(1-4) ru CalculateMaxPackedBlocks_bounds(1) by (simp add: session_ok_def isValidSessionResponseMode_def)
qed

lemma initialRecord_fields:
  assumes "length payload = sessionInitDataSize"
  shows "sr_Signature (initialRecord mk slot payload u d b maxU maxD now s) = payload"
    "sr_reuseUntilUnixNano (initialRecord mk slot payload u d b maxU maxD now s) = now + ss_sessionInitTTL s"
    "sr_ID (initialRecord mk slot payload u d b maxU maxD now s) = of_nat slot"
    "\<not> sr_closedFlag (initialRecord mk slot payload u d b maxU maxD now s)"
  using assms
  by (simp_all add: initialRecord_def Let_def applyMTUFromSessionInit_def ensureStream0_def newSessionRecord_def getOrCreateStream_def
      markActiveStreamsChangedLocked_def)

section \<open>Operations\<close>

lemma store_okD:
  assumes "store_ok n s"
  shows "slots_ok n (ss_byID s) (ss_activeCount s)" "index_ok (ss_byID s) (ss_bySig s) (ss_nextReuseSweepUnixNano s)"
    "recent_ok (ss_byID s) (ss_recentClosed s)" "uint (ss_activeCount s) \<le> session_limit s" "0 < ss_sessionInitTTL s"
    "length (ss_byID s) = 256" "ss_byID s ! 0 = None" "length (ss_cookieBytes s) = 32"
  using assms by (simp_all add: store_ok_def slots_ok_def)

lemma store_ok_touch:
  assumes ok: "store_ok n s" and i: "i < 256" "ss_byID s ! i = Some r" and r': "session_ok m i r'" "n \<le> m"
    and same: "sr_Signature r' = sr_Signature r" "sr_reuseUntilUnixNano r' = sr_reuseUntilUnixNano r"
  shows "store_ok m (s\<lparr>ss_byID := (ss_byID s)[i := Some r']\<rparr>)"
proof -
  note okD = store_okD [OF ok]
  have "i \<noteq> 0" using okD(7) i(2) by (cases i) auto
  then have "slots_ok m ((ss_byID s)[i := Some r']) (ss_activeCount s)"
    using slots_ok_set [OF okD(1) i(1) _ r'] i(2) by simp
  moreover have "index_ok ((ss_byID s)[i := Some r']) (ss_bySig s) (ss_nextReuseSweepUnixNano s)"
    by (rule index_ok_touch [OF okD(2) i(2) _ same]) (simp add: okD(6) i(1))
  ultimately show ?thesis
    using okD recent_ok_touch [OF okD(3) i(2)] session_limit_cong [of "s\<lparr>ss_byID := (ss_byID s)[i := Some r']\<rparr>" s]
    by (simp add: store_ok_def)
qed

lemma session_at: "store_ok n s \<Longrightarrow> i < 256 \<Longrightarrow> ss_byID s ! i = Some r \<Longrightarrow> session_ok n i r"
  using store_okD(1) [of n s] by (simp add: slots_ok_def)

lemma releaseSlot_fields:
  assumes "store_ok n s" "i < 256" "ss_byID s ! i = Some r" "sr_Signature r' = sr_Signature r"
  shows "releaseSlot i r' s = s\<lparr>ss_bySig := AList.delete (sr_Signature r) (ss_bySig s), ss_byID := (ss_byID s)[i := None],
    ss_activeCount := ss_activeCount s - 1\<rparr>"
  using slots_ok_clear(2) [OF store_okD(1) [OF assms(1)] assms(2,3)] assms(4) by (simp add: releaseSlot_def Let_def)

lemma store_ok_release:
  assumes ok: "store_ok n s" and i: "i < 256" "ss_byID s ! i = Some r" and r': "sr_Signature r' = sr_Signature r"
  shows "store_ok n (releaseSlot i r' s)"
proof -
  note okD = store_okD [OF ok] and clear = slots_ok_clear [OF store_okD(1) [OF ok] i]
  have "uint (ss_activeCount s - 1) \<le> uint (ss_activeCount s)"
    using clear(2) by (simp add: uint_minus_simple_alt [THEN iffD1] word_le_sub1 word_le_def [symmetric] flip: word_neq_0_conv)
  then have "uint (ss_activeCount s - 1) \<le> session_limit (releaseSlot i r' s)"
    using okD(4) session_limit_cong [of "releaseSlot i r' s" s] by (simp add: releaseSlot_fields [OF ok i r'])
  then show ?thesis
    using okD clear(1) index_ok_clear [OF okD(2) i(2)] recent_ok_clear [OF okD(3)]
    by (simp add: store_ok_def releaseSlot_fields [OF ok i r'])
qed

lemma store_ok_recent:
  assumes "store_ok n s" "recent_ok (ss_byID s) m"
  shows "store_ok n (s\<lparr>ss_recentClosed := m\<rparr>)"
  using assms session_limit_cong [of "s\<lparr>ss_recentClosed := m\<rparr>" s] by (simp add: store_ok_def)

lemma store_ok_close: "store_ok n s \<Longrightarrow> store_ok n (snd (CloseSession i now keep s))"
proof (cases "ss_byID s ! unat i")
  case (Some r)
  assume ok: "store_ok n s"
  have sig: "sr_Signature (markClosed r) = sr_Signature r" by (simp add: markClosed_def)
  note fields = releaseSlot_fields [OF ok u8_index Some sig]
  define s1 where "s1 = releaseSlot (unat i) (markClosed r) s"
  have s1: "store_ok n s1" unfolding s1_def by (rule store_ok_release [OF ok u8_index Some sig])
  have free: "ss_byID s1 ! unat i = None" using store_okD(6) [OF ok] by (simp add: s1_def fields)
  have "recent_ok (ss_byID s1) (AList.update i c (ss_recentClosed s1))" for c
    by (rule recent_ok_update [OF store_okD(3) [OF s1] free])
  moreover have "recent_ok (ss_byID s1) (AList.delete i (ss_recentClosed s1))"
    by (rule recent_ok_sub [OF store_okD(3) [OF s1]]) (use store_okD(3) [OF s1] in \<open>auto simp: recent_ok_def AList.delete_eq keys_distinct_filter\<close>)
  ultimately show ?thesis using Some store_ok_recent [OF s1] by (simp add: CloseSession_def Let_def flip: s1_def)
qed (simp add: CloseSession_def)

lemma store_ok_cleanupSlot:
  assumes ok: "store_ok n s" and i: "i < 256"
  shows "store_ok n (snd (cleanupSlot now idle keep i (e, s)))"
proof (cases "ss_byID s ! i")
  case (Some r)
  define s1 where "s1 = releaseSlot i r s"
  have s1: "store_ok n s1" unfolding s1_def by (rule store_ok_release [OF ok i Some refl])
  have free: "ss_byID s1 ! unat (of_nat i :: u8) = None"
    using store_okD(6) [OF ok] i by (simp add: s1_def releaseSlot_fields [OF ok i Some refl])
  have "recent_ok (ss_byID s1) (AList.update (of_nat i) c (ss_recentClosed s1))" for c
    by (rule recent_ok_update [OF store_okD(3) [OF s1] free])
  then show ?thesis using Some ok s1 store_ok_recent [OF s1] by (simp add: cleanupSlot_def Let_def flip: s1_def)
qed (use ok in \<open>simp add: cleanupSlot_def\<close>)

lemma store_ok_fold_cleanup:
  "store_ok n (snd es) \<Longrightarrow> \<forall>i \<in> set l. i < 256 \<Longrightarrow> store_ok n (snd (fold (cleanupSlot now idle keep) l es))"
proof (induction l arbitrary: es)
  case (Cons i l)
  then show ?case using store_ok_cleanupSlot [of n "snd es" i now idle keep "fst es"] by simp
qed simp

definition swept :: "time \<Rightarrow> 's sessionStore \<Rightarrow> 's sessionStore" where
  "swept now s = (expireReuseLocked now s)\<lparr>ss_recentClosed := filter (\<lambda>(i, c). now < cs_ExpiresAt c) (ss_recentClosed s)\<rparr>"

lemma store_ok_swept: "store_ok n s \<Longrightarrow> store_ok n (swept now s)"
  unfolding swept_def using store_okD(3) [of n s]
  by (intro store_ok_recent store_ok_expire) (auto simp: recent_ok_def keys_distinct_filter)

lemma store_ok_cleanup: "store_ok n s \<Longrightarrow> store_ok n (snd (Cleanup now idle keep s))"
  using store_ok_fold_cleanup [of n "([], swept now s)" "[1..<Suc maxServerSessionID]" now idle keep] store_ok_swept [of n s now]
  by (simp add: Cleanup_def Let_def swept_def del: upt_Suc)

lemma store_ok_collectSlot:
  assumes ok: "store_ok n s" and i: "i < 256"
  shows "store_ok n (snd (collectIdleSlot now idle i (l, s)))"
proof (cases "ss_byID s ! i")
  case (Some r)
  let ?r = "r\<lparr>sr_lastDeferredCleanupActivityUnixNano := sr_lastActivityUnixNano r\<rparr>"
  have "record_ok n ?r" by (rule record_ok_cong [of n r]) (use session_at [OF ok i Some] in \<open>simp_all add: session_ok_def\<close>)
  then have "session_ok n i ?r" by (intro session_ok_head [OF session_at [OF ok i Some]]) simp_all
  from store_ok_touch [OF ok i Some this] show ?thesis using ok Some by (simp add: collectIdleSlot_def Let_def)
qed (use ok in \<open>simp add: collectIdleSlot_def\<close>)

lemma store_ok_collect: "store_ok n s \<Longrightarrow> store_ok n (snd (CollectIdleDeferredSessions now idle s))"
proof -
  have "store_ok n (snd ls) \<Longrightarrow> \<forall>i \<in> set is. i < 256 \<Longrightarrow> store_ok n (snd (fold (collectIdleSlot now idle) is ls))" for "is" ls
  proof (induction "is" arbitrary: ls)
    case (Cons i l)
    then show ?case using store_ok_collectSlot [of n "snd ls" i now idle "fst ls"] by simp
  qed simp
  from this [of "([], s)" "[1..<Suc maxServerSessionID]"] show "store_ok n s \<Longrightarrow> ?thesis"
    by (simp add: CollectIdleDeferredSessions_def del: upt_Suc)
qed

lemma store_ok_validate: "store_ok n s \<Longrightarrow> store_ok n (snd (ValidateAndTouch i cookie now s))"
proof (cases "ss_byID s ! unat i")
  case (Some r)
  assume ok: "store_ok n s"
  note at = session_at [OF ok u8_index Some]
  have "record_ok n (r\<lparr>sr_lastActivityUnixNano := now\<rparr>)" by (rule record_ok_cong [of n r]) (use at in \<open>simp_all add: session_ok_def\<close>)
  then have "session_ok n (unat i) (r\<lparr>sr_lastActivityUnixNano := now\<rparr>)" using at by (simp add: session_ok_def)
  from store_ok_touch [OF ok u8_index Some this] show ?thesis using ok Some by (simp add: ValidateAndTouch_def Let_def)
qed (simp add: ValidateAndTouch_def split: option.splits)

lemma store_ok_record_step:
  assumes ok: "store_ok n s" and i: "i < 256" "ss_byID s ! i = Some r" and n: "Suc n < 2 ^ 64"
  shows "store_ok (Suc n) (s\<lparr>ss_byID := (ss_byID s)[i := Some (record_step mk op r)]\<rparr>)"
proof (rule store_ok_touch [OF ok i])
  note at = session_at [OF ok i]
  show "session_ok (Suc n) i (record_step mk op r)"
    by (rule session_ok_head [OF at session_head_step record_ok_step]) (use at n in \<open>simp_all add: session_ok_def\<close>)
  show "sr_Signature (record_step mk op r) = sr_Signature r" "sr_reuseUntilUnixNano (record_step mk op r) = sr_reuseUntilUnixNano r"
    using session_head_step [of mk op r] by (simp_all add: session_head_def)
qed simp

lemma store_ok_sweep_streams:
  assumes ok: "store_ok n s"
  shows "store_ok (Suc n) (SweepRecentlyClosedStreams now s)"
proof -
  note okD = store_okD [OF ok]
  let ?f = "pruneRecentlyClosed now :: 'a sessionRecord \<Rightarrow> 'a sessionRecord"
  have head: "session_head (?f r) = session_head r" for r using session_head_step [of undefined "OpPrune now" r] by simp
  have nth: "i < 256 \<Longrightarrow> map (map_option ?f) (ss_byID s) ! i = map_option ?f (ss_byID s ! i)" for i using okD(6) by simp
  have occ: "occupied (map (map_option ?f) (ss_byID s)) = occupied (ss_byID s)" using okD(6) by (auto simp: occupied_def)
  have "session_ok (Suc n) i (?f r)" if "i < 256" "ss_byID s ! i = Some r" for i r
    by (rule session_ok_head [OF session_at [OF ok that] head record_ok_prune])
      (use session_at [OF ok that] in \<open>simp add: session_ok_def\<close>)
  then have "slots_ok (Suc n) (map (map_option ?f) (ss_byID s)) (ss_activeCount s)"
    using okD(1) unfolding slots_ok_def occ by (auto simp: nth)
  moreover have "index_ok (map (map_option ?f) (ss_byID s)) (ss_bySig s) (ss_nextReuseSweepUnixNano s)"
    using okD(2) head unfolding index_ok_def session_head_def by (fastforce simp: nth)
  moreover have "recent_ok (map (map_option ?f) (ss_byID s)) (ss_recentClosed s)" using okD(3) by (auto simp: recent_ok_def nth)
  ultimately show ?thesis
    using okD session_limit_cong [of "SweepRecentlyClosedStreams now s" s] by (simp add: store_ok_def SweepRecentlyClosedStreams_def)
qed

section \<open>Creation\<close>

lemma active_below_limit: "ss_activeCount s \<ge> word_of_int (session_limit s) \<longleftrightarrow> session_limit s \<le> uint (ss_activeCount s)"
  using session_limit_range [of s] by (simp add: word_le_def uint_word_of_int_eq take_bit_int_eq_self)

lemma slot_free_iff: "slot_free s i \<longleftrightarrow> ss_byID s ! i = None"
  by (simp add: slot_free_def split: option.splits)

lemma free_slot_exists:
  assumes ok: "store_ok n s" and room: "uint (ss_activeCount s) < session_limit s"
  obtains i where "1 \<le> i" "i < 256" "slot_free s i"
proof -
  note okD = store_okD [OF ok]
  have "uint (ss_activeCount s) = int (card (occupied (ss_byID s)))" using okD(1) by (simp add: slots_ok_def uint_nat)
  then have "int (card (occupied (ss_byID s))) < 255" using room session_limit_range(2) [of s] by linarith
  then have "card (occupied (ss_byID s)) < card {1..<256 :: nat}" by simp
  then have "\<not> {1..<256} \<subseteq> occupied (ss_byID s)" by (metis card_mono finite_occupied not_le)
  then obtain i where "i \<in> {1..<256}" "i \<notin> occupied (ss_byID s)" by blast
  then show ?thesis using okD(6) that [of i] by (auto simp: occupied_def slot_free_iff)
qed

lemma allocateSlot_spec:
  assumes ok: "store_ok n s"
  shows "allocateSlotLocked s = None \<longleftrightarrow> session_limit s \<le> uint (ss_activeCount s)"
    and "allocateSlotLocked s = Some slot \<Longrightarrow> 1 \<le> slot \<and> slot < 256 \<and> ss_byID s ! slot = None"
proof -
  define start where "start = (if unat (ss_nextID s) < 1 \<or> unat (ss_nextID s) > maxServerSessionID then 1 else unat (ss_nextID s))"
  have start: "1 \<le> start" "start \<le> 255" by (auto simp: start_def)
  have eq: "allocateSlotLocked s = (if session_limit s \<le> uint (ss_activeCount s) then None
    else case find (slot_free s) [start..<Suc maxServerSessionID] of Some slot \<Rightarrow> Some slot | None \<Rightarrow> find (slot_free s) [1..<start])"
    unfolding allocateSlotLocked_def Let_def session_limit_def [of s, symmetric] start_def [symmetric] active_below_limit ..
  show "allocateSlotLocked s = None \<longleftrightarrow> session_limit s \<le> uint (ss_activeCount s)"
  proof (cases "session_limit s \<le> uint (ss_activeCount s)")
    case False
    then obtain i where "1 \<le> i" "i < 256" "slot_free s i" using free_slot_exists [OF ok] by force
    then have "\<not> (find (slot_free s) [start..<Suc maxServerSessionID] = None \<and> find (slot_free s) [1..<start] = None)"
      unfolding find_None_iff by (cases "start \<le> i") auto
    then show ?thesis using False by (auto simp: eq split: option.splits)
  qed (simp add: eq)
  show "allocateSlotLocked s = Some slot \<Longrightarrow> 1 \<le> slot \<and> slot < 256 \<and> ss_byID s ! slot = None"
    using start by (auto simp: eq find_Some_iff slot_free_iff split: if_splits option.splits)
qed

lemma randomCookie_simps [simp]:
  "ss_byID (snd (randomCookieLocked e s)) = ss_byID s" "ss_activeCount (snd (randomCookieLocked e s)) = ss_activeCount s"
  "ss_bySig (snd (randomCookieLocked e s)) = ss_bySig s" "ss_recentClosed (snd (randomCookieLocked e s)) = ss_recentClosed s"
  "ss_nextReuseSweepUnixNano (snd (randomCookieLocked e s)) = ss_nextReuseSweepUnixNano s"
  "ss_sessionInitTTL (snd (randomCookieLocked e s)) = ss_sessionInitTTL s"
  "ss_maxActiveSessions (snd (randomCookieLocked e s)) = ss_maxActiveSessions s"
  by (simp_all add: randomCookieLocked_def Let_def split: option.splits)

lemma randomCookie_length:
  "length (ss_cookieBytes s) = 32 \<Longrightarrow> (\<forall>b. e = Some b \<longrightarrow> length b = 32) \<Longrightarrow> length (ss_cookieBytes (snd (randomCookieLocked e s))) = 32"
  by (simp add: randomCookieLocked_def Let_def split: option.splits)

lemma updateNextReuse_simps [simp]:
  "ss_byID (updateNextReuseSweepLocked t s) = ss_byID s" "ss_activeCount (updateNextReuseSweepLocked t s) = ss_activeCount s"
  "ss_bySig (updateNextReuseSweepLocked t s) = ss_bySig s" "ss_recentClosed (updateNextReuseSweepLocked t s) = ss_recentClosed s"
  "ss_sessionInitTTL (updateNextReuseSweepLocked t s) = ss_sessionInitTTL s" "ss_cookieBytes (updateNextReuseSweepLocked t s) = ss_cookieBytes s"
  "ss_maxActiveSessions (updateNextReuseSweepLocked t s) = ss_maxActiveSessions s"
  "ss_nextReuseSweepUnixNano (updateNextReuseSweepLocked t s) =
     (if ss_nextReuseSweepUnixNano s = 0 \<or> t < ss_nextReuseSweepUnixNano s then t else ss_nextReuseSweepUnixNano s)"
  by (simp_all add: updateNextReuseSweepLocked_def)

text \<open>What a new session changes in the table.\<close>

lemma createSession_some:
  fixes mk :: "u16 \<Rightarrow> u8 \<Rightarrow> int \<Rightarrow> int \<Rightarrow> 's"
  assumes slot: "allocateSlotLocked s = Some slot"
    and r_def: "r = (initialRecord mk slot payload u d b maxU maxD now s)\<lparr>sr_Cookie := fst (randomCookieLocked e s)\<rparr>"
    and cs_def: "cs = createSession mk e payload u d b maxU maxD now s"
  shows "fst cs = Inr (Some (r, False))" "ss_byID (snd cs) = (ss_byID s)[slot := Some r]" "ss_activeCount (snd cs) = ss_activeCount s + 1"
    "ss_bySig (snd cs) = AList.update payload (of_nat slot) (ss_bySig s)"
    "ss_recentClosed (snd cs) = AList.delete (of_nat slot) (ss_recentClosed s)" "ss_sessionInitTTL (snd cs) = ss_sessionInitTTL s"
    "ss_nextReuseSweepUnixNano (snd cs) = (if ss_nextReuseSweepUnixNano s = 0 \<or> sr_reuseUntilUnixNano r < ss_nextReuseSweepUnixNano s
       then sr_reuseUntilUnixNano r else ss_nextReuseSweepUnixNano s)"
    "ss_cookieBytes (snd cs) = ss_cookieBytes (snd (randomCookieLocked e s))" "ss_maxActiveSessions (snd cs) = ss_maxActiveSessions s"
  by (simp_all add: cs_def createSession_def slot Let_def case_prod_beta r_def)

lemma index_ok_create:
  assumes ok: "index_ok byID bySig sweep" and r: "sr_Signature r = sig" "0 < sr_reuseUntilUnixNano r"
    and slot: "byID ! slot = None" "slot < length byID" "slot < 256" and pos: "0 < sweep \<or> bySig = [] \<and> sweep = 0"
  shows "index_ok (byID[slot := Some r]) (AList.update sig (of_nat slot) bySig)
    (if sweep = 0 \<or> sr_reuseUntilUnixNano r < sweep then sr_reuseUntilUnixNano r else sweep)" (is "index_ok ?b ?l ?t")
proof -
  have t: "0 < ?t" "?t \<le> sr_reuseUntilUnixNano r" using r(2) pos by auto
  have entry: "\<exists>r'. ?b ! unat i = Some r' \<and> sr_Signature r' = g \<and> ?t \<le> sr_reuseUntilUnixNano r'" if e: "(g, i) \<in> set ?l" for g i
  proof (cases "(g, i) = (sig, of_nat slot)")
    case True
    then show ?thesis using slot r(1) t(2) by simp
  next
    case False
    then have old: "(g, i) \<in> set bySig" using set_update_old [OF e] by blast
    then have "bySig \<noteq> []" by auto
    then have sw: "?t \<le> sweep" using pos by auto
    from old show ?thesis
    proof (rule index_okD [OF ok])
      fix r' assume r': "byID ! unat i = Some r'" "sr_Signature r' = g" "sweep \<le> sr_reuseUntilUnixNano r'"
      then have "?b ! unat i = Some r'" using slot(1) by (auto simp: upd_nth)
      then show ?thesis using r'(2,3) sw by (intro exI [of _ r']) linarith
    qed
  qed
  have "keys_distinct ?l" using ok by (simp add: index_ok_def)
  then show ?thesis unfolding index_ok_def using t(1) entry by blast
qed

lemma store_ok_createSession:
  fixes mk :: "u16 \<Rightarrow> u8 \<Rightarrow> int \<Rightarrow> int \<Rightarrow> 's"
  assumes ok: "store_ok n s" and payload: "length payload = sessionInitDataSize" "isValidSessionResponseMode (payload ! 0)" and now: "0 \<le> now"
    and e: "\<forall>bs. e = Some bs \<longrightarrow> length bs = 32" and sweep: "ss_nextReuseSweepUnixNano s = 0 \<longrightarrow> ss_bySig s = []" "0 \<le> ss_nextReuseSweepUnixNano s"
  shows "store_ok (Suc n) (snd (createSession mk e payload u d b maxU maxD now s))" (is "store_ok _ (snd ?cs)")
proof (cases "allocateSlotLocked s")
  case None
  then show ?thesis using store_ok_mono [OF ok, of "Suc n"] by (simp add: createSession_def)
next
  case (Some slot)
  note okD = store_okD [OF ok] and at = allocateSlot_spec(2) [OF ok Some]
  define r where "r = (initialRecord mk slot payload u d b maxU maxD now s)\<lparr>sr_Cookie := fst (randomCookieLocked e s)\<rparr>"
  note cs = createSession_some [OF Some r_def refl]
  have r: "session_ok (Suc n) slot r" unfolding r_def by (rule initialRecord_ok [OF payload now okD(5)]) simp
  have sig: "sr_Signature r = payload" by (simp add: r_def initialRecord_fields [OF payload(1)])
  have "slots_ok (Suc n) (ss_byID (snd ?cs)) (ss_activeCount (snd ?cs))"
    unfolding cs by (rule slots_ok_set [OF okD(1) _ _ r]) (use at in auto)
  moreover have "index_ok (ss_byID (snd ?cs)) (ss_bySig (snd ?cs)) (ss_nextReuseSweepUnixNano (snd ?cs))"
    unfolding cs by (rule index_ok_create [OF okD(2) sig]) (use r at okD(6) sweep in \<open>auto simp: session_ok_def\<close>)
  moreover have "recent_ok (ss_byID (snd ?cs)) (ss_recentClosed (snd ?cs))"
  proof -
    have "unat i \<noteq> slot" if "(i, c) \<in> set (AList.delete (of_nat slot) (ss_recentClosed s))" for i c
      using that at by (auto simp: AList.delete_eq)
    then show ?thesis unfolding cs using okD(3)
      by (auto simp: recent_ok_def upd_nth AList.delete_eq keys_distinct_filter)
  qed
  moreover have "uint (ss_activeCount (snd ?cs)) \<le> session_limit (snd ?cs)"
  proof -
    have "uint (ss_activeCount s) < session_limit s" using allocateSlot_spec(1) [OF ok] Some by auto
    then have "uint (ss_activeCount s + 1) \<le> session_limit s"
      using session_limit_range(2) [of s] by (simp add: uint_word_ariths mod_pos_pos_trivial)
    then show ?thesis using session_limit_cong [OF cs(9)] by (simp add: cs(3))
  qed
  ultimately show ?thesis using okD(5) randomCookie_length [OF okD(8) e] by (simp add: store_ok_def cs(6,8))
qed

text \<open>After the sweep, an entry of the index is always a session that may be resumed.\<close>

definition resumable :: "bytes \<Rightarrow> time \<Rightarrow> 's sessionStore \<Rightarrow> u8 option" where
  "resumable payload now s = map_of (filter (reuse_live now (ss_byID s)) (ss_bySig s)) payload"

lemma findOrCreate_cases:
  assumes ok: "store_ok n s" and payload: "length payload = sessionInitDataSize" "isValidSessionResponseMode (payload ! 0)"
  shows "findOrCreate mk e payload u d b maxU maxD now s =
    (case resumable payload now s of
       None \<Rightarrow> createSession mk e payload u d b maxU maxD now (expireReuseLocked now s)
     | Some i \<Rightarrow> let r = (the (ss_byID s ! unat i))\<lparr>sr_lastActivityUnixNano := now\<rparr>
                 in (Inr (Some (r, True)), (expireReuseLocked now s)\<lparr>ss_byID := (ss_byID s)[unat i := Some r]\<rparr>))"
    and "resumable payload now s = Some i \<Longrightarrow>
      \<exists>r. ss_byID s ! unat i = Some r \<and> sr_Signature r = payload \<and> now \<le> sr_reuseUntilUnixNano r"
proof -
  note f = expireReuse_filter [OF store_okD(2) [OF ok], of now]
  show live: "\<exists>r. ss_byID s ! unat i = Some r \<and> sr_Signature r = payload \<and> now \<le> sr_reuseUntilUnixNano r"
    if "resumable payload now s = Some i" for i
  proof -
    have e: "(payload, i) \<in> set (ss_bySig s)" "reuse_live now (ss_byID s) (payload, i)"
      using map_of_SomeD [OF that [unfolded resumable_def]] by auto
    from e(1) show ?thesis by (rule index_okD [OF store_okD(2) [OF ok]]) (use e(2) in \<open>auto simp: reuse_live_def\<close>)
  qed
  show "findOrCreate mk e payload u d b maxU maxD now s =
    (case resumable payload now s of
       None \<Rightarrow> createSession mk e payload u d b maxU maxD now (expireReuseLocked now s)
     | Some i \<Rightarrow> let r = (the (ss_byID s ! unat i))\<lparr>sr_lastActivityUnixNano := now\<rparr>
                 in (Inr (Some (r, True)), (expireReuseLocked now s)\<lparr>ss_byID := (ss_byID s)[unat i := Some r]\<rparr>))"
    using live payload by (auto simp: findOrCreate_def Let_def f simp flip: resumable_def split: option.splits)
qed

lemma expireReuse_sweep:
  assumes ok: "store_ok n s"
  shows "ss_nextReuseSweepUnixNano (expireReuseLocked now s) = 0 \<longrightarrow> ss_bySig (expireReuseLocked now s) = []"
    "0 \<le> ss_nextReuseSweepUnixNano (expireReuseLocked now s)"
proof -
  note i = store_okD(2) [OF store_ok_expire [OF ok, of now]]
  then show "ss_nextReuseSweepUnixNano (expireReuseLocked now s) = 0 \<longrightarrow> ss_bySig (expireReuseLocked now s) = []"
    by (auto simp: index_ok_def)
  show "0 \<le> ss_nextReuseSweepUnixNano (expireReuseLocked now s)"
  proof (cases "ss_bySig s = []")
    case False
    have "\<forall>e \<in> set (ss_bySig s). \<forall>r. ss_byID s ! unat (snd e) = Some r \<longrightarrow> 0 < sr_reuseUntilUnixNano r"
      using sessions_okD [OF store_okD(1) [OF ok]] by (auto simp: session_ok_def)
    from sweepReuse_next [OF this, of 0 now] False store_okD(2) [OF ok] show ?thesis
      by (auto simp: expireReuseLocked_def index_ok_def split: prod.splits)
  qed (simp add: expireReuseLocked_def)
qed

lemma store_ok_findOrCreate:
  assumes ok: "store_ok n s" and now: "0 \<le> now" and e: "\<forall>bs. e = Some bs \<longrightarrow> length bs = 32"
  shows "store_ok (Suc n) (snd (findOrCreate mk e payload u d b maxU maxD now s))"
proof (cases "length payload = sessionInitDataSize \<and> isValidSessionResponseMode (payload ! 0)")
  case True
  note c = findOrCreate_cases [OF ok conjunct1 [OF True] conjunct2 [OF True]]
  show ?thesis
  proof (cases "resumable payload now s")
    case None
    from store_ok_createSession [OF store_ok_expire [OF ok] conjunct1 [OF True] conjunct2 [OF True] now e expireReuse_sweep [OF ok]]
    show ?thesis by (simp add: c(1) None)
  next
    case (Some i)
    from c(2) [OF this] obtain r where r: "ss_byID s ! unat i = Some r" by blast
    have r': "ss_byID (expireReuseLocked now s) ! unat i = Some r" using r by simp
    note at = session_at [OF ok u8_index r]
    have "record_ok n (r\<lparr>sr_lastActivityUnixNano := now\<rparr>)" by (rule record_ok_cong [of n r]) (use at in \<open>simp_all add: session_ok_def\<close>)
    then have "session_ok (Suc n) (unat i) (r\<lparr>sr_lastActivityUnixNano := now\<rparr>)"
      using at record_ok_mono [of n _ "Suc n"] by (simp add: session_ok_def)
    from store_ok_touch [OF store_ok_expire [OF ok] u8_index r' this] show ?thesis by (simp add: c(1) Some r Let_def)
  qed
next
  case False
  then show ?thesis using store_ok_mono [OF ok, of "Suc n"] by (auto simp: findOrCreate_def)
qed

section \<open>Sequences of operations\<close>

datatype session_op =
    OpInit "bytes option" bytes u8 u8 int int int time
  | OpValidate u8 u8 time
  | OpCloseSession u8 time duration
  | OpCleanup time duration duration
  | OpSweepClosed time
  | OpCollectIdle time duration
  | OpStream u8 record_op

fun session_step :: "(u16 \<Rightarrow> u8 \<Rightarrow> int \<Rightarrow> int \<Rightarrow> 's) \<Rightarrow> session_op \<Rightarrow> 's sessionStore \<Rightarrow> 's sessionStore" where
  "session_step mk (OpInit e payload u d b maxU maxD now) s = snd (findOrCreate mk e payload u d b maxU maxD now s)"
| "session_step mk (OpValidate i cookie now) s = snd (ValidateAndTouch i cookie now s)"
| "session_step mk (OpCloseSession i now keep) s = snd (CloseSession i now keep s)"
| "session_step mk (OpCleanup now idle keep) s = snd (Cleanup now idle keep s)"
| "session_step mk (OpSweepClosed now) s = SweepRecentlyClosedStreams now s"
| "session_step mk (OpCollectIdle now idle) s = snd (CollectIdleDeferredSessions now idle s)"
| "session_step mk (OpStream i op) s =
     (case Get i s of None \<Rightarrow> s | Some r \<Rightarrow> s\<lparr>ss_byID := (ss_byID s)[unat i := Some (record_step mk op r)]\<rparr>)"

definition session_run :: "(u16 \<Rightarrow> u8 \<Rightarrow> int \<Rightarrow> int \<Rightarrow> 's) \<Rightarrow> session_op list \<Rightarrow> 's sessionStore \<Rightarrow> 's sessionStore" where
  "session_run mk ops s = fold (session_step mk) ops s"

text \<open>Times are not negative, and the random source fills the buffer it is given.\<close>

fun op_admissible :: "session_op \<Rightarrow> bool" where
  "op_admissible (OpInit e payload u d b maxU maxD now) \<longleftrightarrow> 0 \<le> now \<and> (case e of None \<Rightarrow> True | Some bs \<Rightarrow> length bs = 32)"
| "op_admissible op \<longleftrightarrow> True"

lemma store_ok_step:
  assumes ok: "store_ok n s" and n: "Suc n < 2 ^ 64" and op: "op_admissible op"
  shows "store_ok (Suc n) (session_step mk op s)"
proof (cases op)
  case (OpInit e payload u d b maxU maxD now)
  then show ?thesis using op store_ok_findOrCreate [OF ok, of now e] by (auto split: option.splits)
next
  case (OpStream i rop)
  show ?thesis
  proof (cases "Get i s")
    case (Some r)
    then have "ss_byID s ! unat i = Some r" by (auto simp: Get_def split: option.splits if_splits)
    from store_ok_record_step [OF ok u8_index this n] show ?thesis by (simp add: OpStream Some)
  qed (use OpStream store_ok_mono [OF ok] in simp)
qed (use ok in \<open>simp_all add: store_ok_mono [OF store_ok_validate] store_ok_mono [OF store_ok_close] store_ok_mono [OF store_ok_cleanup]
    store_ok_mono [OF store_ok_collect] store_ok_sweep_streams\<close>)

lemma store_ok_run:
  "store_ok n s \<Longrightarrow> n + length ops < 2 ^ 64 \<Longrightarrow> \<forall>op \<in> set ops. op_admissible op \<Longrightarrow> store_ok (n + length ops) (session_run mk ops s)"
proof (induction ops arbitrary: n s)
  case (Cons op ops)
  then show ?case using Cons.IH [OF store_ok_step [OF Cons.prems(1), of op mk]] by (simp add: session_run_def)
qed (simp add: session_run_def)

lemma store_ok_new: "store_ok 0 ((newSessionStore orphanCap queueCap initTTL closedTTL closedCap)\<lparr>ss_maxActiveSessions := m, ss_maxActiveStreams := k\<rparr>)"
  by (simp add: store_ok_def newSessionStore_def Let_def slots_ok_def index_ok_def recent_ok_def session_limit_def
      del: replicate.simps replicate_Suc split: option.splits)

end
