(* ===== verification/SessionTableProps.thy ===== *)
theory SessionTableProps
  imports SessionTable
begin

text \<open>
  What the session table promises: its books for every history, the answers to a session-init request, retries, and the
  sweep of idle sessions.
\<close>

section \<open>A resumable session stays so\<close>

definition session_held :: "bytes \<Rightarrow> u8 \<Rightarrow> u8 \<Rightarrow> int \<Rightarrow> 's sessionStore \<Rightarrow> bool" where
  "session_held payload i cookie limit s \<longleftrightarrow> map_of (ss_bySig s) payload = Some i \<and>
     (\<exists>r. ss_byID s ! unat i = Some r \<and> sr_ID r = i \<and> sr_Cookie r = cookie \<and> sr_reuseUntilUnixNano r = limit)"

text \<open>Operations that close no session, at times up to the limit.\<close>

fun closes_none :: "int \<Rightarrow> session_op \<Rightarrow> bool" where
  "closes_none limit (OpInit e payload u d b maxU maxD now) \<longleftrightarrow> now \<le> limit"
| "closes_none limit (OpCloseSession i now keep) \<longleftrightarrow> False"
| "closes_none limit (OpCleanup now idle keep) \<longleftrightarrow> False"
| "closes_none limit op \<longleftrightarrow> True"

lemma map_of_filter_keep:
  "keys_distinct al \<Longrightarrow> map_of al k = Some v \<Longrightarrow> P (k, v) \<Longrightarrow> map_of (filter P al) k = Some v"
  by (induction al) (auto simp: keys_distinct_def split: if_splits)

lemma held_resumable:
  assumes "store_ok n s" "session_held payload i cookie limit s" "now \<le> limit"
  shows "resumable payload now s = Some i"
  unfolding resumable_def
  by (rule map_of_filter_keep) (use assms store_okD(2) [OF assms(1)] in \<open>auto simp: session_held_def index_ok_def reuse_live_def\<close>)

lemma held_expire:
  assumes "store_ok n s" "session_held payload i cookie limit s" "now \<le> limit"
  shows "session_held payload i cookie limit (expireReuseLocked now s)"
  using held_resumable [OF assms] assms(2) expireReuse_filter [OF store_okD(2) [OF assms(1)], of now]
  by (simp add: session_held_def resumable_def)

lemma held_slot:
  assumes "session_held payload i cookie limit s" "length (ss_byID s) = 256" "ss_byID s ! j = Some r" "j < 256" "ss_bySig s' = ss_bySig s"
    "ss_byID s' = (ss_byID s)[j := Some r']" "sr_ID r' = sr_ID r" "sr_Cookie r' = sr_Cookie r" "sr_reuseUntilUnixNano r' = sr_reuseUntilUnixNano r"
  shows "session_held payload i cookie limit s'"
  using assms by (auto simp: session_held_def upd_nth)

lemma held_create:
  assumes ok: "store_ok n s" and held: "session_held payload i cookie limit s" and other: "payload' \<noteq> payload"
  shows "session_held payload i cookie limit (snd (createSession mk e payload' u d b maxU maxD now s))"
proof (cases "allocateSlotLocked s")
  case (Some slot)
  note cs = createSession_some [OF Some refl refl, where mk = mk and payload = payload' and u = u and d = d and b = b and maxU = maxU and
    maxD = maxD and now = now and e = e]
  have "slot \<noteq> unat i" using allocateSlot_spec(2) [OF ok Some] held by (auto simp: session_held_def)
  then show ?thesis using held other by (simp add: session_held_def cs upd_nth AList.update_conv')
qed (use held in \<open>simp add: createSession_def\<close>)

lemma held_findOrCreate:
  assumes ok: "store_ok n s" and held: "session_held payload i cookie limit s" and now: "now \<le> limit"
  shows "session_held payload i cookie limit (snd (findOrCreate mk e payload' u d b maxU maxD now s))"
proof (cases "length payload' = sessionInitDataSize \<and> isValidSessionResponseMode (payload' ! 0)")
  case True
  note c = findOrCreate_cases [OF ok conjunct1 [OF True] conjunct2 [OF True], where now = now]
  note held1 = held_expire [OF ok held now]
  show ?thesis
  proof (cases "resumable payload' now s")
    case None
    then have "payload' \<noteq> payload" using held_resumable [OF ok held now] by auto
    from held_create [OF store_ok_expire [OF ok] held1 this] show ?thesis by (simp add: c(1) None)
  next
    case (Some j)
    from c(2) [OF this] obtain r where r: "ss_byID s ! unat j = Some r" by blast
    show ?thesis
      by (rule held_slot [OF held1, of "unat j" r _ "r\<lparr>sr_lastActivityUnixNano := now\<rparr>"]) (use r store_okD(6) [OF ok] in \<open>simp_all add: c(1) Some Let_def\<close>)
  qed
next
  case False
  then show ?thesis using held by (auto simp: findOrCreate_def)
qed

lemma held_collect:
  assumes ok: "store_ok n s" and held: "session_held payload i cookie limit s"
  shows "session_held payload i cookie limit (snd (CollectIdleDeferredSessions now idle s))"
proof -
  have slot: "store_ok n (snd (collectIdleSlot now idle j (l, s))) \<and> session_held payload i cookie limit (snd (collectIdleSlot now idle j (l, s)))"
    if "store_ok n s" "session_held payload i cookie limit s" "j < 256" for j l and s :: "'a sessionStore"
  proof (cases "ss_byID s ! j")
    case (Some r)
    have "session_held payload i cookie limit
        (s\<lparr>ss_byID := (ss_byID s)[j := Some (r\<lparr>sr_lastDeferredCleanupActivityUnixNano := sr_lastActivityUnixNano r\<rparr>)]\<rparr>)"
      by (rule held_slot [OF that(2) store_okD(6) [OF that(1)] Some that(3), where r' = "r\<lparr>sr_lastDeferredCleanupActivityUnixNano := sr_lastActivityUnixNano r\<rparr>"]) simp_all
    then show ?thesis using Some that store_ok_collectSlot [OF that(1,3)] by (simp add: collectIdleSlot_def Let_def)
  qed (use that in \<open>simp add: collectIdleSlot_def\<close>)
  have "store_ok n (snd ls) \<Longrightarrow> session_held payload i cookie limit (snd ls) \<Longrightarrow> \<forall>j \<in> set is. j < 256 \<Longrightarrow>
      session_held payload i cookie limit (snd (fold (collectIdleSlot now idle) is ls))" for "is" and ls :: "(u8 \<times> int) list \<times> 'a sessionStore"
  proof (induction "is" arbitrary: ls)
    case (Cons j l)
    then show ?case using slot [of "snd ls" j "fst ls"] by simp
  qed simp
  from this [of "([], s)" "[1..<Suc maxServerSessionID]"] show ?thesis
    using ok held by (simp add: CollectIdleDeferredSessions_def del: upt_Suc)
qed

lemma held_step:
  assumes ok: "store_ok n s" and held: "session_held payload i cookie limit s" and op: "closes_none limit op"
  shows "session_held payload i cookie limit (session_step mk op s)"
proof (cases op)
  case (OpInit e payload' u d b maxU maxD now)
  then show ?thesis using op held_findOrCreate [OF ok held] by simp
next
  case (OpValidate j c now)
  show ?thesis
  proof (cases "ss_byID s ! unat j")
    case (Some r)
    have "session_held payload i cookie limit (s\<lparr>ss_byID := (ss_byID s)[unat j := Some (r\<lparr>sr_lastActivityUnixNano := now\<rparr>)]\<rparr>)"
      by (rule held_slot [OF held store_okD(6) [OF ok] Some u8_index, where r' = "r\<lparr>sr_lastActivityUnixNano := now\<rparr>"]) simp_all
    then show ?thesis using held Some by (simp add: OpValidate ValidateAndTouch_def Let_def)
  qed (use held in \<open>simp add: OpValidate ValidateAndTouch_def split: option.splits\<close>)
next
  case (OpSweepClosed now)
  have "session_head (pruneRecentlyClosed now r) = session_head r" for r :: "'a sessionRecord"
    using session_head_step [of undefined "OpPrune now" r] by simp
  then show ?thesis
    using held store_okD(6) [OF ok] by (auto simp: OpSweepClosed SweepRecentlyClosedStreams_def session_held_def session_head_def)
next
  case (OpCollectIdle now idle)
  then show ?thesis using held_collect [OF ok held] by simp
next
  case (OpStream j rop)
  show ?thesis
  proof (cases "Get j s")
    case (Some r)
    then have r: "ss_byID s ! unat j = Some r" by (auto simp: Get_def split: option.splits if_splits)
    have "session_held payload i cookie limit (s\<lparr>ss_byID := (ss_byID s)[unat j := Some (record_step mk rop r)]\<rparr>)"
      by (rule held_slot [OF held store_okD(6) [OF ok] r u8_index, where r' = "record_step mk rop r"])
        (use session_head_step [of mk rop r] in \<open>simp_all add: session_head_def\<close>)
    then show ?thesis by (simp add: OpStream Some)
  qed (use held OpStream in simp)
qed (use op in simp_all)

lemma held_run:
  "store_ok n s \<Longrightarrow> session_held payload i cookie limit s \<Longrightarrow> n + length ops < 2 ^ 64 \<Longrightarrow> \<forall>op \<in> set ops. op_admissible op \<and> closes_none limit op \<Longrightarrow>
     session_held payload i cookie limit (session_run mk ops s)"
proof (induction ops arbitrary: n s)
  case (Cons op ops)
  then show ?case
    using Cons.IH [OF store_ok_step [OF Cons.prems(1), of op mk] held_step [OF Cons.prems(1,2), of op mk]] by (simp add: session_run_def)
qed (simp add: session_run_def)

section \<open>Idle sessions\<close>

definition idle_record :: "time \<Rightarrow> duration \<Rightarrow> 's sessionRecord \<Rightarrow> bool" where
  "idle_record now timeout r \<longleftrightarrow> sr_lastActivityUnixNano r = 0 \<or> timeout \<le> now - sr_lastActivityUnixNano r"

definition idle_at :: "time \<Rightarrow> duration \<Rightarrow> 's sessionRecord option list \<Rightarrow> nat \<Rightarrow> (u8 \<times> 's sessionRecord) option" where
  "idle_at now timeout byID i =
     (case byID ! i of None \<Rightarrow> None | Some r \<Rightarrow> if idle_record now timeout r then Some (of_nat i, markClosed r) else None)"

lemma cleanupSlot_busy: "idle_at now timeout (ss_byID s) i = None \<Longrightarrow> cleanupSlot now timeout keep i (e, s) = (e, s)"
  by (auto simp: idle_at_def idle_record_def cleanupSlot_def split: option.splits if_splits)

lemma cleanupSlot_idle:
  assumes "idle_at now timeout (ss_byID s) i = Some (j, r)" "0 < keep"
  shows "fst (cleanupSlot now timeout keep i (e, s)) = e @ [(j, r)]"
    "ss_byID (snd (cleanupSlot now timeout keep i (e, s))) = (ss_byID s)[i := None]"
    "ss_recentClosed (snd (cleanupSlot now timeout keep i (e, s))) = AList.update j (closedEntry r (now + keep)) (ss_recentClosed s)"
  using assms
  by (auto simp: idle_at_def idle_record_def cleanupSlot_def Let_def releaseSlot_def markClosed_def closedEntry_def split: option.splits if_splits)

lemma map_filter_eq: "(\<And>x. x \<in> set l \<Longrightarrow> f x = g x) \<Longrightarrow> List.map_filter f l = List.map_filter g l"
  by (induction l) (auto simp: map_filter_simps split: option.splits)

lemma cleanup_fold:
  fixes es :: "(u8 \<times> 's sessionRecord) list \<times> 's sessionStore"
  assumes "distinct l" "\<forall>i \<in> set l. i < 256" "length (ss_byID (snd es)) = 256" "0 < keep"
  shows "fst (fold (cleanupSlot now timeout keep) l es) = fst es @ List.map_filter (idle_at now timeout (ss_byID (snd es))) l \<and>
    (\<forall>i < 256. ss_byID (snd (fold (cleanupSlot now timeout keep) l es)) ! i =
       (if i \<in> set l \<and> idle_at now timeout (ss_byID (snd es)) i \<noteq> None then None else ss_byID (snd es) ! i)) \<and>
    (\<forall>i < 256. map_of (ss_recentClosed (snd (fold (cleanupSlot now timeout keep) l es))) (of_nat i) =
       (if i \<in> set l \<and> idle_at now timeout (ss_byID (snd es)) i \<noteq> None
        then Some (closedEntry (the (ss_byID (snd es) ! i)) (now + keep)) else map_of (ss_recentClosed (snd es)) (of_nat i)))"
  using assms(1-3)
proof (induction l arbitrary: es)
  case (Cons k l)
  obtain e s where es: "es = (e, s)" by (cases es)
  let ?es = "cleanupSlot now timeout keep k es"
  have inj: "(of_nat i = (of_nat k :: u8)) = (i = k)" if "i < 256" for i
    using that Cons.prems(2) by (metis u8_of_nat list.set_intros(1))
  show ?case
  proof (cases "idle_at now timeout (ss_byID s) k")
    case None
    then show ?thesis using Cons by (auto simp: es cleanupSlot_busy map_filter_simps)
  next
    case (Some jr)
    then obtain r where r: "ss_byID s ! k = Some r" "jr = (of_nat k, markClosed r)"
      by (auto simp: idle_at_def split: option.splits if_splits)
    note slot = cleanupSlot_idle [OF Some [unfolded r(2)] assms(4), of e]
    have same: "idle_at now timeout ((ss_byID s)[k := None]) i = idle_at now timeout (ss_byID s) i" if "i \<noteq> k" for i
      using that by (simp add: idle_at_def)
    have "List.map_filter (idle_at now timeout ((ss_byID s)[k := None])) l = List.map_filter (idle_at now timeout (ss_byID s)) l"
      using Cons.prems(1) by (intro map_filter_eq same) auto
    moreover have "fst (fold (cleanupSlot now timeout keep) l ?es) = fst ?es @ List.map_filter (idle_at now timeout (ss_byID (snd ?es))) l \<and>
      (\<forall>i < 256. ss_byID (snd (fold (cleanupSlot now timeout keep) l ?es)) ! i =
         (if i \<in> set l \<and> idle_at now timeout (ss_byID (snd ?es)) i \<noteq> None then None else ss_byID (snd ?es) ! i)) \<and>
      (\<forall>i < 256. map_of (ss_recentClosed (snd (fold (cleanupSlot now timeout keep) l ?es))) (of_nat i) =
         (if i \<in> set l \<and> idle_at now timeout (ss_byID (snd ?es)) i \<noteq> None
          then Some (closedEntry (the (ss_byID (snd ?es) ! i)) (now + keep)) else map_of (ss_recentClosed (snd ?es)) (of_nat i)))"
      using Cons.prems by (intro Cons.IH) (auto simp: es slot)
    ultimately show ?thesis
      using Cons.prems Some r inj same
      by (auto simp: es slot map_filter_simps upd_nth update_conv' closedEntry_def markClosed_def)
  qed
qed (simp add: map_filter_simps)

lemma cleanup_spec:
  assumes ok: "store_ok n s" and "0 < timeout" "0 < keep"
  shows "fst (Cleanup now timeout keep s) = List.map_filter (idle_at now timeout (ss_byID s)) [1..<256]"
    and "i < 256 \<Longrightarrow> ss_byID (snd (Cleanup now timeout keep s)) ! i =
      (if idle_at now timeout (ss_byID s) i \<noteq> None then None else ss_byID s ! i)"
    and "idle_at now timeout (ss_byID s) (unat m) = Some (j, r) \<Longrightarrow>
      map_of (ss_recentClosed (snd (Cleanup now timeout keep s))) m = Some (closedEntry r (now + keep))"
proof -
  note len = store_okD(6,7) [OF ok]
  have zero: "idle_at now timeout (ss_byID s) 0 = None" using len(2) by (simp add: idle_at_def)
  have c: "Cleanup now timeout keep s = fold (cleanupSlot now timeout keep) [1..<256] ([], swept now s)"
    using assms(2) by (simp add: Cleanup_def Let_def swept_def del: upt_Suc)
  note f = cleanup_fold [of "[1..<256]" "([], swept now s)" keep now timeout]
  have b: "ss_byID (swept now s) = ss_byID s" by (simp add: swept_def)
  show "fst (Cleanup now timeout keep s) = List.map_filter (idle_at now timeout (ss_byID s)) [1..<256]"
    using f assms(3) len(1) by (simp add: c b del: upt_rec_numeral)
  show "i < 256 \<Longrightarrow> ss_byID (snd (Cleanup now timeout keep s)) ! i =
      (if idle_at now timeout (ss_byID s) i \<noteq> None then None else ss_byID s ! i)" for i
    using f assms(3) len(1) zero by (cases "i = 0") (auto simp: c b simp del: upt_rec_numeral)
  show "map_of (ss_recentClosed (snd (Cleanup now timeout keep s))) i = Some (closedEntry r (now + keep))"
    if idle: "idle_at now timeout (ss_byID s) (unat i) = Some (j, r)" for i j r
  proof -
    have "unat i \<noteq> 0" using idle zero by (metis option.distinct(1))
    moreover have "closedEntry (the (ss_byID s ! unat i)) (now + keep) = closedEntry r (now + keep)"
      using idle by (auto simp: idle_at_def closedEntry_def markClosed_def split: option.splits if_splits)
    ultimately show ?thesis
      using f [THEN conjunct2, THEN conjunct2, rule_format, of "unat i"] assms(3) len(1) idle
      by (simp add: c b del: upt_rec_numeral)
  qed
qed

section \<open>Properties\<close>

abbreviation server_table :: "int \<Rightarrow> int \<Rightarrow> duration option \<Rightarrow> duration option \<Rightarrow> int option \<Rightarrow> int \<Rightarrow> int \<Rightarrow> 's sessionStore" where
  "server_table orphanCap queueCap initTTL closedTTL closedCap maxSessions maxStreams \<equiv>
     (newSessionStore orphanCap queueCap initTTL closedTTL closedCap)\<lparr>ss_maxActiveSessions := maxSessions, ss_maxActiveStreams := maxStreams\<rparr>"

lemma reachable_ok:
  assumes "length ops < 2 ^ 64" "\<forall>op \<in> set ops. op_admissible op"
  shows "store_ok (length ops) (session_run mk ops (server_table orphanCap queueCap initTTL closedTTL closedCap maxSessions maxStreams))"
  using store_ok_run [OF store_ok_new, of ops mk] assms by simp

text \<open>
  C12. For every history of session-init requests, packets, stream operations, closes and sweeps: slot 0 is
  never used, the counter is the number of used slots and within the configured limit, a record carries the number of its
  slot, a valid response mode and transfer units from 10 to 4096, the retry index leads to a live session that was created with
  that payload, a closed session is remembered only while its slot is free, and the streams of every session are in order.
\<close>

theorem session_table_consistent:
  fixes mk :: "u16 \<Rightarrow> u8 \<Rightarrow> int \<Rightarrow> int \<Rightarrow> 's"
  assumes "length ops < 2 ^ 64" "\<forall>op \<in> set ops. op_admissible op"
    and "s = session_run mk ops (server_table orphanCap queueCap initTTL closedTTL closedCap maxSessions maxStreams)"
  shows "ss_byID s ! 0 = None \<and> uint (ss_activeCount s) = int (card {i. i < 256 \<and> ss_byID s ! i \<noteq> None}) \<and>
    uint (ss_activeCount s) \<le> session_limit s \<and>
    (\<forall>i < 256. \<forall>r. ss_byID s ! i = Some r \<longrightarrow> sr_ID r = of_nat i \<and> isValidSessionResponseMode (sr_ResponseMode r) \<and>
       10 \<le> sr_UploadMTU r \<and> sr_UploadMTU r \<le> 4096 \<and> 10 \<le> sr_DownloadMTU r \<and> sr_DownloadMTU r \<le> 4096 \<and>
       sr_DownloadMTUBytes r = uint (sr_DownloadMTU r) \<and> sorted_wrt (<) (sr_ActiveStreams r) \<and>
       set (sr_ActiveStreams r) \<subseteq> fst ` set (sr_Streams r)) \<and>
    (\<forall>(sig, i) \<in> set (ss_bySig s). \<exists>r. ss_byID s ! unat i = Some r \<and> sr_Signature r = sig) \<and>
    (\<forall>(i, c) \<in> set (ss_recentClosed s). ss_byID s ! unat i = None)"
proof -
  have ok: "store_ok (length ops) s" unfolding assms(3) by (rule reachable_ok [OF assms(1,2)])
  note okD = store_okD [OF ok]
  have "uint (ss_activeCount s) = int (card {i. i < 256 \<and> ss_byID s ! i \<noteq> None})"
    using okD(1,6) by (simp add: slots_ok_def occupied_def uint_nat)
  moreover have "\<forall>i < 256. \<forall>r. ss_byID s ! i = Some r \<longrightarrow> session_ok (length ops) i r" using okD(1) by (simp add: slots_ok_def)
  then have "\<forall>i < 256. \<forall>r. ss_byID s ! i = Some r \<longrightarrow> sr_ID r = of_nat i \<and> isValidSessionResponseMode (sr_ResponseMode r) \<and>
       10 \<le> sr_UploadMTU r \<and> sr_UploadMTU r \<le> 4096 \<and> 10 \<le> sr_DownloadMTU r \<and> sr_DownloadMTU r \<le> 4096 \<and>
       sr_DownloadMTUBytes r = uint (sr_DownloadMTU r) \<and> sorted_wrt (<) (sr_ActiveStreams r) \<and>
       set (sr_ActiveStreams r) \<subseteq> fst ` set (sr_Streams r)"
    unfolding session_ok_def record_ok_def table_ok_def isValidSessionResponseMode_def by meson
  moreover have "\<forall>(sig, i) \<in> set (ss_bySig s). \<exists>r. ss_byID s ! unat i = Some r \<and> sr_Signature r = sig"
    using okD(2) unfolding index_ok_def by blast
  ultimately show ?thesis using okD(3,4,7) unfolding recent_ok_def by blast
qed

text \<open>
  C16. A session-init request of the right form, after any history, is answered in one of three ways: a
  session the retry index still has for the same payload is resumed; a full table is reported as such and left as it was;
  otherwise the request gets a slot that was free, the other slots are untouched, and the payload resumes this session for the
  configured time.
\<close>

theorem session_init_answered:
  fixes mk :: "u16 \<Rightarrow> u8 \<Rightarrow> int \<Rightarrow> int \<Rightarrow> 's"
  assumes "length ops < 2 ^ 64" "\<forall>op \<in> set ops. op_admissible op"
    and s: "s = session_run mk ops (server_table orphanCap queueCap initTTL closedTTL closedCap maxSessions maxStreams)"
    and payload: "length payload = sessionInitDataSize" "isValidSessionResponseMode (payload ! 0)"
    and now: "0 \<le> now" "case e of None \<Rightarrow> True | Some bs \<Rightarrow> length bs = 32"
    and f: "findOrCreate mk e payload u d b maxU maxD now s = (answer, s')"
  shows "case resumable payload now s of
      Some i \<Rightarrow> \<exists>r. ss_byID s ! unat i = Some r \<and> sr_Signature r = payload \<and> now \<le> sr_reuseUntilUnixNano r \<and>
        answer = Inr (Some (r\<lparr>sr_lastActivityUnixNano := now\<rparr>, True))
    | None \<Rightarrow>
        if session_limit s \<le> uint (ss_activeCount s) then answer = Inl ErrSessionTableFull \<and> ss_byID s' = ss_byID s
        else \<exists>i r. i \<noteq> 0 \<and> ss_byID s ! unat i = None \<and> answer = Inr (Some (r, False)) \<and> ss_byID s' = (ss_byID s)[unat i := Some r] \<and>
          sr_ID r = i \<and> (\<forall>t \<le> now + ss_sessionInitTTL s. resumable payload t s' = Some i)"
proof -
  have ok: "store_ok (length ops) s" unfolding s by (rule reachable_ok [OF assms(1,2)])
  note c = findOrCreate_cases [OF ok payload, where now = now]
  show ?thesis
  proof (cases "resumable payload now s")
    case (Some i)
    with c(2) [OF Some] f show ?thesis unfolding c(1) by (auto simp: Let_def)
  next
    case None
    let ?s = "expireReuseLocked now s"
    note ok1 = store_ok_expire [OF ok, of now]
    have cr: "createSession mk e payload u d b maxU maxD now ?s = (answer, s')" using f unfolding c(1) None by simp
    show ?thesis
    proof (cases "allocateSlotLocked ?s")
      case none: None
      then show ?thesis using cr allocateSlot_spec(1) [OF ok1] None by (auto simp: createSession_def)
    next
      case (Some slot)
      define r where "r = (initialRecord mk slot payload u d b maxU maxD now ?s)\<lparr>sr_Cookie := fst (randomCookieLocked e ?s)\<rparr>"
      note cs = createSession_some [OF Some r_def cr [symmetric], simplified]
      note at = allocateSlot_spec(2) [OF ok1 Some, simplified]
      have r: "sr_ID r = of_nat slot" "sr_reuseUntilUnixNano r = now + ss_sessionInitTTL s"
        by (simp_all add: r_def initialRecord_fields [OF payload(1)])
      have s': "store_ok (Suc (length ops)) s'"
        using store_ok_createSession [OF ok1 payload now(1) _ expireReuse_sweep [OF ok], of e mk u d b maxU maxD] cr now(2)
        by (auto split: option.splits)
      have "of_nat slot \<noteq> (0 :: u8)"
      proof
        assume "of_nat slot = (0 :: u8)"
        then have "unat (of_nat slot :: u8) = 0" by simp
        then show False using at by simp
      qed
      moreover have "session_held payload (of_nat slot) (sr_Cookie r) (now + ss_sessionInitTTL s) s'"
        using at store_okD(6) [OF ok] r by (simp add: session_held_def cs update_conv')
      ultimately show ?thesis
        using None at cs allocateSlot_spec(1) [OF ok1] Some r held_resumable [OF s']
        by (auto intro!: exI [of _ "of_nat slot :: u8"] exI [of _ r])
    qed
  qed
qed

text \<open>
  C15. A client that repeats its session-init request while the time for it has not run out gets the same
  session with the same cookie, whatever other requests, packets and stream operations came between, as long as no
  session was closed.
\<close>

theorem session_retry_resumes:
  fixes mk :: "u16 \<Rightarrow> u8 \<Rightarrow> int \<Rightarrow> int \<Rightarrow> 's"
  assumes "length before + length between + 1 < 2 ^ 64" "\<forall>op \<in> set before. op_admissible op"
    and s: "s = session_run mk before (server_table orphanCap queueCap initTTL closedTTL closedCap maxSessions maxStreams)"
    and payload: "length payload = sessionInitDataSize" "isValidSessionResponseMode (payload ! 0)"
    and now: "0 \<le> now" "case e of None \<Rightarrow> True | Some bs \<Rightarrow> length bs = 32"
    and f: "findOrCreate mk e payload u d b maxU maxD now s = (Inr (Some (r, False)), s')"
    and between: "\<forall>op \<in> set between. op_admissible op \<and> closes_none (now + ss_sessionInitTTL s) op" and t: "t \<le> now + ss_sessionInitTTL s"
  shows "\<exists>r'. fst (findOrCreate mk e' payload u' d' b' maxU' maxD' t (session_run mk between s')) = Inr (Some (r', True)) \<and>
    sr_ID r' = sr_ID r \<and> sr_Cookie r' = sr_Cookie r"
proof -
  have ok: "store_ok (length before) s" unfolding s using assms(1) by (intro reachable_ok assms(2)) simp
  have e: "\<forall>bs. e = Some bs \<longrightarrow> length bs = 32" using now(2) by auto
  have s': "store_ok (Suc (length before)) s'" using store_ok_findOrCreate [OF ok now(1) e, of mk payload u d b maxU maxD] f by simp
  note c = findOrCreate_cases [OF ok payload, where now = now]
  let ?s = "expireReuseLocked now s"
  have "resumable payload now s = None" using f unfolding c(1) by (auto simp: Let_def split: option.splits)
  then have cr: "createSession mk e payload u d b maxU maxD now ?s = (Inr (Some (r, False)), s')" using f unfolding c(1) by simp
  then obtain slot where slot: "allocateSlotLocked ?s = Some slot" by (auto simp: createSession_def split: option.splits)
  note cs = createSession_some [OF slot refl cr [symmetric], simplified]
  have "session_held payload (sr_ID r) (sr_Cookie r) (now + ss_sessionInitTTL s) s'"
    using allocateSlot_spec(2) [OF store_ok_expire [OF ok] slot] store_okD(6) [OF ok] cs(1)
    by (simp add: session_held_def cs(2,4) update_conv' initialRecord_fields [OF payload(1)])
  then have held: "session_held payload (sr_ID r) (sr_Cookie r) (now + ss_sessionInitTTL s) (session_run mk between s')"
    using held_run [OF s'] assms(1) between by simp
  have ok2: "store_ok (Suc (length before) + length between) (session_run mk between s')"
    using store_ok_run [OF s'] assms(1) between by simp
  obtain r2 where "ss_byID (session_run mk between s') ! unat (sr_ID r) = Some r2" "sr_ID r2 = sr_ID r" "sr_Cookie r2 = sr_Cookie r"
    using held by (auto simp: session_held_def)
  then show ?thesis
    using held_resumable [OF ok2 held t] by (simp add: findOrCreate_cases(1) [OF ok2 payload] Let_def)
qed

text \<open>
  C19. The periodic sweep closes exactly the sessions without activity for the timeout, in the order
  of their numbers, and reports each of them, marked closed; all other sessions stay, and the cookie of a closed one is kept for late packets.
\<close>

theorem cleanup_closes_idle_sessions:
  fixes mk :: "u16 \<Rightarrow> u8 \<Rightarrow> int \<Rightarrow> int \<Rightarrow> 's"
  assumes "length ops < 2 ^ 64" "\<forall>op \<in> set ops. op_admissible op"
    and s: "s = session_run mk ops (server_table orphanCap queueCap initTTL closedTTL closedCap maxSessions maxStreams)"
    and pos: "0 < timeout" "0 < keep" and c: "Cleanup now timeout keep s = (expired, s')"
  shows "expired = List.map_filter (idle_at now timeout (ss_byID s)) [1..<256] \<and>
    (\<forall>i < 256. ss_byID s' ! i = (if idle_at now timeout (ss_byID s) i \<noteq> None then None else ss_byID s ! i)) \<and>
    (\<forall>(i, r) \<in> set expired. sr_closedFlag r \<and>
       Lookup i s' = (\<lparr>lk_Cookie = sr_Cookie r, lk_ResponseMode = sr_ResponseMode r, lk_State = sessionLookupClosed\<rparr>, True))"
proof -
  have ok: "store_ok (length ops) s" unfolding s by (rule reachable_ok [OF assms(1,2)])
  note spec = cleanup_spec [OF ok pos, where now = now, unfolded c fst_conv snd_conv]
  have closed: "sr_closedFlag r \<and> Lookup i s' = (\<lparr>lk_Cookie = sr_Cookie r, lk_ResponseMode = sr_ResponseMode r, lk_State = sessionLookupClosed\<rparr>, True)"
    if e: "(i, r) \<in> set expired" for i r
  proof -
    from e obtain k where k: "k < 256" "idle_at now timeout (ss_byID s) k = Some (i, r)"
      by (auto simp: spec(1) map_filter_def simp del: upt_rec_numeral)
    then have i: "i = of_nat k" "sr_closedFlag r" by (auto simp: idle_at_def markClosed_def split: option.splits if_splits)
    then have at: "idle_at now timeout (ss_byID s) (unat i) = Some (i, r)" using k by simp
    then have "ss_byID s' ! unat i = None" using spec(2) [of "unat i"] by simp
    then show ?thesis using i(2) spec(3) [OF at] by (simp add: Lookup_def closedEntry_def)
  qed
  then show ?thesis using spec(1,2) by blast
qed


section \<open>Witnesses\<close>

definition demo_payload :: bytes where
  "demo_payload = [1, 0, 0, 100, 19, 136, 1, 2, 3, 4]"

definition demo_other :: bytes where
  "demo_other = [0, 0, 0, 100, 0, 2, 1, 2, 3, 4]"

definition demo_stream :: "u16 \<Rightarrow> u8 \<Rightarrow> int \<Rightarrow> int \<Rightarrow> u16" where
  "demo_stream i sid mtu cap = i"

definition demo_entropy :: "bytes option" where
  "demo_entropy = Some (map of_nat [7..<39])"

definition demo_init :: "bytes \<Rightarrow> time \<Rightarrow> session_op" where
  "demo_init p now = OpInit demo_entropy p 0 0 10 1200 1200 now"

abbreviation demo_table :: "u16 sessionStore" where
  "demo_table \<equiv> server_table 8 32 (Some 100) None None 2 1000"

abbreviation demo_history :: "session_op list" where
  "demo_history \<equiv> [demo_init demo_payload 10, OpStream 1 (OpGetOrCreate 5), demo_init demo_payload 120]"

lemma demo_history_admissible: "\<forall>op \<in> set demo_history. op_admissible op"
  by (simp add: demo_init_def demo_entropy_def)


lemma demo_limit: "session_limit (session_run demo_stream demo_history demo_table) = 2" "uint (ss_activeCount (session_run demo_stream demo_history demo_table)) = 2"
  "resumable demo_other 130 (session_run demo_stream demo_history demo_table) = None"
  by code_simp+

theorem session_table_consistent_witness:
  "sr_ID (the (ss_byID (session_run demo_stream demo_history demo_table) ! 2)) = 2 \<and>
   sr_DownloadMTU (the (ss_byID (session_run demo_stream demo_history demo_table) ! 2)) \<le> 4096"
proof -
  let ?s = "session_run demo_stream demo_history demo_table"
  have "map_option sr_ID (ss_byID ?s ! 2) = Some 2" by code_simp
  then obtain r where r: "ss_byID ?s ! 2 = Some r" by auto
  have "\<forall>i < 256. \<forall>r. ss_byID ?s ! i = Some r \<longrightarrow> sr_ID r = of_nat i \<and> sr_DownloadMTU r \<le> 4096"
    using session_table_consistent [OF _ demo_history_admissible refl, where mk = demo_stream and orphanCap = 8 and queueCap = 32 and initTTL = "Some 100" and closedTTL = None and
        closedCap = None and maxSessions = 2 and maxStreams = 1000] by simp
  from this [rule_format, OF _ r] show ?thesis by (simp add: r)
qed

theorem session_init_answered_witness:
  "fst (findOrCreate demo_stream None demo_other 0 0 10 1200 1200 130 (session_run demo_stream demo_history demo_table)) = Inl ErrSessionTableFull"
proof -
  let ?s = "session_run demo_stream demo_history demo_table"
  obtain answer s' where f: "findOrCreate demo_stream None demo_other 0 0 10 1200 1200 130 ?s = (answer, s')" by fastforce
  have "length demo_other = sessionInitDataSize" "isValidSessionResponseMode (demo_other ! 0)" by code_simp+
  from session_init_answered [OF _ demo_history_admissible refl this _ _ f] show ?thesis by (simp add: f demo_limit)
qed

theorem session_retry_resumes_witness:
  "\<exists>r'. fst (findOrCreate demo_stream None demo_payload 0 0 10 1200 1200 105
      (session_run demo_stream [OpStream 1 (OpGetOrCreate 9), demo_init demo_other 30]
        (snd (findOrCreate demo_stream demo_entropy demo_payload 0 0 10 1200 1200 10 demo_table)))) = Inr (Some (r', True)) \<and> sr_ID r' = 1"
proof -
  let ?f = "findOrCreate demo_stream demo_entropy demo_payload 0 0 10 1200 1200 10 demo_table"
  have "case fst ?f of Inr (Some (r, reused)) \<Rightarrow> \<not> reused \<and> sr_ID r = 1 | _ \<Rightarrow> False" by code_simp
  then obtain r where r: "?f = (Inr (Some (r, False)), snd ?f)" "sr_ID r = 1"
    by (cases ?f) (auto split: sum.splits option.splits prod.splits)
  have p: "length demo_payload = sessionInitDataSize" "isValidSessionResponseMode (demo_payload ! 0)" by code_simp+
  have "\<exists>r'. fst (findOrCreate demo_stream None demo_payload 0 0 10 1200 1200 105
      (session_run demo_stream [OpStream 1 (OpGetOrCreate 9), demo_init demo_other 30] (snd ?f))) = Inr (Some (r', True)) \<and>
      sr_ID r' = sr_ID r \<and> sr_Cookie r' = sr_Cookie r"
    by (rule session_retry_resumes [OF _ _ _ p _ _ r(1), where before = "[]" and orphanCap = 8 and queueCap = 32 and initTTL = "Some 100" and closedTTL = None and closedCap = None and maxSessions = 2 and maxStreams = 1000])
      (simp_all add: session_run_def demo_init_def demo_entropy_def newSessionStore_def)
  then show ?thesis using r(2) by auto
qed

lemma demo_cleanup: "map fst (fst (Cleanup 150 100 50 (session_run demo_stream demo_history demo_table))) = [1]"
  by code_simp

theorem cleanup_closes_idle_sessions_witness:
  "lk_State (fst (Lookup 1 (snd (Cleanup 150 100 50 (session_run demo_stream demo_history demo_table))))) = sessionLookupClosed"
proof -
  let ?s = "session_run demo_stream demo_history demo_table"
  obtain expired s' where c: "Cleanup 150 100 50 ?s = (expired, s')" by fastforce
  obtain r where e: "(1, r) \<in> set expired" using demo_cleanup by (cases expired) (auto simp: c)
  have "\<forall>(i, r) \<in> set expired. sr_closedFlag r \<and>
      Lookup i s' = (\<lparr>lk_Cookie = sr_Cookie r, lk_ResponseMode = sr_ResponseMode r, lk_State = sessionLookupClosed\<rparr>, True)"
    using cleanup_closes_idle_sessions [OF _ demo_history_admissible refl _ _ c] by simp
  with e show ?thesis by (auto simp: c)
qed


end
