(* ===== verification/StreamServer.thy ===== *)
theory StreamServer
  imports Arq MLQ
begin

text \<open>
  A stream of the server (\<open>udpserver/stream_server.go\<close>): its reliable connection and the queue of packets that wait to be
  sent. A packet is queued once; a retransmission takes the place of the first transmission of the same data.
\<close>

section \<open>Data\<close>

record serverStreamTXPacket =
  tx_PacketType :: u8
  tx_SequenceNum :: u16
  tx_FragmentID :: u8
  tx_TotalFragments :: u8
  tx_CompressionType :: u8
  tx_Payload :: bytes
  tx_CreatedAt :: time
  tx_TTL :: duration

text \<open>
  The upstream connection is known by a number; a zero \<open>CloseTime\<close> is \<open>None\<close>; \<open>st_cleaned\<close> is the state of the \<open>sync.Once\<close> that guards the
  final cleanup.
\<close>

record stream_server =
  st_ID :: u16
  st_SessionID :: u8
  st_ARQ :: "arq option"
  st_TXQueue :: "serverStreamTXPacket multiLevelQueue"
  st_Status :: string
  st_CreatedAt :: time
  st_LastActivity :: time
  st_CloseTime :: "time option"
  st_UpstreamConn :: "nat option"
  st_TargetHost :: gostring
  st_TargetPort :: u16
  st_Connected :: bool
  st_cleaned :: bool

definition NewStreamServer :: "u16 \<Rightarrow> u8 \<Rightarrow> arq \<Rightarrow> time \<Rightarrow> stream_server" where
  "NewStreamServer streamID sessionID a now =
     \<lparr>st_ID = streamID, st_SessionID = sessionID, st_ARQ = Some a, st_TXQueue = New, st_Status = ''PENDING'',
      st_CreatedAt = now, st_LastActivity = now, st_CloseTime = None, st_UpstreamConn = None, st_TargetHost = [],
      st_TargetPort = 0, st_Connected = False, st_cleaned = False\<rparr>"

section \<open>The transmit queue\<close>

definition PushTXPacket ::
  "int \<Rightarrow> u8 \<Rightarrow> u16 \<Rightarrow> u8 \<Rightarrow> u8 \<Rightarrow> u8 \<Rightarrow> duration \<Rightarrow> bytes \<Rightarrow> time \<Rightarrow> stream_server \<Rightarrow> bool \<times> stream_server" where
  "PushTXPacket priority packetType sequenceNum fragmentID totalFragments compressionType ttl payload now s =
     (let s = s\<lparr>st_LastActivity := now\<rparr>;
          priority = NormalizePacketPriority packetType priority;
          dataKey = PacketIdentityKey (st_ID s) PACKET_STREAM_DATA sequenceNum fragmentID;
          resendKey = PacketIdentityKey (st_ID s) PACKET_STREAM_RESEND sequenceNum fragmentID;
          key = PacketIdentityKey (st_ID s) packetType sequenceNum fragmentID;
          pkt = \<lparr>tx_PacketType = packetType, tx_SequenceNum = sequenceNum, tx_FragmentID = fragmentID,
                 tx_TotalFragments = totalFragments, tx_CompressionType = compressionType, tx_Payload = payload,
                 tx_CreatedAt = now, tx_TTL = ttl\<rparr>
      in if packetType = PACKET_STREAM_DATA \<and> (Get dataKey (st_TXQueue s) \<noteq> None \<or> Get resendKey (st_TXQueue s) \<noteq> None) then (False, s)
         else if packetType = PACKET_STREAM_RESEND \<and> Get resendKey (st_TXQueue s) \<noteq> None then (False, s)
         else
           let (ok, q) = Push priority key pkt (st_TXQueue s)
           in if \<not> ok then (False, s\<lparr>st_TXQueue := q\<rparr>)
              else
                let q = (if packetType = PACKET_STREAM_RESEND then snd (RemoveByKey dataKey q) else q)
                in (True, s\<lparr>st_TXQueue := q\<rparr>))"

definition streamNoteDequeued :: "time \<Rightarrow> serverStreamTXPacket \<Rightarrow> stream_server \<Rightarrow> stream_server" where
  "streamNoteDequeued now packet s =
     s\<lparr>st_ARQ := map_option (NoteTXPacketDequeued now (tx_PacketType packet) (tx_SequenceNum packet) (tx_FragmentID packet)) (st_ARQ s)\<rparr>"

definition RemoveQueuedData :: "u16 \<Rightarrow> stream_server \<Rightarrow> bool \<times> stream_server" where
  "RemoveQueuedData sequenceNum s =
     (let (p1, q) = RemoveByKey (PacketIdentityKey (st_ID s) PACKET_STREAM_DATA sequenceNum 0) (st_TXQueue s);
          (p2, q) = RemoveByKey (PacketIdentityKey (st_ID s) PACKET_STREAM_RESEND sequenceNum 0) q
      in (p1 \<noteq> None \<or> p2 \<noteq> None, s\<lparr>st_TXQueue := q\<rparr>))"

definition RemoveQueuedDataNack :: "u16 \<Rightarrow> stream_server \<Rightarrow> bool \<times> stream_server" where
  "RemoveQueuedDataNack sequenceNum s =
     (let (p, q) = RemoveByKey (PacketIdentityKey (st_ID s) PACKET_STREAM_DATA_NACK sequenceNum 0) (st_TXQueue s)
      in (p \<noteq> None, s\<lparr>st_TXQueue := q\<rparr>))"

definition ClearTXQueue :: "stream_server \<Rightarrow> stream_server" where
  "ClearTXQueue s = s\<lparr>st_TXQueue := snd (Clear True (st_TXQueue s))\<rparr>"

definition FastTXQueueSize :: "stream_server \<Rightarrow> int" where
  "FastTXQueueSize s = FastSize (st_TXQueue s)"

definition PopNextTXPacket :: "stream_server \<Rightarrow> (serverStreamTXPacket \<times> nat) option \<times> stream_server" where
  "PopNextTXPacket s = (let (r, q) = Pop (st_TXQueue s) in (r, s\<lparr>st_TXQueue := q\<rparr>))"

definition PopAnyTXPacket ::
  "int \<Rightarrow> (serverStreamTXPacket \<Rightarrow> bool) \<Rightarrow> stream_server \<Rightarrow> serverStreamTXPacket option \<times> stream_server" where
  "PopAnyTXPacket maxPriority predicate s =
     (let (r, q) = PopAnyIf maxPriority (Some predicate) (st_TXQueue s) in (r, s\<lparr>st_TXQueue := q\<rparr>))"

section \<open>The upstream connection\<close>

definition attachUpstreamConn :: "nat \<Rightarrow> gostring \<Rightarrow> u16 \<Rightarrow> string \<Rightarrow> time \<Rightarrow> stream_server \<Rightarrow> bool \<times> stream_server" where
  "attachUpstreamConn conn host port status now s =
     (if st_Status s = ''CLOSED'' \<or> st_CloseTime s \<noteq> None then (False, s)
      else if (case st_ARQ s of None \<Rightarrow> False | Some a \<Rightarrow> IsClosed a) then (False, s)
      else if st_UpstreamConn s \<noteq> None \<or> st_Connected s then (False, s)
      else
        let s = s\<lparr>st_UpstreamConn := Some conn, st_TargetHost := host, st_TargetPort := port, st_Connected := True\<rparr>;
            s = (if status \<noteq> [] then s\<lparr>st_Status := status\<rparr> else s)
        in (True, s\<lparr>st_LastActivity := now\<rparr>))"

text \<open>The connection that has to be closed is the first component.\<close>

definition cleanupResources :: "time \<Rightarrow> stream_server \<Rightarrow> nat option \<times> stream_server" where
  "cleanupResources now s =
     (st_UpstreamConn s,
      ClearTXQueue (s\<lparr>st_Status := ''CLOSED'', st_CloseTime := Some now, st_Connected := False, st_UpstreamConn := None\<rparr>))"

text \<open>The first component tells whether the cleanup ran, and with it the callback of the owner.\<close>

definition finalizeAfterARQClose :: "time \<Rightarrow> stream_server \<Rightarrow> bool \<times> nat option \<times> stream_server" where
  "finalizeAfterARQClose now s =
     (if st_cleaned s then (False, None, s)
      else let (conn, s) = cleanupResources now (s\<lparr>st_cleaned := True\<rparr>) in (True, conn, s))"

definition closeUpstreamOnly :: "string \<Rightarrow> time \<Rightarrow> stream_server \<Rightarrow> nat option \<times> stream_server" where
  "closeUpstreamOnly status now s =
     (let s1 = (if status \<noteq> [] then s\<lparr>st_Status := status\<rparr>
                else if st_Status s \<noteq> ''CLOSED'' then s\<lparr>st_Status := ''CLOSING''\<rparr> else s)
      in (st_UpstreamConn s, s1\<lparr>st_CloseTime := Some now, st_Connected := False, st_UpstreamConn := None\<rparr>))"

section \<open>One copy of every packet\<close>

definition tx_identity :: "u16 \<Rightarrow> serverStreamTXPacket \<Rightarrow> u64" where
  "tx_identity sid p = PacketIdentityKey sid (tx_PacketType p) (tx_SequenceNum p) (tx_FragmentID p)"

definition queued :: "stream_server \<Rightarrow> serverStreamTXPacket list" where
  "queued s = map (snd \<circ> snd) (contents (st_TXQueue s))"

text \<open>Two packets that carry the same piece of data.\<close>

definition same_data :: "serverStreamTXPacket \<Rightarrow> serverStreamTXPacket \<Rightarrow> bool" where
  "same_data p p' \<longleftrightarrow> tx_PacketType p = PACKET_STREAM_DATA \<and> tx_PacketType p' = PACKET_STREAM_RESEND \<and>
     tx_SequenceNum p = tx_SequenceNum p' \<and> tx_FragmentID p = tx_FragmentID p'"

definition tx_ok :: "u16 \<Rightarrow> serverStreamTXPacket multiLevelQueue \<Rightarrow> bool" where
  "tx_ok sid q \<longleftrightarrow> mlq_inv q \<and> (\<forall>(l, k, p) \<in> set (contents q). k = tx_identity sid p) \<and>
     (\<forall>c \<in> set (contents q). \<forall>c' \<in> set (contents q). \<not> same_data (snd (snd c)) (snd (snd c')))"

lemma contents_keys_distinct: "mlq_inv q \<Longrightarrow> distinct (map (fst \<circ> snd) (contents q))"
  by (auto simp: mlq_inv_def contents_def comp_def)

lemma tx_ok_sub: "tx_ok sid q \<Longrightarrow> mlq_inv q' \<Longrightarrow> set (contents q') \<subseteq> set (contents q) \<Longrightarrow> tx_ok sid q'"
  unfolding tx_ok_def by blast

lemma contents_RemoveByKey:
  assumes "mlq_inv q"
  shows "contents (snd (RemoveByKey k q)) = filter (\<lambda>c. fst (snd c) \<noteq> k) (contents q)"
  using RemoveByKey_entries(1) [OF assms, of k] by (simp add: contents_def filter_map comp_def)

lemma contents_PopAnyIf:
  assumes "mlq_inv q"
  shows "(case PopAnyIf k (Some f) q of (None, q') \<Rightarrow> q' = q \<and> (\<forall>(l, key, p) \<in> set (contents q). \<not> (int l \<le> k \<and> f p))
     | (Some p, q') \<Rightarrow> f p \<and> (\<exists>c \<in> set (contents q). snd (snd c) = p \<and> contents q' = filter (\<lambda>d. fst (snd d) \<noteq> fst (snd c)) (contents q)))"
proof (cases "find (\<lambda>x. int (fst x) \<le> k \<and> accepts (Some f) (snd x)) (entries q)")
  case None
  then have eq: "PopAnyIf k (Some f) q = (None, q)" by (simp add: PopAnyIf_eq [OF assms] take_first_def)
  have "\<not> (int (fst x) \<le> k \<and> f (entry_item x))" if "x \<in> set (entries q)" for x
    using None that by (cases x) (auto simp: find_None_iff accepts_def)
  then show ?thesis by (fastforce simp: eq contents_def)
next
  case (Some x)
  then have x: "x \<in> set (entries q)" "f (entry_item x)" using find_SomeD [OF Some] by (auto simp: accepts_def)
  have eq: "PopAnyIf k (Some f) q = (Some (entry_item x), removeElem (fst x) (snd x) q)"
    using Some by (simp add: PopAnyIf_eq [OF assms] take_first_def)
  have "(fst x, entry_key x, entry_item x) \<in> set (contents q)" using x(1) by (auto simp: contents_def)
  moreover have "contents (removeElem (fst x) (snd x) q) = filter (\<lambda>d. fst (snd d) \<noteq> entry_key x) (contents q)"
    using entry_removed(1) [OF assms x(1)] by (simp add: contents_def filter_map comp_def)
  ultimately show ?thesis using x(2) by (auto simp: eq intro!: bexI [of _ "(fst x, entry_key x, entry_item x)"])
qed

lemma Get_contents: "mlq_inv q \<Longrightarrow> Get k q = None \<longleftrightarrow> k \<notin> (fst \<circ> snd) ` set (contents q)"
  by (force simp: Get_eq find_None_iff contents_def image_image comp_def)

lemma data_identity:
  "k = tx_identity sid p \<Longrightarrow> k = PacketIdentityKey sid PACKET_STREAM_DATA sn fid \<longleftrightarrow>
     tx_PacketType p = PACKET_STREAM_DATA \<and> tx_SequenceNum p = sn \<and> tx_FragmentID p = fid"
  "k = tx_identity sid p \<Longrightarrow> k = PacketIdentityKey sid PACKET_STREAM_RESEND sn fid \<longleftrightarrow>
     tx_PacketType p = PACKET_STREAM_RESEND \<and> tx_SequenceNum p = sn \<and> tx_FragmentID p = fid"
  by (auto simp: tx_identity_def PacketIdentityKey_eq_iff session_scoped_def fragment_scoped_def)

lemma contents_Push:
  assumes "mlq_inv q"
  shows "fst (Push l k x q) \<longleftrightarrow> k \<notin> (fst \<circ> snd) ` set (contents q)"
    "fst (Push l k x q) \<Longrightarrow> set (contents (snd (Push l k x q))) = insert (push_level l, k, x) (set (contents q))"
    "\<not> fst (Push l k x q) \<Longrightarrow> snd (Push l k x q) = q"
  using mlq.push_fresh [OF assms, of k l x] mlq.push_known [OF assms, of k l x]
  by (cases "k \<in> (fst \<circ> snd) ` set (contents q)"; auto)+

abbreviation tx_packet :: "u8 \<Rightarrow> u16 \<Rightarrow> u8 \<Rightarrow> u8 \<Rightarrow> u8 \<Rightarrow> duration \<Rightarrow> bytes \<Rightarrow> time \<Rightarrow> serverStreamTXPacket" where
  "tx_packet t sn fid tf comp_type ttl payload now \<equiv>
     \<lparr>tx_PacketType = t, tx_SequenceNum = sn, tx_FragmentID = fid, tx_TotalFragments = tf, tx_CompressionType = comp_type,
      tx_Payload = payload, tx_CreatedAt = now, tx_TTL = ttl\<rparr>"

lemma in_queued: "p \<in> set (queued s) \<longleftrightarrow> (\<exists>l k. (l, k, p) \<in> set (contents (st_TXQueue s)))"
  by (force simp: queued_def)

text \<open>What a push does, told by the packets that wait.\<close>

lemma PushTXPacket_spec:
  assumes ok: "tx_ok (st_ID s) (st_TXQueue s)" and p: "p = tx_packet t sn fid tf ct ttl payload now"
    and push: "PushTXPacket prio t sn fid tf ct ttl payload now s = (accepted, s')"
  shows "st_ID s' = st_ID s" "tx_ok (st_ID s') (st_TXQueue s')"
    "accepted \<longleftrightarrow> (\<forall>p' \<in> set (queued s). tx_identity (st_ID s) p' \<noteq> tx_identity (st_ID s) p \<and> \<not> same_data p p')"
    "set (queued s') = (if accepted then insert p {p' \<in> set (queued s). \<not> same_data p' p} else set (queued s))"
proof -
  let ?q = "st_TXQueue s" and ?id = "st_ID s"
  let ?dk = "PacketIdentityKey ?id PACKET_STREAM_DATA sn fid" and ?rk = "PacketIdentityKey ?id PACKET_STREAM_RESEND sn fid"
  let ?push = "Push (NormalizePacketPriority t prio) (tx_identity ?id p) p ?q"
  define keys where "keys = (fst \<circ> snd) ` set (contents ?q)"
  have inv: "mlq_inv ?q" and ident: "\<And>l k x. (l, k, x) \<in> set (contents ?q) \<Longrightarrow> k = tx_identity ?id x" using ok by (auto simp: tx_ok_def)
  have keys: "k \<in> keys \<longleftrightarrow> (\<exists>p' \<in> set (queued s). tx_identity ?id p' = k)" for k
    using ident by (force simp: keys_def in_queued)
  have dk: "?dk \<in> keys \<longleftrightarrow> (\<exists>p' \<in> set (queued s). tx_PacketType p' = PACKET_STREAM_DATA \<and> tx_SequenceNum p' = sn \<and> tx_FragmentID p' = fid)"
    and rk: "?rk \<in> keys \<longleftrightarrow> (\<exists>p' \<in> set (queued s). tx_PacketType p' = PACKET_STREAM_RESEND \<and> tx_SequenceNum p' = sn \<and> tx_FragmentID p' = fid)"
    unfolding keys using data_identity [of _ ?id] by blast+
  have pk: "PacketIdentityKey ?id t sn fid = tx_identity ?id p" by (simp add: tx_identity_def p)
  define refused where "refused \<longleftrightarrow> t = PACKET_STREAM_DATA \<and> (?dk \<in> keys \<or> ?rk \<in> keys) \<or> t = PACKET_STREAM_RESEND \<and> ?rk \<in> keys \<or> tx_identity ?id p \<in> keys"
  define q' where "q' = (if t = PACKET_STREAM_RESEND then snd (RemoveByKey ?dk (snd ?push)) else snd ?push)"
  have eq: "(accepted, s') = (if refused then (False, s\<lparr>st_LastActivity := now\<rparr>) else (True, s\<lparr>st_LastActivity := now, st_TXQueue := q'\<rparr>))"
    using push contents_Push(1,3) [OF inv, of "NormalizePacketPriority t prio" "tx_identity ?id p" p]
    unfolding PushTXPacket_def Let_def refused_def q'_def pk [symmetric]
    by (auto simp: Get_contents [OF inv] keys_def case_prod_beta p split: if_splits)
  show id: "st_ID s' = st_ID s" using eq by (auto split: if_splits)
  have refused: "refused \<longleftrightarrow> \<not> (\<forall>p' \<in> set (queued s). tx_identity ?id p' \<noteq> tx_identity ?id p \<and> \<not> same_data p p')"
    unfolding refused_def dk rk using keys by (auto simp: same_data_def p tx_identity_def)
  then show acc: "accepted \<longleftrightarrow> (\<forall>p' \<in> set (queued s). tx_identity ?id p' \<noteq> tx_identity ?id p \<and> \<not> same_data p p')"
    using eq by (auto split: if_splits)
  have push': "set (contents (snd ?push)) = insert (push_level (NormalizePacketPriority t prio), tx_identity ?id p, p) (set (contents ?q))" if "\<not> refused"
    using contents_Push(1,2) [OF inv] that by (auto simp: refused_def keys_def)
  have invs: "mlq_inv (snd ?push)" "mlq_inv q'" by (auto simp: q'_def intro: inv_intros inv)
  have drop: "x \<in> set (contents q') \<longleftrightarrow> x \<in> set (contents (snd ?push)) \<and> \<not> same_data (snd (snd x)) p" if nr: "\<not> refused" for x
  proof (cases "x \<in> set (contents (snd ?push))")
    case True
    then have "fst (snd x) = tx_identity ?id (snd (snd x))" unfolding push' [OF nr] using ident [of "fst x"] by auto
    from data_identity(1) [OF this, of sn fid] show ?thesis
      using contents_RemoveByKey [OF invs(1), of ?dk] by (auto simp: q'_def same_data_def p)
  qed (use contents_RemoveByKey [OF invs(1), of ?dk] in \<open>auto simp: q'_def\<close>)
  have self: "\<not> same_data p p" by (simp add: same_data_def)
  show "set (queued s') = (if accepted then insert p {p' \<in> set (queued s). \<not> same_data p' p} else set (queued s))"
  proof (cases refused)
    case False
    have "x \<in> set (queued s') \<longleftrightarrow> x = p \<or> x \<in> set (queued s) \<and> \<not> same_data x p" for x
      using eq False drop [OF False] push' [OF False] self by (simp add: in_queued) blast
    then show ?thesis using eq False by auto
  qed (use eq in \<open>auto simp: in_queued\<close>)
  show "tx_ok (st_ID s') (st_TXQueue s')"
  proof (cases refused)
    case False
    then have s': "s' = s\<lparr>st_LastActivity := now, st_TXQueue := q'\<rparr>" using eq by simp
    have "\<not> same_data p (snd (snd c))" if "c \<in> set (contents ?q)" for c
      using that False refused in_queued [of "snd (snd c)" s] by (metis prod.collapse)
    moreover have "\<not> same_data x y" if "(a, k, x) \<in> set (contents ?q)" "(b, l, y) \<in> set (contents ?q)" for a k x b l y
      using ok that unfolding tx_ok_def by fastforce
    ultimately show ?thesis
      using invs(2) ident drop [OF False] push' [OF False] self unfolding tx_ok_def s' by auto
  qed (use eq ok in auto)
qed

lemma queued_sub:
  assumes ok: "tx_ok (st_ID s) (st_TXQueue s)" and inv: "mlq_inv q'" and sub: "set (contents q') \<subseteq> set (contents (st_TXQueue s))"
  shows "tx_ok (st_ID s) q'" "set (queued (s\<lparr>st_TXQueue := q'\<rparr>)) \<subseteq> set (queued s)"
  using tx_ok_sub [OF ok inv sub] sub by (auto simp: queued_def)

lemma RemoveQueued_spec:
  assumes ok: "tx_ok (st_ID s) (st_TXQueue s)"
  shows "tx_ok (st_ID s) (st_TXQueue (snd (RemoveQueuedData sn s)))" "tx_ok (st_ID s) (st_TXQueue (snd (RemoveQueuedDataNack sn s)))"
    "queued (snd (RemoveQueuedData sn s)) = filter (\<lambda>p. \<not> (tx_PacketType p \<in> {PACKET_STREAM_DATA, PACKET_STREAM_RESEND} \<and>
       tx_SequenceNum p = sn \<and> tx_FragmentID p = 0)) (queued s)"
proof -
  have inv: "mlq_inv (st_TXQueue s)" and ident: "\<And>c. c \<in> set (contents (st_TXQueue s)) \<Longrightarrow> fst (snd c) = tx_identity (st_ID s) (snd (snd c))"
    using ok by (auto simp: tx_ok_def)
  note inv1 = RemoveByKey_entries(2) [OF inv]
  have c: "contents (st_TXQueue (snd (RemoveQueuedData sn s))) =
      filter (\<lambda>c. fst (snd c) \<noteq> PacketIdentityKey (st_ID s) PACKET_STREAM_RESEND sn 0)
        (filter (\<lambda>c. fst (snd c) \<noteq> PacketIdentityKey (st_ID s) PACKET_STREAM_DATA sn 0) (contents (st_TXQueue s)))"
    by (simp add: RemoveQueuedData_def case_prod_beta Let_def contents_RemoveByKey [OF inv1] contents_RemoveByKey [OF inv])
  show "tx_ok (st_ID s) (st_TXQueue (snd (RemoveQueuedData sn s)))"
    by (rule tx_ok_sub [OF ok]) (auto simp: c, simp add: RemoveQueuedData_def case_prod_beta Let_def RemoveByKey_entries(2) [OF inv1])
  show "tx_ok (st_ID s) (st_TXQueue (snd (RemoveQueuedDataNack sn s)))"
    by (rule tx_ok_sub [OF ok]) (auto simp: RemoveQueuedDataNack_def case_prod_beta Let_def inv1 contents_RemoveByKey [OF inv])
  have "contents (st_TXQueue (snd (RemoveQueuedData sn s))) =
      filter (\<lambda>c. \<not> (tx_PacketType (snd (snd c)) \<in> {PACKET_STREAM_DATA, PACKET_STREAM_RESEND} \<and>
        tx_SequenceNum (snd (snd c)) = sn \<and> tx_FragmentID (snd (snd c)) = 0)) (contents (st_TXQueue s))"
    unfolding c filter_filter by (rule filter_cong [OF refl]) (use data_identity [OF ident] in blast)
  then show "queued (snd (RemoveQueuedData sn s)) = filter (\<lambda>p. \<not> (tx_PacketType p \<in> {PACKET_STREAM_DATA, PACKET_STREAM_RESEND} \<and>
       tx_SequenceNum p = sn \<and> tx_FragmentID p = 0)) (queued s)"
    by (simp add: queued_def filter_map comp_def)
qed

lemma tx_ok_pops:
  assumes ok: "tx_ok (st_ID s) (st_TXQueue s)"
  shows "tx_ok (st_ID s) (st_TXQueue (snd (PopNextTXPacket s)))" "tx_ok (st_ID s) (st_TXQueue (snd (PopAnyTXPacket k f s)))"
    "tx_ok (st_ID s) (st_TXQueue (ClearTXQueue s))"
proof -
  have inv: "mlq_inv (st_TXQueue s)" using ok by (simp add: tx_ok_def)
  have "set (contents (snd (Pop (st_TXQueue s)))) \<subseteq> set (contents (st_TXQueue s))"
    using mlq.pop_some [OF inv] mlq.pop_none [OF inv] by (cases "contents (st_TXQueue s)") auto
  then show "tx_ok (st_ID s) (st_TXQueue (snd (PopNextTXPacket s)))"
    using tx_ok_sub [OF ok mlq_inv_Pop [OF inv]] by (simp add: PopNextTXPacket_def case_prod_beta)
  have "set (contents (snd (PopAnyIf k (Some f) (st_TXQueue s)))) \<subseteq> set (contents (st_TXQueue s))"
    using contents_PopAnyIf [OF inv, of k f] by (auto split: prod.splits option.splits)
  then show "tx_ok (st_ID s) (st_TXQueue (snd (PopAnyTXPacket k f s)))"
    using tx_ok_sub [OF ok mlq_inv_PopAnyIf [OF inv]] by (simp add: PopAnyTXPacket_def case_prod_beta)
  have "contents (snd (Clear True (st_TXQueue s))) = []" using Clear_correct(3) [OF inv] by (simp add: contents_def)
  then show "tx_ok (st_ID s) (st_TXQueue (ClearTXQueue s))"
    using tx_ok_sub [OF ok Clear_correct(2) [OF inv, of True]] by (simp add: ClearTXQueue_def)
qed

section \<open>Sequences of operations\<close>

datatype tx_op =
    TxPush int u8 u16 u8 u8 u8 duration bytes time
  | TxAcked u16
  | TxNackDone u16
  | TxPop
  | TxPopControl int "u8 list"
  | TxClear

fun tx_step :: "tx_op \<Rightarrow> stream_server \<Rightarrow> stream_server" where
  "tx_step (TxPush prio t sn fid tf ct ttl payload now) s = snd (PushTXPacket prio t sn fid tf ct ttl payload now s)"
| "tx_step (TxAcked sn) s = snd (RemoveQueuedData sn s)"
| "tx_step (TxNackDone sn) s = snd (RemoveQueuedDataNack sn s)"
| "tx_step TxPop s = snd (PopNextTXPacket s)"
| "tx_step (TxPopControl k types) s = snd (PopAnyTXPacket k (\<lambda>p. tx_PacketType p \<in> set types) s)"
| "tx_step TxClear s = ClearTXQueue s"

definition tx_run :: "tx_op list \<Rightarrow> stream_server \<Rightarrow> stream_server" where
  "tx_run ops s = fold tx_step ops s"

lemma tx_step_ok:
  assumes "tx_ok (st_ID s) (st_TXQueue s)"
  shows "st_ID (tx_step op s) = st_ID s" "tx_ok (st_ID s) (st_TXQueue (tx_step op s))"
proof -
  have "st_ID (tx_step op s) = st_ID s \<and> tx_ok (st_ID s) (st_TXQueue (tx_step op s))"
  proof (cases op)
    case (TxPush prio t sn fid tf ct ttl payload now)
    from PushTXPacket_spec(1,2) [OF assms refl prod.collapse [symmetric], of prio t sn fid tf ct ttl payload now] show ?thesis
      by (simp add: TxPush)
  qed (use RemoveQueued_spec(1,2) [OF assms] tx_ok_pops [OF assms] in
      \<open>simp_all add: RemoveQueuedData_def RemoveQueuedDataNack_def PopNextTXPacket_def PopAnyTXPacket_def ClearTXQueue_def case_prod_beta Let_def\<close>)
  then show "st_ID (tx_step op s) = st_ID s" "tx_ok (st_ID s) (st_TXQueue (tx_step op s))" by auto
qed

lemma tx_run_ok: "tx_ok (st_ID s) (st_TXQueue s) \<Longrightarrow> st_ID (tx_run ops s) = st_ID s \<and> tx_ok (st_ID s) (st_TXQueue (tx_run ops s))"
  unfolding tx_run_def
proof (induction ops arbitrary: s)
  case (Cons op ops)
  then show ?case using tx_step_ok [OF Cons.prems, of op] Cons.IH [of "tx_step op s"] by simp
qed simp

lemma tx_ok_new: "tx_ok (st_ID (NewStreamServer i sid a now)) (st_TXQueue (NewStreamServer i sid a now))"
  by (simp add: NewStreamServer_def tx_ok_def mlq.invar_empty mlq.contents_empty)

section \<open>Properties\<close>

text \<open>
  C13. Whatever is pushed, acknowledged, popped and cleared, the transmit queue of a stream never holds two packets of
  the same identity, nor a first transmission beside a retransmission of the same data. A push is refused exactly
  when the packet, or for data its retransmission, already waits; an accepted retransmission replaces the first
  transmission, and all other packets stay.
\<close>

theorem tx_queue_one_copy:
  assumes "s = tx_run ops (NewStreamServer i sid a start)" "p = tx_packet t sn fid tf ct ttl payload now"
    and "PushTXPacket prio t sn fid tf ct ttl payload now s = (accepted, s')"
  shows "distinct (map (tx_identity i) (queued s')) \<and> (\<forall>x \<in> set (queued s'). \<forall>y \<in> set (queued s'). \<not> same_data x y) \<and>
    (accepted \<longleftrightarrow> (\<forall>x \<in> set (queued s). tx_identity i x \<noteq> tx_identity i p \<and> \<not> same_data p x)) \<and>
    set (queued s') = (if accepted then insert p {x \<in> set (queued s). \<not> same_data x p} else set (queued s))"
proof -
  have ok: "st_ID s = i" "tx_ok (st_ID s) (st_TXQueue s)"
    using tx_run_ok [OF tx_ok_new, of ops i sid a start] unfolding assms(1) by (simp_all add: NewStreamServer_def)
  note push = PushTXPacket_spec [OF ok(2) assms(2,3), unfolded ok(1)]
  have inv: "mlq_inv (st_TXQueue s')" and ident: "\<And>c. c \<in> set (contents (st_TXQueue s')) \<Longrightarrow> fst (snd c) = tx_identity i (snd (snd c))"
    using push(1,2) by (auto simp: tx_ok_def)
  have "map (tx_identity i) (queued s') = map (fst \<circ> snd) (contents (st_TXQueue s'))" by (simp add: queued_def ident)
  then have "distinct (map (tx_identity i) (queued s'))" using contents_keys_distinct [OF inv] by simp
  moreover have "\<forall>x \<in> set (queued s'). \<forall>y \<in> set (queued s'). \<not> same_data x y"
    using push(2) unfolding tx_ok_def queued_def by simp
  ultimately show ?thesis using push(3,4) by blast
qed

text \<open>
  When a piece of data is acknowledged, after any use of the queue, exactly its waiting transmissions and
  retransmissions are taken out; everything else keeps its place.
\<close>

theorem acked_data_leaves_queue:
  assumes "s = tx_run ops (NewStreamServer i sid a start)"
  shows "queued (snd (RemoveQueuedData sn s)) = filter (\<lambda>p. \<not> (tx_PacketType p \<in> {PACKET_STREAM_DATA, PACKET_STREAM_RESEND} \<and>
    tx_SequenceNum p = sn \<and> tx_FragmentID p = 0)) (queued s)"
proof -
  have "tx_ok (st_ID s) (st_TXQueue s)"
    using tx_run_ok [OF tx_ok_new, of ops i sid a start] unfolding assms by (simp add: NewStreamServer_def)
  then show ?thesis by (rule RemoveQueued_spec(3))
qed

section \<open>Witnesses\<close>

definition demo_tx :: "u8 \<Rightarrow> u16 \<Rightarrow> tx_op" where
  "demo_tx t sn = TxPush 9 t sn 0 0 0 0 [] 5"

theorem tx_queue_one_copy_witness:
  "\<forall>a. set (queued (snd (PushTXPacket 9 PACKET_STREAM_RESEND 7 0 0 0 0 [] 6
     (tx_run [demo_tx PACKET_STREAM_DATA 7, demo_tx PACKET_STREAM_RST 0] (NewStreamServer 3 1 a 0))))) =
   {tx_packet PACKET_STREAM_RESEND 7 0 0 0 0 [] 6, tx_packet PACKET_STREAM_RST 0 0 0 0 0 [] 5}"
proof
  fix a
  let ?s = "tx_run [demo_tx PACKET_STREAM_DATA 7, demo_tx PACKET_STREAM_RST 0] (NewStreamServer 3 1 a 0)"
  let ?p = "tx_packet PACKET_STREAM_RESEND 7 0 0 0 0 [] 6"
  obtain accepted s' where push: "PushTXPacket 9 PACKET_STREAM_RESEND 7 0 0 0 0 [] 6 ?s = (accepted, s')" by fastforce
  have q: "set (queued ?s) = {tx_packet PACKET_STREAM_DATA 7 0 0 0 0 [] 5, tx_packet PACKET_STREAM_RST 0 0 0 0 0 [] 5}" by code_simp
  have "(accepted \<longleftrightarrow> (\<forall>x \<in> set (queued ?s). tx_identity 3 x \<noteq> tx_identity 3 ?p \<and> \<not> same_data ?p x)) \<and>
      set (queued s') = (if accepted then insert ?p {x \<in> set (queued ?s). \<not> same_data x ?p} else set (queued ?s))"
    using tx_queue_one_copy [OF refl refl push] by blast
  then show "set (queued (snd (PushTXPacket 9 PACKET_STREAM_RESEND 7 0 0 0 0 [] 6 ?s))) = {?p, tx_packet PACKET_STREAM_RST 0 0 0 0 0 [] 5}"
    by (auto simp: push q same_data_def tx_identity_def PacketIdentityKey_eq_iff)
qed

theorem acked_data_leaves_queue_witness:
  "\<forall>a. map tx_PacketType (queued (snd (RemoveQueuedData 7 (tx_run [demo_tx PACKET_STREAM_RST 0, demo_tx PACKET_STREAM_DATA 7] (NewStreamServer 3 1 a 0))))) =
   [PACKET_STREAM_RST]"
proof
  fix a
  let ?s = "tx_run [demo_tx PACKET_STREAM_RST 0, demo_tx PACKET_STREAM_DATA 7] (NewStreamServer 3 1 a 0)"
  have "queued ?s = [tx_packet PACKET_STREAM_RST 0 0 0 0 0 [] 5, tx_packet PACKET_STREAM_DATA 7 0 0 0 0 [] 5]" by code_simp
  then show "map tx_PacketType (queued (snd (RemoveQueuedData 7 ?s))) = [PACKET_STREAM_RST]" unfolding acked_data_leaves_queue [OF refl, of 7] by simp
qed

end
