(* ===== verification/ServerDequeue.thy ===== *)
theory ServerDequeue
  imports StreamServer SessionStreams
begin

text \<open>
  What the server answers a poll with (\<open>udpserver/server_session.go\<close>, \<open>dequeueSessionResponse\<close> and what it calls): the streams
  of a session take turns, and small control packets of several streams share one answer.

  The table of a session holds addresses of streams; the streams themselves are in a store beside the record, so that the
  snapshot of the table and the table see the same objects.
\<close>

section \<open>State\<close>

record session_io =
  io_record :: "nat sessionRecord"
  io_streams :: "nat \<Rightarrow> stream_server"
  io_LastPackedControlBlock :: "packet option"
  io_LastPackedControlBlockRemaining :: int

definition set_stream :: "nat \<Rightarrow> stream_server \<Rightarrow> session_io \<Rightarrow> session_io" where
  "set_stream a s io = io\<lparr>io_streams := (io_streams io)(a := s)\<rparr>"

definition set_orphans :: "packet multiLevelQueue \<Rightarrow> session_io \<Rightarrow> session_io" where
  "set_orphans q io = io\<lparr>io_record := (io_record io)\<lparr>sr_OrphanQueue := q\<rparr>\<rparr>"

abbreviation io_orphans :: "session_io \<Rightarrow> packet multiLevelQueue" where
  "io_orphans io \<equiv> sr_OrphanQueue (io_record io)"

section \<open>Packets\<close>

definition vpnPacketFromTX :: "serverStreamTXPacket \<Rightarrow> u16 \<Rightarrow> packet" where
  "vpnPacketFromTX p streamID =
     zero_packet\<lparr>PacketType := tx_PacketType p, StreamID := streamID, SequenceNum := tx_SequenceNum p,
       FragmentID := tx_FragmentID p, TotalFragments := tx_TotalFragments p, CompressionType := tx_CompressionType p,
       HasCompressionType := (tx_CompressionType p \<noteq> TypeOff), Payload := tx_Payload p,
       HasSequenceNum := (tx_SequenceNum p \<noteq> 0), HasFragmentInfo := (tx_FragmentID p \<noteq> 0 \<or> tx_TotalFragments p \<noteq> 0),
       HasStreamID := True\<rparr>"

text \<open>The transmit packet made of an orphan; the fields it does not set are zero.\<close>

definition txFromOrphan :: "packet \<Rightarrow> serverStreamTXPacket" where
  "txFromOrphan p =
     \<lparr>tx_PacketType = PacketType p, tx_SequenceNum = SequenceNum p, tx_FragmentID = FragmentID p,
      tx_TotalFragments = TotalFragments p, tx_CompressionType = 0, tx_Payload = Payload p, tx_CreatedAt = 0, tx_TTL = 0\<rparr>"

definition tx_block :: "u16 \<Rightarrow> serverStreamTXPacket \<Rightarrow> control_block" where
  "tx_block streamID p = (tx_PacketType p, streamID, tx_SequenceNum p, tx_FragmentID p, tx_TotalFragments p)"

definition orphan_block :: "packet \<Rightarrow> control_block" where
  "orphan_block p = (PacketType p, StreamID p, SequenceNum p, FragmentID p, TotalFragments p)"

section \<open>Packing control packets\<close>

type_synonym pack_state = "bytes \<times> int \<times> session_io"

function packOrphans :: "int \<Rightarrow> pack_state \<Rightarrow> pack_state" where
  "packOrphans limit (payload, blocks, io) =
     (if blocks < limit
      then if FastSize (io_orphans io) = 0 then (payload, blocks, io)
           else case PopAnyIf 2 (Some (\<lambda>p. IsPackableControlPacket (PacketType p) 0)) (io_orphans io) of
               (None, q) \<Rightarrow> (payload, blocks, set_orphans q io)
             | (Some popped, q) \<Rightarrow>
                 packOrphans limit (AppendPackedControlBlock payload (orphan_block popped), blocks + 1, set_orphans q io)
      else (payload, blocks, io))"
  by pat_completeness auto
termination by (relation "measure (\<lambda>(limit, payload, blocks, io). nat (limit - blocks))") auto

function packStream :: "time \<Rightarrow> int \<Rightarrow> int \<Rightarrow> nat \<Rightarrow> pack_state \<Rightarrow> pack_state" where
  "packStream now limit i a (payload, blocks, io) =
     (if blocks < limit
      then if FastTXQueueSize (io_streams io a) = 0 then (payload, blocks, io)
           else case PopAnyTXPacket 2 (\<lambda>p. IsPackableControlPacket (tx_PacketType p) (int (length (tx_Payload p)))) (io_streams io a) of
               (None, s) \<Rightarrow> (payload, blocks, set_stream a s io)
             | (Some popped, s) \<Rightarrow>
                 packStream now limit i a
                   (AppendPackedControlBlock payload (tx_block (word_of_int i) popped), blocks + 1,
                    set_stream a (streamNoteDequeued now popped s) io)
      else (payload, blocks, io))"
  by pat_completeness auto
termination by (relation "measure (\<lambda>(now, limit, i, a, payload, blocks, io). nat (limit - blocks))") auto

declare packOrphans.simps [simp del] packStream.simps [simp del]

definition processID :: "time \<Rightarrow> int \<Rightarrow> int \<times> nat option \<Rightarrow> pack_state \<Rightarrow> pack_state" where
  "processID now limit c st =
     (case c of (i, stream) \<Rightarrow>
        if i = - 1 then packOrphans limit st
        else case stream of None \<Rightarrow> st | Some a \<Rightarrow> packStream now limit i a st)"

text \<open>The calls of \<open>processID\<close> in turn; the first that finds the answer full ends the packing.\<close>

fun processAll :: "time \<Rightarrow> int \<Rightarrow> (int \<times> nat option) list \<Rightarrow> pack_state \<Rightarrow> pack_state" where
  "processAll now limit [] st = st"
| "processAll now limit (c # cs) st =
     (if fst (snd st) \<ge> limit then st else processAll now limit cs (processID now limit c st))"

definition packOrder :: "int \<Rightarrow> bool \<Rightarrow> (int \<times> nat option) list \<Rightarrow> (int \<times> nat option) list" where
  "packOrder initialID hasOrphan ready =
     (let initialIndex = (if initialID \<noteq> - 1 then find (\<lambda>k. fst (ready ! k) = initialID) [0..<length ready] else None);
          initialStream = (case initialIndex of None \<Rightarrow> None | Some k \<Rightarrow> snd (ready ! k))
      in [(initialID, initialStream)] @
         (if hasOrphan \<and> initialID \<noteq> - 1 then [(- 1, None)] else []) @
         (case initialIndex of Some k \<Rightarrow> drop (Suc k) ready @ take k ready | None \<Rightarrow> ready) @
         (if initialID = - 1 \<and> hasOrphan then ready else []))"

definition packControlBlocks :: "time \<Rightarrow> serverStreamTXPacket \<Rightarrow> int \<Rightarrow> u16 \<Rightarrow> session_io \<Rightarrow> packet \<times> session_io" where
  "packControlBlocks now first initialID initialStreamID io =
     (let limit = sr_MaxPackedBlocks (io_record io)
      in if limit \<le> 1 then (vpnPacketFromTX first initialStreamID, io)
         else
           let payload = AppendPackedControlBlock [] (tx_block initialStreamID first);
               (ready, r) = activeStreamSnapshot (io_record io);
               io = io\<lparr>io_record := r\<rparr>;
               hasOrphan = FastSize (io_orphans io) > 0;
               (payload, blocks, io) = processAll now limit (packOrder initialID hasOrphan ready) (payload, 1, io)
           in if blocks \<le> 1 then (vpnPacketFromTX first initialStreamID, io)
              else (zero_packet\<lparr>PacketType := PACKET_PACKED_CONTROL_BLOCKS, Payload := payload, StreamID := 0, HasStreamID := True\<rparr>, io))"

definition dequeueDuplicatedPackedControlBlock :: "session_io \<Rightarrow> packet option \<times> session_io" where
  "dequeueDuplicatedPackedControlBlock io =
     (case io_LastPackedControlBlock io of
        None \<Rightarrow> (None, io)
      | Some packet \<Rightarrow>
          if io_LastPackedControlBlockRemaining io \<le> 0 then (None, io)
          else
            let io = io\<lparr>io_LastPackedControlBlockRemaining := io_LastPackedControlBlockRemaining io - 1\<rparr>;
                io = (if io_LastPackedControlBlockRemaining io \<le> 0
                      then io\<lparr>io_LastPackedControlBlock := None, io_LastPackedControlBlockRemaining := 0\<rparr> else io)
            in (Some packet, io))"

definition cachePackedControlBlockDuplicate :: "int \<Rightarrow> packet \<Rightarrow> session_io \<Rightarrow> session_io" where
  "cachePackedControlBlockDuplicate duplication packet io =
     (if duplication \<le> 1 \<or> PacketType packet \<noteq> PACKET_PACKED_CONTROL_BLOCKS
      then io\<lparr>io_LastPackedControlBlock := None, io_LastPackedControlBlockRemaining := 0\<rparr>
      else io\<lparr>io_LastPackedControlBlock := Some packet, io_LastPackedControlBlockRemaining := duplication - 1\<rparr>)"

section \<open>Taking turns\<close>

definition startIndex :: "int \<Rightarrow> (int \<times> nat option) list \<Rightarrow> nat" where
  "startIndex rrStreamID cands = (case find (\<lambda>k. fst (cands ! k) \<ge> rrStreamID) [0..<length cands] of None \<Rightarrow> 0 | Some k \<Rightarrow> k)"

text \<open>A packet was taken from candidate \<open>i\<close>.\<close>

definition respond :: "int \<Rightarrow> time \<Rightarrow> serverStreamTXPacket \<Rightarrow> int \<Rightarrow> u16 \<Rightarrow> session_io \<Rightarrow> packet \<times> session_io" where
  "respond duplication now item i selectedStreamID io =
     (let io = io\<lparr>io_record := (io_record io)\<lparr>sr_RRStreamID := i + 1\<rparr>\<rparr>
      in if IsPackableControlPacket (tx_PacketType item) (int (length (tx_Payload item))) \<and> sr_MaxPackedBlocks (io_record io) > 1
         then let (pkt, io) = packControlBlocks now item i selectedStreamID io
              in (pkt, cachePackedControlBlockDuplicate duplication pkt io)
         else (vpnPacketFromTX item selectedStreamID, io))"

fun serveCandidates :: "int \<Rightarrow> time \<Rightarrow> (int \<times> nat option) list \<Rightarrow> session_io \<Rightarrow> packet option \<times> session_io" where
  "serveCandidates duplication now [] io = (None, io)"
| "serveCandidates duplication now ((i, stream) # rest) io =
     (if i = - 1
      then case Pop (io_orphans io) of
          (None, q) \<Rightarrow> serveCandidates duplication now rest (set_orphans q io)
        | (Some (p, _), q) \<Rightarrow>
            let (pkt, io) = respond duplication now (txFromOrphan p) i (StreamID p) (set_orphans q io) in (Some pkt, io)
      else case stream of
          None \<Rightarrow> serveCandidates duplication now rest io
        | Some a \<Rightarrow>
            let s = io_streams io a
            in if FastTXQueueSize s = 0 then serveCandidates duplication now rest io
               else if (case st_ARQ s of None \<Rightarrow> False | Some arq \<Rightarrow> IsClosed arq)
               then serveCandidates duplication now rest
                      ((set_stream a (ClearTXQueue s) io)\<lparr>io_record := deactivateStream (word_of_int i) (io_record io)\<rparr>)
               else case PopNextTXPacket s of
                   (None, s) \<Rightarrow> serveCandidates duplication now rest (set_stream a s io)
                 | (Some (popped, _), s) \<Rightarrow>
                     let s = streamNoteDequeued now popped s;
                         io = set_stream a s io
                     in if (tx_PacketType popped = PACKET_STREAM_DATA \<or> tx_PacketType popped = PACKET_STREAM_RESEND) \<and>
                           (case st_ARQ s of None \<Rightarrow> False | Some arq \<Rightarrow> \<not> HasPendingSequence (tx_SequenceNum popped) arq)
                        then serveCandidates duplication now rest io
                        else let (pkt, io) = respond duplication now popped i (word_of_int i) io in (Some pkt, io))"

definition dequeueSessionResponse :: "int \<Rightarrow> time \<Rightarrow> session_io \<Rightarrow> packet option \<times> session_io" where
  "dequeueSessionResponse duplication now io =
     (case dequeueDuplicatedPackedControlBlock io of
        (Some pkt, io) \<Rightarrow> (Some pkt, io)
      | (None, io) \<Rightarrow>
          let rrStreamID = sr_RRStreamID (io_record io);
              (ready, r) = activeStreamSnapshot (io_record io);
              io = io\<lparr>io_record := r\<rparr>;
              hasOrphan = FastSize (io_orphans io) > 0;
              cands = (if hasOrphan then [(- 1, None)] else []) @ ready;
              startIdx = startIndex rrStreamID cands
          in serveCandidates duplication now (drop startIdx cands @ take startIdx cands) io)"

end
