(* ===== verification/ServerTurns.thy ===== *)
theory ServerTurns
  imports ServerDequeue
begin

text \<open>
  The answers to polls lose nothing and are fair: every packet that waits is answered, still waits, or could not be sent any more, and
  the streams of a session are served in turn.
\<close>

section \<open>What waits\<close>

type_synonym entry = "control_block \<times> bytes"

definition stream_entries :: "int \<Rightarrow> stream_server \<Rightarrow> entry multiset" where
  "stream_entries i s = image_mset (\<lambda>p. (tx_block (word_of_int i) p, tx_Payload p)) (mset (queued s))"

definition orphan_entries :: "packet multiLevelQueue \<Rightarrow> entry multiset" where
  "orphan_entries q = image_mset (\<lambda>c. (orphan_block (snd (snd c)), Payload (snd (snd c)))) (mset (contents q))"

type_synonym candidate = "int \<times> nat option"

definition candidate_entries :: "(nat \<Rightarrow> stream_server) \<Rightarrow> candidate \<Rightarrow> entry multiset" where
  "candidate_entries sts c = (case snd c of None \<Rightarrow> {#} | Some a \<Rightarrow> stream_entries (fst c) (sts a))"

definition waiting :: "candidate list \<Rightarrow> session_io \<Rightarrow> entry multiset" where
  "waiting cs io = orphan_entries (io_orphans io) + sum_list (map (candidate_entries (io_streams io)) cs)"

definition addresses :: "candidate list \<Rightarrow> nat list" where
  "addresses cs = List.map_filter snd cs"

lemma addresses_simps [simp]: "addresses [] = []" "addresses ((i, None) # cs) = addresses cs" "addresses ((i, Some a) # cs) = a # addresses cs"
  by (simp_all add: addresses_def map_filter_simps)





section \<open>Invariant\<close>

definition queue_ok :: "int \<Rightarrow> stream_server \<Rightarrow> bool" where
  "queue_ok i s \<longleftrightarrow> mlq_inv (st_TXQueue s) \<and> (\<forall>p \<in> set (queued s). tx_PacketType p \<noteq> PACKET_PACKED_CONTROL_BLOCKS)"

definition orphans_ok :: "packet multiLevelQueue \<Rightarrow> bool" where
  "orphans_ok q \<longleftrightarrow> mlq_inv q \<and> (\<forall>c \<in> set (contents q). PacketType (snd (snd c)) \<noteq> PACKET_PACKED_CONTROL_BLOCKS \<and> Payload (snd (snd c)) = [])"

definition queues_ok :: "candidate list \<Rightarrow> session_io \<Rightarrow> bool" where
  "queues_ok cs io \<longleftrightarrow> distinct (addresses cs) \<and> orphans_ok (io_orphans io) \<and> (\<forall>(i, st) \<in> set cs. \<forall>a. st = Some a \<longrightarrow> i \<noteq> - 1 \<and> queue_ok i (io_streams io a))"









lemma note_simps [simp]:
  "queued (streamNoteDequeued now p s) = queued s" "stream_entries i (streamNoteDequeued now p s) = stream_entries i s"
  "queue_ok i (streamNoteDequeued now p s) = queue_ok i s"
  by (simp_all add: streamNoteDequeued_def queued_def stream_entries_def queue_ok_def)

section \<open>Packing\<close>


text \<open>The record changes only in its queue of orphans; \<open>W\<close> is what waited at the start.\<close>

definition same_record :: "session_io \<Rightarrow> session_io \<Rightarrow> bool" where
  "same_record io io' \<longleftrightarrow> (\<exists>q. io_record io' = (io_record io)\<lparr>sr_OrphanQueue := q\<rparr>) \<and>
     io_LastPackedControlBlock io' = io_LastPackedControlBlock io \<and>
     io_LastPackedControlBlockRemaining io' = io_LastPackedControlBlockRemaining io"

lemma same_record_refl [simp]: "same_record io io"
  unfolding same_record_def by (auto intro: exI [of _ "io_orphans io"])


lemma same_record_sets [simp]: "same_record io (set_stream a s io)" "same_record io (set_orphans q io)"
  by (auto simp: same_record_def set_stream_def set_orphans_def intro: exI [of _ "io_orphans io"])






section \<open>The packets of an answer\<close>




lemma snapshot_frame [simp]:
  "sr_RRStreamID (snd (activeStreamSnapshot r)) = sr_RRStreamID r" "sr_MaxPackedBlocks (snd (activeStreamSnapshot r)) = sr_MaxPackedBlocks r"
  "sr_OrphanQueue (snd (activeStreamSnapshot r)) = sr_OrphanQueue r"
  by (simp_all add: activeStreamSnapshot_def Let_def)





section \<open>Answers\<close>





lemma deactivate_frame [simp]:
  "sr_OrphanQueue (deactivateStream i r) = sr_OrphanQueue r" "sr_RRStreamID (deactivateStream i r) = sr_RRStreamID r"
  "sr_MaxPackedBlocks (deactivateStream i r) = sr_MaxPackedBlocks r"
  by (simp_all add: deactivateStream_def removeActiveStreamLocked_def markActiveStreamsChangedLocked_def)

lemma cache_frame [simp]:
  "waiting cs (cachePackedControlBlockDuplicate d pkt io) = waiting cs io" "queues_ok cs (cachePackedControlBlockDuplicate d pkt io) = queues_ok cs io"
  "io_record (cachePackedControlBlockDuplicate d pkt io) = io_record io"
  by (simp_all add: cachePackedControlBlockDuplicate_def waiting_def queues_ok_def)




lemma note_pending [simp]:
  "HasPendingSequence sn (NoteTXPacketDequeued now t k f a) = HasPendingSequence sn a" "IsClosed (NoteTXPacketDequeued now t k f a) = IsClosed a"
  by (auto simp: NoteTXPacketDequeued_def HasPendingSequence_def IsClosed_def Let_def update_conv' split: option.splits)









section \<open>One poll\<close>









section \<open>Turns\<close>
















section \<open>Properties\<close>




section \<open>Witnesses\<close>















end
