(* ===== verification/Spec2Isabelle.thy ===== *)
theory Spec2Isabelle
  imports Enums BaseCodec Compression Security VpnProto SessionAccept MLQ FragmentStore Inflight DnsParser
    Base64 GoStrings DnsTransport DnsTunnel DomainMatcher Uplink Arq ArqClose ArqData ArqTimer ArqContract ArqSteps ArqStream ArqTransfer ArqTiming
    GoNet RateLimit CookieTracker DnsCache DnsCacheSpec DnsCacheFile
    GoHeap SessionRecord SessionStreams SessionStore SessionTable SessionTableProps StreamServer ServerDequeue ServerTurns
begin

text \<open>
  A model of the protocol core of MasterDnsVPN-plus (\<open>src/workspace/MasterDnsVPN-plus/internal\<close>), a VPN whose packets travel
  as DNS questions and TXT answers. File names below are relative to that directory.

  \<^bold>\<open>The program.\<close> A client and a server exchange VPN frames (\<open>vpnproto\<close>). On the way to the server a frame is
  compressed (\<open>compression\<close>), encrypted (\<open>security\<close>), written in base 36 (\<open>basecodec\<close>) and placed as labels in front of a
  tunnel domain in a question packet (\<open>dnsparser/transport.go\<close>); the server parses the question (\<open>dnsparser/parser.go\<close>),
  recognises its domain (\<open>domainmatcher\<close>) and decodes the labels. On the way back a frame is cut into TXT strings of an answer.
  Frames carry reliable streams (\<open>arq\<close>), whose packets wait in priority queues (\<open>mlq\<close>); large messages are
  reassembled from fragments (\<open>fragmentstore\<close>), and concurrent identical requests share one upstream query (\<open>inflight\<close>).
  The client keeps DNS answers in a cache (\<open>dnscache\<close>) and refuses addresses that fail to log in too often
  (\<open>client/socks_ratelimit.go\<close>). The server holds up to 255 sessions, each with a table of streams (\<open>udpserver/session.go\<close>), and
  limits the errors it answers to packets with a wrong cookie (\<open>udpserver/invalid_cookie_tracker.go\<close>).

  \<^bold>\<open>Theories and sources.\<close>
  \<^item> \<open>Prelude\<close>: types, big-endian words, association lists, error results, and the laws of codecs as locales.
  \<^item> \<open>Enums\<close>: \<open>enums/*.go\<close>, packet types, their acknowledgements, priorities, names and identity keys.
  \<^item> \<open>BaseCodec\<close>, \<open>Base64\<close>: \<open>basecodec/lowerbase36.go\<close>, \<open>codec.go\<close>, \<open>rawbase64.go\<close>.
  \<^item> \<open>Compression\<close>: \<open>compression/types.go\<close>. \<open>Security\<close>: \<open>security/codec.go\<close>.
  \<^item> \<open>VpnProto\<close>: \<open>vpnproto/parser.go\<close>, \<open>builder.go\<close>, \<open>packing.go\<close>, \<open>payload.go\<close>, \<open>utils.go\<close>. \<open>SessionAccept\<close>:
    \<open>vpnproto/session_accept.go\<close>.
  \<^item> \<open>MLQ\<close>: \<open>mlq/mlq.go\<close>. \<open>FragmentStore\<close>: \<open>fragmentstore/store.go\<close>. \<open>Inflight\<close>: \<open>inflight/manager.go\<close>.
  \<^item> \<open>DnsParser\<close>: \<open>dnsparser/parser.go\<close>, \<open>response.go\<close>, \<open>policy.go\<close>. \<open>DnsTransport\<close>: \<open>dnsparser/transport.go\<close>, with the functions
    of package \<open>strings\<close> it uses in \<open>GoStrings\<close>; \<open>DnsTunnel\<close> proves that answers are read back.
  \<^item> \<open>DomainMatcher\<close>: \<open>domainmatcher/matcher.go\<close>. \<open>Uplink\<close> holds the lemmas of the way from client to server, and this theory
    the statement.
  \<^item> \<open>Arq\<close>, \<open>ArqClose\<close>, \<open>ArqData\<close>, \<open>ArqTimer\<close>: \<open>arq/arq.go\<close> - state and helpers; the close protocol; reading, receiving and
    writing; acknowledgements, watchdogs, retransmission and the constructor.
  \<^item> \<open>ArqContract\<close>, \<open>ArqSteps\<close>, \<open>ArqStream\<close>, \<open>ArqTransfer\<close>, \<open>ArqTiming\<close>: the contract every operation of a stream
    obeys, its instances, in-order delivery, transfer between two streams, and deadlines.
  \<^item> \<open>DnsCache\<close>, \<open>DnsCacheFile\<close>: \<open>dnscache/store.go\<close>, the store and its file; \<open>DnsCacheSpec\<close>: the lists it refines.
  \<^item> \<open>RateLimit\<close>: \<open>client/socks_ratelimit.go\<close>, with \<open>net.ParseIP\<close> in \<open>GoNet\<close>. \<open>CookieTracker\<close>: \<open>udpserver/invalid_cookie_tracker.go\<close>.
  \<^item> \<open>SessionRecord\<close>, \<open>SessionStreams\<close>: the record of a session in \<open>udpserver/session.go\<close>, its streams and its memory of closed ones, with
    \<open>container/heap\<close> in \<open>GoHeap\<close>. \<open>SessionStore\<close>: the session table of the same file; \<open>SessionTable\<close> its invariant, \<open>SessionTableProps\<close>
    what it promises. \<open>StreamServer\<close>: the transmit queue of a stream in \<open>udpserver/stream_server.go\<close>. \<open>ServerDequeue\<close>: the choice of the
    answer to a poll in \<open>udpserver/server_session.go\<close>, whose properties are in \<open>ServerTurns\<close>.

  \<^bold>\<open>How code becomes definitions.\<close> A Go struct is a record, a constant block a datatype or abbreviations, a method one
  definition that returns the changed state, a Go error the left of a sum. Integers of fixed width are words; \<open>int\<close> is an
  unbounded integer where the code cannot overflow. A Go map whose order is not observed is an association list with
  distinct keys; a loop over a map takes the order as an argument. Mutexes make a method one step; the rounds of the
  goroutines of a stream are separate steps that interleave. Where objects are shared, as the streams of a session between its
  table and its snapshot, they live in a store and are referred to by address. The clock is an argument.

  \<^bold>\<open>Parameters.\<close> Code that is not in the repository is an argument: \<open>comp_lib\<close> (zstd, flate, lz4) and \<open>crypto_lib\<close> (AES-GCM, ChaCha20, hashes)
  with the documented inverse laws as hypotheses, the random source \<open>rnd\<close>, the rounding of binary64 arithmetic, and the
  enqueuer of a stream, which may refuse any packet. Every property with such a hypothesis has a witness with concrete functions.

  \<^bold>\<open>What is shown.\<close>
  \<^item> End to end: what the client sends the server decodes (\<open>uplink_roundtrip\<close>), what the server answers the client reads
    (\<open>downlink_roundtrip\<close>), and over a network that loses, repeats and reorders packets one end of a stream writes a prefix
    of what the other end read (\<open>arq_transfer\<close>, \<open>arq_in_order\<close>).
  \<^item> Codecs: every encoder is undone by its decoder, and where the format is canonical the converse (\<open>frame_canonical\<close>,
    \<open>accept_reencodes\<close>); sizes and limits are as computed.
  \<^item> Containers: the queue keeps its invariant and pops in stable priority order, fragments are delivered once and whole, one caller
    leads each in-flight request, the label trie finds what a scan finds, the DNS cache behaves as plain lists in the
    order of last use and survives being saved and loaded.
  \<^item> Limits: an address is blocked after ten failures within two minutes and not otherwise, but its bans do not grow as the
    comments say; the cookie tracker answers exactly when a tracker with the complete history would.
  \<^item> Sessions: the table and every record in it stay consistent for any history; a session-init request is resumed, refused or given a
    free slot; a retry in time resumes its session unless an older session of the same payload is closed first
    (\<open>closing_old_session_forgets_new\<close>); the sweep closes exactly the idle ones; closed streams are remembered oldest out first.
  \<^item> Polls: a stream queues one copy of every packet; an answer carries what it takes from the queues and loses nothing that can still be
    sent; the streams take turns and none starves (\<open>poll_conserves_packets\<close>, \<open>waiting_stream_served\<close>).
  \<^item> Streams: the owner is told once, an unanswered close ends, timeouts stay in range, the oldest packets are resent first.
  \<^item> Optimised routines equal their plain versions (block-wise XOR, the walkers that do not allocate, bounded selection).

  \<^bold>\<open>Contracts.\<close> Locales state what components rely on: \<open>code\<close> and \<open>code_pair\<close> (encoders and decoders that invert each other, and
  their composition), \<open>keyed_queue\<close> (the priority levels of the queue), \<open>min_heap\<close> (push and pop of a heap), and \<open>stream_contract\<close>, the laws under which a property
  of a stream survives every operation, interpreted once for what an operation may change (\<open>settles\<close>) and once for
  what a stream may send (\<open>genuine\<close>).

  \<^bold>\<open>Termination and bounds.\<close> All functions are total. Loops over bytes recurse on the rest of the input or on the bytes
  between the offset and the end; name decompression recurses on the number of jumps left, which the code bounds as well; the loop
  that takes contiguous chunks recurses on the size of the buffer; the count of contiguous chunks stops at 65536, the number of
  sequence numbers; the loops that prune and evict closed streams recurse on the length of the heap, and those that
  pack control packets on the room left in the answer. No result depends on fuel.

  \<^bold>\<open>Not modelled.\<close> Sockets, goroutine scheduling, timers, the file system, logging and command-line configuration; the base-32 variant,
  which nothing calls; log-line formatting. The runtimes of client and server (\<open>client\<close>, \<open>udpserver\<close>) beyond the parts
  listed above, and the other modules of the workspace, which are forks of third-party projects.
\<close>

text \<open>
  (C1) A packet the client sends reaches the server: compressed, encrypted, written as labels in front of the
  tunnel domain and sent as a TXT question, it is parsed by the server's DNS parser, the matcher recognises
  the domain and cuts it off, and the labels decode to the packet, up to the compression type chosen. The
  server must allow the domain and no domain below it; the domain must be free of surrounding space.
\<close>

theorem uplink_roundtrip:
  assumes "comp_lib_roundtrip lib" "crypto_lib_ok clib" "rand_full rnd" "NewCodec clib meth rawKey = Inr c"
    and "length (opt_Payload opts) \<le> maxDecompressedSize"
    and "BuildEncodedAuto lib opts (Some c) rnd minSize = Inr labels"
    and "PrepareTunnelDomainQname lowerU domain = Inr (nd, qn)"
    and "isASCII domain" "TrimSpace nd = nd" "TrimSuffix nd [dot] = nd"
    and "BuildTunnelTXTQuestionPacketPrepared rnd nd qn labels DNS_RECORD_TYPE_TXT edns st = (Inr pkt, st')"
    and "m = DomainMatcher.New lowerU domains k" "nd \<in> set (Domains m)" "\<forall>d\<in>set (Domains m). hd d \<noteq> dot \<and> \<not> has_suffix d (dot # nd)"
    and "minLabelLength m \<le> int (length labels)"
  shows "\<exists>p ct. ParseDNSRequestLite pkt = Inr p \<and> dec_Action (Match m p) = ActionProcess \<and> dec_BaseDomain (Match m p) = nd \<and>
    ParseInflatedFromLabels lib (dec_Labels (Match m p)) (Some c) = Inr ((packet_of opts)\<lparr>CompressionType := ct\<rparr>)"
  by (rule uplink_path [OF assms])

theorem uplink_roundtrip_witness:
  "\<exists>c labels pkt p ct. BuildEncodedAuto run_lib example_options (Some c) example_rand 100 = Inr labels \<and>
     fst (BuildTunnelTXTQuestionPacketPrepared example_rand example_domain [1, 116, 2, 99, 111, 0] labels
       DNS_RECORD_TYPE_TXT 1232 \<lparr>dnsIDInit = True, dnsIDCounter = 41\<rparr>) = Inr pkt \<and>
     ParseDNSRequestLite pkt = Inr p \<and>
     ParseInflatedFromLabels run_lib (dec_Labels (Match (DomainMatcher.New (\<lambda>s. s) [example_domain, [111]] 3) p)) (Some c) =
       Inr ((packet_of example_options)\<lparr>CompressionType := ct\<rparr>)"
proof -
  obtain c labels pkt st' where q: "NewCodec example_crypto 0 [] = Inr c"
    "BuildEncodedAuto run_lib example_options (Some c) example_rand 100 = Inr labels"
    "BuildTunnelTXTQuestionPacketPrepared example_rand example_domain [1, 116, 2, 99, 111, 0] labels
      DNS_RECORD_TYPE_TXT 1232 \<lparr>dnsIDInit = True, dnsIDCounter = 41\<rparr> = (Inr pkt, st')"
    and m: "\<forall>d\<in>set (Domains (DomainMatcher.New (\<lambda>s. s) [example_domain, [111]] 3)). hd d \<noteq> dot \<and> \<not> has_suffix d (dot # example_domain)"
    "example_domain \<in> set (Domains (DomainMatcher.New (\<lambda>s. s) [example_domain, [111]] 3))"
    "minLabelLength (DomainMatcher.New (\<lambda>s. s) [example_domain, [111]] 3) \<le> int (length labels)"
    by (rule example_question)
  have "\<exists>p ct. ParseDNSRequestLite pkt = Inr p \<and> dec_Action (Match (DomainMatcher.New (\<lambda>s. s) [example_domain, [111]] 3) p) = ActionProcess \<and>
      dec_BaseDomain (Match (DomainMatcher.New (\<lambda>s. s) [example_domain, [111]] 3) p) = example_domain \<and>
      ParseInflatedFromLabels run_lib (dec_Labels (Match (DomainMatcher.New (\<lambda>s. s) [example_domain, [111]] 3) p)) (Some c) =
        Inr ((packet_of example_options)\<lparr>CompressionType := ct\<rparr>)"
    by (rule uplink_roundtrip [OF run_lib_roundtrip example_crypto_ok example_rand_full q(1) example_payload q(2) example_qname
          example_domain_facts q(3) refl m(2,1,3)])
  then obtain p ct where "ParseDNSRequestLite pkt = Inr p"
    "ParseInflatedFromLabels run_lib (dec_Labels (Match (DomainMatcher.New (\<lambda>s. s) [example_domain, [111]] 3) p)) (Some c) =
      Inr ((packet_of example_options)\<lparr>CompressionType := ct\<rparr>)" by blast
  with q(2,3) show ?thesis
    by (intro exI [of _ c] exI [of _ labels] exI [of _ pkt] exI [of _ p] exI [of _ ct]) simp
qed

end
